(* ===== verification/Prelude.thy ===== *)
theory Prelude
  imports Main "HOL-Library.AList" "HOL-Library.Sublist"
begin

text \<open>
  Shared vocabulary of the development: strings and hex text as the TypeScript code slices
  them, decimal text of bigints, the exception/state shape every effectful handler has, and
  the loops over them.

  A JavaScript string is a \<^typ>\<open>string\<close> (a list of characters; all text the modelled code
  inspects is ASCII: hex, decimal, identifiers). A bigint or a safe-integer number is an
  \<^typ>\<open>int\<close>. A \<open>Date\<close> is its epoch-millisecond value, an \<^typ>\<open>int\<close>. A value of type
  \<open>T | null\<close> is an option. A function that may throw returns \<open>exn + 'a\<close>; an effectful one
  also returns the state, which survives a throw (\<open>Inl\<close>), as in the source.
\<close>

named_theorems slice_simps \<open>rewrite rules for slices of strings\<close>
named_theorems inv_intros \<open>introduction rules for preservation of invariants\<close>
named_theorems step_simps \<open>equations that evaluate one step of a handler\<close>

section \<open>Strings\<close>

text \<open>\<open>String.prototype.slice(i, j)\<close> for \<open>0 \<le> i\<close>: out-of-range ends are clamped, and an
  empty range is the empty string.\<close>

definition js_slice :: "nat \<Rightarrow> nat \<Rightarrow> 'a list \<Rightarrow> 'a list" where
  "js_slice i j xs = drop i (take j xs)"

lemma length_js_slice [simp]: "length (js_slice i j xs) = min j (length xs) - i"
  by (simp add: js_slice_def min.commute)

lemma nth_js_slice [slice_simps]:
  "i + k < j \<Longrightarrow> i + k < length xs \<Longrightarrow> js_slice i j xs ! k = xs ! (i + k)"
  by (simp add: js_slice_def)

lemma js_slice_map [slice_simps]: "js_slice i j (map f xs) = map f (js_slice i j xs)"
  by (simp add: js_slice_def take_map drop_map)

lemma js_slice_empty [slice_simps]: "j \<le> i \<Longrightarrow> js_slice i j xs = []"
  by (simp add: js_slice_def)

lemma js_slice_append2 [slice_simps]:
  "length xs \<le> i \<Longrightarrow> js_slice i j (xs @ ys) = js_slice (i - length xs) (j - length xs) ys"
  by (cases "j \<le> length xs") (simp_all add: js_slice_def min_def)

lemma js_slice_append1 [slice_simps]:
  "j \<le> length xs \<Longrightarrow> js_slice i j (xs @ ys) = js_slice i j xs"
  by (simp add: js_slice_def)

lemma js_slice_replicate [slice_simps]:
  "js_slice i j (replicate n c) = replicate (min j n - i) c"
  by (simp add: js_slice_def)

lemma js_slice_all [slice_simps]: "length xs \<le> j \<Longrightarrow> js_slice 0 j xs = xs"
  by (simp add: js_slice_def)

lemma set_js_slice: "set (js_slice i j xs) \<subseteq> set xs"
  by (auto simp: js_slice_def dest: in_set_dropD in_set_takeD)

text \<open>Two equally long lists agree on a slice exactly when they agree at its positions.\<close>

lemma js_slice_eq_iff:
  assumes "length xs = length ys" and "j \<le> length xs"
  shows "js_slice i j xs = js_slice i j ys \<longleftrightarrow> (\<forall>k. i \<le> k \<and> k < j \<longrightarrow> xs ! k = ys ! k)"
proof
  assume eq: "js_slice i j xs = js_slice i j ys"
  show "\<forall>k. i \<le> k \<and> k < j \<longrightarrow> xs ! k = ys ! k"
  proof (intro allI impI)
    fix k assume k: "i \<le> k \<and> k < j"
    from eq have "js_slice i j xs ! (k - i) = js_slice i j ys ! (k - i)" by simp
    with k assms show "xs ! k = ys ! k" by (simp add: nth_js_slice)
  qed
next
  assume "\<forall>k. i \<le> k \<and> k < j \<longrightarrow> xs ! k = ys ! k"
  then show "js_slice i j xs = js_slice i j ys"
    using assms by (intro nth_equalityI) (auto simp: nth_js_slice)
qed

text \<open>\<open>String.prototype.includes\<close>.\<close>

fun str_includes :: "string \<Rightarrow> string \<Rightarrow> bool" where
  "str_includes p [] = (p = [])"
| "str_includes p (x # xs) = (prefix p (x # xs) \<or> str_includes p xs)"

lemma str_includes_iff: "str_includes p s \<longleftrightarrow> (\<exists>us vs. s = us @ p @ vs)"
proof (induction s)
  case Nil
  show ?case by auto
next
  case IH: (Cons x xs)
  show ?case
  proof
    assume "str_includes p (x # xs)"
    then consider "prefix p (x # xs)" | "str_includes p xs" by auto
    then show "\<exists>us vs. x # xs = us @ p @ vs"
    proof cases
      case 1
      then obtain vs where "x # xs = [] @ p @ vs" by (auto simp: prefix_def)
      then show ?thesis by blast
    next
      case 2
      then obtain us vs where "xs = us @ p @ vs" using IH by blast
      then have "x # xs = (x # us) @ p @ vs" by simp
      then show ?thesis by blast
    qed
  next
    assume "\<exists>us vs. x # xs = us @ p @ vs"
    then obtain us vs where eq: "x # xs = us @ p @ vs" by blast
    show "str_includes p (x # xs)"
    proof (cases us)
      case Nil
      with eq have "prefix p (x # xs)" by simp
      then show ?thesis by simp
    next
      case (Cons u us')
      with eq have "xs = us' @ p @ vs" by simp
      then have "str_includes p xs" using IH by blast
      then show ?thesis by simp
    qed
  qed
qed

text \<open>ASCII \<open>toLowerCase\<close> and the character class \<open>[0-9a-fA-F]\<close>.\<close>

definition lower_char :: "char \<Rightarrow> char" where
  "lower_char c = (let n = of_char c :: nat in if 65 \<le> n \<and> n \<le> 90 then char_of (n + 32) else c)"

definition to_lower :: "string \<Rightarrow> string" where
  "to_lower s = map lower_char s"

definition is_hex_char :: "char \<Rightarrow> bool" where
  "is_hex_char c = (let n = of_char c :: nat in
     (48 \<le> n \<and> n \<le> 57) \<or> (65 \<le> n \<and> n \<le> 70) \<or> (97 \<le> n \<and> n \<le> 102))"

definition hex_digit :: "char \<Rightarrow> nat" where
  "hex_digit c = (let n = of_char c :: nat in
     if 48 \<le> n \<and> n \<le> 57 then n - 48
     else if 65 \<le> n \<and> n \<le> 70 then n - 55
     else if 97 \<le> n \<and> n \<le> 102 then n - 87 else 0)"

lemma length_to_lower [simp]: "length (to_lower s) = length s"
  by (simp add: to_lower_def)

lemma to_lower_append [simp]: "to_lower (xs @ ys) = to_lower xs @ to_lower ys"
  by (simp add: to_lower_def)

lemma to_lower_slice [slice_simps]: "to_lower (js_slice i j s) = js_slice i j (to_lower s)"
  by (simp add: to_lower_def js_slice_map)

lemma lower_char_idem [simp]: "lower_char (lower_char c) = lower_char c"
proof -
  have "of_char (char_of (of_char c + 32 :: nat) :: char) = (of_char c + 32 :: nat)"
    if "of_char c \<le> (90 :: nat)" for c
    using that by (simp add: of_char_of)
  then show ?thesis by (auto simp: lower_char_def Let_def)
qed

lemma to_lower_idem [simp]: "to_lower (to_lower s) = to_lower s"
  by (simp add: to_lower_def)

lemma lower_char_hex_iff [simp]: "is_hex_char (lower_char c) = is_hex_char c"
proof -
  have "of_char (char_of (of_char c + 32 :: nat) :: char) = (of_char c + 32 :: nat)"
    if "of_char c \<le> (90 :: nat)" for c
    using that by (simp add: of_char_of)
  then show ?thesis by (auto simp: lower_char_def is_hex_char_def Let_def)
qed

lemma hex_digit_lower [simp]: "hex_digit (lower_char c) = hex_digit c"
proof -
  have "of_char (char_of (of_char c + 32 :: nat) :: char) = (of_char c + 32 :: nat)"
    if "of_char c \<le> (90 :: nat)" for c
    using that by (simp add: of_char_of)
  then show ?thesis by (auto simp: lower_char_def hex_digit_def Let_def)
qed

lemma hex_digit_less [simp]: "hex_digit c < 16"
  by (auto simp: hex_digit_def Let_def)

text \<open>\<open>parseInt(s, 16)\<close> on a string of hex digits.\<close>

definition parse_hex :: "string \<Rightarrow> nat" where
  "parse_hex s = foldl (\<lambda>a c. 16 * a + hex_digit c) 0 s"

lemma foldl_hex_acc:
  "foldl (\<lambda>a c. 16 * a + hex_digit c) a s = a * 16 ^ length s + parse_hex s"
proof (induction s rule: rev_induct)
  case Nil
  show ?case by (simp add: parse_hex_def)
next
  case (snoc c s)
  then show ?case by (simp add: parse_hex_def algebra_simps)
qed

lemma parse_hex_Nil [simp]: "parse_hex [] = 0"
  by (simp add: parse_hex_def)

lemma parse_hex_Cons: "parse_hex (c # s) = hex_digit c * 16 ^ length s + parse_hex s"
proof -
  have "parse_hex (c # s) = foldl (\<lambda>a c. 16 * a + hex_digit c) (hex_digit c) s"
    by (simp add: parse_hex_def)
  then show ?thesis by (simp only: foldl_hex_acc)
qed

lemma parse_hex_append: "parse_hex (s @ t) = parse_hex s * 16 ^ length t + parse_hex t"
proof -
  have "parse_hex (s @ t) = foldl (\<lambda>a c. 16 * a + hex_digit c) (parse_hex s) t"
    by (simp add: parse_hex_def)
  then show ?thesis by (simp only: foldl_hex_acc)
qed

lemma parse_hex_less: "parse_hex s < 16 ^ length s"
proof (induction s)
  case Nil
  show ?case by simp
next
  case (Cons c s)
  have "hex_digit c * 16 ^ length s + parse_hex s < (hex_digit c + 1) * 16 ^ length s"
    using Cons by (simp add: algebra_simps)
  also have "\<dots> \<le> 16 * 16 ^ length s"
    using hex_digit_less [of c] by (intro mult_right_mono) (simp_all add: Suc_le_eq del: hex_digit_less)
  finally show ?case by (simp add: parse_hex_Cons)
qed

lemma parse_hex_to_lower [simp]: "parse_hex (to_lower s) = parse_hex s"
  by (induction s) (simp_all add: to_lower_def parse_hex_Cons)

lemma parse_hex_zeros [simp]: "parse_hex (replicate n (CHR ''0'')) = 0"
  by (induction n) (simp_all add: parse_hex_Cons hex_digit_def)

text \<open>Dropping an optional \<open>0x\<close>.\<close>

definition strip0x :: "string \<Rightarrow> string" where
  "strip0x s = (if prefix ''0x'' s then drop 2 s else s)"

lemma strip0x_0x [simp]: "strip0x (CHR ''0'' # CHR ''x'' # s) = s"
  by (simp add: strip0x_def)

section \<open>Decimal text\<close>

text \<open>\<open>BigInt.prototype.toString()\<close> and \<open>BigInt(text)\<close>.\<close>

definition digit_char :: "nat \<Rightarrow> char" where
  "digit_char d = char_of (48 + d)"

fun show_nat :: "nat \<Rightarrow> string" where
  "show_nat n = (if n < 10 then [digit_char n] else show_nat (n div 10) @ [digit_char (n mod 10)])"

declare show_nat.simps [simp del]

definition is_digit :: "char \<Rightarrow> bool" where
  "is_digit c = (let n = of_char c :: nat in 48 \<le> n \<and> n \<le> 57)"

definition parse_dec :: "string \<Rightarrow> nat" where
  "parse_dec s = foldl (\<lambda>a c. 10 * a + (of_char c - 48)) 0 s"

definition show_int :: "int \<Rightarrow> string" where
  "show_int i = (if i < 0 then CHR ''-'' # show_nat (nat (- i)) else show_nat (nat i))"

definition parse_int :: "string \<Rightarrow> int" where
  "parse_int s = (case s of [] \<Rightarrow> 0
     | c # cs \<Rightarrow> if c = CHR ''-'' then - int (parse_dec cs) else int (parse_dec s))"

lemma of_digit_char [simp]: "d < 10 \<Longrightarrow> of_char (digit_char d) = (48 + d :: nat)"
  by (simp add: digit_char_def of_char_of)

lemma parse_show_nat [simp]: "parse_dec (show_nat n) = n"
proof (induction n rule: show_nat.induct)
  case (1 n)
  show ?case
  proof (cases "n < 10")
    case True
    then show ?thesis by (simp add: show_nat.simps [of n] parse_dec_def)
  next
    case False
    then have "parse_dec (show_nat (n div 10)) = n div 10" using "1.IH" by blast
    with False show ?thesis by (simp add: show_nat.simps [of n] parse_dec_def)
  qed
qed

lemma digits_show_nat: "c \<in> set (show_nat n) \<Longrightarrow> is_digit c"
proof (induction n rule: show_nat.induct)
  case (1 n)
  have dig: "is_digit (digit_char d)" if "d < 10" for d
    using that by (simp add: is_digit_def)
  show ?case
  proof (cases "n < 10")
    case True
    with "1.prems" dig show ?thesis by (simp add: show_nat.simps [of n])
  next
    case False
    with "1.prems" have "c \<in> set (show_nat (n div 10)) \<or> c = digit_char (n mod 10)"
      by (auto simp: show_nat.simps [of n])
    with "1.IH" [OF False] dig show ?thesis by auto
  qed
qed

lemma show_nat_neq_Nil [simp]: "show_nat n \<noteq> []"
  by (subst show_nat.simps) simp

lemma parse_show_int [simp]: "parse_int (show_int i) = i"
proof (cases "i < 0")
  case True
  then show ?thesis by (simp add: show_int_def parse_int_def)
next
  case False
  obtain c cs where eq: "show_nat (nat i) = c # cs"
    using show_nat_neq_Nil by (meson neq_Nil_conv)
  have "is_digit c" using digits_show_nat [of c "nat i"] eq by simp
  then have "c \<noteq> CHR ''-''" by (auto simp: is_digit_def)
  with False eq show ?thesis
    using parse_show_nat [of "nat i"] by (simp add: show_int_def parse_int_def)
qed

lemma show_int_inject [simp]: "show_int i = show_int j \<longleftrightarrow> i = j"
  by (metis parse_show_int)

section \<open>Exceptions, state and loops\<close>

type_synonym exn = string
type_synonym ('s, 'a) act = "'s \<Rightarrow> (exn + 'a) \<times> 's"

text \<open>A \<open>for\<close> loop over an array whose body may throw: the first throw leaves the loop, with
  the state as it is then.\<close>

fun for_each :: "('a \<Rightarrow> ('s, unit) act) \<Rightarrow> 'a list \<Rightarrow> ('s, unit) act" where
  "for_each f [] s = (Inr (), s)"
| "for_each f (x # xs) s =
     (case f x s of (Inl e, s') \<Rightarrow> (Inl e, s') | (Inr _, s') \<Rightarrow> for_each f xs s')"

lemma for_each_inv:
  assumes "\<And>x s. x \<in> set xs \<Longrightarrow> I s \<Longrightarrow> I (snd (f x s))" and "I s"
  shows "I (snd (for_each f xs s))"
  using assms
proof (induction xs arbitrary: s)
  case Nil
  then show ?case by simp
next
  case (Cons x xs)
  have "I (snd (f x s))" using Cons.prems by simp
  then show ?case
    using Cons.IH [of "snd (f x s)"] Cons.prems(1)
    by (cases "f x s") (auto split: sum.splits)
qed

text \<open>A relation between the states before and after the body, reflexive and transitive, holds
  between the states before and after the loop.\<close>

lemma for_each_rel:
  assumes refl: "\<And>s. R s s" and trans: "\<And>s t u. R s t \<Longrightarrow> R t u \<Longrightarrow> R s u"
    and body: "\<And>x s. x \<in> set xs \<Longrightarrow> R s (snd (f x s))"
  shows "R s (snd (for_each f xs s))"
  using body
proof (induction xs arbitrary: s)
  case Nil
  then show ?case by (simp add: refl)
next
  case (Cons x xs)
  have step: "R s (snd (f x s))" using Cons.prems by simp
  show ?case
  proof (cases "f x s")
    case (Pair r s')
    show ?thesis
    proof (cases r)
      case (Inl e)
      with Pair step show ?thesis by simp
    next
      case (Inr u)
      have "R s' (snd (for_each f xs s'))" using Cons by simp
      with Pair Inr step show ?thesis using trans by auto
    qed
  qed
qed

text \<open>The concurrent form, \<open>Promise.all(xs.map(f))\<close>: every call runs to its end whatever the
  others do; the first rejection is the result.\<close>

fun all_settled :: "('a \<Rightarrow> ('s, unit) act) \<Rightarrow> 'a list \<Rightarrow> ('s, unit) act" where
  "all_settled f [] s = (Inr (), s)"
| "all_settled f (x # xs) s =
     (case f x s of (r, s') \<Rightarrow>
      case all_settled f xs s' of (r', s'') \<Rightarrow>
        ((case r of Inl e \<Rightarrow> Inl e | Inr _ \<Rightarrow> r'), s''))"

lemma all_settled_rel:
  assumes refl: "\<And>s. R s s" and trans: "\<And>s t u. R s t \<Longrightarrow> R t u \<Longrightarrow> R s u"
    and body: "\<And>x s. x \<in> set xs \<Longrightarrow> R s (snd (f x s))"
  shows "R s (snd (all_settled f xs s))"
  using body
proof (induction xs arbitrary: s)
  case Nil
  then show ?case by (simp add: refl)
next
  case (Cons x xs)
  have "R s (snd (f x s))" and "R (snd (f x s)) (snd (all_settled f xs (snd (f x s))))"
    using Cons by simp_all
  then show ?case using trans by (auto split: prod.splits)
qed

lemma all_settled_inv:
  assumes "\<And>x s. x \<in> set xs \<Longrightarrow> I s \<Longrightarrow> I (snd (f x s))" and "I s"
  shows "I (snd (all_settled f xs s))"
  using assms
proof (induction xs arbitrary: s)
  case Nil
  then show ?case by simp
next
  case (Cons x xs)
  have "I (snd (f x s))" using Cons.prems by simp
  then have "I (snd (all_settled f xs (snd (f x s))))" using Cons by simp
  then show ?case by (auto split: prod.splits)
qed

end
