(* ===== verification/Classify.thy ===== *)
theory Classify
  imports Prelude "HOL-Library.Word"
begin

text \<open>
  \<open>actor/src/jobs/classify.ts\<close>: the fail-closed classification of a raw CCTP message and the
  decoding of its header, and \<open>watcher/src/lib/decode.ts\<close>, the watcher's own header decoder.

  The functions of the ethers package these files call are not part of the repository: they are
  the fields of the record \<open>ethers\<close>, an argument of the definitions. \<open>ethers_ok\<close> states the
  documented behaviour some lemmas rely on; \<open>ref_ethers\<close> is a concrete instance for witnesses.
  A reason string of the source is a constructor of \<open>skip_reason\<close> carrying its interpolated
  values.
\<close>

unbundle bit_operations_syntax

section \<open>The ethers package\<close>

record ethers =
  getBytes :: "string \<Rightarrow> exn + 8 word list"
  dataSlice :: "8 word list \<Rightarrow> nat \<Rightarrow> nat \<Rightarrow> string"
  zeroPadValue :: "string \<Rightarrow> nat \<Rightarrow> exn + string"
  getAddress :: "string \<Rightarrow> exn + string"
  keccak256 :: "string \<Rightarrow> exn + string"

text \<open>Bytes and their hex text.\<close>

definition hex_byte :: "char \<Rightarrow> char \<Rightarrow> 8 word" where
  "hex_byte a b = word_of_nat (16 * hex_digit a + hex_digit b)"

fun hex_to_bytes :: "string \<Rightarrow> 8 word list" where
  "hex_to_bytes (a # b # s) = hex_byte a b # hex_to_bytes s"
| "hex_to_bytes _ = []"

definition hex_char :: "nat \<Rightarrow> char" where
  "hex_char n = (if n < 10 then char_of (48 + n) else char_of (87 + n))"

definition byte_to_hex :: "8 word \<Rightarrow> string" where
  "byte_to_hex b = [hex_char (unat b div 16), hex_char (unat b mod 16)]"

definition bytes_to_hex :: "8 word list \<Rightarrow> string" where
  "bytes_to_hex bs = concat (map byte_to_hex bs)"

definition is_data_hex :: "string \<Rightarrow> bool" where
  "is_data_hex s = (prefix ''0x'' s \<and> list_all is_hex_char (drop 2 s) \<and> even (length s))"

definition ethers_ok :: "ethers \<Rightarrow> bool" where
  "ethers_ok E \<longleftrightarrow>
     (\<forall>s. is_data_hex s \<longrightarrow> getBytes E s = Inr (hex_to_bytes (drop 2 s))) \<and>
     (\<forall>s. \<not> is_data_hex s \<longrightarrow> (\<exists>e. getBytes E s = Inl e)) \<and>
     (\<forall>bs i j. i \<le> j \<longrightarrow> j \<le> length bs \<longrightarrow>
        dataSlice E bs i j = ''0x'' @ bytes_to_hex (js_slice i j bs)) \<and>
     (\<forall>s n. is_data_hex s \<longrightarrow> length s - 2 \<le> 2 * n \<longrightarrow>
        zeroPadValue E s n =
          Inr (''0x'' @ replicate (2 * n - (length s - 2)) (CHR ''0'') @ to_lower (drop 2 s)))"

definition ref_ethers :: ethers where
  "ref_ethers = \<lparr>
     getBytes = (\<lambda>s. if is_data_hex s then Inr (hex_to_bytes (drop 2 s)) else Inl ''invalid BytesLike''),
     dataSlice = (\<lambda>bs i j. ''0x'' @ bytes_to_hex (js_slice i j bs)),
     zeroPadValue = (\<lambda>s n. if is_data_hex s \<and> length s - 2 \<le> 2 * n
        then Inr (''0x'' @ replicate (2 * n - (length s - 2)) (CHR ''0'') @ to_lower (drop 2 s))
        else Inl ''padding exceeds data length''),
     getAddress = (\<lambda>s. Inr s),
     keccak256 = (\<lambda>s. if is_data_hex s then Inr (''hash:'' @ s) else Inl ''invalid BytesLike'') \<rparr>"

lemma ref_ethers_ok: "ethers_ok ref_ethers"
  by (simp add: ethers_ok_def ref_ethers_def)

section \<open>Header decoding\<close>

text \<open>An absent array element takes part in JavaScript bit operations as 0.\<close>

definition byte_at :: "8 word list \<Rightarrow> nat \<Rightarrow> 32 word" where
  "byte_at bs i = (if i < length bs then ucast (bs ! i) else 0)"

definition uint32At :: "8 word list \<Rightarrow> nat \<Rightarrow> int" where
  "uint32At bs off = uint (push_bit 24 (byte_at bs off) OR push_bit 16 (byte_at bs (off + 1))
     OR push_bit 8 (byte_at bs (off + 2)) OR byte_at bs (off + 3))"

definition MSG_DEST_CALLER_OFFSET :: nat where "MSG_DEST_CALLER_OFFSET = 108"
definition MSG_DEST_CALLER_LENGTH :: nat where "MSG_DEST_CALLER_LENGTH = 32"
definition MSG_BODY_OFFSET :: nat where "MSG_BODY_OFFSET = 148"
definition BURN_MSG_MINT_RECIPIENT_OFFSET :: nat where "BURN_MSG_MINT_RECIPIENT_OFFSET = 36"
definition MINT_RECIPIENT_ABSOLUTE_OFFSET :: nat where
  "MINT_RECIPIENT_ABSOLUTE_OFFSET = MSG_BODY_OFFSET + BURN_MSG_MINT_RECIPIENT_OFFSET"
definition MINT_RECIPIENT_LENGTH :: nat where "MINT_RECIPIENT_LENGTH = 32"
definition BURN_MSG_MIN_BODY_BYTES :: nat where "BURN_MSG_MIN_BODY_BYTES = 228"
definition MIN_MESSAGE_LENGTH_BYTES :: nat where
  "MIN_MESSAGE_LENGTH_BYTES = MSG_BODY_OFFSET + BURN_MSG_MIN_BODY_BYTES"
definition BURN_MESSAGE_VERSION :: nat where "BURN_MESSAGE_VERSION = 1"
definition ZERO_CALLER :: string where "ZERO_CALLER = ''0x'' @ replicate 64 (CHR ''0'')"

lemmas classify_consts =
  MSG_DEST_CALLER_OFFSET_def MSG_DEST_CALLER_LENGTH_def MSG_BODY_OFFSET_def
  BURN_MSG_MINT_RECIPIENT_OFFSET_def MINT_RECIPIENT_ABSOLUTE_OFFSET_def
  MINT_RECIPIENT_LENGTH_def BURN_MSG_MIN_BODY_BYTES_def MIN_MESSAGE_LENGTH_BYTES_def
  BURN_MESSAGE_VERSION_def

record message_header =
  hd_sourceDomain :: int
  hd_destinationDomain :: int
  hd_nonce :: string

definition decodeMessageHeader :: "ethers \<Rightarrow> string \<Rightarrow> exn + message_header" where
  "decodeMessageHeader E messageHex =
     (case getBytes E messageHex of
        Inl e \<Rightarrow> Inl e
      | Inr bytes \<Rightarrow>
          if length bytes < MSG_BODY_OFFSET
          then Inl (''message too short for CCTP V2 header: '' @ show_nat (length bytes) @ '' bytes'')
          else Inr \<lparr> hd_sourceDomain = uint32At bytes 4,
                     hd_destinationDomain = uint32At bytes 8,
                     hd_nonce = to_lower (dataSlice E bytes 12 44) \<rparr>)"

text \<open>The watcher's decoder works on the hex text. It accepts any text of 44 bytes or more
  (the length is counted in hex digits, so half bytes show up in the error message only).\<close>

definition decodeCctpHeader :: "string \<Rightarrow> exn + message_header" where
  "decodeCctpHeader messageHex =
     (let hex = strip0x messageHex in
      if length hex < 88
      then Inl (''message too short for CCTP V2 header: '' @ show_nat (length hex div 2) @ '' bytes'')
      else Inr \<lparr> hd_sourceDomain = int (parse_hex (js_slice 8 16 hex)),
                 hd_destinationDomain = int (parse_hex (js_slice 16 24 hex)),
                 hd_nonce = ''0x'' @ js_slice 24 88 hex \<rparr>)"

section \<open>Classification\<close>

datatype skip_reason =
    UnparseableHex
  | NotBurnMessage nat
  | BodyVersion nat
  | NoKnownRecipients
  | UnknownRecipient string
  | ForeignCaller string

datatype classify_result = Relay string | NoRelay skip_reason

definition addressToBytes32 :: "ethers \<Rightarrow> string \<Rightarrow> exn + string" where
  "addressToBytes32 E address =
     (case getAddress E address of
        Inl e \<Rightarrow> Inl e
      | Inr a \<Rightarrow> (case zeroPadValue E a 32 of Inl e \<Rightarrow> Inl e | Inr p \<Rightarrow> Inr (to_lower p)))"

text \<open>A configured hook router: neither \<open>null\<close> nor the (falsy) empty string.\<close>

definition hook_set :: "string option \<Rightarrow> bool" where
  "hook_set h = (case h of None \<Rightarrow> False | Some s \<Rightarrow> s \<noteq> [])"

definition classifyMessageForRelay ::
    "ethers \<Rightarrow> string \<Rightarrow> string set \<Rightarrow> string option \<Rightarrow> exn + classify_result" where
  "classifyMessageForRelay E messageHex knownRecipients hookRouter =
     (let hex = strip0x messageHex;
          byteLen = length hex div 2
      in if \<not> list_all is_hex_char hex then Inr (NoRelay UnparseableHex)
      else if byteLen < MIN_MESSAGE_LENGTH_BYTES then Inr (NoRelay (NotBurnMessage byteLen))
      else let bodyVersion =
            parse_hex (js_slice (MSG_BODY_OFFSET * 2) ((MSG_BODY_OFFSET + 4) * 2) hex)
      in if bodyVersion \<noteq> BURN_MESSAGE_VERSION then Inr (NoRelay (BodyVersion bodyVersion))
      else let mintRecipient = ''0x'' @ to_lower
            (js_slice (MINT_RECIPIENT_ABSOLUTE_OFFSET * 2)
               ((MINT_RECIPIENT_ABSOLUTE_OFFSET + MINT_RECIPIENT_LENGTH) * 2) hex)
      in if knownRecipients = {} then Inr (NoRelay NoKnownRecipients)
      else if mintRecipient \<notin> knownRecipients then Inr (NoRelay (UnknownRecipient mintRecipient))
      else let destinationCaller = ''0x'' @ to_lower
            (js_slice (MSG_DEST_CALLER_OFFSET * 2)
               ((MSG_DEST_CALLER_OFFSET + MSG_DEST_CALLER_LENGTH) * 2) hex)
      in if destinationCaller \<noteq> ZERO_CALLER \<and> hook_set hookRouter then
           (case zeroPadValue E (the hookRouter) 32 of
              Inl e \<Rightarrow> Inl e
            | Inr p \<Rightarrow> if destinationCaller \<noteq> to_lower p
                then Inr (NoRelay (ForeignCaller (take 20 destinationCaller)))
                else Inr (Relay mintRecipient))
         else Inr (Relay mintRecipient))"


section \<open>Bytes and hex text\<close>

lemma of_char_hex_char: "n < 16 \<Longrightarrow> of_char (hex_char n) = (if n < 10 then 48 + n else 87 + n)"
  by (simp add: hex_char_def of_char_of)

lemma hex_digit_hex_char [simp]: "n < 16 \<Longrightarrow> hex_digit (hex_char n) = n"
  by (auto simp: hex_digit_def of_char_hex_char Let_def)

lemma hex_char_hex_digit: "is_hex_char c \<Longrightarrow> hex_char (hex_digit c) = lower_char c"
proof -
  assume hex: "is_hex_char c"
  show ?thesis
    using hex
    by (auto simp: hex_char_def hex_digit_def is_hex_char_def lower_char_def Let_def)
qed

lemma unat_hex_byte: "unat (hex_byte a b) = 16 * hex_digit a + hex_digit b"
  using hex_digit_less [of a] hex_digit_less [of b]
  by (simp add: hex_byte_def unat_of_nat del: hex_digit_less of_nat_add of_nat_mult)

lemma bytes_to_hex_to_bytes:
  "even (length s) \<Longrightarrow> list_all is_hex_char s \<Longrightarrow> bytes_to_hex (hex_to_bytes s) = to_lower s"
  by (induction s rule: hex_to_bytes.induct)
     (auto simp: bytes_to_hex_def byte_to_hex_def to_lower_def unat_hex_byte hex_char_hex_digit)

lemma length_hex_to_bytes [simp]: "length (hex_to_bytes s) = length s div 2"
  by (induction s rule: hex_to_bytes.induct) auto

lemma length_byte_to_hex [simp]: "length (byte_to_hex b) = 2"
  by (simp add: byte_to_hex_def)

lemma drop_hex_to_bytes: "drop n (hex_to_bytes s) = hex_to_bytes (drop (2 * n) s)"
  apply (induction s arbitrary: n rule: hex_to_bytes.induct)
  subgoal for a b s n by (cases n) auto
  subgoal by simp
  subgoal for v n by (cases n) auto
  done

lemma take_hex_to_bytes: "take n (hex_to_bytes s) = hex_to_bytes (take (2 * n) s)"
  apply (induction s arbitrary: n rule: hex_to_bytes.induct)
  subgoal for a b s n by (cases n) auto
  subgoal by simp
  subgoal for v n by (cases n) auto
  done

lemma slice_hex_to_bytes:
  "js_slice i j (hex_to_bytes s) = hex_to_bytes (js_slice (2 * i) (2 * j) s)"
  by (simp add: js_slice_def drop_hex_to_bytes take_hex_to_bytes)

lemma nth_hex_to_bytes:
  assumes "2 * i + 1 < length s"
  shows "uint (hex_to_bytes s ! i) = int (16 * hex_digit (s ! (2 * i)) + hex_digit (s ! (2 * i + 1)))"
  using assms
proof (induction s arbitrary: i rule: hex_to_bytes.induct)
  case (1 a b s)
  show ?case
  proof (cases i)
    case 0
    then show ?thesis using unat_hex_byte [of a b] by (simp add: uint_nat)
  next
    case (Suc k)
    with 1 show ?thesis by simp
  qed
qed simp_all

section \<open>The header's 32-bit fields\<close>

text \<open>The shifts and ORs of \<open>uint32At\<close> compute the big-endian value: the four shifted bytes
  have no bit in common.\<close>

lemma byte_at_bits: "bit (byte_at bs i) n \<Longrightarrow> n < 8"
  by (auto simp: byte_at_def bit_simps split: if_splits dest: bit_imp_le_length)

lemma uint32At_value:
  assumes "off + 3 < length bs"
  shows "uint32At bs off = 2 ^ 24 * uint (bs ! off) + 2 ^ 16 * uint (bs ! (off + 1))
    + 2 ^ 8 * uint (bs ! (off + 2)) + uint (bs ! (off + 3))"
proof -
  let ?b = "\<lambda>k. byte_at bs (off + k)"
  let ?w = "push_bit 24 (?b 0) + push_bit 16 (?b 1) + push_bit 8 (?b 2) + ?b 3"
  have d1: "(push_bit 24 (?b 0) OR push_bit 16 (?b 1) OR push_bit 8 (?b 2) OR ?b 3) = ?w"
  proof -
    have "(push_bit 24 (?b 0)) AND (push_bit 16 (?b 1)) = 0"
      by (rule bit_word_eqI) (auto simp: bit_simps dest: byte_at_bits)
    moreover have "(push_bit 24 (?b 0) OR push_bit 16 (?b 1)) AND push_bit 8 (?b 2) = 0"
      by (rule bit_word_eqI) (auto simp: bit_simps dest: byte_at_bits)
    moreover have "(push_bit 24 (?b 0) OR push_bit 16 (?b 1) OR push_bit 8 (?b 2)) AND ?b 3 = 0"
      by (rule bit_word_eqI) (auto simp: bit_simps dest: byte_at_bits)
    ultimately show ?thesis
      by (simp add: disjunctive_add_eq_or or.assoc)
  qed
  have b: "uint (?b k) = uint (bs ! (off + k))" if "k < 4" for k
    using that assms by (simp add: byte_at_def uint_up_ucast is_up)
  have lt: "uint (bs ! k) < 256" for k
    using uint_lt2p [of "bs ! k"] by simp
  have p: "uint (push_bit n (?b k)) = 2 ^ n * uint (bs ! (off + k))" if "k < 4" "n \<le> 24" for n k
  proof -
    have "(2::int) ^ n \<le> 2 ^ 24" using that(2) by (intro power_increasing) auto
    then have "2 ^ n * uint (bs ! (off + k)) < (2::int) ^ 24 * 256"
      using lt [of "off + k"] by (intro mult_le_less_imp_less) auto
    moreover have "uint (push_bit n (?b k)) = take_bit 32 (2 ^ n * uint (bs ! (off + k)))"
      unfolding unsigned_push_bit_eq b [OF that(1)] by (simp add: push_bit_eq_mult mult.commute)
    ultimately show ?thesis by (simp add: take_bit_int_eq_self)
  qed
  have bs: "uint (bs ! (off + 0)) < 256" "uint (bs ! (off + 1)) < 256"
    "uint (bs ! (off + 2)) < 256" "uint (bs ! (off + 3)) < 256"
    by (rule lt)+
  have "uint ?w = 2 ^ 24 * uint (bs ! off) + 2 ^ 16 * uint (bs ! (off + 1))
    + 2 ^ 8 * uint (bs ! (off + 2)) + uint (bs ! (off + 3))"
    using bs p [of 0 24] p [of 1 16] p [of 2 8] b [of 3]
    by (simp add: uint_word_ariths mod_pos_pos_trivial mod_simps)
  with d1 show ?thesis by (simp add: uint32At_def)
qed


lemma parse_hex_take8:
  assumes "length h = 8"
  shows "parse_hex h = 2 ^ 24 * (16 * hex_digit (h ! 0) + hex_digit (h ! 1))
    + 2 ^ 16 * (16 * hex_digit (h ! 2) + hex_digit (h ! 3))
    + 2 ^ 8 * (16 * hex_digit (h ! 4) + hex_digit (h ! 5))
    + (16 * hex_digit (h ! 6) + hex_digit (h ! 7))"
proof -
  obtain a b c d e f g i where "h = [a, b, c, d, e, f, g, i]"
    using assms by (auto simp: numeral_eq_Suc length_Suc_conv)
  then show ?thesis by (simp add: parse_hex_Cons)
qed

lemma uint32At_hex:
  assumes "2 * off + 8 \<le> length h"
  shows "uint32At (hex_to_bytes h) off = int (parse_hex (js_slice (2 * off) (2 * off + 8) h))"
proof -
  let ?S = "js_slice (2 * off) (2 * off + 8) h"
  have len: "length ?S = 8" using assms by simp
  have byte: "uint (hex_to_bytes h ! (off + k))
      = int (16 * hex_digit (?S ! (2 * k)) + hex_digit (?S ! (2 * k + 1)))"
    if "k < 4" for k
  proof -
    have "?S ! (2 * k) = h ! (2 * (off + k))" "?S ! (2 * k + 1) = h ! (2 * (off + k) + 1)"
      using that assms by (simp_all add: nth_js_slice)
    then show ?thesis using that assms nth_hex_to_bytes [of "off + k" h] by simp
  qed
  have "uint32At (hex_to_bytes h) off
      = 2 ^ 24 * uint (hex_to_bytes h ! (off + 0)) + 2 ^ 16 * uint (hex_to_bytes h ! (off + 1))
      + 2 ^ 8 * uint (hex_to_bytes h ! (off + 2)) + uint (hex_to_bytes h ! (off + 3))"
    using assms uint32At_value [of off "hex_to_bytes h"] by simp
  also have "\<dots> = int (parse_hex (js_slice (2 * off) (2 * off + 8) h))"
    unfolding parse_hex_take8 [OF len]
    using byte [of 0] byte [of 1] byte [of 2] byte [of 3] by simp
  finally show ?thesis .
qed


section \<open>What the decoders and the classifier compute\<close>

lemma to_lower_0x: "to_lower (''0x'' @ s) = ''0x'' @ to_lower s"
  by (simp add: to_lower_def lower_char_def)

lemma all_hex_slice: "list_all is_hex_char s \<Longrightarrow> list_all is_hex_char (js_slice i j s)"
  using set_js_slice [of i j s] by (auto simp: list_all_iff)

lemma data_hex_strip:
  "is_data_hex m \<Longrightarrow> m = ''0x'' @ strip0x m \<and> list_all is_hex_char (strip0x m)
     \<and> even (length (strip0x m)) \<and> length m = length (strip0x m) + 2"
  by (auto simp: is_data_hex_def strip0x_def prefix_def)

lemma decoders_agree:
  assumes "ethers_ok E" and "is_data_hex m" and "298 \<le> length m"
  shows "\<exists>h. decodeCctpHeader m = Inr h
    \<and> decodeMessageHeader E m = Inr (h\<lparr>hd_nonce := to_lower (hd_nonce h)\<rparr>)
    \<and> 0 \<le> hd_sourceDomain h \<and> hd_sourceDomain h < 2 ^ 32
    \<and> 0 \<le> hd_destinationDomain h \<and> hd_destinationDomain h < 2 ^ 32"
proof -
  let ?h = "strip0x m"
  have hx: "list_all is_hex_char ?h" and ev: "even (length ?h)" and ln: "296 \<le> length ?h"
    using data_hex_strip [OF assms(2)] assms(3) by auto
  have gb: "getBytes E m = Inr (hex_to_bytes ?h)"
    using assms(1,2) by (simp add: ethers_ok_def strip0x_def is_data_hex_def)
  have nonce: "dataSlice E (hex_to_bytes ?h) 12 44 = ''0x'' @ to_lower (js_slice 24 88 ?h)"
  proof -
    have "even (length (js_slice 24 88 ?h))" using ln by simp
    then have "bytes_to_hex (js_slice 12 44 (hex_to_bytes ?h)) = to_lower (js_slice 24 88 ?h)"
      using hx by (simp add: slice_hex_to_bytes bytes_to_hex_to_bytes all_hex_slice)
    then show ?thesis using assms(1) ln by (simp add: ethers_ok_def)
  qed
  have p: "parse_hex (js_slice 8 16 ?h) < 16 ^ 8" "parse_hex (js_slice 16 24 ?h) < 16 ^ 8"
    using parse_hex_less [of "js_slice 8 16 ?h"] parse_hex_less [of "js_slice 16 24 ?h"] ln
    by (simp_all add: min_def)
  have "decodeMessageHeader E m = Inr \<lparr>hd_sourceDomain = int (parse_hex (js_slice 8 16 ?h)),
      hd_destinationDomain = int (parse_hex (js_slice 16 24 ?h)),
      hd_nonce = to_lower (''0x'' @ js_slice 24 88 ?h)\<rparr>"
    using ln uint32At_hex [of 4 ?h] uint32At_hex [of 8 ?h]
    by (simp add: decodeMessageHeader_def gb nonce MSG_BODY_OFFSET_def to_lower_0x [simplified])
  moreover have "decodeCctpHeader m = Inr \<lparr>hd_sourceDomain = int (parse_hex (js_slice 8 16 ?h)),
      hd_destinationDomain = int (parse_hex (js_slice 16 24 ?h)),
      hd_nonce = ''0x'' @ js_slice 24 88 ?h\<rparr>"
    using ln by (simp add: decodeCctpHeader_def Let_def)
  ultimately show ?thesis using p by simp
qed

text \<open>Header decoding. On every well-formed data string of at least 148 bytes the actor's
  bytewise decoder (shifts and ORs on 32-bit words) and the watcher's textual decoder
  (\<open>parseInt\<close> of hex slices) return the same domains, each a 32-bit unsigned value, and the same
  nonce up to letter case.\<close>

theorem header_decoders_agree:
  assumes "ethers_ok E" and "is_data_hex m" and "298 \<le> length m"
  shows "\<exists>h. decodeCctpHeader m = Inr h
    \<and> decodeMessageHeader E m = Inr (h\<lparr>hd_nonce := to_lower (hd_nonce h)\<rparr>)
    \<and> 0 \<le> hd_sourceDomain h \<and> hd_sourceDomain h < 2 ^ 32
    \<and> 0 \<le> hd_destinationDomain h \<and> hd_destinationDomain h < 2 ^ 32"
  using assms by (rule decoders_agree)

text \<open>A burn message as hex text, for the witnesses: source domain 6, destination domain 0, body
  version 1, zero destination caller, mint recipient \<open>0x00..00aa..aa\<close>.\<close>

definition demo_recipient :: string where
  "demo_recipient = replicate 24 (CHR ''0'') @ replicate 40 (CHR ''a'')"

definition demo_message :: string where
  "demo_message = ''0x'' @ replicate 15 (CHR ''0'') @ ''6'' @ replicate 287 (CHR ''0'') @ ''1''
     @ replicate 64 (CHR ''0'') @ demo_recipient @ replicate 320 (CHR ''0'')"

lemma demo_message_hex: "is_data_hex demo_message" "length demo_message = 754"
  by (simp_all add: is_data_hex_def demo_message_def demo_recipient_def is_hex_char_def
      list_all_iff)

theorem header_decoders_agree_witness:
  "\<exists>h. decodeCctpHeader demo_message = Inr h
    \<and> decodeMessageHeader ref_ethers demo_message = Inr (h\<lparr>hd_nonce := to_lower (hd_nonce h)\<rparr>)
    \<and> 0 \<le> hd_sourceDomain h \<and> hd_sourceDomain h < 2 ^ 32
    \<and> 0 \<le> hd_destinationDomain h \<and> hd_destinationDomain h < 2 ^ 32"
  using header_decoders_agree [OF ref_ethers_ok demo_message_hex(1)] demo_message_hex(2) by simp

lemma relay_iff:
  "classifyMessageForRelay E m known hook = Inr (Relay r) \<longleftrightarrow>
     list_all is_hex_char (strip0x m) \<and> 376 \<le> length (strip0x m) div 2
     \<and> parse_hex (js_slice 296 304 (strip0x m)) = 1
     \<and> r = ''0x'' @ to_lower (js_slice 368 432 (strip0x m)) \<and> r \<in> known
     \<and> (to_lower (js_slice 216 280 (strip0x m)) = replicate 64 (CHR ''0'')
        \<or> \<not> hook_set hook
        \<or> (\<exists>p. zeroPadValue E (the hook) 32 = Inr p
               \<and> to_lower p = ''0x'' @ to_lower (js_slice 216 280 (strip0x m))))"
  by (auto simp: classifyMessageForRelay_def classify_consts ZERO_CALLER_def Let_def not_less
      split: sum.splits)

text \<open>C28: fail-closed classification. A message is relayed exactly when it is hex text of at
  least 376 bytes whose body version is 1, whose mint recipient (bytes 184 to 216) is a known
  recipient, and whose destination caller (bytes 108 to 140) is zero or, where a hook router is
  configured, that router left-padded to 32 bytes; the result carries the recipient. Every other
  message is refused, whatever the ethers functions do.\<close>

theorem classify_relay_iff:
  "classifyMessageForRelay E m known hook = Inr (Relay r) \<longleftrightarrow>
     list_all is_hex_char (strip0x m) \<and> 376 \<le> length (strip0x m) div 2
     \<and> parse_hex (js_slice 296 304 (strip0x m)) = 1
     \<and> r = ''0x'' @ to_lower (js_slice 368 432 (strip0x m)) \<and> r \<in> known
     \<and> (to_lower (js_slice 216 280 (strip0x m)) = replicate 64 (CHR ''0'')
        \<or> \<not> hook_set hook
        \<or> (\<exists>p. zeroPadValue E (the hook) 32 = Inr p
               \<and> to_lower p = ''0x'' @ to_lower (js_slice 216 280 (strip0x m))))"
  by (rule relay_iff)

lemma demo_message_slices [simp]:
  "strip0x demo_message = drop 2 demo_message"
  "js_slice 296 304 (drop 2 demo_message) = ''00000001''"
  "js_slice 368 432 (drop 2 demo_message) = demo_recipient"
  "js_slice 216 280 (drop 2 demo_message) = replicate 64 (CHR ''0'')"
  by (simp_all add: strip0x_def demo_message_def demo_recipient_def slice_simps
      js_slice_def eval_nat_numeral)


lemma demo_classified:
  "classifyMessageForRelay ref_ethers demo_message {''0x'' @ demo_recipient} None
     = Inr (Relay (''0x'' @ demo_recipient))"
proof -
  have low: "to_lower demo_recipient = demo_recipient"
    "to_lower (replicate 64 (CHR ''0'')) = replicate 64 (CHR ''0'')"
    by (simp_all add: to_lower_def demo_recipient_def lower_char_def)
  have "list_all is_hex_char (drop 2 demo_message)" "376 \<le> length (drop 2 demo_message) div 2"
    using demo_message_hex by (simp_all add: is_data_hex_def)
  then show ?thesis
    unfolding relay_iff using low by (simp add: parse_hex_Cons hex_digit_def)
qed

theorem classify_relay_iff_witness:
  "\<exists>r. r = ''0x'' @ to_lower (js_slice 368 432 (strip0x demo_message))
    \<and> classifyMessageForRelay ref_ethers demo_message {r} None = Inr (Relay r)"
  using demo_classified classify_relay_iff [of ref_ethers demo_message "{''0x'' @ demo_recipient}" None
      "''0x'' @ demo_recipient"] by auto

text \<open>A source domain or destination domain is any 32-bit value: the header of a message may
  name a domain above \<open>2^31 - 1\<close>, the largest value of the \<open>integer\<close> columns that store it
  (\<open>watcher/ponder.schema.ts\<close>, \<open>actor/migrations\<close>).\<close>

definition int4_max :: int where "int4_max = 2147483647"

lemma header_domain_exceeds_int4:
  "\<exists>h. decodeCctpHeader (''0x'' @ replicate 16 (CHR ''0'') @ ''ffffffff''
        @ replicate 64 (CHR ''0'')) = Inr h
     \<and> int4_max < hd_destinationDomain h"
  by (simp add: decodeCctpHeader_def Let_def js_slice_def int4_max_def parse_hex_def hex_digit_def)

end
