(* ===== verification/Iris.thy ===== *)
theory Iris
  imports Classify
begin

text \<open>
  \<open>actor/src/jobs/iris-client.ts\<close>: the attestation client. The HTTP exchange itself is outside
  the model; its outcome (\<open>http_outcome\<close>) is an argument of \<open>irisFetch\<close>, which is everything the
  method computes from it. A JSON field of the response is a \<open>jval\<close>; an absent one is \<open>None\<close>.
\<close>

definition MIN_ATTESTATION_BYTES :: nat where "MIN_ATTESTATION_BYTES = 65"
definition MIN_BURN_MESSAGE_BYTES :: nat where "MIN_BURN_MESSAGE_BYTES = 376"
definition MSG_NONCE_OFFSET :: nat where "MSG_NONCE_OFFSET = 12"
definition MSG_NONCE_LENGTH :: nat where "MSG_NONCE_LENGTH = 32"
definition MSG_FINALITY_EXECUTED_OFFSET :: nat where "MSG_FINALITY_EXECUTED_OFFSET = 144"
definition MSG_FINALITY_EXECUTED_LENGTH :: nat where "MSG_FINALITY_EXECUTED_LENGTH = 4"
definition MSG_FEE_EXECUTED_OFFSET :: nat where "MSG_FEE_EXECUTED_OFFSET = 312"
definition MSG_FEE_EXECUTED_LENGTH :: nat where "MSG_FEE_EXECUTED_LENGTH = 32"
definition MSG_EXPIRATION_BLOCK_OFFSET :: nat where "MSG_EXPIRATION_BLOCK_OFFSET = 344"
definition MSG_EXPIRATION_BLOCK_LENGTH :: nat where "MSG_EXPIRATION_BLOCK_LENGTH = 32"

lemmas iris_consts =
  MIN_ATTESTATION_BYTES_def MIN_BURN_MESSAGE_BYTES_def MSG_NONCE_OFFSET_def MSG_NONCE_LENGTH_def
  MSG_FINALITY_EXECUTED_OFFSET_def MSG_FINALITY_EXECUTED_LENGTH_def MSG_FEE_EXECUTED_OFFSET_def
  MSG_FEE_EXECUTED_LENGTH_def MSG_EXPIRATION_BLOCK_OFFSET_def MSG_EXPIRATION_BLOCK_LENGTH_def

definition MOCK_ATTESTATION :: string where "MOCK_ATTESTATION = ''0x''"

datatype attestation_result =
    AttComplete string string        \<comment> \<open>attestation, message\<close>
  | AttPending "string option"
  | AttError string

record attestation_query =
  q_sourceDomain :: int
  q_sourceTxHash :: string
  q_expectedMessageHex :: string

section \<open>Plausibility and matching\<close>

text \<open>A value of the parsed response that need not be a string; \<open>JOther t\<close> is any other value
  with its truth value.\<close>

datatype jval = JStr string | JNull | JOther bool

fun js_truthy :: "jval option \<Rightarrow> bool" where
  "js_truthy None = False"
| "js_truthy (Some JNull) = False"
| "js_truthy (Some (JStr s)) = (s \<noteq> [])"
| "js_truthy (Some (JOther b)) = b"

fun isPlausibleHexBytes :: "jval option \<Rightarrow> nat \<Rightarrow> bool" where
  "isPlausibleHexBytes (Some (JStr s)) minBytes =
     (if \<not> prefix ''0x'' s then False
      else let body = drop 2 s in
        if length body mod 2 \<noteq> 0 then False
        else if \<not> list_all is_hex_char body then False
        else minBytes \<le> length body div 2)"
| "isPlausibleHexBytes _ minBytes = False"

definition zeroHexRange :: "string \<Rightarrow> nat \<Rightarrow> nat \<Rightarrow> string" where
  "zeroHexRange hex startByte lenBytes =
     js_slice 0 (startByte * 2) hex @ replicate (lenBytes * 2) (CHR ''0'')
       @ drop ((startByte + lenBytes) * 2) hex"

definition mask :: "string \<Rightarrow> string" where
  "mask hex =
     zeroHexRange
       (zeroHexRange
         (zeroHexRange
           (zeroHexRange hex MSG_NONCE_OFFSET MSG_NONCE_LENGTH)
           MSG_FINALITY_EXECUTED_OFFSET MSG_FINALITY_EXECUTED_LENGTH)
         MSG_FEE_EXECUTED_OFFSET MSG_FEE_EXECUTED_LENGTH)
       MSG_EXPIRATION_BLOCK_OFFSET MSG_EXPIRATION_BLOCK_LENGTH"

definition irisMessageMatches :: "string \<Rightarrow> string \<Rightarrow> bool" where
  "irisMessageMatches localHex irisHex =
     (let a = to_lower (strip0x localHex); b = to_lower (strip0x irisHex)
      in if length a \<noteq> length b then False else mask a = mask b)"

section \<open>The clients\<close>

definition mockFetch :: "attestation_query \<Rightarrow> exn + attestation_result" where
  "mockFetch query = Inr (AttComplete MOCK_ATTESTATION (q_expectedMessageHex query))"

record iris_entry =
  e_attestation :: "jval option"
  e_message :: "jval option"
  e_status :: "string option"

text \<open>The body of a response: not JSON, the literal \<open>null\<close> (whose property access throws), or an
  object with an optional \<open>messages\<close> array.\<close>

datatype iris_body = BodyUnparseable | BodyNull | BodyMessages "iris_entry list option"

datatype http_outcome =
    FetchThrows string string      \<comment> \<open>the error's name and message\<close>
  | Response int iris_body         \<comment> \<open>HTTP status and body\<close>

definition entry_matches :: "string \<Rightarrow> iris_entry \<Rightarrow> bool" where
  "entry_matches expected m =
     (case e_message m of Some (JStr s) \<Rightarrow> irisMessageMatches expected s | _ \<Rightarrow> False)"

definition select_entry :: "string \<Rightarrow> iris_entry list \<Rightarrow> iris_entry option" where
  "select_entry expected msgs =
     (if length msgs = 1 then Some (hd msgs) else List.find (entry_matches expected) msgs)"

definition irisFetch :: "nat \<Rightarrow> attestation_query \<Rightarrow> http_outcome \<Rightarrow> exn + attestation_result" where
  "irisFetch timeoutMs query outcome =
     (case outcome of
        FetchThrows name msg \<Rightarrow>
          Inr (AttError (''network: '' @
            (if name = ''AbortError'' then ''timeout after '' @ show_nat timeoutMs @ ''ms'' else msg)))
      | Response status body \<Rightarrow>
          if status = 404 then Inr (AttPending (Some ''not yet indexed''))
          else if \<not> (200 \<le> status \<and> status \<le> 299) then Inr (AttError (''http '' @ show_int status))
          else (case body of
              BodyUnparseable \<Rightarrow> Inr (AttError ''unparseable body'')
            | BodyNull \<Rightarrow> Inl ''Cannot read properties of null''
            | BodyMessages None \<Rightarrow> Inr (AttPending (Some ''no messages''))
            | BodyMessages (Some msgs) \<Rightarrow>
                if msgs = [] then Inr (AttPending (Some ''no messages''))
                else (case select_entry (q_expectedMessageHex query) msgs of
                    None \<Rightarrow> Inr (AttError ''no matching message in Iris response'')
                  | Some msg \<Rightarrow>
                      if e_status msg = Some ''complete'' \<and> js_truthy (e_attestation msg) then
                        (if \<not> isPlausibleHexBytes (e_attestation msg) MIN_ATTESTATION_BYTES
                         then Inr (AttError ''implausible attestation bytes'')
                         else if \<not> isPlausibleHexBytes (e_message msg) MIN_BURN_MESSAGE_BYTES
                         then Inr (AttError ''implausible message bytes'')
                         else (case (e_attestation msg, e_message msg) of
                             (Some (JStr att), Some (JStr m)) \<Rightarrow>
                               if \<not> irisMessageMatches (q_expectedMessageHex query) m
                               then Inr (AttError ''Iris message does not match observed bytes'')
                               else Inr (AttComplete att m)
                           | _ \<Rightarrow> Inr (AttError ''implausible message bytes'')))
                      else Inr (AttPending (Some
                        (case e_status msg of None \<Rightarrow> ''unknown'' | Some st \<Rightarrow> st))))))"

section \<open>What matching means\<close>

text \<open>Hex-digit positions of the slots Circle fills in after the burn.\<close>

definition circle_slot :: "nat \<Rightarrow> bool" where
  "circle_slot k \<longleftrightarrow>
     24 \<le> k \<and> k < 88        \<comment> \<open>nonce\<close>
   \<or> 288 \<le> k \<and> k < 296      \<comment> \<open>finalityThresholdExecuted\<close>
   \<or> 624 \<le> k \<and> k < 688      \<comment> \<open>feeExecuted\<close>
   \<or> 688 \<le> k \<and> k < 752      \<comment> \<open>expirationBlock\<close>"

lemma length_zeroHexRange:
  "(st + ln) * 2 \<le> length s \<Longrightarrow> length (zeroHexRange s st ln) = length s"
  by (simp add: zeroHexRange_def)

lemma nth_zeroHexRange:
  assumes "(st + ln) * 2 \<le> length s" and "k < length s"
  shows "zeroHexRange s st ln ! k =
    (if st * 2 \<le> k \<and> k < (st + ln) * 2 then CHR ''0'' else s ! k)"
  using assms by (auto simp: zeroHexRange_def nth_append nth_js_slice add.commute)

lemma length_mask: "752 \<le> length s \<Longrightarrow> length (mask s) = length s"
  by (simp add: mask_def iris_consts length_zeroHexRange)

lemma nth_mask:
  "752 \<le> length s \<Longrightarrow> k < length s \<Longrightarrow> mask s ! k = (if circle_slot k then CHR ''0'' else s ! k)"
  by (auto simp: mask_def iris_consts length_zeroHexRange nth_zeroHexRange circle_slot_def)

lemma mask_eq_iff:
  assumes "752 \<le> length a" and "length a = length b"
  shows "mask a = mask b \<longleftrightarrow> (\<forall>k < length a. \<not> circle_slot k \<longrightarrow> a ! k = b ! k)"
  using assms by (auto simp: list_eq_iff_nth_eq length_mask nth_mask)

text \<open>Message matching. For observed bytes of burn-message size, the Iris message is accepted
  exactly when it has the same length and the same hex digits (up to case) everywhere outside the
  four slots Circle fills: nonce, finalityThresholdExecuted, feeExecuted, expirationBlock. In
  particular the maxFee, amount and recipient digits must agree.\<close>

theorem iris_matches_iff:
  assumes "752 \<le> length (strip0x localHex)"
  shows "irisMessageMatches localHex irisHex \<longleftrightarrow>
    length (strip0x irisHex) = length (strip0x localHex) \<and>
    (\<forall>k < length (strip0x localHex). \<not> circle_slot k \<longrightarrow>
       to_lower (strip0x localHex) ! k = to_lower (strip0x irisHex) ! k)"
  using assms mask_eq_iff [of "to_lower (strip0x localHex)" "to_lower (strip0x irisHex)"]
  by (auto simp: irisMessageMatches_def Let_def)

lemma matches_slice:
  assumes "irisMessageMatches localHex irisHex" and "752 \<le> length (strip0x localHex)"
    and "j \<le> length (strip0x localHex)" and "\<And>k. i \<le> k \<Longrightarrow> k < j \<Longrightarrow> \<not> circle_slot k"
  shows "to_lower (js_slice i j (strip0x irisHex)) = to_lower (js_slice i j (strip0x localHex))"
proof -
  let ?a = "to_lower (strip0x localHex)" and ?b = "to_lower (strip0x irisHex)"
  have len: "length ?b = length ?a" and "mask ?a = mask ?b"
    using assms(1) by (auto simp: irisMessageMatches_def Let_def split: if_splits)
  then have agree: "\<forall>k < length ?a. \<not> circle_slot k \<longrightarrow> ?a ! k = ?b ! k"
    using mask_eq_iff [of ?a ?b] assms(2) by simp
  then have "js_slice i j ?b = js_slice i j ?a"
    using js_slice_eq_iff [of ?b ?a j i] len assms(3,4) by auto
  then show ?thesis by (simp add: to_lower_slice)
qed


theorem iris_matches_iff_witness:
  "irisMessageMatches demo_message demo_message \<longleftrightarrow>
    length (strip0x demo_message) = length (strip0x demo_message) \<and>
    (\<forall>k < length (strip0x demo_message). \<not> circle_slot k \<longrightarrow>
       to_lower (strip0x demo_message) ! k = to_lower (strip0x demo_message) ! k)"
  by (rule iris_matches_iff) (simp add: demo_message_hex)

section \<open>What a complete attestation guarantees\<close>

lemma plausible_str:
  "isPlausibleHexBytes (Some (JStr s)) n \<longleftrightarrow>
     prefix ''0x'' s \<and> even (length s) \<and> list_all is_hex_char (strip0x s)
     \<and> n \<le> length (strip0x s) div 2"
  by (auto simp: strip0x_def prefix_def Let_def even_iff_mod_2_eq_zero)

lemma irisFetch_complete:
  assumes "irisFetch t q outcome = Inr (AttComplete att m)"
  shows "isPlausibleHexBytes (Some (JStr att)) 65 \<and> isPlausibleHexBytes (Some (JStr m)) 376
    \<and> irisMessageMatches (q_expectedMessageHex q) m
    \<and> (\<exists>status msgs. outcome = Response status (BodyMessages (Some msgs)) \<and> 200 \<le> status \<and> status \<le> 299
        \<and> (\<exists>e \<in> set msgs. e_status e = Some ''complete'' \<and> e_attestation e = Some (JStr att)
             \<and> e_message e = Some (JStr m)))"
proof -
  have sel: "e \<in> set msgs" if "select_entry ex msgs = Some e" for ex msgs e
    using that by (cases msgs) (auto simp: select_entry_def find_Some_iff split: if_splits)
  show ?thesis
    using assms
    by (auto simp: irisFetch_def MIN_ATTESTATION_BYTES_def MIN_BURN_MESSAGE_BYTES_def Let_def
        dest: sel
        split: http_outcome.splits iris_body.splits option.splits if_splits jval.splits)
qed

text \<open>The masked slots hold no byte the classifier looks at.\<close>

lemma complete_relayable:
  assumes "classifyMessageForRelay E (q_expectedMessageHex q) known hook = Inr (Relay r)"
    and "irisFetch t q outcome = Inr (AttComplete att m)"
  shows "classifyMessageForRelay E m known hook = Inr (Relay r)
    \<and> prefix ''0x'' att \<and> list_all is_hex_char (drop 2 att) \<and> 132 \<le> length att"
proof -
  let ?l = "q_expectedMessageHex q"
  from irisFetch_complete [OF assms(2)]
  have pa: "isPlausibleHexBytes (Some (JStr att)) 65"
    and pm: "isPlausibleHexBytes (Some (JStr m)) 376" and match: "irisMessageMatches ?l m"
    by blast+
  have local: "376 \<le> length (strip0x ?l) div 2" using assms(1) by (simp add: relay_iff)
  have len: "752 \<le> length (strip0x ?l)" using local by simp
  have lenm: "length (strip0x m) = length (strip0x ?l)"
    using match by (auto simp: irisMessageMatches_def Let_def split: if_splits)
  have hexm: "list_all is_hex_char (strip0x m)" using pm plausible_str by blast
  have sl: "to_lower (js_slice 296 304 (strip0x m)) = to_lower (js_slice 296 304 (strip0x ?l))"
    "to_lower (js_slice 368 432 (strip0x m)) = to_lower (js_slice 368 432 (strip0x ?l))"
    "to_lower (js_slice 216 280 (strip0x m)) = to_lower (js_slice 216 280 (strip0x ?l))"
    by (rule matches_slice [OF match len], use len in \<open>auto simp: circle_slot_def\<close>)+
  have ver: "parse_hex (js_slice 296 304 (strip0x m)) = parse_hex (js_slice 296 304 (strip0x ?l))"
    using sl(1) parse_hex_to_lower by metis
  have "classifyMessageForRelay E m known hook = Inr (Relay r)"
    using assms(1) hexm lenm unfolding relay_iff sl ver by auto
  moreover have "prefix ''0x'' att" "list_all is_hex_char (drop 2 att)" "132 \<le> length att"
    using pa unfolding plausible_str by (auto simp: strip0x_def)
  ultimately show ?thesis by blast
qed

text \<open>What is broadcast is what was classified. If the locally observed message was
  classified as relayable to recipient \<open>r\<close> and the Iris client answers that query with a complete
  attestation, then the Iris message it returns, which is the one broadcast, is classified as
  relayable to the same recipient, and the attestation is hex data of at least 65 bytes. A
  response with other recipient, body version or destination caller never comes back complete.\<close>

theorem attested_message_relayable:
  assumes "classifyMessageForRelay E (q_expectedMessageHex q) known hook = Inr (Relay r)"
    and "irisFetch t q outcome = Inr (AttComplete att m)"
  shows "classifyMessageForRelay E m known hook = Inr (Relay r)
    \<and> prefix ''0x'' att \<and> list_all is_hex_char (drop 2 att) \<and> 132 \<le> length att"
  using assms by (rule complete_relayable)

definition demo_attestation :: string where
  "demo_attestation = ''0x'' @ replicate 130 (CHR ''a'')"

definition demo_query :: attestation_query where
  "demo_query = \<lparr>q_sourceDomain = 6, q_sourceTxHash = ''0xabc'', q_expectedMessageHex = demo_message\<rparr>"

definition demo_response :: http_outcome where
  "demo_response = Response 200 (BodyMessages (Some [\<lparr>e_attestation = Some (JStr demo_attestation),
     e_message = Some (JStr demo_message), e_status = Some ''complete''\<rparr>]))"

lemma demo_fetch:
  assumes "q_expectedMessageHex q = demo_message"
  shows "irisFetch t q demo_response = Inr (AttComplete demo_attestation demo_message)"
proof -
  have "isPlausibleHexBytes (Some (JStr demo_attestation)) 65"
    by (simp add: plausible_str demo_attestation_def is_hex_char_def list_all_iff)
  moreover have "isPlausibleHexBytes (Some (JStr demo_message)) 376"
    using demo_message_hex by (simp add: plausible_str is_data_hex_def)
  moreover have "irisMessageMatches demo_message demo_message"
    by (simp add: irisMessageMatches_def Let_def)
  moreover have "demo_attestation \<noteq> []" by (simp add: demo_attestation_def)
  ultimately show ?thesis
    by (simp add: irisFetch_def assms demo_response_def select_entry_def
        MIN_ATTESTATION_BYTES_def MIN_BURN_MESSAGE_BYTES_def del: isPlausibleHexBytes.simps)
qed

lemma demo_response_answers: "irisFetch t q demo_response \<noteq> Inl e"
  by (simp add: irisFetch_def demo_response_def split: option.splits jval.splits)

theorem attested_message_relayable_witness:
  "classifyMessageForRelay ref_ethers demo_message {''0x'' @ demo_recipient} None
     = Inr (Relay (''0x'' @ demo_recipient))
    \<and> prefix ''0x'' demo_attestation \<and> list_all is_hex_char (drop 2 demo_attestation)
    \<and> 132 \<le> length demo_attestation"
proof -
  have q: "q_expectedMessageHex demo_query = demo_message" by (simp add: demo_query_def)
  have "classifyMessageForRelay ref_ethers (q_expectedMessageHex demo_query) {''0x'' @ demo_recipient} None
     = Inr (Relay (''0x'' @ demo_recipient))"
    unfolding q by (rule demo_classified)
  from attested_message_relayable [OF this demo_fetch [OF q]] show ?thesis .
qed

end
