(* ===== verification/JobTypes.thy ===== *)
theory JobTypes
  imports Iris
begin

text \<open>
  \<open>actor/src/db/types.ts\<close>: the row model of a CCTP job, the shape of an indexed message and of
  the watcher's progress; and the patch of \<open>actor/src/db/jobs-repo.ts\<close> that a transition applies.
  Record fields keep the source's names; the fields of the two reader shapes carry a prefix
  because the names coincide.
\<close>

datatype job_state =
    Detected
  | AwaitingAttestation
  | Attested
  | Submitted
  | Delivered
  | DeadLetter
  | Skipped
  | AlreadyDelivered

datatype dl_reason = Expired | RetriesExhausted | SkipReason skip_reason

record cctp_job =
  dedupKey :: string
  messageHash :: string
  messageBytes :: string
  sourceDomain :: int
  destinationDomain :: int
  nonce :: string
  sourceTxHash :: string
  sourceBlock :: int
  state :: job_state
  detectedAt :: int
  pollAttempts :: int
  lastIrisStatus :: "string option"
  attestation :: "string option"
  relayMessage :: "string option"
  retryAttempts :: int
  nextRetryAt :: "int option"
  submittedTxHash :: "string option"
  submittedAt :: "int option"
  deliveredTxHash :: "string option"
  deliveredBlock :: "int option"
  deliveredAt :: "int option"
  deadLetterReason :: "dl_reason option"
  updatedAt :: int

record indexed_message =
  m_id :: string
  m_chainId :: int
  m_sourceDomain :: int
  m_destinationDomain :: int
  m_messageBytes :: string
  m_messageHash :: string
  m_sourceTxHash :: string
  m_logIndex :: int
  m_blockNumber :: int
  m_blockTimestamp :: int

record chain_progress =
  cp_chainId :: int
  cp_lastIndexedBlock :: int
  cp_lastIndexedBlockTimestamp :: "int option"
  cp_ready :: bool

text \<open>A patch sets the fields that are present: the outer option of a field is its presence in
  the object, the inner one (where there is one) its being \<open>null\<close>.\<close>

record job_patch =
  p_state :: "job_state option"
  p_pollAttempts :: "int option"
  p_lastIrisStatus :: "string option option"
  p_attestation :: "string option option"
  p_relayMessage :: "string option option"
  p_retryAttempts :: "int option"
  p_nextRetryAt :: "int option option"
  p_submittedTxHash :: "string option option"
  p_submittedAt :: "int option option"
  p_deliveredTxHash :: "string option option"
  p_deliveredBlock :: "int option option"
  p_deliveredAt :: "int option option"
  p_deadLetterReason :: "dl_reason option option"

definition no_patch :: job_patch where
  "no_patch = \<lparr>p_state = None, p_pollAttempts = None, p_lastIrisStatus = None,
     p_attestation = None, p_relayMessage = None, p_retryAttempts = None, p_nextRetryAt = None,
     p_submittedTxHash = None, p_submittedAt = None, p_deliveredTxHash = None,
     p_deliveredBlock = None, p_deliveredAt = None, p_deadLetterReason = None\<rparr>"

definition set_if :: "'a option \<Rightarrow> 'a \<Rightarrow> 'a" where
  "set_if v old = (case v of None \<Rightarrow> old | Some new \<Rightarrow> new)"

lemma set_if_simps [simp]: "set_if None x = x" "set_if (Some y) x = y"
  by (simp_all add: set_if_def)

text \<open>\<open>Object.assign(job, patch, { updatedAt: now })\<close>.\<close>

definition applyPatch :: "cctp_job \<Rightarrow> job_patch \<Rightarrow> int \<Rightarrow> cctp_job" where
  "applyPatch j p t = j\<lparr>
     state := set_if (p_state p) (state j),
     pollAttempts := set_if (p_pollAttempts p) (pollAttempts j),
     lastIrisStatus := set_if (p_lastIrisStatus p) (lastIrisStatus j),
     attestation := set_if (p_attestation p) (attestation j),
     relayMessage := set_if (p_relayMessage p) (relayMessage j),
     retryAttempts := set_if (p_retryAttempts p) (retryAttempts j),
     nextRetryAt := set_if (p_nextRetryAt p) (nextRetryAt j),
     submittedTxHash := set_if (p_submittedTxHash p) (submittedTxHash j),
     submittedAt := set_if (p_submittedAt p) (submittedAt j),
     deliveredTxHash := set_if (p_deliveredTxHash p) (deliveredTxHash j),
     deliveredBlock := set_if (p_deliveredBlock p) (deliveredBlock j),
     deliveredAt := set_if (p_deliveredAt p) (deliveredAt j),
     deadLetterReason := set_if (p_deadLetterReason p) (deadLetterReason j),
     updatedAt := t \<rparr>"

text \<open>What no patch can change: the columns that identify the message.\<close>

definition same_identity :: "cctp_job \<Rightarrow> cctp_job \<Rightarrow> bool" where
  "same_identity j j' \<longleftrightarrow> dedupKey j' = dedupKey j \<and> messageHash j' = messageHash j
     \<and> messageBytes j' = messageBytes j \<and> sourceDomain j' = sourceDomain j
     \<and> destinationDomain j' = destinationDomain j \<and> nonce j' = nonce j
     \<and> sourceTxHash j' = sourceTxHash j \<and> sourceBlock j' = sourceBlock j
     \<and> detectedAt j' = detectedAt j"

lemma applyPatch_identity [simp]: "same_identity j (applyPatch j p t)"
  by (simp add: same_identity_def applyPatch_def)

lemma applyPatch_key [simp]: "dedupKey (applyPatch j p t) = dedupKey j"
  by (simp add: applyPatch_def)

lemma same_identity_refl [simp]: "same_identity j j"
  by (simp add: same_identity_def)

lemma same_identity_trans: "same_identity i j \<Longrightarrow> same_identity j k \<Longrightarrow> same_identity i k"
  by (simp add: same_identity_def)

text \<open>The states no transition leaves.\<close>

definition terminal :: "job_state \<Rightarrow> bool" where
  "terminal s \<longleftrightarrow> s \<in> {Delivered, DeadLetter, Skipped, AlreadyDelivered}"

end
