(* ===== verification/JobsRepo.thy ===== *)
theory JobsRepo
  imports JobTypes
begin

text \<open>
  \<open>actor/src/db/jobs-repo.ts\<close>: the job repository, in its Postgres and its in-memory
  implementation, and the interface both satisfy as the locale \<open>job_store\<close>.

  A Postgres table is the list of its rows in some scan order; a statement is the function it
  computes on that list. A \<open>bigint\<close> column crosses the driver as decimal text in both directions
  (\<open>toString()\<close> on the way in, \<open>BigInt(...)\<close> on the way out), which the row type keeps. The
  connection, and its failures, are not modelled. The in-memory repository is the insertion-ordered
  \<open>Map\<close> of the source, an association list.
\<close>

section \<open>The Postgres table\<close>

record job_row =
  dedup_key :: string
  message_hash :: string
  message_bytes :: string
  source_domain :: int
  destination_domain :: int
  r_nonce :: string
  source_tx_hash :: string
  source_block :: string
  r_state :: job_state
  detected_at :: int
  poll_attempts :: int
  last_iris_status :: "string option"
  r_attestation :: "string option"
  relay_message :: "string option"
  retry_attempts :: int
  next_retry_at :: "int option"
  submitted_tx_hash :: "string option"
  submitted_at :: "int option"
  delivered_tx_hash :: "string option"
  delivered_block :: "string option"
  delivered_at :: "int option"
  dead_letter_reason :: "dl_reason option"
  updated_at :: int

type_synonym job_table = "job_row list"

definition rowToJob :: "job_row \<Rightarrow> cctp_job" where
  "rowToJob r = \<lparr>
     dedupKey = dedup_key r, messageHash = message_hash r, messageBytes = message_bytes r,
     sourceDomain = source_domain r, destinationDomain = destination_domain r,
     nonce = r_nonce r, sourceTxHash = source_tx_hash r, sourceBlock = parse_int (source_block r),
     state = r_state r, detectedAt = detected_at r, pollAttempts = poll_attempts r,
     lastIrisStatus = last_iris_status r, attestation = r_attestation r,
     relayMessage = relay_message r, retryAttempts = retry_attempts r,
     nextRetryAt = next_retry_at r, submittedTxHash = submitted_tx_hash r,
     submittedAt = submitted_at r, deliveredTxHash = delivered_tx_hash r,
     deliveredBlock = map_option parse_int (delivered_block r), deliveredAt = delivered_at r,
     deadLetterReason = dead_letter_reason r, updatedAt = updated_at r \<rparr>"

text \<open>The parameter list of the INSERT statement.\<close>

definition jobToRow :: "cctp_job \<Rightarrow> job_row" where
  "jobToRow j = \<lparr>
     dedup_key = dedupKey j, message_hash = messageHash j, message_bytes = messageBytes j,
     source_domain = sourceDomain j, destination_domain = destinationDomain j,
     r_nonce = nonce j, source_tx_hash = sourceTxHash j, source_block = show_int (sourceBlock j),
     r_state = state j, detected_at = detectedAt j, poll_attempts = pollAttempts j,
     last_iris_status = lastIrisStatus j, r_attestation = attestation j,
     relay_message = relayMessage j, retry_attempts = retryAttempts j,
     next_retry_at = nextRetryAt j, submitted_tx_hash = submittedTxHash j,
     submitted_at = submittedAt j, delivered_tx_hash = deliveredTxHash j,
     delivered_block = map_option show_int (deliveredBlock j), delivered_at = deliveredAt j,
     dead_letter_reason = deadLetterReason j, updated_at = updatedAt j \<rparr>"

text \<open>The SET clause a patch is turned into: \<open>updated_at = $3\<close>, then one assignment per present
  field through \<open>COLUMN_OF\<close>, a bigint as its text.\<close>

definition setColumns :: "job_row \<Rightarrow> job_patch \<Rightarrow> int \<Rightarrow> job_row" where
  "setColumns r p t = r\<lparr>
     updated_at := t,
     r_state := set_if (p_state p) (r_state r),
     poll_attempts := set_if (p_pollAttempts p) (poll_attempts r),
     last_iris_status := set_if (p_lastIrisStatus p) (last_iris_status r),
     r_attestation := set_if (p_attestation p) (r_attestation r),
     relay_message := set_if (p_relayMessage p) (relay_message r),
     retry_attempts := set_if (p_retryAttempts p) (retry_attempts r),
     next_retry_at := set_if (p_nextRetryAt p) (next_retry_at r),
     submitted_tx_hash := set_if (p_submittedTxHash p) (submitted_tx_hash r),
     submitted_at := set_if (p_submittedAt p) (submitted_at r),
     delivered_tx_hash := set_if (p_deliveredTxHash p) (delivered_tx_hash r),
     delivered_block := set_if (map_option (map_option show_int) (p_deliveredBlock p)) (delivered_block r),
     delivered_at := set_if (p_deliveredAt p) (delivered_at r),
     dead_letter_reason := set_if (p_deadLetterReason p) (dead_letter_reason r) \<rparr>"

definition pg_insertIfAbsent :: "job_table \<Rightarrow> cctp_job \<Rightarrow> bool \<times> job_table" where
  "pg_insertIfAbsent t j =
     (if \<exists>r \<in> set t. dedup_key r = dedupKey j then (False, t) else (True, t @ [jobToRow j]))"

definition pg_get :: "job_table \<Rightarrow> string \<Rightarrow> cctp_job option" where
  "pg_get t k = (case filter (\<lambda>r. dedup_key r = k) t of [] \<Rightarrow> None | r # _ \<Rightarrow> Some (rowToJob r))"

definition pg_listByState :: "job_table \<Rightarrow> job_state \<Rightarrow> nat \<Rightarrow> cctp_job list" where
  "pg_listByState t st limit =
     map rowToJob (take limit (sort_key detected_at (filter (\<lambda>r. r_state r = st) t)))"

definition pg_transition ::
    "job_table \<Rightarrow> string \<Rightarrow> job_state \<Rightarrow> job_patch \<Rightarrow> int \<Rightarrow> bool \<times> job_table" where
  "pg_transition t k fromState p now =
     (let hit = (\<lambda>r. dedup_key r = k \<and> r_state r = fromState)
      in (length (filter hit t) = 1, map (\<lambda>r. if hit r then setColumns r p now else r) t))"

definition pg_countsByState :: "job_table \<Rightarrow> ((job_state \<times> int) \<times> nat) list" where
  "pg_countsByState t =
     map (\<lambda>k. (k, length (filter (\<lambda>r. (r_state r, destination_domain r) = k) t)))
       (remdups (map (\<lambda>r. (r_state r, destination_domain r)) t))"

record delivered_record =
  d_dedupKey :: string
  d_sourceDomain :: int
  d_destinationDomain :: int
  d_nonce :: string
  d_sourceTxHash :: string
  d_destinationTxHash :: "string option"
  d_destinationBlock :: string
  d_deliveredAt :: int

definition pg_delivered :: "job_table \<Rightarrow> int \<Rightarrow> int \<Rightarrow> nat \<Rightarrow> delivered_record list" where
  "pg_delivered t destinationDom sinceMs limit =
     map (\<lambda>r. \<lparr>d_dedupKey = dedup_key r, d_sourceDomain = source_domain r,
               d_destinationDomain = destination_domain r, d_nonce = r_nonce r,
               d_sourceTxHash = source_tx_hash r, d_destinationTxHash = delivered_tx_hash r,
               d_destinationBlock = (case delivered_block r of None \<Rightarrow> ''null'' | Some b \<Rightarrow> b), d_deliveredAt = the (delivered_at r)\<rparr>)
       (take limit (sort_key (\<lambda>r. the (delivered_at r))
         (filter (\<lambda>r. r_state r = Delivered \<and> destination_domain r = destinationDom
            \<and> (case delivered_at r of None \<Rightarrow> False | Some d \<Rightarrow> sinceMs < d)) t)))"

definition pg_maxSourceBlock :: "job_table \<Rightarrow> int \<Rightarrow> int option" where
  "pg_maxSourceBlock t srcDomain =
     (case map (\<lambda>r. parse_int (source_block r)) (filter (\<lambda>r. source_domain r = srcDomain) t) of
        [] \<Rightarrow> None
      | b # bs \<Rightarrow> Some (fold max bs b))"

section \<open>The in-memory map\<close>

type_synonym job_map = "(string \<times> cctp_job) list"

definition mem_insertIfAbsent :: "job_map \<Rightarrow> cctp_job \<Rightarrow> bool \<times> job_map" where
  "mem_insertIfAbsent m j =
     (case map_of m (dedupKey j) of
        Some _ \<Rightarrow> (False, m)
      | None \<Rightarrow> (True, AList.update (dedupKey j) j m))"

definition mem_get :: "job_map \<Rightarrow> string \<Rightarrow> cctp_job option" where
  "mem_get m k = map_of m k"

definition mem_listByState :: "job_map \<Rightarrow> job_state \<Rightarrow> nat \<Rightarrow> cctp_job list" where
  "mem_listByState m st limit =
     take limit (sort_key detectedAt (filter (\<lambda>j. state j = st) (map snd m)))"

definition mem_transition ::
    "job_map \<Rightarrow> string \<Rightarrow> job_state \<Rightarrow> job_patch \<Rightarrow> int \<Rightarrow> bool \<times> job_map" where
  "mem_transition m k fromState p now =
     (case map_of m k of
        None \<Rightarrow> (False, m)
      | Some j \<Rightarrow> if state j \<noteq> fromState then (False, m)
                 else (True, AList.update k (applyPatch j p now) m))"

fun mem_count :: "((job_state \<times> int) \<times> nat) list \<Rightarrow> cctp_job list \<Rightarrow> ((job_state \<times> int) \<times> nat) list" where
  "mem_count acc [] = acc"
| "mem_count acc (j # js) =
     (let key = (state j, destinationDomain j);
          n = (case map_of acc key of None \<Rightarrow> 0 | Some n \<Rightarrow> n)
      in mem_count (AList.update key (n + 1) acc) js)"

definition mem_countsByState :: "job_map \<Rightarrow> ((job_state \<times> int) \<times> nat) list" where
  "mem_countsByState m = mem_count [] (map snd m)"

definition mem_delivered :: "job_map \<Rightarrow> int \<Rightarrow> int \<Rightarrow> nat \<Rightarrow> delivered_record list" where
  "mem_delivered m destinationDom sinceMs limit =
     map (\<lambda>j. \<lparr>d_dedupKey = dedupKey j, d_sourceDomain = sourceDomain j,
               d_destinationDomain = destinationDomain j, d_nonce = nonce j,
               d_sourceTxHash = sourceTxHash j, d_destinationTxHash = deliveredTxHash j,
               d_destinationBlock = (case deliveredBlock j of None \<Rightarrow> ''null'' | Some b \<Rightarrow> show_int b),
               d_deliveredAt = the (deliveredAt j)\<rparr>)
       (take limit (sort_key (\<lambda>j. the (deliveredAt j))
         (filter (\<lambda>j. state j = Delivered \<and> destinationDomain j = destinationDom
            \<and> (case deliveredAt j of None \<Rightarrow> False | Some d \<Rightarrow> sinceMs < d)) (map snd m))))"

fun mem_max :: "int \<Rightarrow> int option \<Rightarrow> cctp_job list \<Rightarrow> int option" where
  "mem_max srcDomain acc [] = acc"
| "mem_max srcDomain acc (j # js) =
     mem_max srcDomain (if sourceDomain j = srcDomain
                    \<and> (case acc of None \<Rightarrow> True | Some m \<Rightarrow> m < sourceBlock j)
                  then Some (sourceBlock j) else acc) js"

definition mem_maxSourceBlock :: "job_map \<Rightarrow> int \<Rightarrow> int option" where
  "mem_maxSourceBlock m srcDomain = mem_max srcDomain None (map snd m)"


section \<open>Rows and jobs\<close>

lemma rowToJob_jobToRow [simp]: "rowToJob (jobToRow j) = j"
  by (simp add: rowToJob_def jobToRow_def option.map_comp comp_def option.map_ident)

lemma rowToJob_setColumns [simp]: "rowToJob (setColumns r p t) = applyPatch (rowToJob r) p t"
proof -
  have blk: "map_option parse_int (set_if (map_option (map_option show_int) v) old)
      = set_if v (map_option parse_int old)" for v old
    by (cases v) (simp_all add: option.map_comp comp_def option.map_ident)
  show ?thesis by (simp add: rowToJob_def setColumns_def applyPatch_def blk)
qed

lemma rowToJob_fields [simp]:
  "dedupKey (rowToJob r) = dedup_key r" "state (rowToJob r) = r_state r"
  "detectedAt (rowToJob r) = detected_at r" "destinationDomain (rowToJob r) = destination_domain r"
  "deliveredAt (rowToJob r) = delivered_at r" "sourceDomain (rowToJob r) = source_domain r"
  by (simp_all add: rowToJob_def)

lemma jobToRow_key [simp]: "dedup_key (jobToRow j) = dedupKey j"
  by (simp add: jobToRow_def)

lemma setColumns_key [simp]: "dedup_key (setColumns r p t) = dedup_key r"
  by (simp add: setColumns_def)

section \<open>The interface\<close>

text \<open>What the job machine and work discovery rely on: a store of jobs with at most one job per
  key, a claim that never overwrites, an update guarded by the state it leaves, and a listing of
  the oldest jobs of a state.\<close>

locale job_store =
  fixes invar :: "'r \<Rightarrow> bool"
    and lookup :: "'r \<Rightarrow> string \<Rightarrow> cctp_job option"
    and insertIfAbsent :: "'r \<Rightarrow> cctp_job \<Rightarrow> bool \<times> 'r"
    and transition :: "'r \<Rightarrow> string \<Rightarrow> job_state \<Rightarrow> job_patch \<Rightarrow> int \<Rightarrow> bool \<times> 'r"
    and listByState :: "'r \<Rightarrow> job_state \<Rightarrow> nat \<Rightarrow> cctp_job list"
  assumes lookup_key: "invar r \<Longrightarrow> lookup r k = Some j \<Longrightarrow> dedupKey j = k"
    and insert_result: "invar r \<Longrightarrow> fst (insertIfAbsent r j) = (lookup r (dedupKey j) = None)"
    and lookup_insert: "invar r \<Longrightarrow> lookup (snd (insertIfAbsent r j)) k =
      (if k = dedupKey j \<and> lookup r k = None then Some j else lookup r k)"
    and transition_result: "invar r \<Longrightarrow> fst (transition r k f p t) =
      (\<exists>j. lookup r k = Some j \<and> state j = f)"
    and lookup_transition: "invar r \<Longrightarrow> lookup (snd (transition r k f p t)) k' =
      (if k' = k then map_option (\<lambda>j. if state j = f then applyPatch j p t else j) (lookup r k)
       else lookup r k')"
    and list_sound: "invar r \<Longrightarrow> j \<in> set (listByState r s n) \<Longrightarrow>
      lookup r (dedupKey j) = Some j \<and> state j = s"
    and list_distinct: "invar r \<Longrightarrow> distinct (map dedupKey (listByState r s n))"
    and list_sorted: "invar r \<Longrightarrow> sorted (map detectedAt (listByState r s n))"
    and list_limit: "length (listByState r s n) \<le> n"
    and list_oldest: "invar r \<Longrightarrow> lookup r k = Some j' \<Longrightarrow> state j' = s \<Longrightarrow>
      j' \<notin> set (listByState r s n) \<Longrightarrow>
      length (listByState r s n) = n
        \<and> (\<forall>j \<in> set (listByState r s n). detectedAt j \<le> detectedAt j')"
    and invar_insert: "invar r \<Longrightarrow> invar (snd (insertIfAbsent r j))"
    and invar_transition: "invar r \<Longrightarrow> invar (snd (transition r k f p t))"
begin

lemma insert_twice:
  assumes "invar r" and "dedupKey j' = dedupKey j"
  shows "fst (insertIfAbsent (snd (insertIfAbsent r j)) j') = False"
  using assms by (simp add: insert_result lookup_insert invar_insert)

text \<open>A relation on jobs that holds of every job and its patched successor holds of every stored
  job and what it has become.\<close>

lemma transition_related:
  assumes "invar r" and "\<And>j. rel j j"
    and "\<And>j. lookup r k = Some j \<Longrightarrow> state j = f \<Longrightarrow> rel j (applyPatch j p t)"
  shows "rel_option rel (lookup r k') (lookup (snd (transition r k f p t)) k')"
  using assms by (auto simp: lookup_transition option_rel_Some1 option.rel_map
      intro!: option.rel_refl_strong)

lemma transition_all:
  assumes "invar r" and "\<And>k j. lookup r k = Some j \<Longrightarrow> Q j"
    and "\<And>j. lookup r k = Some j \<Longrightarrow> state j = f \<Longrightarrow> Q j \<Longrightarrow> Q (applyPatch j p t)"
    and "lookup (snd (transition r k f p t)) k' = Some j'"
  shows "Q j'"
  using assms by (auto simp: lookup_transition split: if_splits)

text \<open>A listing that is not full lists every job of the state.\<close>

lemma list_complete:
  "invar r \<Longrightarrow> length (listByState r s n) < n \<Longrightarrow> lookup r k = Some j \<Longrightarrow> state j = s \<Longrightarrow>
    j \<in> set (listByState r s n)"
  using list_oldest by fastforce

end


section \<open>Both repositories implement the interface\<close>

text \<open>The prefix of a sorted list holds its least elements.\<close>

lemma take_le_drop:
  assumes "sorted (map f xs)" and "x \<in> set (take n xs)" and "y \<in> set (drop n xs)"
  shows "f x \<le> f y"
proof -
  have "sorted (map f (take n xs) @ map f (drop n xs))"
    using assms(1) by (metis append_take_drop_id map_append)
  then show ?thesis using assms(2,3) by (auto simp: sorted_append)
qed

lemma sorted_map_take: "sorted (map f xs) \<Longrightarrow> sorted (map f (take n xs))"
  by (metis append_take_drop_id map_append sorted_append)

lemma take_oldest:
  assumes "sorted (map f xs)" and "y \<in> set xs" and "y \<notin> set (take n xs)"
  shows "length (take n xs) = n \<and> (\<forall>x \<in> set (take n xs). f x \<le> f y)"
proof -
  have "y \<in> set (take n xs) \<union> set (drop n xs)"
    using assms(2) by (metis append_take_drop_id set_append)
  then have "y \<in> set (drop n xs)" using assms(3) by blast
  then have "n < length xs" by (cases "n < length xs") auto
  moreover have "\<forall>x \<in> set (take n xs). f x \<le> f y"
    using take_le_drop [OF assms(1)] \<open>y \<in> set (drop n xs)\<close> by blast
  ultimately show ?thesis by simp
qed

lemma sort_key_map: "(\<And>x. x \<in> set xs \<Longrightarrow> g (h x) = f x) \<Longrightarrow> sort_key g (map h xs) = map h (sort_key f xs)"
proof (induction xs)
  case Nil
  then show ?case by simp
next
  case (Cons x xs)
  have ins: "insort_key g (h x) (map h ys) = map h (insort_key f x ys)"
    if "\<And>y. y \<in> set ys \<Longrightarrow> g (h y) = f y" for ys
    using that Cons.prems by (induction ys) auto
  show ?case using Cons ins [of "sort_key f xs"] by simp
qed

lemma listByState_sort:
  "pg_listByState t st n = take n (sort_key detectedAt (filter (\<lambda>j. state j = st) (map rowToJob t)))"
proof -
  have "filter (\<lambda>j. state j = st) (map rowToJob t) = map rowToJob (filter (\<lambda>r. r_state r = st) t)"
    by (simp add: filter_map comp_def)
  then show ?thesis
    by (simp add: pg_listByState_def sort_key_map [of _ detectedAt rowToJob detected_at] take_map)
qed

definition pg_invar :: "job_table \<Rightarrow> bool" where
  "pg_invar t = distinct (map dedup_key t)"

lemma pg_get_Nil [simp]: "pg_get [] k = None"
  by (simp add: pg_get_def)

lemma pg_get_Cons [simp]:
  "pg_get (r # t) k = (if dedup_key r = k then Some (rowToJob r) else pg_get t k)"
  by (simp add: pg_get_def)

lemma pg_get_append:
  "pg_get (t @ u) k = (case pg_get t k of None \<Rightarrow> pg_get u k | Some j \<Rightarrow> Some j)"
  by (induction t) simp_all

lemma pg_get_None: "pg_get t k = None \<longleftrightarrow> (\<forall>r \<in> set t. dedup_key r \<noteq> k)"
  by (induction t) auto

lemma pg_get_iff:
  assumes "pg_invar t"
  shows "pg_get t k = Some j \<longleftrightarrow> (\<exists>r \<in> set t. dedup_key r = k \<and> rowToJob r = j)"
  using assms unfolding pg_invar_def
proof (induction t)
  case Nil
  then show ?case by simp
next
  case (Cons r t)
  then have "\<forall>r' \<in> set t. dedup_key r' \<noteq> dedup_key r" by (auto simp: image_iff)
  with Cons show ?case by auto
qed

lemma pg_insert_eq:
  "pg_insertIfAbsent t j =
    (if pg_get t (dedupKey j) = None then (True, t @ [jobToRow j]) else (False, t))"
  by (auto simp: pg_insertIfAbsent_def pg_get_None)

lemma pg_transition_Nil [simp]: "pg_transition [] k f p now = (False, [])"
  by (simp add: pg_transition_def)

lemma pg_transition_Cons:
  "snd (pg_transition (r # t) k f p now) =
    (if dedup_key r = k \<and> r_state r = f then setColumns r p now else r)
      # snd (pg_transition t k f p now)"
  by (simp add: pg_transition_def Let_def)

lemma pg_transition_miss:
  "\<forall>r \<in> set t. dedup_key r \<noteq> k \<Longrightarrow> pg_transition t k f p now = (False, t)"
  by (simp add: pg_transition_def Let_def map_idI cong: filter_cong)

lemma pg_get_transition:
  "pg_get (snd (pg_transition t k f p now)) k' =
    (if k' = k then map_option (\<lambda>j. if state j = f then applyPatch j p now else j) (pg_get t k)
     else pg_get t k')"
  by (induction t) (auto simp: pg_transition_Cons)

lemma pg_transition_hits:
  assumes "pg_invar t"
  shows "fst (pg_transition t k f p now) = (\<exists>j. pg_get t k = Some j \<and> state j = f)"
  using assms unfolding pg_invar_def
proof (induction t)
  case Nil
  then show ?case by simp
next
  case (Cons r t)
  show ?case
  proof (cases "dedup_key r = k")
    case True
    then have "\<forall>r' \<in> set t. dedup_key r' \<noteq> k" using Cons.prems by (auto simp: image_iff)
    then have "filter (\<lambda>r. dedup_key r = k \<and> r_state r = f) t = []"
      by (simp add: filter_empty_conv)
    with True show ?thesis by (simp add: pg_transition_def Let_def)
  next
    case False
    with Cons show ?thesis by (simp add: pg_transition_def Let_def)
  qed
qed

lemma pg_transition_keys:
  "map dedup_key (snd (pg_transition t k f p now)) = map dedup_key t"
  by (simp add: pg_transition_def Let_def comp_def if_distrib [of dedup_key])

interpretation pg: job_store pg_invar pg_get pg_insertIfAbsent pg_transition pg_listByState
proof
  fix r :: job_table and k k' :: string and j j' :: cctp_job and s f :: job_state and n :: nat
    and p :: job_patch and t :: int
  show "pg_invar r \<Longrightarrow> pg_get r k = Some j \<Longrightarrow> dedupKey j = k"
    by (auto simp: pg_get_iff)
  show "pg_invar r \<Longrightarrow> fst (pg_insertIfAbsent r j) = (pg_get r (dedupKey j) = None)"
    by (auto simp: pg_insertIfAbsent_def pg_get_None)
  show "pg_invar r \<Longrightarrow> pg_get (snd (pg_insertIfAbsent r j)) k =
      (if k = dedupKey j \<and> pg_get r k = None then Some j else pg_get r k)"
    by (auto simp: pg_insert_eq pg_get_append split: option.splits)
  show "pg_invar r \<Longrightarrow> fst (pg_transition r k f p t) = (\<exists>j. pg_get r k = Some j \<and> state j = f)"
    by (rule pg_transition_hits)
  show "pg_get (snd (pg_transition r k f p t)) k' =
      (if k' = k then map_option (\<lambda>j. if state j = f then applyPatch j p t else j) (pg_get r k)
       else pg_get r k')"
    by (rule pg_get_transition)
  show "pg_invar r \<Longrightarrow> j \<in> set (pg_listByState r s n) \<Longrightarrow>
      pg_get r (dedupKey j) = Some j \<and> state j = s"
    by (fastforce simp: listByState_sort pg_get_iff dest!: in_set_takeD)
  show "pg_invar r \<Longrightarrow> distinct (map dedupKey (pg_listByState r s n))"
    by (auto simp: pg_listByState_def pg_invar_def comp_def distinct_map filter_map
        intro!: inj_on_subset [of dedup_key "set r"] dest!: in_set_takeD)
  show "sorted (map detectedAt (pg_listByState r s n))"
    by (simp add: listByState_sort sorted_map_take del: take_map)
  show "length (pg_listByState r s n) \<le> n"
    by (simp add: pg_listByState_def)
  show "pg_invar r \<Longrightarrow> pg_get r k = Some j' \<Longrightarrow> state j' = s \<Longrightarrow>
      j' \<notin> set (pg_listByState r s n) \<Longrightarrow>
      length (pg_listByState r s n) = n
        \<and> (\<forall>j \<in> set (pg_listByState r s n). detectedAt j \<le> detectedAt j')"
    unfolding listByState_sort by (rule take_oldest) (auto simp: pg_get_iff)
  show "pg_invar r \<Longrightarrow> pg_invar (snd (pg_insertIfAbsent r j))"
    by (auto simp: pg_insertIfAbsent_def pg_invar_def)
  show "pg_invar r \<Longrightarrow> pg_invar (snd (pg_transition r k f p t))"
    by (simp add: pg_invar_def pg_transition_keys)
qed


definition mem_invar :: "job_map \<Rightarrow> bool" where
  "mem_invar m = (distinct (map fst m) \<and> (\<forall>(k, j) \<in> set m. dedupKey j = k))"

lemma mem_invar_keys: "mem_invar m \<Longrightarrow> map dedupKey (map snd m) = map fst m"
  by (auto simp: mem_invar_def)

lemma mem_lookup_key: "mem_invar m \<Longrightarrow> map_of m k = Some j \<Longrightarrow> dedupKey j = k"
  by (auto simp: mem_invar_def dest: map_of_SomeD)

lemma mem_value_iff:
  assumes "mem_invar m"
  shows "j \<in> snd ` set m \<longleftrightarrow> mem_get m (dedupKey j) = Some j"
proof
  assume "j \<in> snd ` set m"
  then obtain k where kj: "(k, j) \<in> set m" by auto
  then have "dedupKey j = k" using assms by (auto simp: mem_invar_def)
  then show "mem_get m (dedupKey j) = Some j"
    using kj assms by (simp add: mem_get_def mem_invar_def)
next
  assume "mem_get m (dedupKey j) = Some j"
  then show "j \<in> snd ` set m" unfolding mem_get_def by (metis image_eqI map_of_SomeD snd_conv)
qed

lemma set_alist_update: "set (AList.update k v m) \<subseteq> insert (k, v) (set m)"
  by (induction m) auto

lemma mem_update_invar:
  assumes "mem_invar m" and "dedupKey j = k"
  shows "mem_invar (AList.update k j m)"
proof -
  have "distinct (map fst (AList.update k j m))"
    using assms(1) by (simp add: mem_invar_def distinct_update)
  moreover have "\<forall>(k', j') \<in> set (AList.update k j m). dedupKey j' = k'"
    using assms set_alist_update [of k j m] by (fastforce simp: mem_invar_def)
  ultimately show ?thesis by (simp add: mem_invar_def)
qed

interpretation mem: job_store mem_invar mem_get mem_insertIfAbsent mem_transition mem_listByState
proof
  fix r :: job_map and k k' :: string and j j' :: cctp_job and s f :: job_state and n :: nat
    and p :: job_patch and t :: int
  have sorted: "mem_listByState r s n
      = take n (sort_key detectedAt (filter (\<lambda>j. state j = s) (map snd r)))"
    by (simp add: mem_listByState_def)
  show "mem_invar r \<Longrightarrow> mem_get r k = Some j \<Longrightarrow> dedupKey j = k"
    by (simp add: mem_get_def mem_lookup_key)
  show "mem_invar r \<Longrightarrow> fst (mem_insertIfAbsent r j) = (mem_get r (dedupKey j) = None)"
    by (simp add: mem_insertIfAbsent_def mem_get_def split: option.splits)
  show "mem_invar r \<Longrightarrow> mem_get (snd (mem_insertIfAbsent r j)) k =
      (if k = dedupKey j \<and> mem_get r k = None then Some j else mem_get r k)"
    by (auto simp: mem_insertIfAbsent_def mem_get_def update_conv' split: option.splits)
  show "mem_invar r \<Longrightarrow> fst (mem_transition r k f p t) = (\<exists>j. mem_get r k = Some j \<and> state j = f)"
    by (simp add: mem_transition_def mem_get_def split: option.splits)
  show "mem_get (snd (mem_transition r k f p t)) k' =
      (if k' = k then map_option (\<lambda>j. if state j = f then applyPatch j p t else j) (mem_get r k)
       else mem_get r k')"
    by (simp add: mem_transition_def mem_get_def update_conv' split: option.splits)
  show "mem_invar r \<Longrightarrow> j \<in> set (mem_listByState r s n) \<Longrightarrow>
      mem_get r (dedupKey j) = Some j \<and> state j = s"
    unfolding sorted by (auto simp: mem_value_iff [symmetric] dest!: in_set_takeD)
  show "mem_invar r \<Longrightarrow> distinct (map dedupKey (mem_listByState r s n))"
  proof -
    assume inv: "mem_invar r"
    have "distinct (map dedupKey (map snd r))"
      using inv by (simp add: mem_invar_keys del: map_map) (simp add: mem_invar_def)
    then have "distinct (map dedupKey (filter (\<lambda>j. state j = s) (map snd r)))"
      by (rule distinct_map_filter)
    then have "distinct (map dedupKey (sort_key detectedAt (filter (\<lambda>j. state j = s) (map snd r))))"
      by (simp only: distinct_map distinct_sort set_sort)
    then show ?thesis unfolding sorted take_map [symmetric] by (rule distinct_take)
  qed
  show "sorted (map detectedAt (mem_listByState r s n))"
    unfolding sorted by (rule sorted_map_take) simp
  show "length (mem_listByState r s n) \<le> n"
    by (simp add: sorted)
  show "mem_invar r \<Longrightarrow> mem_get r k = Some j' \<Longrightarrow> state j' = s \<Longrightarrow>
      j' \<notin> set (mem_listByState r s n) \<Longrightarrow>
      length (mem_listByState r s n) = n
        \<and> (\<forall>j \<in> set (mem_listByState r s n). detectedAt j \<le> detectedAt j')"
    unfolding sorted
    by (rule take_oldest) (auto simp: mem_get_def dest: map_of_SomeD intro!: image_eqI)
  show "mem_invar r \<Longrightarrow> mem_invar (snd (mem_insertIfAbsent r j))"
    by (auto simp: mem_insertIfAbsent_def mem_update_invar split: option.splits)
  show "mem_invar r \<Longrightarrow> mem_invar (snd (mem_transition r k f p t))"
    by (auto simp: mem_transition_def intro!: mem_update_invar
        dest: mem_lookup_key split: option.splits)
qed


section \<open>The table refines the map\<close>

text \<open>The map a table stands for. A row is canonical when its bigint text is what the driver
  writes; the in-memory feed prints the number, the Postgres one the column.\<close>

definition mem_of :: "job_table \<Rightarrow> job_map" where
  "mem_of t = map (\<lambda>r. (dedup_key r, rowToJob r)) t"

definition canonical_row :: "job_row \<Rightarrow> bool" where
  "canonical_row r = (case delivered_block r of None \<Rightarrow> True | Some b \<Rightarrow> show_int (parse_int b) = b)"

lemma mem_of_simps [simp]: "mem_of [] = []" "mem_of (r # t) = (dedup_key r, rowToJob r) # mem_of t"
  "mem_of (t @ u) = mem_of t @ mem_of u"
  by (simp_all add: mem_of_def)

lemma values_mem_of [simp]: "map snd (mem_of t) = map rowToJob t"
  by (simp add: mem_of_def)

lemma mem_get_mem_of: "map_of (mem_of t) k = pg_get t k"
  by (induction t) simp_all

lemma alist_update_fresh: "map_of m k = None \<Longrightarrow> AList.update k v m = m @ [(k, v)]"
  by (induction m) (auto split: if_splits)

lemma refine_insert:
  "mem_insertIfAbsent (mem_of t) j = apsnd mem_of (pg_insertIfAbsent t j)"
  by (auto simp: mem_insertIfAbsent_def pg_insert_eq mem_get_mem_of alist_update_fresh
      split: option.splits)

lemma refine_transition_state:
  assumes "pg_invar t" and "pg_get t k = Some j" and "state j = f"
  shows "AList.update k (applyPatch j p now) (mem_of t) = mem_of (snd (pg_transition t k f p now))"
  using assms
proof (induction t)
  case Nil
  then show ?case by simp
next
  case (Cons r t)
  then have inv: "pg_invar t" by (simp add: pg_invar_def)
  show ?case
  proof (cases "dedup_key r = k")
    case True
    then have "\<forall>r' \<in> set t. dedup_key r' \<noteq> k" using Cons.prems(1) by (auto simp: pg_invar_def image_iff)
    with True Cons.prems show ?thesis by (auto simp: pg_transition_Cons pg_transition_miss)
  next
    case False
    with Cons inv show ?thesis by (simp add: pg_transition_Cons)
  qed
qed

lemma pg_transition_stale:
  assumes "\<not> (\<exists>j. pg_get t k = Some j \<and> state j = f)" and "pg_invar t"
  shows "pg_transition t k f p now = (False, t)"
proof -
  have "\<forall>r \<in> set t. \<not> (dedup_key r = k \<and> r_state r = f)"
    using assms by (auto simp: pg_get_iff)
  then have "filter (\<lambda>r. dedup_key r = k \<and> r_state r = f) t = []"
    and "map (\<lambda>r. if dedup_key r = k \<and> r_state r = f then setColumns r p now else r) t = t"
    by (auto simp: filter_empty_conv intro!: map_idI)
  then show ?thesis by (simp add: pg_transition_def Let_def)
qed

lemma refine_transition:
  assumes "pg_invar t"
  shows "mem_transition (mem_of t) k f p now = apsnd mem_of (pg_transition t k f p now)"
proof (cases "\<exists>j. pg_get t k = Some j \<and> state j = f")
  case True
  then obtain j where j: "pg_get t k = Some j" "state j = f" by blast
  have "fst (pg_transition t k f p now)" using pg_transition_hits [OF assms] j by blast
  with j refine_transition_state [OF assms j] show ?thesis
    by (cases "pg_transition t k f p now") (simp add: mem_transition_def mem_get_mem_of)
next
  case False
  then show ?thesis
    by (auto simp: pg_transition_stale [OF False assms] mem_transition_def mem_get_mem_of
        split: option.splits)
qed

lemma refine_list: "mem_listByState (mem_of t) s n = pg_listByState t s n"
  by (simp add: mem_listByState_def listByState_sort del: map_map)

lemma mem_max_fold:
  "mem_max d acc js =
    (case acc of
       None \<Rightarrow> (case map sourceBlock (filter (\<lambda>j. sourceDomain j = d) js) of
                  [] \<Rightarrow> None | b # bs \<Rightarrow> Some (fold max bs b))
     | Some m \<Rightarrow> Some (fold max (map sourceBlock (filter (\<lambda>j. sourceDomain j = d) js)) m))"
proof (induction js arbitrary: acc)
  case Nil
  then show ?case by (simp split: option.splits)
next
  case (Cons j js)
  have "(if m < sourceBlock j then sourceBlock j else m) = max (sourceBlock j) m" for m
    by simp
  with Cons show ?case by (cases acc) simp_all
qed

lemma refine_max: "mem_maxSourceBlock (mem_of t) d = pg_maxSourceBlock t d"
proof -
  have "map sourceBlock (filter (\<lambda>j. sourceDomain j = d) (map rowToJob t))
      = map (\<lambda>r. parse_int (source_block r)) (filter (\<lambda>r. source_domain r = d) t)"
    by (simp add: filter_map comp_def rowToJob_def)
  then show ?thesis
    by (simp only: mem_maxSourceBlock_def pg_maxSourceBlock_def mem_max_fold values_mem_of
        option.case)
qed

lemma refine_delivered:
  assumes "list_all canonical_row t"
  shows "mem_delivered (mem_of t) d since n = pg_delivered t d since n"
proof -
  let ?Q = "\<lambda>r. r_state r = Delivered \<and> destination_domain r = d
     \<and> (case delivered_at r of None \<Rightarrow> False | Some x \<Rightarrow> since < x)"
  have flt: "filter (\<lambda>j. state j = Delivered \<and> destinationDomain j = d
        \<and> (case deliveredAt j of None \<Rightarrow> False | Some x \<Rightarrow> since < x)) (map rowToJob t)
      = map rowToJob (filter ?Q t)"
    by (simp add: filter_map comp_def)
  have block: "(case deliveredBlock (rowToJob r) of None \<Rightarrow> ''null'' | Some b \<Rightarrow> show_int b)
      = (case delivered_block r of None \<Rightarrow> ''null'' | Some b \<Rightarrow> b)"
    if "r \<in> set (take n (sort_key (\<lambda>r. the (delivered_at r)) (filter ?Q t)))" for r
  proof -
    have "r \<in> set t" using in_set_takeD [OF that] by simp
    then have "canonical_row r" using assms by (simp add: list_all_iff)
    then show ?thesis by (simp add: canonical_row_def rowToJob_def split: option.splits)
  qed
  show ?thesis
    unfolding mem_delivered_def pg_delivered_def values_mem_of flt
    by (simp add: sort_key_map [of _ "\<lambda>j. the (deliveredAt j)" rowToJob "\<lambda>r. the (delivered_at r)"]
        take_map block) (simp add: rowToJob_def)
qed

lemma mem_count_map_of:
  "map_of (mem_count acc js) key =
    (case map_of acc key of
       None \<Rightarrow> if filter (\<lambda>j. (state j, destinationDomain j) = key) js = [] then None
               else Some (length (filter (\<lambda>j. (state j, destinationDomain j) = key) js))
     | Some n \<Rightarrow> Some (n + length (filter (\<lambda>j. (state j, destinationDomain j) = key) js)))"
proof (induction js arbitrary: acc)
  case Nil
  then show ?case by (simp split: option.splits)
next
  case (Cons j js)
  then show ?case by (auto simp: Let_def update_conv' split: option.splits)
qed

lemma map_of_graph: "map_of (map (\<lambda>k. (k, f k)) ks) key = (if key \<in> set ks then Some (f key) else None)"
  by (induction ks) auto

lemma refine_counts:
  "map_of (mem_countsByState (mem_of t)) key = map_of (pg_countsByState t) key"
  by (auto simp: mem_countsByState_def pg_countsByState_def mem_count_map_of map_of_graph
      filter_map comp_def filter_empty_conv)


section \<open>The delivered feed\<close>

definition delivered_since :: "job_row \<Rightarrow> int \<Rightarrow> int \<Rightarrow> bool" where
  "delivered_since r d since \<longleftrightarrow> r_state r = Delivered \<and> destination_domain r = d
     \<and> (case delivered_at r of None \<Rightarrow> False | Some x \<Rightarrow> since < x)"

definition delivered_page :: "job_table \<Rightarrow> int \<Rightarrow> int \<Rightarrow> nat \<Rightarrow> job_row list" where
  "delivered_page t d since n =
     take n (sort_key (\<lambda>r. the (delivered_at r)) (filter (\<lambda>r. delivered_since r d since) t))"

lemma delivered_of_page:
  "map (\<lambda>x. (d_dedupKey x, d_deliveredAt x)) (pg_delivered t d since n)
    = map (\<lambda>r. (dedup_key r, the (delivered_at r))) (delivered_page t d since n)"
  by (simp add: pg_delivered_def delivered_page_def delivered_since_def)

lemma delivered_keys:
  "d_dedupKey ` set (pg_delivered t d since n) = dedup_key ` set (delivered_page t d since n)"
proof -
  have "fst ` set (map (\<lambda>x. (d_dedupKey x, d_deliveredAt x)) (pg_delivered t d since n))
      = fst ` set (map (\<lambda>r. (dedup_key r, the (delivered_at r))) (delivered_page t d since n))"
    by (simp only: delivered_of_page)
  then show ?thesis by (simp add: image_image)
qed

lemma delivered_times:
  "map d_deliveredAt (pg_delivered t d since n)
    = map (\<lambda>r. the (delivered_at r)) (delivered_page t d since n)"
proof -
  have "map snd (map (\<lambda>x. (d_dedupKey x, d_deliveredAt x)) (pg_delivered t d since n))
      = map snd (map (\<lambda>r. (dedup_key r, the (delivered_at r))) (delivered_page t d since n))"
    by (simp only: delivered_of_page)
  then show ?thesis by (simp add: comp_def)
qed

lemma delivered_page_sound:
  "r \<in> set (delivered_page t d since n) \<Longrightarrow> r \<in> set t \<and> delivered_since r d since"
  by (auto simp: delivered_page_def dest!: in_set_takeD)

lemma delivered_page_oldest:
  assumes "r \<in> set t" and "delivered_since r d since" and "r \<notin> set (delivered_page t d since n)"
  shows "length (delivered_page t d since n) = n
    \<and> (\<forall>q \<in> set (delivered_page t d since n). the (delivered_at q) \<le> the (delivered_at r))"
  using assms unfolding delivered_page_def by (intro take_oldest) auto

lemma delivered_length: "length (pg_delivered t d since n) = length (delivered_page t d since n)"
  using arg_cong [OF delivered_times, of length] by simp

section \<open>Properties\<close>

definition demo_job :: cctp_job where
  "demo_job = \<lparr>dedupKey = ''0:42'', messageHash = ''0xaa'', messageBytes = ''0x00'', sourceDomain = 0,
     destinationDomain = 3, nonce = ''42'', sourceTxHash = ''0xbb'', sourceBlock = 17,
     state = Detected, detectedAt = 1000, pollAttempts = 0, lastIrisStatus = None,
     attestation = None, relayMessage = None, retryAttempts = 0, nextRetryAt = None,
     submittedTxHash = None, submittedAt = None, deliveredTxHash = None, deliveredBlock = None,
     deliveredAt = None, deadLetterReason = None, updatedAt = 1000\<rparr>"

definition demo_delivered :: "string \<Rightarrow> int \<Rightarrow> cctp_job" where
  "demo_delivered k at = demo_job\<lparr>dedupKey := k, state := Delivered,
     deliveredTxHash := Some ''0xcc'', deliveredBlock := Some 99, deliveredAt := Some at\<rparr>"


lemma demo_invar: "pg_invar [jobToRow demo_job, jobToRow (demo_delivered ''0:43'' 5)]"
  by (simp add: pg_invar_def demo_delivered_def demo_job_def)


text \<open>On a table whose bigint text is canonical, as every insert and patch writes it, the
  delivered feed, the count per state and destination and the greatest source block of a domain
  are those of the in-memory repository.\<close>

theorem feeds_agree:
  assumes "list_all canonical_row t"
  shows "mem_delivered (mem_of t) d since n = pg_delivered t d since n
    \<and> mem_maxSourceBlock (mem_of t) d = pg_maxSourceBlock t d
    \<and> map_of (mem_countsByState (mem_of t)) key = map_of (pg_countsByState t) key
    \<and> list_all canonical_row (snd (pg_insertIfAbsent t j))
    \<and> list_all canonical_row (snd (pg_transition t k f p now))"
proof -
  have set: "canonical_row (setColumns r p now)" if "canonical_row r" for r
    using that
    by (cases "p_deliveredBlock p")
      (simp_all add: canonical_row_def setColumns_def set_if_def split: option.splits)
  have new: "canonical_row (jobToRow j)"
    by (simp add: canonical_row_def jobToRow_def split: option.splits)
  have "list_all canonical_row (snd (pg_transition t k f p now))"
    using assms set by (auto simp: pg_transition_def Let_def list_all_iff)
  moreover have "list_all canonical_row (snd (pg_insertIfAbsent t j))"
    using assms new by (simp add: pg_insertIfAbsent_def)
  ultimately show ?thesis
    using assms by (simp add: refine_delivered refine_max refine_counts)
qed

theorem feeds_agree_witness:
  "mem_delivered (mem_of [jobToRow (demo_delivered ''0:43'' 5)]) 3 0 10
     = pg_delivered [jobToRow (demo_delivered ''0:43'' 5)] 3 0 10"
proof -
  have "list_all canonical_row [jobToRow (demo_delivered ''0:43'' 5)]"
    by (simp add: canonical_row_def jobToRow_def demo_delivered_def)
  from feeds_agree [OF this] show ?thesis by blast
qed

text \<open>A job claimed under a fresh key is read back field for field, its block number and the
  other bigints unchanged by their passage through text; no other job is touched; and claiming
  the key again, with whatever job, answers false and changes nothing.\<close>

theorem claim_reads_back:
  assumes "pg_invar t" and "pg_get t (dedupKey j) = None" and "dedupKey j' = dedupKey j"
  shows "fst (pg_insertIfAbsent t j)
    \<and> pg_get (snd (pg_insertIfAbsent t j)) (dedupKey j) = Some j
    \<and> (\<forall>k. k \<noteq> dedupKey j \<longrightarrow> pg_get (snd (pg_insertIfAbsent t j)) k = pg_get t k)
    \<and> pg_insertIfAbsent (snd (pg_insertIfAbsent t j)) j' = (False, snd (pg_insertIfAbsent t j))"
  using assms
  by (simp add: pg.insert_result pg.lookup_insert)
    (simp add: pg_insert_eq pg_get_append)

theorem claim_reads_back_witness:
  "pg_get (snd (pg_insertIfAbsent [jobToRow demo_job] (demo_delivered ''0:43'' 5))) ''0:43''
     = Some (demo_delivered ''0:43'' 5)"
proof -
  have "pg_invar [jobToRow demo_job]" by (simp add: pg_invar_def)
  moreover have "pg_get [jobToRow demo_job] (dedupKey (demo_delivered ''0:43'' 5)) = None"
    by (simp add: demo_job_def demo_delivered_def)
  ultimately have "pg_get (snd (pg_insertIfAbsent [jobToRow demo_job] (demo_delivered ''0:43'' 5)))
      (dedupKey (demo_delivered ''0:43'' 5)) = Some (demo_delivered ''0:43'' 5)"
    using claim_reads_back by blast
  then show ?thesis by (simp add: demo_delivered_def)
qed

text \<open>The transition is a compare-and-set: it answers true exactly when the job is in the state
  the caller names, and of two callers that both want to move a job out of one state, the second
  is refused and changes nothing.\<close>

theorem transition_compare_and_set:
  assumes "pg_invar t" and "p_state p = Some to" and "to \<noteq> from"
  shows "fst (pg_transition t k from p now) = (\<exists>j. pg_get t k = Some j \<and> state j = from)
    \<and> pg_transition (snd (pg_transition t k from p now)) k from p' now'
        = (False, snd (pg_transition t k from p now))"
proof -
  let ?t' = "snd (pg_transition t k from p now)"
  have left: "state (applyPatch j p now) \<noteq> from" for j
    using assms(2,3) by (simp add: applyPatch_def)
  have stale: "\<not> (\<exists>j. pg_get ?t' k = Some j \<and> state j = from)"
    using left by (cases "pg_get t k") (auto simp: pg_get_transition)
  have "pg_transition ?t' k from p' now' = (False, ?t')"
    by (rule pg_transition_stale [OF stale pg.invar_transition [OF assms(1)]])
  then show ?thesis using pg_transition_hits [OF assms(1)] by blast
qed

theorem transition_compare_and_set_witness:
  "fst (pg_transition [jobToRow demo_job] ''0:42'' Detected (no_patch\<lparr>p_state := Some Skipped\<rparr>) 7)
    \<and> \<not> fst (pg_transition (snd (pg_transition [jobToRow demo_job] ''0:42'' Detected
         (no_patch\<lparr>p_state := Some Skipped\<rparr>) 7)) ''0:42'' Detected no_patch 8)"
proof -
  have inv: "pg_invar [jobToRow demo_job]" by (simp add: pg_invar_def)
  have get: "pg_get [jobToRow demo_job] ''0:42'' = Some demo_job" by (simp add: demo_job_def)
  have det: "state demo_job = Detected" by (simp add: demo_job_def)
  have pst: "p_state (no_patch\<lparr>p_state := Some Skipped\<rparr>) = Some Skipped" by simp
  show ?thesis
    using transition_compare_and_set [OF inv pst, of Detected "''0:42''" 7 no_patch 8] get det
    by auto
qed

text \<open>A page of the delivered feed is in delivery order, holds only records after the cursor and
  at most as many as asked for; and it skips nothing: every job delivered to the destination
  after the cursor is on it when the page is not full, and also when the job was delivered
  strictly before the last record of the page, so a reader that moves its cursor there loses at
  most records of that same millisecond.\<close>

theorem delivered_page_complete:
  assumes "r \<in> set t" and "delivered_since r d since"
    and "length (pg_delivered t d since n) < n
      \<or> (\<exists>q \<in> set (pg_delivered t d since n). the (delivered_at r) < d_deliveredAt q)"
  shows "dedup_key r \<in> d_dedupKey ` set (pg_delivered t d since n)
    \<and> sorted (map d_deliveredAt (pg_delivered t d since n))
    \<and> (\<forall>q \<in> set (pg_delivered t d since n). since < d_deliveredAt q)
    \<and> length (pg_delivered t d since n) \<le> n"
proof -
  let ?page = "delivered_page t d since n"
  have times: "d_deliveredAt ` set (pg_delivered t d since n) = (\<lambda>r. the (delivered_at r)) ` set ?page"
    using arg_cong [OF delivered_times, of set] by simp
  have "r \<in> set ?page"
  proof (rule ccontr)
    assume "r \<notin> set ?page"
    from delivered_page_oldest [OF assms(1,2) this] have full: "length ?page = n"
      and old: "\<forall>q \<in> set ?page. the (delivered_at q) \<le> the (delivered_at r)" by blast+
    from full have "\<exists>q \<in> set (pg_delivered t d since n). the (delivered_at r) < d_deliveredAt q"
      using assms(3) by (simp add: delivered_length)
    then have "\<exists>x \<in> (\<lambda>r. the (delivered_at r)) ` set ?page. the (delivered_at r) < x"
      unfolding times [symmetric] by blast
    with old show False by fastforce
  qed
  moreover have "\<forall>q \<in> set (pg_delivered t d since n). since < d_deliveredAt q"
  proof -
    have "\<forall>x \<in> (\<lambda>r. the (delivered_at r)) ` set ?page. since < x"
      by (auto simp: delivered_since_def dest!: delivered_page_sound split: option.splits)
    then show ?thesis unfolding times [symmetric] by blast
  qed
  moreover have "sorted (map d_deliveredAt (pg_delivered t d since n))"
    unfolding delivered_times delivered_page_def by (rule sorted_map_take) simp
  moreover have "length ?page \<le> n" by (simp add: delivered_page_def)
  ultimately show ?thesis by (simp add: delivered_keys delivered_length)
qed

definition demo_feed :: job_table where
  "demo_feed = map jobToRow [demo_delivered ''a'' 5, demo_delivered ''b'' 5, demo_delivered ''c'' 4]"

lemma demo_feed_pages:
  "map d_dedupKey (pg_delivered demo_feed 3 0 2) = [''c'', ''a'']"
  "map d_deliveredAt (pg_delivered demo_feed 3 0 2) = [4, 5]"
  "pg_delivered demo_feed 3 5 2 = []"
  by (simp_all add: pg_delivered_def demo_feed_def jobToRow_def demo_delivered_def demo_job_def)

theorem delivered_page_complete_witness:
  "''c'' \<in> d_dedupKey ` set (pg_delivered demo_feed 3 0 2)"
proof -
  have "5 \<in> set (map d_deliveredAt (pg_delivered demo_feed 3 0 2))"
    by (simp add: demo_feed_pages del: set_map)
  then have "\<exists>q \<in> set (pg_delivered demo_feed 3 0 2).
      the (delivered_at (jobToRow (demo_delivered ''c'' 4))) < d_deliveredAt q"
    by (force simp: jobToRow_def demo_delivered_def)
  then have "dedup_key (jobToRow (demo_delivered ''c'' 4)) \<in> d_dedupKey ` set (pg_delivered demo_feed 3 0 2)"
    using delivered_page_complete [of "jobToRow (demo_delivered ''c'' 4)" demo_feed 3 0 2]
    by (simp add: demo_feed_def delivered_since_def jobToRow_def demo_delivered_def demo_job_def)
  then show ?thesis by (simp add: demo_delivered_def)
qed

text \<open>The cursor is strict, so a record that shares the delivery time of the last record of a
  full page and did not fit on it is never served to a reader that continues from that record's
  time: no later page, of any size, holds it.\<close>

theorem delivered_tie_is_lost:
  assumes "pg_invar t" and "r \<in> set t" and "delivered_since r d since"
    and "dedup_key r \<notin> d_dedupKey ` set (pg_delivered t d since n)"
    and "q \<in> set (pg_delivered t d since n)" and "d_deliveredAt q = the (delivered_at r)"
    and "d_deliveredAt q \<le> cursor"
  shows "dedup_key r \<notin> d_dedupKey ` set (pg_delivered t d cursor m)"
proof
  assume "dedup_key r \<in> d_dedupKey ` set (pg_delivered t d cursor m)"
  then obtain r' where r': "r' \<in> set (delivered_page t d cursor m)" "dedup_key r' = dedup_key r"
    by (auto simp: delivered_keys)
  then have "r' \<in> set t" "delivered_since r' d cursor" using delivered_page_sound by blast+
  moreover have "r' = r"
    using assms(1,2) r'(2) \<open>r' \<in> set t\<close> by (auto simp: pg_invar_def distinct_map dest: inj_onD)
  ultimately show False using assms(6,7) by (auto simp: delivered_since_def split: option.splits)
qed

theorem delivered_tie_is_lost_witness:
  "\<exists>q \<in> set (pg_delivered demo_feed 3 0 2). d_deliveredAt q = 5
    \<and> ''b'' \<notin> d_dedupKey ` set (pg_delivered demo_feed 3 0 2)
    \<and> ''b'' \<notin> d_dedupKey ` set (pg_delivered demo_feed 3 (d_deliveredAt q) 100)"
proof -
  have "5 \<in> set (map d_deliveredAt (pg_delivered demo_feed 3 0 2))"
    by (simp add: demo_feed_pages del: set_map)
  then obtain q where q: "q \<in> set (pg_delivered demo_feed 3 0 2)" "d_deliveredAt q = 5" by auto
  have keys: "d_dedupKey ` set (pg_delivered demo_feed 3 0 2) = {''c'', ''a''}"
    using arg_cong [OF demo_feed_pages(1), of set] by simp
  have inv: "pg_invar demo_feed" by (simp add: pg_invar_def demo_feed_def demo_delivered_def)
  let ?r = "jobToRow (demo_delivered ''b'' 5)"
  have r: "?r \<in> set demo_feed" "delivered_since ?r 3 0" "dedup_key ?r = ''b''" "the (delivered_at ?r) = 5"
    by (simp_all add: demo_feed_def delivered_since_def jobToRow_def demo_delivered_def demo_job_def)
  have "''b'' \<notin> d_dedupKey ` set (pg_delivered demo_feed 3 (d_deliveredAt q) 100)"
  proof -
    have miss: "dedup_key ?r \<notin> d_dedupKey ` set (pg_delivered demo_feed 3 0 2)"
      unfolding r(3) keys by simp
    have tie: "d_deliveredAt q = the (delivered_at ?r)" using q(2) r(4) by (rule trans [OF _ sym])
    show ?thesis
      using delivered_tie_is_lost [OF inv r(1,2) miss q(1) tie order_refl] unfolding r(3) .
  qed
  moreover have "''b'' \<notin> d_dedupKey ` set (pg_delivered demo_feed 3 0 2)" unfolding keys by simp
  ultimately show ?thesis using q by blast
qed

end
