(* ===== verification/IndexedReader.thy ===== *)
theory IndexedReader
  imports JobsRepo
begin

text \<open>
  \<open>actor/src/db/indexed-reader.ts\<close>: the actor's read-only access to what the watcher publishes:
  the work-discovery query, the lookup of received messages, and the indexing progress with the
  decoding of Ponder's checkpoint text; in its Postgres and its in-memory implementation, and the
  contract of the discovery query as the locale \<open>message_source\<close>.

  The watcher's schema is the record \<open>watcher_view\<close>. A row of the sent view is the
  \<^typ>\<open>indexed_message\<close> the reader makes of it (the row conversion only renames columns and
  converts number types). A query that fails because the view does not exist is \<open>None\<close>.
\<close>

section \<open>The watcher's views\<close>

record ponder_row =
  ck_chain_id :: "int option"
  ck_latest :: "string option"

record watcher_view =
  sent_rows :: "indexed_message list"
  received_rows :: "(int \<times> string) list"
  checkpoint_rows :: "ponder_row list option"

text \<open>A JavaScript \<open>Map\<close> from chain id to block, in insertion order.\<close>

type_synonym block_gate = "(int \<times> int) list"

section \<open>The Postgres reader\<close>

definition pg_unclaimedMessages ::
    "watcher_view \<Rightarrow> job_table \<Rightarrow> block_gate \<Rightarrow> nat \<Rightarrow> indexed_message list" where
  "pg_unclaimedMessages v jobs gate limit =
     (if gate = [] then []
      else let joined = concat (map (\<lambda>s. map (\<lambda>g. (s, snd g))
                 (filter (\<lambda>g. fst g = m_chainId s) gate)) (sent_rows v));
               eligible = filter (\<lambda>(s, max_block).
                 \<not> list_ex (\<lambda>j. dedup_key j = m_id s) jobs \<and> m_blockNumber s \<le> max_block) joined
           in take limit (sort_key m_blockNumber (map fst eligible)))"

definition pg_messageReceivedExists :: "watcher_view \<Rightarrow> int \<Rightarrow> string \<Rightarrow> bool" where
  "pg_messageReceivedExists v srcDomain n = list_ex (\<lambda>r. r = (srcDomain, n)) (received_rows v)"

record checkpoint =
  c_blockTimestamp :: int
  c_chainId :: int
  c_blockNumber :: int

definition decodePonderCheckpoint :: "string \<Rightarrow> checkpoint option" where
  "decodePonderCheckpoint s =
     (if \<not> (length s = 75 \<and> list_all is_digit s) then None
      else Some \<lparr>c_blockTimestamp = int (parse_dec (js_slice 0 10 s)),
                 c_chainId = int (parse_dec (js_slice 10 26 s)),
                 c_blockNumber = int (parse_dec (js_slice 26 42 s))\<rparr>)"

fun progress_rows :: "ponder_row list \<Rightarrow> chain_progress list" where
  "progress_rows [] = []"
| "progress_rows (r # rs) =
     (case ck_chain_id r of
        None \<Rightarrow> progress_rows rs
      | Some c \<Rightarrow> (case ck_latest r of
          None \<Rightarrow> progress_rows rs
        | Some s \<Rightarrow> (case decodePonderCheckpoint s of
            None \<Rightarrow> progress_rows rs
          | Some d \<Rightarrow> \<lparr>cp_chainId = c, cp_lastIndexedBlock = c_blockNumber d,
                        cp_lastIndexedBlockTimestamp = Some (c_blockTimestamp d * 1000),
                        cp_ready = True\<rparr> # progress_rows rs)))"

definition pg_watcherProgress :: "watcher_view \<Rightarrow> chain_progress list" where
  "pg_watcherProgress v = (case checkpoint_rows v of None \<Rightarrow> [] | Some rs \<Rightarrow> progress_rows rs)"

section \<open>The in-memory reader\<close>

text \<open>The loop tests the limit after the push: \<open>out\<close> is built in order and the loop breaks once
  it holds \<open>limit\<close> messages or more.\<close>

fun mem_unclaimed_loop ::
    "(string \<Rightarrow> bool) \<Rightarrow> block_gate \<Rightarrow> nat \<Rightarrow> indexed_message list \<Rightarrow> indexed_message list
      \<Rightarrow> indexed_message list" where
  "mem_unclaimed_loop claimed gate limit out [] = out"
| "mem_unclaimed_loop claimed gate limit out (m # ms) =
     (case map_of gate (m_chainId m) of
        None \<Rightarrow> mem_unclaimed_loop claimed gate limit out ms
      | Some g \<Rightarrow>
          if g < m_blockNumber m \<or> claimed (m_id m) then mem_unclaimed_loop claimed gate limit out ms
          else let out' = out @ [m]
               in if limit \<le> length out' then out' else mem_unclaimed_loop claimed gate limit out' ms)"

definition mem_unclaimedMessages ::
    "indexed_message list \<Rightarrow> (string \<Rightarrow> bool) \<Rightarrow> block_gate \<Rightarrow> nat \<Rightarrow> indexed_message list" where
  "mem_unclaimedMessages messages claimed gate limit =
     mem_unclaimed_loop claimed gate limit [] (sort_key m_blockNumber messages)"

section \<open>The contract of the discovery query\<close>

text \<open>A message is due when it is in the view, no job claims it and its chain's gate has reached
  its block.\<close>

definition due :: "indexed_message list \<Rightarrow> (string \<Rightarrow> bool) \<Rightarrow> block_gate \<Rightarrow> indexed_message \<Rightarrow> bool" where
  "due ms claimed gate m \<longleftrightarrow> m \<in> set ms \<and> \<not> claimed (m_id m)
     \<and> (case map_of gate (m_chainId m) of None \<Rightarrow> False | Some g \<Rightarrow> m_blockNumber m \<le> g)"

locale message_source =
  fixes messages :: "'v \<Rightarrow> indexed_message list"
    and claimed :: "'v \<Rightarrow> string \<Rightarrow> bool"
    and unclaimed :: "'v \<Rightarrow> block_gate \<Rightarrow> nat \<Rightarrow> indexed_message list"
  assumes unclaimed_eq: "distinct (map fst gate) \<Longrightarrow> 0 < n \<Longrightarrow>
    unclaimed v gate n
      = take n (sort_key m_blockNumber (filter (due (messages v) (claimed v) gate) (messages v)))"
begin

lemma unclaimed_sound:
  "distinct (map fst gate) \<Longrightarrow> 0 < n \<Longrightarrow> m \<in> set (unclaimed v gate n)
    \<Longrightarrow> due (messages v) (claimed v) gate m"
  by (auto simp: unclaimed_eq dest!: in_set_takeD)

lemma unclaimed_limit:
  "distinct (map fst gate) \<Longrightarrow> 0 < n \<Longrightarrow> length (unclaimed v gate n) \<le> n"
  by (simp add: unclaimed_eq)

lemma unclaimed_ordered:
  "distinct (map fst gate) \<Longrightarrow> 0 < n \<Longrightarrow> sorted (map m_blockNumber (unclaimed v gate n))"
  unfolding unclaimed_eq by (rule sorted_map_take) simp

lemma unclaimed_oldest:
  assumes "distinct (map fst gate)" and "0 < n" and "due (messages v) (claimed v) gate m"
    and "m \<notin> set (unclaimed v gate n)"
  shows "length (unclaimed v gate n) = n
    \<and> (\<forall>m' \<in> set (unclaimed v gate n). m_blockNumber m' \<le> m_blockNumber m)"
proof -
  have "m \<in> set (sort_key m_blockNumber (filter (due (messages v) (claimed v) gate) (messages v)))"
    using assms(3) by (simp add: due_def)
  with assms(4) show ?thesis
    unfolding unclaimed_eq [OF assms(1,2)] by (intro take_oldest) simp_all
qed

lemma unclaimed_count:
  "distinct (map fst gate) \<Longrightarrow> 0 < n \<Longrightarrow>
    length (unclaimed v gate n)
      = min n (length (filter (due (messages v) (claimed v) gate) (messages v)))"
  by (simp add: unclaimed_eq min.commute)

lemma unclaimed_distinct:
  assumes "distinct (map fst gate)" and "0 < n" and "distinct (map m_id (messages v))"
  shows "distinct (map m_id (unclaimed v gate n))"
proof -
  have "distinct (map m_id (filter (due (messages v) (claimed v) gate) (messages v)))"
    by (rule distinct_map_filter [OF assms(3)])
  then have "distinct (map m_id (sort_key m_blockNumber
      (filter (due (messages v) (claimed v) gate) (messages v))))"
    by (simp only: distinct_map distinct_sort set_sort)
  then show ?thesis unfolding unclaimed_eq [OF assms(1,2)] take_map [symmetric] by (rule distinct_take)
qed

end

text \<open>The join with the gate keeps a message once: the chains of the gate are distinct.\<close>

lemma filter_gate:
  assumes "distinct (map fst gate)"
  shows "filter (\<lambda>g. fst g = c) gate = (case map_of gate c of None \<Rightarrow> [] | Some b \<Rightarrow> [(c, b)])"
  using assms
proof (induction gate)
  case Nil
  then show ?case by simp
next
  case (Cons g gate)
  obtain a b where g: "g = (a, b)" by fastforce
  have "map_of gate a = None" using Cons.prems by (simp add: g map_of_eq_None_iff)
  with Cons g show ?case by auto
qed

lemma pg_unclaimed_eq:
  assumes "distinct (map fst gate)"
  shows "pg_unclaimedMessages v jobs gate n
    = take n (sort_key m_blockNumber
        (filter (due (sent_rows v) (\<lambda>k. list_ex (\<lambda>j. dedup_key j = k) jobs) gate) (sent_rows v)))"
proof (cases "gate = []")
  case True
  then show ?thesis by (simp add: pg_unclaimedMessages_def due_def)
next
  case False
  let ?cl = "\<lambda>k. list_ex (\<lambda>j. dedup_key j = k) jobs"
  have "map fst (filter (\<lambda>(s, b). \<not> ?cl (m_id s) \<and> m_blockNumber s \<le> b)
      (concat (map (\<lambda>s. map (\<lambda>g. (s, snd g)) (filter (\<lambda>g. fst g = m_chainId s) gate)) ms)))
    = filter (\<lambda>m. \<not> ?cl (m_id m) \<and>
        (case map_of gate (m_chainId m) of None \<Rightarrow> False | Some g \<Rightarrow> m_blockNumber m \<le> g)) ms" for ms :: "indexed_message list"
    by (induction ms) (auto simp: filter_gate [OF assms] split: option.splits)
  moreover have "filter (\<lambda>m. \<not> ?cl (m_id m) \<and>
        (case map_of gate (m_chainId m) of None \<Rightarrow> False | Some g \<Rightarrow> m_blockNumber m \<le> g)) (sent_rows v)
      = filter (due (sent_rows v) ?cl gate) (sent_rows v)"
    by (rule filter_cong) (simp_all add: due_def)
  ultimately show ?thesis using False by (simp add: pg_unclaimedMessages_def Let_def)
qed

lemma mem_unclaimed_loop_eq:
  assumes "length out < limit" and "set ms \<subseteq> set all"
  shows "mem_unclaimed_loop claimed gate limit out ms
    = out @ take (limit - length out) (filter (due all claimed gate) ms)"
  using assms
proof (induction ms arbitrary: out)
  case Nil
  then show ?case by simp
next
  case (Cons m ms)
  show ?case
  proof (cases "due all claimed gate m")
    case True
    then obtain g where g: "map_of gate (m_chainId m) = Some g" "m_blockNumber m \<le> g" "\<not> claimed (m_id m)"
      by (auto simp: due_def split: option.splits)
    have step: "limit - length out = Suc (limit - Suc (length out))" using Cons.prems(1) by simp
    show ?thesis
    proof (cases "limit \<le> Suc (length out)")
      case True
      then have "limit - Suc (length out) = 0" by simp
      with True \<open>due all claimed gate m\<close> g show ?thesis by (simp add: step)
    next
      case False
      then show ?thesis
        using Cons.IH [of "out @ [m]"] Cons.prems(2) \<open>due all claimed gate m\<close> g by (simp add: step)
    qed
  next
    case False
    then have skip: "mem_unclaimed_loop claimed gate limit out (m # ms)
        = mem_unclaimed_loop claimed gate limit out ms"
      using Cons.prems(2) by (auto simp: due_def split: option.splits)
    show ?thesis unfolding skip using Cons False by simp
  qed
qed

lemma filter_sort_key: "filter P (sort_key f xs) = sort_key f (filter P xs)"
proof (induction xs)
  case (Cons x xs)
  then show ?case by (cases "P x") (simp_all add: filter_insort_triv filter_insort)
qed simp

interpretation pgr: message_source "\<lambda>v. sent_rows (fst v)"
    "\<lambda>v k. list_ex (\<lambda>j. dedup_key j = k) (snd v)" "\<lambda>v. pg_unclaimedMessages (fst v) (snd v)"
  by unfold_locales (rule pg_unclaimed_eq)

interpretation memr: message_source fst snd "\<lambda>v. mem_unclaimedMessages (fst v) (snd v)"
proof
  fix gate :: block_gate and n :: nat and v :: "indexed_message list \<times> (string \<Rightarrow> bool)"
  assume "0 < n"
  then show "mem_unclaimedMessages (fst v) (snd v) gate n
      = take n (sort_key m_blockNumber (filter (due (fst v) (snd v) gate) (fst v)))"
    using mem_unclaimed_loop_eq [of "[]" n "sort_key m_blockNumber (fst v)" "fst v" "snd v" gate]
    by (simp add: mem_unclaimedMessages_def filter_sort_key)
qed

section \<open>Checkpoint text\<close>

text \<open>Ponder's format: fixed-width zero-padded decimal fields. \<open>pad_dec w n\<close> prints \<open>n\<close> in \<open>w\<close>
  digits.\<close>

fun pad_dec :: "nat \<Rightarrow> nat \<Rightarrow> string" where
  "pad_dec 0 n = []"
| "pad_dec (Suc w) n = pad_dec w (n div 10) @ [digit_char (n mod 10)]"

lemma length_pad_dec [simp]: "length (pad_dec w n) = w"
  by (induction w arbitrary: n) simp_all

lemma parse_dec_snoc: "parse_dec (s @ [c]) = 10 * parse_dec s + (of_char c - 48)"
  by (simp add: parse_dec_def)

lemma parse_pad_dec: "n < 10 ^ w \<Longrightarrow> parse_dec (pad_dec w n) = n"
proof (induction w arbitrary: n)
  case 0
  then show ?case by (simp add: parse_dec_def)
next
  case (Suc w)
  then have "n div 10 < 10 ^ w" by (simp add: less_mult_imp_div_less mult.commute)
  with Suc show ?case by (simp add: parse_dec_snoc)
qed

lemma digits_pad_dec: "list_all is_digit (pad_dec w n)"
  by (induction w arbitrary: n) (simp_all add: is_digit_def)

lemma decode_padded:
  assumes "ts < 10 ^ 10" and "chain < 10 ^ 16" and "block < 10 ^ 16"
    and "length rest = 33" and "list_all is_digit rest"
  shows "decodePonderCheckpoint (pad_dec 10 ts @ pad_dec 16 chain @ pad_dec 16 block @ rest)
      = Some \<lparr>c_blockTimestamp = int ts, c_chainId = int chain, c_blockNumber = int block\<rparr>"
proof -
  let ?s = "pad_dec 10 ts @ pad_dec 16 chain @ pad_dec 16 block @ rest"
  have "js_slice 0 10 ?s = pad_dec 10 ts" "js_slice 10 26 ?s = pad_dec 16 chain"
    "js_slice 26 42 ?s = pad_dec 16 block"
    by (simp_all add: js_slice_def)
  then show ?thesis
    using assms by (simp add: decodePonderCheckpoint_def digits_pad_dec parse_pad_dec)
qed

section \<open>Properties\<close>

text \<open>The discovery query and its in-memory counterpart are the same function of the view, the
  claimed keys and the gate (whose chains are distinct), for every positive limit: the oldest
  messages, by block, that no job claims and whose chain's gate has reached their block. In
  particular a message is served at most once although the query joins on the gate.\<close>

theorem unclaimed_readers_agree:
  assumes "distinct (map fst gate)" and "0 < n"
  shows "pg_unclaimedMessages v jobs gate n
      = mem_unclaimedMessages (sent_rows v) (\<lambda>k. list_ex (\<lambda>j. dedup_key j = k) jobs) gate n
    \<and> (\<forall>m \<in> set (pg_unclaimedMessages v jobs gate n).
          m \<in> set (sent_rows v) \<and> (\<forall>j \<in> set jobs. dedup_key j \<noteq> m_id m)
          \<and> (\<exists>g. map_of gate (m_chainId m) = Some g \<and> m_blockNumber m \<le> g))
    \<and> sorted (map m_blockNumber (pg_unclaimedMessages v jobs gate n))
    \<and> length (pg_unclaimedMessages v jobs gate n) \<le> n
    \<and> (distinct (map m_id (sent_rows v)) \<longrightarrow>
         distinct (map m_id (pg_unclaimedMessages v jobs gate n)))"
proof -
  have sound: "due (sent_rows v) (\<lambda>k. list_ex (\<lambda>j. dedup_key j = k) jobs) gate m"
    if "m \<in> set (pg_unclaimedMessages v jobs gate n)" for m
    using pgr.unclaimed_sound [OF assms, of m "(v, jobs)"] that by simp
  have "\<forall>m \<in> set (pg_unclaimedMessages v jobs gate n).
      m \<in> set (sent_rows v) \<and> (\<forall>j \<in> set jobs. dedup_key j \<noteq> m_id m)
      \<and> (\<exists>g. map_of gate (m_chainId m) = Some g \<and> m_blockNumber m \<le> g)"
    by (auto simp: due_def list_ex_iff split: option.splits dest!: sound)
  moreover have "pg_unclaimedMessages v jobs gate n
      = mem_unclaimedMessages (sent_rows v) (\<lambda>k. list_ex (\<lambda>j. dedup_key j = k) jobs) gate n"
    using pgr.unclaimed_eq [OF assms, of "(v, jobs)"]
      memr.unclaimed_eq [OF assms, of "(sent_rows v, \<lambda>k. list_ex (\<lambda>j. dedup_key j = k) jobs)"]
    by (simp only: fst_conv snd_conv)
  moreover note pgr.unclaimed_ordered [OF assms, of "(v, jobs)", unfolded fst_conv snd_conv]
    pgr.unclaimed_limit [OF assms, of "(v, jobs)", unfolded fst_conv snd_conv]
    pgr.unclaimed_distinct [OF assms, of "(v, jobs)", unfolded fst_conv snd_conv]
  ultimately show ?thesis by blast
qed

definition demo_indexed :: "string \<Rightarrow> int \<Rightarrow> int \<Rightarrow> indexed_message" where
  "demo_indexed k chain block = \<lparr>m_id = k, m_chainId = chain, m_sourceDomain = 6,
     m_destinationDomain = 0, m_messageBytes = demo_message, m_messageHash = ''0xaa'',
     m_sourceTxHash = ''0xbb'', m_logIndex = 0, m_blockNumber = block, m_blockTimestamp = 0\<rparr>"

definition demo_view :: watcher_view where
  "demo_view = \<lparr>sent_rows = [demo_indexed ''b'' 1 20, demo_indexed ''a'' 1 10, demo_indexed ''c'' 1 90],
     received_rows = [],
     checkpoint_rows = Some [\<lparr>ck_chain_id = Some 1,
        ck_latest = Some (pad_dec 10 1700000000 @ pad_dec 16 1 @ pad_dec 16 52 @ pad_dec 33 0)\<rparr>]\<rparr>"

theorem unclaimed_readers_agree_witness:
  "pg_unclaimedMessages demo_view [] [(1, 40)] 100
     = mem_unclaimedMessages (sent_rows demo_view) (\<lambda>k. False) [(1, 40)] 100
    \<and> map m_id (pg_unclaimedMessages demo_view [] [(1, 40)] 100) = [''a'', ''b'']"
proof
  show "pg_unclaimedMessages demo_view [] [(1, 40)] 100
     = mem_unclaimedMessages (sent_rows demo_view) (\<lambda>k. False) [(1, 40)] 100"
    using unclaimed_readers_agree [of "[(1, 40)]" 100 demo_view "[]"] by simp
  show "map m_id (pg_unclaimedMessages demo_view [] [(1, 40)] 100) = [''a'', ''b'']"
    by (simp add: pg_unclaimedMessages_def demo_view_def demo_indexed_def)
qed

text \<open>A checkpoint printed in Ponder's format is decoded to the block time, chain and block it
  was printed from, whatever its 33 remaining digits; and a text that is not 75 decimal digits is
  refused, so that a change of format cannot be misread.\<close>

theorem checkpoint_roundtrip:
  assumes "ts < 10 ^ 10" and "chain < 10 ^ 16" and "block < 10 ^ 16"
    and "length rest = 33" and "list_all is_digit rest"
  shows "decodePonderCheckpoint (pad_dec 10 ts @ pad_dec 16 chain @ pad_dec 16 block @ rest)
      = Some \<lparr>c_blockTimestamp = int ts, c_chainId = int chain, c_blockNumber = int block\<rparr>
    \<and> (\<forall>s. length s \<noteq> 75 \<or> (\<exists>c \<in> set s. \<not> is_digit c) \<longrightarrow> decodePonderCheckpoint s = None)"
  using decode_padded [OF assms] by (auto simp: decodePonderCheckpoint_def list_all_iff)

theorem checkpoint_roundtrip_witness:
  "decodePonderCheckpoint (pad_dec 10 1700000000 @ pad_dec 16 1 @ pad_dec 16 52 @ pad_dec 33 0)
     = Some \<lparr>c_blockTimestamp = 1700000000, c_chainId = 1, c_blockNumber = 52\<rparr>"
  using checkpoint_roundtrip [of 1700000000 1 52 "pad_dec 33 0"] by (simp add: digits_pad_dec)

end
