(* ===== verification/WorkDiscovery.thy ===== *)
theory WorkDiscovery
  imports IndexedReader
begin

text \<open>
  \<open>actor/src/jobs/work-discovery.ts\<close>: the initial job of a message, the claim of one message, and
  the discovery tick; and the state the actor's job loop runs on.

  The outside world is a value of an arbitrary type \<open>'w\<close>: reading the clock may change it, and the
  watcher's view is a function of it, so that the watcher may have published more by the time of
  a later read. \<open>transitions\<close> records the calls of \<open>onTransition\<close>, \<open>None\<close> being \<open>"(none)"\<close>.
\<close>

section \<open>State and context\<close>

record 'w actor_state =
  jobs :: job_table
  world :: 'w
  transitions :: "(job_state option \<times> job_state) list"

record 'w discovery_ctx =
  dc_ethers :: ethers
  knownRecipients :: "string set"
  hookRouterByDomain :: "int \<Rightarrow> string option option"
  confirmationsByChain :: "int \<Rightarrow> int option"
  dc_view :: "'w \<Rightarrow> watcher_view"
  dc_now :: "'w \<Rightarrow> int \<times> 'w"

definition ZERO_NONCE :: string where
  "ZERO_NONCE = ''0x'' @ concat (replicate 32 ''00'')"

definition DISCOVERY_BATCH_LIMIT :: nat where
  "DISCOVERY_BATCH_LIMIT = 100"

section \<open>Operations\<close>

definition newJob :: "ethers \<Rightarrow> indexed_message \<Rightarrow> job_state \<Rightarrow> int \<Rightarrow> exn + cctp_job" where
  "newJob E msg st now =
     (let n = (case decodeMessageHeader E (m_messageBytes msg) of Inl _ \<Rightarrow> ZERO_NONCE | Inr h \<Rightarrow> hd_nonce h)
      in case (if m_messageHash msg \<noteq> [] then Inr (m_messageHash msg) else keccak256 E (m_messageBytes msg)) of
           Inl e \<Rightarrow> Inl e
         | Inr h \<Rightarrow> Inr \<lparr>
             dedupKey = m_id msg, messageHash = h, messageBytes = m_messageBytes msg,
             sourceDomain = m_sourceDomain msg, destinationDomain = m_destinationDomain msg,
             nonce = n, sourceTxHash = m_sourceTxHash msg, sourceBlock = m_blockNumber msg,
             state = st, detectedAt = now, pollAttempts = 0, lastIrisStatus = None,
             attestation = None, relayMessage = None, retryAttempts = 0, nextRetryAt = None,
             submittedTxHash = None, submittedAt = None, deliveredTxHash = None,
             deliveredBlock = None, deliveredAt = None, deadLetterReason = None,
             updatedAt = now \<rparr>)"

text \<open>The job \<open>claimMessage\<close> inserts, as it stands at the insertion.\<close>

definition initialJob ::
    "'w discovery_ctx \<Rightarrow> watcher_view \<Rightarrow> indexed_message \<Rightarrow> int \<Rightarrow> exn + cctp_job" where
  "initialJob ctx view msg now =
     (case newJob (dc_ethers ctx) msg Detected now of
        Inl e \<Rightarrow> Inl e
      | Inr job \<Rightarrow>
         (case classifyMessageForRelay (dc_ethers ctx) (m_messageBytes msg) (knownRecipients ctx)
                (case hookRouterByDomain ctx (m_destinationDomain msg) of None \<Rightarrow> None | Some h \<Rightarrow> h) of
            Inl e \<Rightarrow> Inl e
          | Inr (NoRelay reason) \<Rightarrow>
              Inr (job\<lparr>state := Skipped, deadLetterReason := Some (SkipReason reason)\<rparr>)
          | Inr (Relay _) \<Rightarrow>
              if nonce job \<noteq> ZERO_NONCE \<and> pg_messageReceivedExists view (m_sourceDomain msg) (nonce job)
              then Inr (job\<lparr>state := AlreadyDelivered\<rparr>) else Inr job))"

definition claimMessage ::
    "'w discovery_ctx \<Rightarrow> indexed_message \<Rightarrow> ('w actor_state, job_state option) act" where
  "claimMessage ctx msg s =
     (case dc_now ctx (world s) of (now, w) \<Rightarrow>
      let s = s\<lparr>world := w\<rparr> in
      case initialJob ctx (dc_view ctx w) msg now of
        Inl e \<Rightarrow> (Inl e, s)
      | Inr job \<Rightarrow>
         (case pg_insertIfAbsent (jobs s) job of
            (False, t) \<Rightarrow> (Inr None, s\<lparr>jobs := t\<rparr>)
          | (True, t) \<Rightarrow> (Inr (Some (state job)),
              s\<lparr>jobs := t, transitions := transitions s @ [(None, state job)]\<rparr>)))"

fun discoveryGate :: "'w discovery_ctx \<Rightarrow> block_gate \<Rightarrow> chain_progress list \<Rightarrow> block_gate" where
  "discoveryGate ctx gate [] = gate"
| "discoveryGate ctx gate (p # ps) =
     (case confirmationsByChain ctx (cp_chainId p) of
        None \<Rightarrow> discoveryGate ctx gate ps
      | Some conf \<Rightarrow>
          let mx = cp_lastIndexedBlock p - conf
          in discoveryGate ctx (if 0 \<le> mx then AList.update (cp_chainId p) mx gate else gate) ps)"

fun claim_loop :: "'w discovery_ctx \<Rightarrow> nat \<Rightarrow> indexed_message list \<Rightarrow> ('w actor_state, nat) act" where
  "claim_loop ctx claimed [] s = (Inr claimed, s)"
| "claim_loop ctx claimed (m # ms) s =
     (case claimMessage ctx m s of
        (Inl e, s') \<Rightarrow> (Inl e, s')
      | (Inr None, s') \<Rightarrow> claim_loop ctx claimed ms s'
      | (Inr (Some _), s') \<Rightarrow> claim_loop ctx (claimed + 1) ms s')"

definition discoverWork :: "'w discovery_ctx \<Rightarrow> ('w actor_state, nat) act" where
  "discoverWork ctx s =
     (let view = dc_view ctx (world s);
          gate = discoveryGate ctx [] (pg_watcherProgress view)
      in if gate = [] then (Inr 0, s)
         else claim_loop ctx 0 (pg_unclaimedMessages view (jobs s) gate DISCOVERY_BATCH_LIMIT) s)"

section \<open>The initial job\<close>

definition hook_for :: "'w discovery_ctx \<Rightarrow> indexed_message \<Rightarrow> string option" where
  "hook_for ctx msg =
     (case hookRouterByDomain ctx (m_destinationDomain msg) of None \<Rightarrow> None | Some h \<Rightarrow> h)"

definition relayable :: "'w discovery_ctx \<Rightarrow> indexed_message \<Rightarrow> bool" where
  "relayable ctx msg \<longleftrightarrow> (\<exists>r. classifyMessageForRelay (dc_ethers ctx) (m_messageBytes msg)
     (knownRecipients ctx) (hook_for ctx msg) = Inr (Relay r))"

lemma newJob_fields:
  "newJob E msg st now = Inr job \<Longrightarrow> dedupKey job = m_id msg \<and> state job = st
    \<and> messageBytes job = m_messageBytes msg \<and> sourceDomain job = m_sourceDomain msg
    \<and> destinationDomain job = m_destinationDomain msg \<and> detectedAt job = now
    \<and> retryAttempts job = 0 \<and> pollAttempts job = 0 \<and> deadLetterReason job = None
    \<and> attestation job = None \<and> relayMessage job = None \<and> submittedTxHash job = None
    \<and> submittedAt job = None \<and> deliveredTxHash job = None \<and> deliveredAt job = None
    \<and> nextRetryAt job = None \<and> deliveredBlock job = None \<and> lastIrisStatus job = None"
  by (auto simp: newJob_def Let_def split: sum.splits if_splits)

lemma initialJob_cases:
  assumes "initialJob ctx v msg now = Inr job"
  obtains base where "newJob (dc_ethers ctx) msg Detected now = Inr base"
    and "job = base \<and> relayable ctx msg
      \<or> job = base\<lparr>state := AlreadyDelivered\<rparr> \<and> relayable ctx msg
         \<and> pg_messageReceivedExists v (m_sourceDomain msg) (nonce base)
      \<or> (\<exists>reason. job = base\<lparr>state := Skipped, deadLetterReason := Some (SkipReason reason)\<rparr>
           \<and> classifyMessageForRelay (dc_ethers ctx) (m_messageBytes msg) (knownRecipients ctx)
               (hook_for ctx msg) = Inr (NoRelay reason))"
  using assms that
  by (auto simp: initialJob_def relayable_def hook_for_def
      split: sum.splits classify_result.splits if_splits)

lemma initialJob_key: "initialJob ctx v msg now = Inr job \<Longrightarrow> dedupKey job = m_id msg"
  by (erule initialJob_cases) (auto dest: newJob_fields)

text \<open>The fields a new job takes from its message, and its state when the classifier relays the message.\<close>

lemma initialJob_fields:
  assumes "initialJob ctx v msg now = Inr job"
  shows "messageBytes job = m_messageBytes msg \<and> sourceDomain job = m_sourceDomain msg
    \<and> destinationDomain job = m_destinationDomain msg \<and> detectedAt job = now \<and> nextRetryAt job = None"
  using assms by (rule initialJob_cases) (auto dest: newJob_fields)

lemma initialJob_relayed:
  assumes "initialJob ctx v msg now = Inr job" and "relayable ctx msg"
  shows "state job = Detected \<or> state job = AlreadyDelivered \<and> nonce job \<noteq> ZERO_NONCE"
proof -
  obtain r where "classifyMessageForRelay (dc_ethers ctx) (m_messageBytes msg) (knownRecipients ctx)
      (hook_for ctx msg) = Inr (Relay r)" using assms(2) by (auto simp: relayable_def)
  then show ?thesis
    using assms(1) newJob_fields [of "dc_ethers ctx" msg Detected now]
    by (auto simp: initialJob_def hook_for_def split: sum.splits if_splits)
qed

section \<open>The claim\<close>

lemma claimMessage_cases:
  obtains e now w where "claimMessage ctx msg s = (Inl e, s\<lparr>world := w\<rparr>)"
      "initialJob ctx (dc_view ctx w) msg now = Inl e" "dc_now ctx (world s) = (now, w)"
  | now w job where "claimMessage ctx msg s = (Inr None, s\<lparr>world := w\<rparr>)"
      "initialJob ctx (dc_view ctx w) msg now = Inr job" "pg_get (jobs s) (m_id msg) \<noteq> None"
  | now w job where "initialJob ctx (dc_view ctx w) msg now = Inr job"
      "pg_get (jobs s) (m_id msg) = None" "dc_now ctx (world s) = (now, w)"
      "claimMessage ctx msg s = (Inr (Some (state job)),
         s\<lparr>world := w, jobs := jobs s @ [jobToRow job],
           transitions := transitions s @ [(None, state job)]\<rparr>)"
proof -
  obtain now w where clock: "dc_now ctx (world s) = (now, w)" by fastforce
  show thesis
  proof (cases "initialJob ctx (dc_view ctx w) msg now")
    case (Inl e)
    then show ?thesis using that(1) clock by (simp add: claimMessage_def)
  next
    case (Inr job)
    then have key: "dedupKey job = m_id msg" by (rule initialJob_key)
    show ?thesis
    proof (cases "pg_get (jobs s) (m_id msg)")
      case None
      then show ?thesis
        using that(3) Inr clock key by (simp add: claimMessage_def pg_insert_eq)
    next
      case (Some j)
      then show ?thesis
        using that(2) [of w now job] Inr clock key by (simp add: claimMessage_def pg_insert_eq)
    qed
  qed
qed

text \<open>What a claim does to the table: nothing, or one new row.\<close>

definition extends :: "'w discovery_ctx \<Rightarrow> indexed_message set \<Rightarrow> job_table \<Rightarrow> job_table \<Rightarrow> bool" where
  "extends ctx M t t' \<longleftrightarrow> (\<forall>k. pg_get t' k = pg_get t k
     \<or> pg_get t k = None \<and> (\<exists>m v w j. m \<in> M \<and> m_id m = k \<and> pg_get t' k = Some j
          \<and> initialJob ctx v m (fst (dc_now ctx w)) = Inr j))"

lemma extendsD:
  assumes "extends ctx M t t'"
  shows "pg_get t' k = pg_get t k \<or> pg_get t k = None \<and> (\<exists>m v w j. m \<in> M \<and> m_id m = k
    \<and> pg_get t' k = Some j \<and> initialJob ctx v m (fst (dc_now ctx w)) = Inr j)"
  using assms unfolding extends_def by blast

lemma extends_refl: "extends ctx M t t"
  by (simp add: extends_def)

lemma extends_trans:
  assumes "extends ctx M t u" and "extends ctx M u v"
  shows "extends ctx M t v"
  unfolding extends_def
proof
  fix k
  show "pg_get v k = pg_get t k \<or> pg_get t k = None \<and> (\<exists>m u w j. m \<in> M \<and> m_id m = k
      \<and> pg_get v k = Some j \<and> initialJob ctx u m (fst (dc_now ctx w)) = Inr j)"
    using extendsD [OF assms(1), of k] extendsD [OF assms(2), of k] by metis
qed

lemma extends_mono: "extends ctx M t u \<Longrightarrow> M \<subseteq> N \<Longrightarrow> extends ctx N t u"
  unfolding extends_def by blast

lemma extends_keeps: "extends ctx M t u \<Longrightarrow> pg_get t k = Some j \<Longrightarrow> pg_get u k = Some j"
  using extendsD [of ctx M t u k] by auto

lemma insert_extends:
  assumes inv: "pg_invar t" and none: "pg_get t (m_id msg) = None" and job: "initialJob ctx v msg (fst (dc_now ctx w)) = Inr job"
  shows "extends ctx {msg} t (t @ [jobToRow job]) \<and> pg_invar (t @ [jobToRow job])"
proof -
  have key: "dedupKey job = m_id msg" using job by (auto dest: initialJob_key)
  have "pg_get (t @ [jobToRow job]) k = (if k = m_id msg then Some job else pg_get t k)" for k
    using none key by (auto simp: pg_get_append split: option.splits)
  then have "extends ctx {msg} t (t @ [jobToRow job])" using none job by (auto simp: extends_def)
  then show ?thesis using pg.invar_insert [OF inv, of job] none key by (simp add: pg_insert_eq)
qed

lemma claimMessage_extends:
  assumes "pg_invar (jobs s)"
  shows "extends ctx {msg} (jobs s) (jobs (snd (claimMessage ctx msg s)))
    \<and> pg_invar (jobs (snd (claimMessage ctx msg s)))"
proof (cases rule: claimMessage_cases [of ctx msg s])
  case (3 now w job)
  then show ?thesis using insert_extends [OF assms, of msg ctx _ "world s"] by simp
qed (simp_all add: assms extends_refl)

lemma claim_loop_extends:
  assumes "pg_invar (jobs s)"
  shows "extends ctx (set ms) (jobs s) (jobs (snd (claim_loop ctx n ms s)))
    \<and> pg_invar (jobs (snd (claim_loop ctx n ms s)))"
  using assms
proof (induction ms arbitrary: n s)
  case Nil
  then show ?case by (simp add: extends_refl)
next
  case (Cons m ms)
  let ?s' = "snd (claimMessage ctx m s)"
  from claimMessage_extends [OF Cons.prems, of ctx m]
  have one: "extends ctx (set (m # ms)) (jobs s) (jobs ?s')" and inv: "pg_invar (jobs ?s')"
    by (auto intro: extends_mono)
  have rest: "extends ctx (set (m # ms)) (jobs ?s') (jobs (snd (claim_loop ctx n' ms ?s')))
      \<and> pg_invar (jobs (snd (claim_loop ctx n' ms ?s')))" for n'
    using Cons.IH [OF inv, of n'] by (auto intro: extends_mono)
  show ?case
  proof (cases "claimMessage ctx m s")
    case (Pair r s')
    then show ?thesis
      using one inv rest extends_trans [OF one]
      by (auto split: sum.splits option.splits)
  qed
qed

text \<open>A loop that does not throw has claimed each message it was given.\<close>

lemma claim_loop_claims:
  assumes "claim_loop ctx n ms s = (Inr n', s')" and "pg_invar (jobs s)"
    and "distinct (map m_id ms)" and "\<forall>m \<in> set ms. pg_get (jobs s) (m_id m) = None"
  shows "n' = n + length ms \<and> (\<forall>m \<in> set ms. pg_get (jobs s') (m_id m) \<noteq> None)"
  using assms
proof (induction ms arbitrary: n s)
  case Nil
  then show ?case by simp
next
  case (Cons m ms)
  show ?case
  proof (cases rule: claimMessage_cases [of ctx m s])
    case 1
    then show ?thesis using Cons.prems by simp
  next
    case 2
    then show ?thesis using Cons.prems by simp
  next
    case (3 w now job)
    let ?s1 = "snd (claimMessage ctx m s)"
    have key: "dedupKey job = m_id m" using 3(1) by (rule initialJob_key)
    have inv: "pg_invar (jobs ?s1)" using claimMessage_extends [OF Cons.prems(2)] by blast
    have loop: "claim_loop ctx (n + 1) ms ?s1 = (Inr n', s')" using Cons.prems(1) 3(4) by simp
    have fresh: "\<forall>m' \<in> set ms. pg_get (jobs ?s1) (m_id m') = None"
    proof
      fix m' assume m': "m' \<in> set ms"
      then have "m_id m' \<noteq> m_id m" using Cons.prems(3) by (auto simp: image_iff)
      then show "pg_get (jobs ?s1) (m_id m') = None"
        using Cons.prems(4) m' 3(4) key by (simp add: pg_get_append)
    qed
    have ih: "n' = n + 1 + length ms \<and> (\<forall>m \<in> set ms. pg_get (jobs s') (m_id m) \<noteq> None)"
      using Cons.IH [OF loop inv _ fresh] Cons.prems(3) by simp
    have "pg_get (jobs ?s1) (m_id m) \<noteq> None"
      using 3 key by (simp add: pg_get_append split: option.splits)
    moreover have "extends ctx (set ms) (jobs ?s1) (jobs s')"
      using claim_loop_extends [OF inv, of ctx ms "n + 1"] loop by simp
    ultimately have "pg_get (jobs s') (m_id m) \<noteq> None"
      using extends_keeps by fastforce
    with ih show ?thesis by simp
  qed
qed


section \<open>The tick\<close>

lemma discoveryGate_distinct: "distinct (map fst gate) \<Longrightarrow> distinct (map fst (discoveryGate ctx gate ps))"
  by (induction ps arbitrary: gate) (auto simp: Let_def distinct_update split: option.splits)

lemma discoveryGate_bound:
  assumes "map_of (discoveryGate ctx gate ps) c = Some b"
  shows "map_of gate c = Some b \<or> (\<exists>p conf. p \<in> set ps \<and> cp_chainId p = c
    \<and> confirmationsByChain ctx c = Some conf \<and> b = cp_lastIndexedBlock p - conf)"
  using assms
proof (induction ps arbitrary: gate)
  case Nil
  then show ?case by simp
next
  case (Cons p ps)
  show ?case
  proof (cases "confirmationsByChain ctx (cp_chainId p)")
    case None
    with Cons show ?thesis by auto
  next
    case (Some conf)
    let ?g = "if 0 \<le> cp_lastIndexedBlock p - conf
      then AList.update (cp_chainId p) (cp_lastIndexedBlock p - conf) gate else gate"
    have "map_of (discoveryGate ctx ?g ps) c = Some b" using Cons.prems Some by (simp add: Let_def)
    from Cons.IH [OF this] show ?thesis
      using Some by (auto simp: update_conv' split: if_splits)
  qed
qed

text \<open>The messages that are due for discovery in a state.\<close>

definition is_claimed :: "job_table \<Rightarrow> string \<Rightarrow> bool" where
  "is_claimed t k = list_ex (\<lambda>j. dedup_key j = k) t"

definition due_now :: "'w discovery_ctx \<Rightarrow> watcher_view \<Rightarrow> job_table \<Rightarrow> indexed_message list" where
  "due_now ctx view t =
     filter (due (sent_rows view) (is_claimed t) (discoveryGate ctx [] (pg_watcherProgress view)))
       (sent_rows view)"

lemma is_claimed_get: "is_claimed t k \<longleftrightarrow> pg_get t k \<noteq> None"
  by (auto simp: is_claimed_def list_ex_iff pg_get_None)

lemma due_now_iff:
  "m \<in> set (due_now ctx view t) \<longleftrightarrow> m \<in> set (sent_rows view) \<and> pg_get t (m_id m) = None
    \<and> (\<exists>g. map_of (discoveryGate ctx [] (pg_watcherProgress view)) (m_chainId m) = Some g
          \<and> m_blockNumber m \<le> g)"
  by (auto simp: due_now_def due_def is_claimed_get split: option.splits)

lemma batch_positive: "0 < DISCOVERY_BATCH_LIMIT"
  by (simp add: DISCOVERY_BATCH_LIMIT_def)

lemma listing_eq:
  "pg_unclaimedMessages view t (discoveryGate ctx [] (pg_watcherProgress view)) DISCOVERY_BATCH_LIMIT
    = take DISCOVERY_BATCH_LIMIT (sort_key m_blockNumber (due_now ctx view t))"
proof -
  have "distinct (map fst (discoveryGate ctx [] ps))" for ps
    by (rule discoveryGate_distinct) simp
  from pgr.unclaimed_eq [OF this batch_positive, of "(view, t)"] show ?thesis
    by (simp only: due_now_def is_claimed_def [abs_def] fst_conv snd_conv)
qed

lemma discoverWork_eq:
  "discoverWork ctx s = claim_loop ctx 0 (take DISCOVERY_BATCH_LIMIT
     (sort_key m_blockNumber (due_now ctx (dc_view ctx (world s)) (jobs s)))) s"
proof (cases "discoveryGate ctx [] (pg_watcherProgress (dc_view ctx (world s))) = []")
  case True
  then have "due_now ctx (dc_view ctx (world s)) (jobs s) = []"
    by (simp add: due_now_def due_def)
  with True show ?thesis by (simp add: discoverWork_def)
next
  case False
  then show ?thesis by (simp add: discoverWork_def Let_def listing_eq)
qed

lemma set_take_sort: "set (take n (sort_key f xs)) \<subseteq> set xs"
  by (auto dest: in_set_takeD)

lemma in_set_take_sort: "x \<in> set (take n (sort_key f xs)) \<Longrightarrow> x \<in> set xs"
  using set_take_sort [of n f xs] by blast

section \<open>Properties\<close>

lemma discovery_extends:
  assumes "pg_invar (jobs s)"
  shows "extends ctx (set (take DISCOVERY_BATCH_LIMIT (sort_key m_blockNumber
      (due_now ctx (dc_view ctx (world s)) (jobs s))))) (jobs s) (jobs (snd (discoverWork ctx s)))"
    and "pg_invar (jobs (snd (discoverWork ctx s)))"
  unfolding discoverWork_eq using claim_loop_extends [OF assms] by blast+

lemma discovery_claims:
  assumes "pg_invar (jobs s)"
  shows "pg_invar (jobs (snd (discoverWork ctx s)))
    \<and> (\<forall>k j. pg_get (jobs s) k = Some j \<longrightarrow> pg_get (jobs (snd (discoverWork ctx s))) k = Some j)
    \<and> (\<forall>k j. pg_get (jobs s) k = None \<longrightarrow> pg_get (jobs (snd (discoverWork ctx s))) k = Some j \<longrightarrow>
        (\<exists>m p conf. m \<in> set (sent_rows (dc_view ctx (world s))) \<and> m_id m = k
          \<and> messageBytes j = m_messageBytes m
          \<and> p \<in> set (pg_watcherProgress (dc_view ctx (world s))) \<and> cp_chainId p = m_chainId m
          \<and> confirmationsByChain ctx (m_chainId m) = Some conf
          \<and> m_blockNumber m + conf \<le> cp_lastIndexedBlock p))"
proof -
  let ?v = "dc_view ctx (world s)"
  let ?t' = "jobs (snd (discoverWork ctx s))"
  let ?ms = "take DISCOVERY_BATCH_LIMIT (sort_key m_blockNumber (due_now ctx ?v (jobs s)))"
  note ext = discovery_extends(1) [OF assms, of ctx] and inv = discovery_extends(2) [OF assms, of ctx]
  have "\<exists>m p conf. m \<in> set (sent_rows ?v) \<and> m_id m = k \<and> messageBytes j = m_messageBytes m
      \<and> p \<in> set (pg_watcherProgress ?v) \<and> cp_chainId p = m_chainId m
      \<and> confirmationsByChain ctx (m_chainId m) = Some conf
      \<and> m_blockNumber m + conf \<le> cp_lastIndexedBlock p"
    if none: "pg_get (jobs s) k = None" and new: "pg_get ?t' k = Some j" for k j
  proof -
    from extendsD [OF ext, of k] none new obtain m v w where
      m: "m \<in> set ?ms" "m_id m = k" "initialJob ctx v m (fst (dc_now ctx w)) = Inr j" by auto
    have "messageBytes j = m_messageBytes m"
      using m(3) by (rule initialJob_cases) (auto dest: newJob_fields)
    moreover have "m \<in> set (due_now ctx ?v (jobs s))" using m(1) by (rule in_set_take_sort)
    then obtain g where "m \<in> set (sent_rows ?v)" "m_blockNumber m \<le> g"
        "map_of (discoveryGate ctx [] (pg_watcherProgress ?v)) (m_chainId m) = Some g"
      by (auto simp: due_now_iff)
    ultimately show ?thesis using m(2) discoveryGate_bound [of ctx "[]" "pg_watcherProgress ?v" "m_chainId m" g]
      by fastforce
  qed
  then show ?thesis using inv extends_keeps [OF ext] by blast
qed

text \<open>What is new in the table is the initial job of a message of the view, made at some reading of the
  clock.\<close>

lemma discovered_job:
  assumes "pg_invar (jobs s)" and "pg_get (jobs s) k = None"
    and "pg_get (jobs (snd (discoverWork ctx s))) k = Some j"
  obtains m v w where "m \<in> set (sent_rows (dc_view ctx (world s)))" and "m_id m = k"
    and "initialJob ctx v m (fst (dc_now ctx w)) = Inr j"
proof -
  obtain m v w where m: "m \<in> set (take DISCOVERY_BATCH_LIMIT (sort_key m_blockNumber
        (due_now ctx (dc_view ctx (world s)) (jobs s))))" "m_id m = k"
      and job: "initialJob ctx v m (fst (dc_now ctx w)) = Inr j"
    using extendsD [OF discovery_extends(1) [OF assms(1), of ctx], of k] assms(2,3) by auto
  have "m \<in> set (sent_rows (dc_view ctx (world s)))"
    using in_set_take_sort [OF m(1)] by (simp add: due_now_iff)
  then show thesis using m(2) job by (rule that)
qed


definition demo_ctx :: "watcher_view discovery_ctx" where
  "demo_ctx = \<lparr>dc_ethers = ref_ethers, knownRecipients = {''0x'' @ demo_recipient},
     hookRouterByDomain = (\<lambda>d. None), confirmationsByChain = (\<lambda>c. if c = 1 then Some 12 else None),
     dc_view = (\<lambda>v. v), dc_now = (\<lambda>v. (5000, v))\<rparr>"

definition demo_state :: "watcher_view actor_state" where
  "demo_state = \<lparr>jobs = [], world = demo_view, transitions = []\<rparr>"


text \<open>Discovery makes progress. A tick that does not throw has claimed every message it listed,
  which are the oldest due ones up to the batch limit of 100: the number it returns is how many
  they are, exactly as many due messages are left as did not fit the batch, and it returns 0 only
  when nothing was due.\<close>

theorem discovery_drains:
  assumes "discoverWork ctx s = (Inr n, s')" and "pg_invar (jobs s)"
    and "distinct (map m_id (sent_rows (dc_view ctx (world s))))"
  shows "n = min 100 (length (due_now ctx (dc_view ctx (world s)) (jobs s)))
    \<and> length (due_now ctx (dc_view ctx (world s)) (jobs s'))
        = length (due_now ctx (dc_view ctx (world s)) (jobs s)) - n
    \<and> (n = 0 \<longleftrightarrow> due_now ctx (dc_view ctx (world s)) (jobs s) = [])"
proof -
  let ?v = "dc_view ctx (world s)"
  let ?due = "due_now ctx ?v (jobs s)"
  let ?sorted = "sort_key m_blockNumber ?due"
  let ?ms = "take DISCOVERY_BATCH_LIMIT ?sorted"
  have ids: "distinct (map m_id ?due)" unfolding due_now_def by (rule distinct_map_filter [OF assms(3)])
  have loop: "claim_loop ctx 0 ?ms s = (Inr n, s')" using assms(1) by (simp add: discoverWork_eq)
  have sorted_ids: "distinct (map m_id ?sorted)"
    using ids by (simp only: distinct_map distinct_sort set_sort)
  then have msd: "distinct (map m_id ?ms)" unfolding take_map [symmetric] by (rule distinct_take)
  have "m \<in> set ?due" if "m \<in> set ?ms" for m using that by (rule in_set_take_sort)
  then have fresh: "\<forall>m \<in> set ?ms. pg_get (jobs s) (m_id m) = None" by (simp add: due_now_iff)
  from claim_loop_claims [OF loop assms(2) msd fresh]
  have n: "n = length ?ms" and got: "\<forall>m \<in> set ?ms. pg_get (jobs s') (m_id m) \<noteq> None" by simp_all
  have ext: "extends ctx (set ?ms) (jobs s) (jobs s')"
    using claim_loop_extends [OF assms(2), of ctx ?ms 0] loop by simp
  have left: "due_now ctx ?v (jobs s') = filter (\<lambda>m. m \<notin> set ?ms) ?due"
  proof -
    have "m \<in> set (due_now ctx ?v (jobs s')) \<longleftrightarrow> m \<in> set ?due \<and> m \<notin> set ?ms"
      if "m \<in> set (sent_rows ?v)" for m
    proof
      assume "m \<in> set (due_now ctx ?v (jobs s'))"
      moreover from this have "pg_get (jobs s) (m_id m) = None"
        using extends_keeps [OF ext] by (cases "pg_get (jobs s) (m_id m)") (auto simp: due_now_iff)
      ultimately show "m \<in> set ?due \<and> m \<notin> set ?ms" using got by (auto simp: due_now_iff)
    next
      assume m: "m \<in> set ?due \<and> m \<notin> set ?ms"
      have "pg_get (jobs s') (m_id m) = None"
      proof (rule ccontr)
        assume "pg_get (jobs s') (m_id m) \<noteq> None"
        with extendsD [OF ext, of "m_id m"] m obtain m' where m': "m' \<in> set ?ms" "m_id m' = m_id m"
          by (auto simp: due_now_iff)
        then have "m' \<in> set ?due" by (blast intro: in_set_take_sort)
        with m m' ids show False by (auto simp: distinct_map dest: inj_onD)
      qed
      with m show "m \<in> set (due_now ctx ?v (jobs s'))" by (simp add: due_now_iff)
    qed
    then show ?thesis by (simp add: due_now_def cong: filter_cong conj_cong)
  qed
  have dd: "distinct ?due" "distinct ?ms" using ids msd by (simp_all add: distinct_map)
  have "length (due_now ctx ?v (jobs s')) = card (set ?due - set ?ms)"
    unfolding left using dd(1) by (simp add: distinct_card [symmetric] set_diff_eq)
  also have "\<dots> = card (set ?due) - card (set ?ms)"
    by (intro card_Diff_subset) (auto dest: in_set_take_sort)
  also have "\<dots> = length ?due - n" using dd n by (simp only: distinct_card)
  finally show ?thesis using n
    by (auto simp: DISCOVERY_BATCH_LIMIT_def min_def split: if_splits)
qed

lemma demo_due: "map m_id (due_now demo_ctx demo_view []) = [''b'', ''a'']"
proof -
  have gate: "discoveryGate demo_ctx [] (pg_watcherProgress demo_view) = [(1, 40)]"
  proof -
    have "decodePonderCheckpoint (pad_dec 10 1700000000 @ pad_dec 16 1 @ pad_dec 16 52 @ pad_dec 33 0)
        = Some \<lparr>c_blockTimestamp = 1700000000, c_chainId = 1, c_blockNumber = 52\<rparr>"
      using decode_padded [of 1700000000 1 52 "pad_dec 33 0"] by (simp add: digits_pad_dec)
    then show ?thesis by (simp add: pg_watcherProgress_def demo_view_def demo_ctx_def)
  qed
  show ?thesis
    unfolding due_now_def gate
    by (simp add: demo_view_def demo_indexed_def due_def is_claimed_def)
qed

text \<open>A claim throws only when the hash of a message without one, or the padding of a configured
  hook router, throws.\<close>

lemma initialJob_total:
  assumes "m_messageHash m \<noteq> []" and "hook_for ctx m = None"
  shows "\<exists>j. initialJob ctx v m now = Inr j"
proof -
  obtain base where base: "newJob (dc_ethers ctx) m Detected now = Inr base"
    using assms(1) by (simp add: newJob_def Let_def)
  have "\<exists>c. classifyMessageForRelay (dc_ethers ctx) (m_messageBytes m) (knownRecipients ctx) None = Inr c"
    by (simp add: classifyMessageForRelay_def hook_set_def Let_def)
  then show ?thesis
    using base assms(2) unfolding initialJob_def hook_for_def
    by (auto split: classify_result.splits)
qed

lemma claim_loop_total:
  assumes "\<forall>m \<in> set ms. \<forall>v now. \<exists>j. initialJob ctx v m now = Inr j"
  shows "\<exists>n' s'. claim_loop ctx n ms s = (Inr n', s')"
  using assms
proof (induction ms arbitrary: n s)
  case Nil
  then show ?case by simp
next
  case (Cons m ms)
  have tail: "\<exists>n' s'. claim_loop ctx k ms u = (Inr n', s')" for k u
    using Cons.IH Cons.prems by simp
  show ?case
  proof (cases rule: claimMessage_cases [of ctx m s])
    case (1 e now w)
    have "\<exists>j. initialJob ctx (dc_view ctx w) m now = Inr j" using Cons.prems by simp
    with 1(2) show ?thesis by auto
  next
    case 2
    then show ?thesis using tail by simp
  next
    case 3
    then show ?thesis using tail by simp
  qed
qed

theorem discovery_drains_witness:
  "\<exists>s'. discoverWork demo_ctx demo_state = (Inr 2, s') \<and> due_now demo_ctx demo_view (jobs s') = []"
proof -
  have len: "length (due_now demo_ctx demo_view []) = 2"
    using arg_cong [OF demo_due, of length] by simp
  have "\<exists>n s'. discoverWork demo_ctx demo_state = (Inr n, s')"
    unfolding discoverWork_eq
  proof (rule claim_loop_total, intro ballI allI initialJob_total)
    fix m assume "m \<in> set (take DISCOVERY_BATCH_LIMIT (sort_key m_blockNumber
        (due_now demo_ctx (dc_view demo_ctx (world demo_state)) (jobs demo_state))))"
    then have "m \<in> set (sent_rows demo_view)"
      by (auto simp: due_now_iff demo_ctx_def demo_state_def dest!: in_set_take_sort)
    then show "m_messageHash m \<noteq> []" by (auto simp: demo_view_def demo_indexed_def)
  qed (simp add: hook_for_def demo_ctx_def)
  then obtain n s' where run: "discoverWork demo_ctx demo_state = (Inr n, s')" by blast
  have "pg_invar (jobs demo_state)" "distinct (map m_id (sent_rows (dc_view demo_ctx (world demo_state))))"
    by (simp_all add: demo_state_def pg_invar_def demo_ctx_def demo_view_def demo_indexed_def)
  note drains = discovery_drains [OF run this]
  have args: "dc_view demo_ctx (world demo_state) = demo_view" "jobs demo_state = []"
    by (simp_all add: demo_state_def demo_ctx_def)
  have "n = min 100 2" "length (due_now demo_ctx demo_view (jobs s')) = 2 - n"
    using drains unfolding args len by blast+
  with run show ?thesis by simp
qed

end
