(* ===== verification/StateMachine.thy ===== *)
theory StateMachine
  imports WorkDiscovery
begin

text \<open>
  \<open>actor/src/jobs/state-machine.ts\<close>: the per-state ticks of the CCTP job machine, the step relation
  on jobs they implement, and the simulation that says so.

  What the machine is given (\<open>StateMachineDeps\<close>) is the record \<open>machine_deps\<close>: clock, attestation
  client and destination submitter are functions on the world, which may answer anything and may
  throw (\<open>Inl\<close>, the error's message). Database calls do not throw here; \<open>DbFaults\<close> has the machine
  over a database that fails. The state is the
  \<open>actor_state\<close> of work discovery: the job table, the world, and the log of \<open>onTransition\<close> calls.
  \<open>onIrisPoll\<close> and the logger have no effect on the state and are left out.
\<close>

section \<open>Constants and dependencies\<close>

definition MAX_RELAY_RETRIES :: int where "MAX_RELAY_RETRIES = 5"
definition RETRY_BACKOFF_BASE_MS :: int where "RETRY_BACKOFF_BASE_MS = 2000"
definition IRIS_POLL_CONCURRENCY :: nat where "IRIS_POLL_CONCURRENCY = 8"
definition TICK_BATCH :: nat where "TICK_BATCH = 100"

definition ALREADY_PROCESSED_MARKERS :: "string list" where
  "ALREADY_PROCESSED_MARKERS =
     [''already processed'', ''Nonce already used'', ''Message already processed'']"

datatype iris_mode = Mock | Iris

record receipt_info =
  rc_status :: int
  rc_blockNumber :: int

record 'w machine_deps =
  irisMode :: iris_mode
  stuckTxThresholdMs :: int
  maxAttestationAgeMs :: int
  now_dep :: "'w \<Rightarrow> int \<times> 'w"
  att_fetch :: "attestation_query \<Rightarrow> 'w \<Rightarrow> (exn + attestation_result) \<times> 'w"
  submitRelayWithHook :: "int \<Rightarrow> string \<Rightarrow> string \<Rightarrow> 'w \<Rightarrow> (exn + string) \<times> 'w"
  getReceipt :: "int \<Rightarrow> string \<Rightarrow> 'w \<Rightarrow> (exn + receipt_info option) \<times> 'w"
  isInMempool :: "int \<Rightarrow> string \<Rightarrow> 'w \<Rightarrow> (exn + bool) \<times> 'w"
  resetNonce :: "int \<Rightarrow> 'w \<Rightarrow> (exn + unit) \<times> 'w"

section \<open>Effects\<close>

text \<open>Running a dependency on the world of the state; the clock; the guarded update, which reports
  whether a row changed; and the update followed by \<open>transitioned\<close>.\<close>

definition ext :: "('w \<Rightarrow> 'a \<times> 'w) \<Rightarrow> 'w actor_state \<Rightarrow> 'a \<times> 'w actor_state" where
  "ext f s = (case f (world s) of (r, w) \<Rightarrow> (r, s\<lparr>world := w\<rparr>))"

definition repo_transition ::
    "string \<Rightarrow> job_state \<Rightarrow> job_patch \<Rightarrow> int \<Rightarrow> 'w actor_state \<Rightarrow> bool \<times> 'w actor_state" where
  "repo_transition k fromState patch now s =
     (case pg_transition (jobs s) k fromState patch now of (ok, t) \<Rightarrow> (ok, s\<lparr>jobs := t\<rparr>))"

definition transitioned :: "bool \<Rightarrow> job_state \<Rightarrow> job_state \<Rightarrow> 'w actor_state \<Rightarrow> 'w actor_state" where
  "transitioned ok fromState toState s =
     (if ok then s\<lparr>transitions := transitions s @ [(Some fromState, toState)]\<rparr> else s)"

definition move ::
    "string \<Rightarrow> job_state \<Rightarrow> job_state \<Rightarrow> job_patch \<Rightarrow> int \<Rightarrow> 'w actor_state \<Rightarrow> bool \<times> 'w actor_state" where
  "move k fromState toState patch now s =
     (case repo_transition k fromState (patch\<lparr>p_state := Some toState\<rparr>) now s of
        (ok, s') \<Rightarrow> (ok, transitioned ok fromState toState s'))"

section \<open>Ticks\<close>

definition detect_one :: "'w machine_deps \<Rightarrow> int \<Rightarrow> cctp_job \<Rightarrow> ('w actor_state, unit) act" where
  "detect_one d now job s =
     (if irisMode d = Mock then
        (Inr (), snd (move (dedupKey job) Detected Attested
           (no_patch\<lparr>p_attestation := Some (Some MOCK_ATTESTATION),
                     p_relayMessage := Some (Some (messageBytes job)),
                     p_lastIrisStatus := Some (Some ''mock'')\<rparr>) now s))
      else (Inr (), snd (move (dedupKey job) Detected AwaitingAttestation no_patch now s)))"

definition tickDetected :: "'w machine_deps \<Rightarrow> ('w actor_state, unit) act" where
  "tickDetected d s =
     (let listed = pg_listByState (jobs s) Detected TICK_BATCH
      in case ext (now_dep d) s of (now, s) \<Rightarrow> for_each (detect_one d now) listed s)"

text \<open>What a poll writes once the client has answered.\<close>

definition record_poll ::
    "cctp_job \<Rightarrow> attestation_result \<Rightarrow> int \<Rightarrow> 'w actor_state \<Rightarrow> 'w actor_state" where
  "record_poll job result now s =
     (case result of
        AttComplete att msg \<Rightarrow>
          snd (move (dedupKey job) AwaitingAttestation Attested
            (no_patch\<lparr>p_attestation := Some (Some att), p_relayMessage := Some (Some msg),
                      p_lastIrisStatus := Some (Some ''complete''),
                      p_pollAttempts := Some (pollAttempts job + 1)\<rparr>) now s)
      | AttPending detail \<Rightarrow>
          snd (repo_transition (dedupKey job) AwaitingAttestation
            (no_patch\<lparr>p_pollAttempts := Some (pollAttempts job + 1),
                      p_lastIrisStatus := Some (Some
                        (case detail of None \<Rightarrow> ''pending'' | Some x \<Rightarrow> x))\<rparr>) now s)
      | AttError detail \<Rightarrow>
          snd (repo_transition (dedupKey job) AwaitingAttestation
            (no_patch\<lparr>p_pollAttempts := Some (pollAttempts job + 1),
                      p_lastIrisStatus := Some (Some (''error:'' @ detail))\<rparr>) now s))"

definition pollOne :: "'w machine_deps \<Rightarrow> cctp_job \<Rightarrow> ('w actor_state, unit) act" where
  "pollOne d job s =
     (case ext (att_fetch d \<lparr>q_sourceDomain = sourceDomain job, q_sourceTxHash = sourceTxHash job,
                         q_expectedMessageHex = messageBytes job\<rparr>) s of
        (Inl e, s) \<Rightarrow> (Inl e, s)
      | (Inr result, s) \<Rightarrow>
         (case ext (now_dep d) s of (now, s) \<Rightarrow> (Inr (), record_poll job result now s)))"

definition is_expired :: "'w machine_deps \<Rightarrow> int \<Rightarrow> cctp_job \<Rightarrow> bool" where
  "is_expired d now j = (maxAttestationAgeMs d < now - detectedAt j)"

definition expire_one :: "int \<Rightarrow> cctp_job \<Rightarrow> ('w actor_state, unit) act" where
  "expire_one now job s =
     (Inr (), snd (move (dedupKey job) AwaitingAttestation DeadLetter
        (no_patch\<lparr>p_deadLetterReason := Some (Some Expired)\<rparr>) now s))"

definition tickAwaitingAttestation :: "'w machine_deps \<Rightarrow> ('w actor_state, unit) act" where
  "tickAwaitingAttestation d s =
     (let listed = pg_listByState (jobs s) AwaitingAttestation TICK_BATCH
      in case ext (now_dep d) s of (now, s) \<Rightarrow>
        let expired = filter (is_expired d now) listed;
            pollable = take IRIS_POLL_CONCURRENCY (filter (\<lambda>j. j \<notin> set expired) listed)
        in case for_each (expire_one now) expired s of
             (Inl e, s) \<Rightarrow> (Inl e, s)
           | (Inr _, s) \<Rightarrow> all_settled (pollOne d) pollable s)"

definition recordSubmissionFailure :: "'w machine_deps \<Rightarrow> cctp_job \<Rightarrow> ('w actor_state, unit) act" where
  "recordSubmissionFailure d job s =
     (case ext (now_dep d) s of (now, s) \<Rightarrow>
      let attempts = retryAttempts job + 1
      in if MAX_RELAY_RETRIES < attempts then
           (Inr (), snd (move (dedupKey job) Attested DeadLetter
              (no_patch\<lparr>p_deadLetterReason := Some (Some RetriesExhausted)\<rparr>) now s))
         else let delayMs = RETRY_BACKOFF_BASE_MS * 2 ^ nat (attempts - 1)
           in (Inr (), snd (repo_transition (dedupKey job) Attested
                (no_patch\<lparr>p_retryAttempts := Some attempts,
                          p_nextRetryAt := Some (Some (now + delayMs))\<rparr>) now s)))"

definition already_processed :: "string \<Rightarrow> bool" where
  "already_processed message = list_ex (\<lambda>m. str_includes m message) ALREADY_PROCESSED_MARKERS"

definition retry_later :: "int \<Rightarrow> cctp_job \<Rightarrow> bool" where
  "retry_later now job = (case nextRetryAt job of None \<Rightarrow> False | Some t \<Rightarrow> now < t)"

definition submit_one :: "'w machine_deps \<Rightarrow> int \<Rightarrow> cctp_job \<Rightarrow> ('w actor_state, unit) act" where
  "submit_one d now job s =
     (if retry_later now job then (Inr (), s)
      else case (attestation job, relayMessage job) of
        (Some att, Some msg) \<Rightarrow>
          (case ext (submitRelayWithHook d (destinationDomain job) msg att) s of
             (Inr hash, s) \<Rightarrow>
               (case ext (now_dep d) s of (t1, s) \<Rightarrow>
                case ext (now_dep d) s of (t2, s) \<Rightarrow>
                  (Inr (), snd (move (dedupKey job) Attested Submitted
                     (no_patch\<lparr>p_submittedTxHash := Some (Some hash),
                               p_submittedAt := Some (Some t1),
                               p_nextRetryAt := Some None\<rparr>) t2 s)))
           | (Inl message, s) \<Rightarrow>
               if already_processed message then
                 (case ext (now_dep d) s of (t, s) \<Rightarrow>
                    (Inr (), snd (move (dedupKey job) Attested AlreadyDelivered no_patch t s)))
               else recordSubmissionFailure d job s)
      | _ \<Rightarrow> (Inr (), snd (move (dedupKey job) Attested AwaitingAttestation no_patch now s)))"

definition tickAttested :: "'w machine_deps \<Rightarrow> ('w actor_state, unit) act" where
  "tickAttested d s =
     (let listed = pg_listByState (jobs s) Attested TICK_BATCH
      in case ext (now_dep d) s of (now, s) \<Rightarrow> for_each (submit_one d now) listed s)"

definition clear_submission :: job_patch where
  "clear_submission = no_patch\<lparr>p_submittedTxHash := Some None, p_submittedAt := Some None\<rparr>"

definition settle_receipt ::
    "'w machine_deps \<Rightarrow> cctp_job \<Rightarrow> string \<Rightarrow> receipt_info \<Rightarrow> ('w actor_state, unit) act" where
  "settle_receipt d job hash receipt s =
     (if rc_status receipt = 1 then
        (case ext (now_dep d) s of (t1, s) \<Rightarrow>
         case ext (now_dep d) s of (t2, s) \<Rightarrow>
           (Inr (), snd (move (dedupKey job) Submitted Delivered
              (no_patch\<lparr>p_deliveredTxHash := Some (Some hash),
                        p_deliveredBlock := Some (Some (rc_blockNumber receipt)),
                        p_deliveredAt := Some (Some t1)\<rparr>) t2 s)))
      else
        (case ext (now_dep d) s of (t, s) \<Rightarrow>
         case move (dedupKey job) Submitted Attested clear_submission t s of
           (cleared, s) \<Rightarrow>
             if cleared then
               (case pg_get (jobs s) (dedupKey job) of
                  None \<Rightarrow> (Inr (), s)
                | Some fresh \<Rightarrow>
                    if state fresh = Attested then recordSubmissionFailure d fresh s else (Inr (), s))
             else (Inr (), s)))"

definition settle_one :: "'w machine_deps \<Rightarrow> cctp_job \<Rightarrow> ('w actor_state, unit) act" where
  "settle_one d job s =
     (case ext (now_dep d) s of (now, s) \<Rightarrow>
      case (submittedAt job, submittedTxHash job) of
        (Some at, Some hash) \<Rightarrow>
          (case ext (getReceipt d (destinationDomain job) hash) s of
             (Inl e, s) \<Rightarrow> (Inl e, s)
           | (Inr (Some receipt), s) \<Rightarrow> settle_receipt d job hash receipt s
           | (Inr None, s) \<Rightarrow>
               if stuckTxThresholdMs d < now - at then
                 (case ext (isInMempool d (destinationDomain job) hash) s of
                    (Inl e, s) \<Rightarrow> (Inl e, s)
                  | (Inr True, s) \<Rightarrow> (Inr (), s)
                  | (Inr False, s) \<Rightarrow>
                      (case ext (resetNonce d (destinationDomain job)) s of
                         (Inl e, s) \<Rightarrow> (Inl e, s)
                       | (Inr _, s) \<Rightarrow>
                           (Inr (), snd (move (dedupKey job) Submitted Attested clear_submission now s))))
               else (Inr (), s))
      | _ \<Rightarrow> (Inr (), s))"

definition tickSubmitted :: "'w machine_deps \<Rightarrow> ('w actor_state, unit) act" where
  "tickSubmitted d s = for_each (settle_one d) (pg_listByState (jobs s) Submitted TICK_BATCH) s"

text \<open>Sequential composition of two statements that may throw.\<close>

definition and_then :: "('s, unit) act \<Rightarrow> ('s, unit) act \<Rightarrow> ('s, unit) act" where
  "and_then f g s = (case f s of (Inl e, s') \<Rightarrow> (Inl e, s') | (Inr _, s') \<Rightarrow> g s')"

definition tick :: "'w machine_deps \<Rightarrow> ('w actor_state, unit) act" where
  "tick d = and_then (tickDetected d)
     (and_then (tickAwaitingAttestation d) (and_then (tickAttested d) (tickSubmitted d)))"

end
