(* ===== verification/JobSteps.thy ===== *)
theory JobSteps
  imports StateMachine
begin

text \<open>
  The specification of the job machine: \<open>job_step\<close>, the steps one job may take and what each of
  them requires of the world, and the simulation: a phase of the machine takes every job at most
  one such step and touches nothing else, whether or not it throws.
\<close>

section \<open>Steps of a job\<close>

definition query_of :: "cctp_job \<Rightarrow> attestation_query" where
  "query_of j = \<lparr>q_sourceDomain = sourceDomain j, q_sourceTxHash = sourceTxHash j,
     q_expectedMessageHex = messageBytes j\<rparr>"

definition fetched :: "'w machine_deps \<Rightarrow> cctp_job \<Rightarrow> attestation_result \<Rightarrow> bool" where
  "fetched d j r \<longleftrightarrow> (\<exists>w. fst (att_fetch d (query_of j) w) = Inr r)"

definition broadcast :: "'w machine_deps \<Rightarrow> cctp_job \<Rightarrow> exn + string \<Rightarrow> bool" where
  "broadcast d j r \<longleftrightarrow> (\<exists>att msg w. attestation j = Some att \<and> relayMessage j = Some msg
     \<and> fst (submitRelayWithHook d (destinationDomain j) msg att w) = r)"

definition receipt_seen :: "'w machine_deps \<Rightarrow> cctp_job \<Rightarrow> receipt_info option \<Rightarrow> bool" where
  "receipt_seen d j r \<longleftrightarrow> submittedAt j \<noteq> None
     \<and> (\<exists>hash w. submittedTxHash j = Some hash
          \<and> fst (getReceipt d (destinationDomain j) hash w) = Inr r)"

definition dropped :: "'w machine_deps \<Rightarrow> cctp_job \<Rightarrow> int \<Rightarrow> bool" where
  "dropped d j now \<longleftrightarrow> receipt_seen d j None
     \<and> (\<exists>at. submittedAt j = Some at \<and> stuckTxThresholdMs d < now - at)
     \<and> (\<exists>hash w. submittedTxHash j = Some hash
          \<and> fst (isInMempool d (destinationDomain j) hash w) = Inr False)"

definition backoff :: "cctp_job \<Rightarrow> int \<Rightarrow> int" where
  "backoff j now = now + RETRY_BACKOFF_BASE_MS * 2 ^ nat (retryAttempts j)"

inductive job_step :: "'w machine_deps \<Rightarrow> cctp_job \<Rightarrow> cctp_job \<Rightarrow> bool" for d where
  mock_attest: "irisMode d = Mock \<Longrightarrow> state j = Detected \<Longrightarrow>
    job_step d j (j\<lparr>state := Attested, lastIrisStatus := Some ''mock'',
      attestation := Some MOCK_ATTESTATION, relayMessage := Some (messageBytes j), updatedAt := t\<rparr>)"
| await: "irisMode d \<noteq> Mock \<Longrightarrow> state j = Detected \<Longrightarrow>
    job_step d j (j\<lparr>state := AwaitingAttestation, updatedAt := t\<rparr>)"
| expire: "state j = AwaitingAttestation \<Longrightarrow> maxAttestationAgeMs d < t - detectedAt j \<Longrightarrow>
    job_step d j (j\<lparr>state := DeadLetter, deadLetterReason := Some Expired, updatedAt := t\<rparr>)"
| attest: "state j = AwaitingAttestation \<Longrightarrow> fetched d j (AttComplete att msg) \<Longrightarrow>
    job_step d j (j\<lparr>state := Attested, pollAttempts := pollAttempts j + 1,
      lastIrisStatus := Some ''complete'', attestation := Some att, relayMessage := Some msg,
      updatedAt := t\<rparr>)"
| poll_again: "state j = AwaitingAttestation \<Longrightarrow>
    fetched d j (AttPending det) \<and> status = (case det of None \<Rightarrow> ''pending'' | Some x \<Rightarrow> x)
      \<or> (\<exists>e. fetched d j (AttError e) \<and> status = ''error:'' @ e) \<Longrightarrow>
    job_step d j (j\<lparr>pollAttempts := pollAttempts j + 1, lastIrisStatus := Some status, updatedAt := t\<rparr>)"
| repoll: "state j = Attested \<Longrightarrow> \<not> retry_later now j \<Longrightarrow>
    attestation j = None \<or> relayMessage j = None \<Longrightarrow>
    job_step d j (j\<lparr>state := AwaitingAttestation, updatedAt := t\<rparr>)"
| submit: "state j = Attested \<Longrightarrow> \<not> retry_later now j \<Longrightarrow> broadcast d j (Inr hash) \<Longrightarrow>
    job_step d j (j\<lparr>state := Submitted, nextRetryAt := None, submittedTxHash := Some hash,
      submittedAt := Some t1, updatedAt := t\<rparr>)"
| already: "state j = Attested \<Longrightarrow> \<not> retry_later now j \<Longrightarrow> broadcast d j (Inl e) \<Longrightarrow>
    already_processed e \<Longrightarrow>
    job_step d j (j\<lparr>state := AlreadyDelivered, updatedAt := t\<rparr>)"
| retry: "state j = Attested \<Longrightarrow> \<not> retry_later now j \<Longrightarrow> broadcast d j (Inl e) \<Longrightarrow>
    \<not> already_processed e \<Longrightarrow> retryAttempts j < MAX_RELAY_RETRIES \<Longrightarrow>
    job_step d j (j\<lparr>retryAttempts := retryAttempts j + 1, nextRetryAt := Some (backoff j t), updatedAt := t\<rparr>)"
| exhaust: "state j = Attested \<Longrightarrow> \<not> retry_later now j \<Longrightarrow> broadcast d j (Inl e) \<Longrightarrow>
    \<not> already_processed e \<Longrightarrow> MAX_RELAY_RETRIES \<le> retryAttempts j \<Longrightarrow>
    job_step d j (j\<lparr>state := DeadLetter, deadLetterReason := Some RetriesExhausted, updatedAt := t\<rparr>)"
| deliver: "state j = Submitted \<Longrightarrow> receipt_seen d j (Some r) \<Longrightarrow> rc_status r = 1 \<Longrightarrow>
    submittedTxHash j = Some hash \<Longrightarrow>
    job_step d j (j\<lparr>state := Delivered, deliveredTxHash := Some hash,
      deliveredBlock := Some (rc_blockNumber r), deliveredAt := Some t1, updatedAt := t\<rparr>)"
| revert_retry: "state j = Submitted \<Longrightarrow> receipt_seen d j (Some r) \<Longrightarrow> rc_status r \<noteq> 1 \<Longrightarrow>
    retryAttempts j < MAX_RELAY_RETRIES \<Longrightarrow>
    job_step d j (j\<lparr>state := Attested, retryAttempts := retryAttempts j + 1,
      nextRetryAt := Some (backoff j t), submittedTxHash := None, submittedAt := None, updatedAt := t\<rparr>)"
| revert_exhaust: "state j = Submitted \<Longrightarrow> receipt_seen d j (Some r) \<Longrightarrow> rc_status r \<noteq> 1 \<Longrightarrow>
    MAX_RELAY_RETRIES \<le> retryAttempts j \<Longrightarrow>
    job_step d j (j\<lparr>state := DeadLetter, submittedTxHash := None, submittedAt := None,
      deadLetterReason := Some RetriesExhausted, updatedAt := t\<rparr>)"
| drop_stuck: "state j = Submitted \<Longrightarrow> dropped d j now \<Longrightarrow>
    job_step d j (j\<lparr>state := Attested, submittedTxHash := None, submittedAt := None, updatedAt := t\<rparr>)"

section \<open>What one body does to the table\<close>

text \<open>A body touches one job when every other job is as before and that one took at most one step.\<close>

definition touches ::
    "(cctp_job \<Rightarrow> cctp_job \<Rightarrow> bool) \<Rightarrow> cctp_job \<Rightarrow> 'w actor_state \<Rightarrow> 'w actor_state \<Rightarrow> bool" where
  "touches R x s s' \<longleftrightarrow> pg_invar (jobs s')
     \<and> (\<forall>k. k \<noteq> dedupKey x \<longrightarrow> pg_get (jobs s') k = pg_get (jobs s) k)
     \<and> (\<exists>j'. pg_get (jobs s') (dedupKey x) = Some j' \<and> R\<^sup>=\<^sup>= x j')"

definition current :: "cctp_job \<Rightarrow> 'w actor_state \<Rightarrow> bool" where
  "current x s \<longleftrightarrow> pg_invar (jobs s) \<and> pg_get (jobs s) (dedupKey x) = Some x"

lemma touches_refl: "current x s \<Longrightarrow> touches R x s s"
  by (auto simp: touches_def current_def)

lemma touches_same: "current x s \<Longrightarrow> touches R x s (s\<lparr>world := w\<rparr>)"
  by (auto simp: touches_def current_def)

lemma jobs_world [simp]: "jobs (s\<lparr>world := w\<rparr>) = jobs s"
  by simp

lemma current_world [simp]: "current x (s\<lparr>world := w\<rparr>) = current x s"
  by (simp add: current_def)

lemma touches_world [simp]:
  "touches R x (s\<lparr>world := w\<rparr>) s' = touches R x s s'"
  by (simp add: touches_def)

lemma ext_eq: "ext f s = (fst (f (world s)), s\<lparr>world := snd (f (world s))\<rparr>)"
  by (simp add: ext_def split: prod.splits)

lemma jobs_repo_transition:
  "jobs (snd (repo_transition k f p now s)) = snd (pg_transition (jobs s) k f p now)"
  by (simp add: repo_transition_def split: prod.splits)

lemma jobs_move:
  "jobs (snd (move k f t p now s)) = snd (pg_transition (jobs s) k f (p\<lparr>p_state := Some t\<rparr>) now)"
  using jobs_repo_transition [of k f "p\<lparr>p_state := Some t\<rparr>" now s]
  by (cases "repo_transition k f (p\<lparr>p_state := Some t\<rparr>) now s")
    (auto simp: move_def transitioned_def)

lemma fst_move:
  "fst (move k f t p now s) = fst (pg_transition (jobs s) k f (p\<lparr>p_state := Some t\<rparr>) now)"
  by (simp add: move_def repo_transition_def split: prod.splits)

text \<open>The guarded update of a current job in the state it names.\<close>

lemma update_current:
  assumes "current x s" and "state x = f" and "jobs s' = snd (pg_transition (jobs s) (dedupKey x) f p now)"
  shows "current (applyPatch x p now) s'"
    and "k \<noteq> dedupKey x \<Longrightarrow> pg_get (jobs s') k = pg_get (jobs s) k"
  using assms pg.invar_transition [of "jobs s"] by (auto simp: current_def pg_get_transition)

lemma touches_update:
  assumes "current x s" and "state x = f" and "jobs s' = snd (pg_transition (jobs s) (dedupKey x) f p now)"
    and "R\<^sup>=\<^sup>= x (applyPatch x p now)"
  shows "touches R x s s'"
  using update_current [OF assms(1-3)] assms(4) by (auto simp: touches_def current_def)

lemmas patch_simps = applyPatch_def no_patch_def clear_submission_def

lemma detect_touches:
  assumes "current x s" and "state x = Detected"
  shows "touches (job_step d) x s (snd (detect_one d now x s))"
proof (cases "irisMode d = Mock")
  case True
  let ?p = "no_patch\<lparr>p_attestation := Some (Some MOCK_ATTESTATION),
    p_relayMessage := Some (Some (messageBytes x)), p_lastIrisStatus := Some (Some ''mock'')\<rparr>"
  have "job_step d x (applyPatch x (?p\<lparr>p_state := Some Attested\<rparr>) now)"
    using mock_attest [OF True assms(2)] by (simp add: patch_simps)
  then show ?thesis
    using True assms by (auto simp: detect_one_def jobs_move intro!: touches_update)
next
  case False
  have "job_step d x (applyPatch x (no_patch\<lparr>p_state := Some AwaitingAttestation\<rparr>) now)"
    using await [OF False assms(2)] by (simp add: patch_simps)
  then show ?thesis
    using False assms by (auto simp: detect_one_def jobs_move intro!: touches_update)
qed

lemma expire_touches:
  assumes "current x s" and "state x = AwaitingAttestation" and "is_expired d now x"
  shows "touches (job_step d) x s (snd (expire_one now x s))"
proof -
  have "job_step d x (applyPatch x (no_patch\<lparr>p_deadLetterReason := Some (Some Expired),
      p_state := Some DeadLetter\<rparr>) now)"
    using expire [OF assms(2), of d now] assms(3) by (simp add: patch_simps is_expired_def)
  then show ?thesis
    using assms by (auto simp: expire_one_def jobs_move intro!: touches_update)
qed

lemma poll_touches:
  assumes "current x s" and "state x = AwaitingAttestation"
  shows "touches (job_step d) x s (snd (pollOne d x s))"
proof -
  let ?r = "fst (att_fetch d (query_of x) (world s))"
  have eq: "\<lparr>q_sourceDomain = sourceDomain x, q_sourceTxHash = sourceTxHash x,
      q_expectedMessageHex = messageBytes x\<rparr> = query_of x"
    by (simp add: query_of_def)
  show ?thesis
  proof (cases ?r)
    case (Inl e)
    then show ?thesis using assms by (simp add: pollOne_def eq ext_eq touches_refl touches_same)
  next
    case (Inr r)
    then have got: "fetched d x r" unfolding fetched_def by blast
    have step: "touches (job_step d) x s s'"
      if "jobs s' = snd (pg_transition (jobs s) (dedupKey x) AwaitingAttestation p now)"
        and "job_step d x (applyPatch x p now)" for s' :: "'a actor_state" and p now
      using touches_update [OF assms that(1)] that(2) by simp
    show ?thesis
    proof (cases r)
      case (AttComplete att msg)
      have "job_step d x (applyPatch x (no_patch\<lparr>p_attestation := Some (Some att),
          p_relayMessage := Some (Some msg), p_lastIrisStatus := Some (Some ''complete''),
          p_pollAttempts := Some (pollAttempts x + 1), p_state := Some Attested\<rparr>) now)" for now
        using attest [OF assms(2)] got AttComplete by (simp add: patch_simps)
      with Inr AttComplete show ?thesis
        by (auto simp: pollOne_def record_poll_def eq ext_eq jobs_move intro!: step)
    next
      case (AttPending det)
      have "job_step d x (applyPatch x (no_patch\<lparr>p_pollAttempts := Some (pollAttempts x + 1),
          p_lastIrisStatus := Some (Some (case det of None \<Rightarrow> ''pending'' | Some x \<Rightarrow> x))\<rparr>) now)" for now
        using poll_again [where d = d, OF assms(2) disjI1] got AttPending by (simp add: patch_simps)
      with Inr AttPending show ?thesis
        by (auto simp: pollOne_def record_poll_def eq ext_eq jobs_repo_transition intro!: step)
    next
      case (AttError e)
      have "job_step d x (applyPatch x (no_patch\<lparr>p_pollAttempts := Some (pollAttempts x + 1),
          p_lastIrisStatus := Some (Some (''error:'' @ e))\<rparr>) now)" for now
        using poll_again [OF assms(2) disjI2, of d "''error:'' @ e" now] got AttError
        by (auto simp: patch_simps)
      with Inr AttError show ?thesis
        by (auto simp: pollOne_def record_poll_def eq ext_eq jobs_repo_transition intro!: step)
    qed
  qed
qed

text \<open>The job a recorded failure leaves behind.\<close>

definition failed_job :: "cctp_job \<Rightarrow> int \<Rightarrow> cctp_job" where
  "failed_job j now =
     (if retryAttempts j < MAX_RELAY_RETRIES
      then j\<lparr>retryAttempts := retryAttempts j + 1, nextRetryAt := Some (backoff j now), updatedAt := now\<rparr>
      else j\<lparr>state := DeadLetter, deadLetterReason := Some RetriesExhausted, updatedAt := now\<rparr>)"

lemma record_failure:
  assumes "current x s" and "state x = Attested"
  shows "pg_invar (jobs (snd (recordSubmissionFailure d x s)))
    \<and> pg_get (jobs (snd (recordSubmissionFailure d x s))) k
      = (if k = dedupKey x then Some (failed_job x (fst (now_dep d (world s)))) else pg_get (jobs s) k)"
proof -
  let ?now = "fst (now_dep d (world s))"
  obtain p where jobs: "jobs (snd (recordSubmissionFailure d x s))
      = snd (pg_transition (jobs s) (dedupKey x) Attested p ?now)"
    and patched: "applyPatch x p ?now = failed_job x ?now"
  proof (cases "MAX_RELAY_RETRIES < retryAttempts x + 1")
    case True
    then show ?thesis
      by (intro that [of "no_patch\<lparr>p_deadLetterReason := Some (Some RetriesExhausted),
            p_state := Some DeadLetter\<rparr>"])
        (simp_all add: recordSubmissionFailure_def ext_eq jobs_move failed_job_def patch_simps)
  next
    case False
    then show ?thesis
      by (intro that [of "no_patch\<lparr>p_retryAttempts := Some (retryAttempts x + 1),
            p_nextRetryAt := Some (Some (backoff x ?now))\<rparr>"])
        (simp_all add: recordSubmissionFailure_def ext_eq jobs_repo_transition failed_job_def
          patch_simps backoff_def Let_def)
  qed
  show ?thesis
    using assms pg.invar_transition [of "jobs s"]
    by (simp add: jobs current_def pg_get_transition patched)
qed

lemma touchesI:
  assumes "pg_invar (jobs s')"
    and "\<And>k. pg_get (jobs s') k = (if k = dedupKey x then Some j' else pg_get (jobs s) k)"
    and "R x j'"
  shows "touches R x s s'"
  using assms by (auto simp: touches_def)

lemma submit_touches:
  assumes cur: "current x s" and st: "state x = Attested"
  shows "touches (job_step d) x s (snd (submit_one d now x s))"
proof (cases "retry_later now x")
  case True
  then show ?thesis using cur by (simp add: submit_one_def touches_refl touches_same)
next
  case ready: False
  show ?thesis
  proof (cases "attestation x = None \<or> relayMessage x = None")
    case True
    have "job_step d x (applyPatch x (no_patch\<lparr>p_state := Some AwaitingAttestation\<rparr>) now)"
      using repoll [OF st ready True] by (simp add: patch_simps)
    then have "touches (job_step d) x s (snd (move (dedupKey x) Attested AwaitingAttestation no_patch now s))"
      using cur st by (auto simp: jobs_move intro!: touches_update)
    then show ?thesis using ready True by (auto simp: submit_one_def split: option.splits)
  next
    case False
    then obtain att msg where bytes: "attestation x = Some att" "relayMessage x = Some msg" by auto
    let ?r = "fst (submitRelayWithHook d (destinationDomain x) msg att (world s))"
    have sent: "broadcast d x ?r" using bytes unfolding broadcast_def by blast
    show ?thesis
    proof (cases ?r)
      case (Inr hash)
      have "job_step d x (applyPatch x (no_patch\<lparr>p_submittedTxHash := Some (Some hash),
          p_submittedAt := Some (Some t1), p_nextRetryAt := Some None, p_state := Some Submitted\<rparr>) t2)"
        for t1 t2
        using submit [OF st ready] sent Inr by (simp add: patch_simps)
      then show ?thesis using ready bytes Inr cur st
        by (auto simp: submit_one_def ext_eq jobs_move intro!: touches_update)
    next
      case (Inl e)
      show ?thesis
      proof (cases "already_processed e")
        case True
        have "job_step d x (applyPatch x (no_patch\<lparr>p_state := Some AlreadyDelivered\<rparr>) t)" for t
          using already [OF st ready _ True] sent Inl by (simp add: patch_simps)
        then show ?thesis using ready bytes Inl True cur st
          by (auto simp: submit_one_def ext_eq jobs_move intro!: touches_update)
      next
        case False
        have "job_step d x (failed_job x t)" for t
          using retry [where d = d, OF st ready _ False] exhaust [where d = d, OF st ready _ False] sent Inl
          by (simp add: failed_job_def not_less)
        moreover have "submit_one d now x s = recordSubmissionFailure d x
            (snd (ext (submitRelayWithHook d (destinationDomain x) msg att) s))"
          using ready bytes Inl False by (simp add: submit_one_def ext_eq)
        ultimately show ?thesis
          using record_failure [of x "snd (ext (submitRelayWithHook d (destinationDomain x) msg att) s)" d]
            cur st by (intro touchesI) (auto simp: ext_eq)
      qed
    qed
  qed
qed

lemma failed_after_clear:
  assumes "state x = Submitted" and "receipt_seen d x (Some r)" and "rc_status r \<noteq> 1"
  shows "job_step d x (failed_job (applyPatch x (clear_submission\<lparr>p_state := Some Attested\<rparr>) t) t')"
proof (cases "retryAttempts x < MAX_RELAY_RETRIES")
  case True
  have "failed_job (applyPatch x (clear_submission\<lparr>p_state := Some Attested\<rparr>) t) t'
      = x\<lparr>state := Attested, retryAttempts := retryAttempts x + 1,
          nextRetryAt := Some (backoff x t'), submittedTxHash := None, submittedAt := None,
          updatedAt := t'\<rparr>"
    using True by (simp add: failed_job_def patch_simps backoff_def)
  then show ?thesis using revert_retry [OF assms True] by simp
next
  case False
  have "failed_job (applyPatch x (clear_submission\<lparr>p_state := Some Attested\<rparr>) t) t'
      = x\<lparr>state := DeadLetter, submittedTxHash := None, submittedAt := None,
          deadLetterReason := Some RetriesExhausted, updatedAt := t'\<rparr>"
    using False by (simp add: failed_job_def patch_simps backoff_def)
  then show ?thesis using revert_exhaust [OF assms] False by simp
qed

lemma receipt_touches:
  assumes cur: "current x s" and st: "state x = Submitted" and hash: "submittedTxHash x = Some hash"
    and seen: "receipt_seen d x (Some r)"
  shows "touches (job_step d) x s (snd (settle_receipt d x hash r s))"
proof (cases "rc_status r = 1")
  case True
  have "job_step d x (applyPatch x (no_patch\<lparr>p_deliveredTxHash := Some (Some hash),
      p_deliveredBlock := Some (Some (rc_blockNumber r)), p_deliveredAt := Some (Some t1),
      p_state := Some Delivered\<rparr>) t2)" for t1 t2
    using deliver [OF st seen True hash] by (simp add: patch_simps)
  then show ?thesis using True cur st
    by (auto simp: settle_receipt_def ext_eq jobs_move intro!: touches_update)
next
  case False
  let ?t = "fst (now_dep d (world s))"
  let ?w = "snd (now_dep d (world s))"
  let ?m = "move (dedupKey x) Submitted Attested clear_submission ?t (s\<lparr>world := ?w\<rparr>)"
  let ?fresh = "applyPatch x (clear_submission\<lparr>p_state := Some Attested\<rparr>) ?t"
  have cleared: "fst ?m"
    using cur st by (simp add: fst_move pg_transition_hits current_def)
  have fresh: "current ?fresh (snd ?m)"
    and others: "\<And>k. k \<noteq> dedupKey x \<Longrightarrow> pg_get (jobs (snd ?m)) k = pg_get (jobs s) k"
    using update_current [OF cur st, of "snd ?m"] by (simp_all add: jobs_move)
  have att: "state ?fresh = Attested" by (simp add: patch_simps)
  have get: "pg_get (jobs (snd ?m)) (dedupKey x) = Some ?fresh"
    using fresh by (simp add: current_def)
  have run: "settle_receipt d x hash r s = recordSubmissionFailure d ?fresh (snd ?m)"
    using False cleared get att
    by (cases ?m) (simp add: settle_receipt_def ext_eq)
  show ?thesis
    unfolding run using record_failure [OF fresh att, of d] others failed_after_clear [OF st seen False]
    by (intro touchesI) auto
qed

lemma settle_touches:
  assumes cur: "current x s" and st: "state x = Submitted"
  shows "touches (job_step d) x s (snd (settle_one d x s))"
proof (cases "submittedAt x = None \<or> submittedTxHash x = None")
  case True
  then show ?thesis using cur
    by (auto simp: settle_one_def ext_eq touches_refl touches_same split: option.splits)
next
  case False
  then obtain at hash where sub: "submittedAt x = Some at" "submittedTxHash x = Some hash" by auto
  let ?now = "fst (now_dep d (world s))"
  let ?s1 = "s\<lparr>world := snd (now_dep d (world s))\<rparr>"
  let ?rc = "getReceipt d (destinationDomain x) hash (world ?s1)"
  show ?thesis
  proof (cases "fst ?rc")
    case (Inl e)
    then show ?thesis using sub cur by (simp add: settle_one_def ext_eq touches_refl touches_same)
  next
    case (Inr r)
    have seen: "receipt_seen d x r" unfolding receipt_seen_def using sub Inr by auto
    show ?thesis
    proof (cases r)
      case (Some rec)
      have "settle_one d x s = settle_receipt d x hash rec (?s1\<lparr>world := snd ?rc\<rparr>)"
        using sub Inr Some by (simp add: settle_one_def ext_eq)
      then show ?thesis
        using receipt_touches [of x "?s1\<lparr>world := snd ?rc\<rparr>" hash d rec] cur st sub seen Some by simp
    next
      case None
      show ?thesis
      proof (cases "stuckTxThresholdMs d < ?now - at")
        case False
        then show ?thesis using sub Inr None cur by (simp add: settle_one_def ext_eq touches_refl touches_same)
      next
        case old: True
        let ?mp = "isInMempool d (destinationDomain x) hash (snd ?rc)"
        show ?thesis
        proof (cases "fst ?mp = Inr False")
          case False
          then show ?thesis using sub Inr None old cur
            by (auto simp: settle_one_def ext_eq touches_refl touches_same split: sum.splits bool.splits)
        next
          case True
          have "dropped d x ?now"
            unfolding dropped_def using seen None old sub True by auto
          then have "job_step d x (applyPatch x (clear_submission\<lparr>p_state := Some Attested\<rparr>) ?now)"
            using drop_stuck [OF st] by (simp add: patch_simps)
          then show ?thesis using sub Inr None old True cur st
            by (auto simp: settle_one_def ext_eq touches_refl touches_same jobs_move split: sum.splits
                intro!: touches_update)
        qed
      qed
    qed
  qed
qed


section \<open>Loops over a listing\<close>

definition loop_post ::
    "(cctp_job \<Rightarrow> cctp_job \<Rightarrow> bool) \<Rightarrow> cctp_job list \<Rightarrow> 'w actor_state \<Rightarrow> 'w actor_state \<Rightarrow> bool" where
  "loop_post R xs s s' \<longleftrightarrow> pg_invar (jobs s')
     \<and> (\<forall>k. k \<notin> dedupKey ` set xs \<longrightarrow> pg_get (jobs s') k = pg_get (jobs s) k)
     \<and> (\<forall>x \<in> set xs. \<exists>j'. pg_get (jobs s') (dedupKey x) = Some j' \<and> R\<^sup>=\<^sup>= x j')"

definition listing :: "cctp_job list \<Rightarrow> 'w actor_state \<Rightarrow> bool" where
  "listing xs s \<longleftrightarrow> pg_invar (jobs s) \<and> distinct (map dedupKey xs) \<and> (\<forall>x \<in> set xs. current x s)"

lemma listing_same: "listing xs s \<Longrightarrow> loop_post R xs s s"
  by (auto simp: loop_post_def listing_def current_def)

lemma listing_world [simp]: "listing xs (s\<lparr>world := w\<rparr>) = listing xs s"
  by (simp add: listing_def)

lemma loop_post_world [simp]: "loop_post R xs (s\<lparr>world := w\<rparr>) s' = loop_post R xs s s'"
  by (simp add: loop_post_def)

lemma listing_filter: "listing xs s \<Longrightarrow> listing (filter P xs) s"
  by (auto simp: listing_def intro: distinct_map_filter)

lemma listing_take: "listing xs s \<Longrightarrow> listing (take n xs) s"
  by (auto simp: listing_def distinct_map intro: inj_on_subset dest: in_set_takeD)

lemma listing_listByState: "pg_invar (jobs s) \<Longrightarrow> listing (pg_listByState (jobs s) st n) s"
  using pg.list_sound pg.list_distinct by (auto simp: listing_def current_def)

lemma listing_apart:
  "listing (xs @ ys) s \<Longrightarrow> y \<in> set ys \<Longrightarrow> dedupKey y \<notin> dedupKey ` set xs"
  by (auto simp: listing_def image_iff)

lemma listing_rest:
  assumes "loop_post R xs s s1" and "listing (xs @ ys) s"
  shows "listing ys s1"
  using assms listing_apart [OF assms(2)] by (auto simp: listing_def loop_post_def current_def)

lemma loop_post_append:
  assumes "loop_post R xs s s1" and "listing (xs @ ys) s" and "listing ys s1 \<Longrightarrow> loop_post R ys s1 s2"
  shows "loop_post R (xs @ ys) s s2"
proof -
  have apart: "dedupKey y \<notin> dedupKey ` set xs" if "y \<in> set ys" for y
    using listing_apart [OF assms(2) that] .
  have "listing ys s1" by (rule listing_rest [OF assms(1,2)])
  then have post: "loop_post R ys s1 s2" by (rule assms(3))
  have "\<exists>j'. pg_get (jobs s2) (dedupKey x) = Some j' \<and> R\<^sup>=\<^sup>= x j'" if "x \<in> set xs" for x
  proof -
    have "dedupKey x \<notin> dedupKey ` set ys"
    proof
      assume "dedupKey x \<in> dedupKey ` set ys"
      then obtain y where "y \<in> set ys" "dedupKey y = dedupKey x" by (metis imageE)
      then show False using apart [of y] that by (metis imageI)
    qed
    then show ?thesis using assms(1) post that by (simp add: loop_post_def)
  qed
  then show ?thesis using assms(1) post unfolding loop_post_def by (auto simp: image_Un)
qed

lemma loop_post_one: "touches R x s s' \<Longrightarrow> loop_post R [x] s s'"
  by (auto simp: touches_def loop_post_def)

lemma loop_post_stop:
  assumes "touches R x s s'" and "listing (x # xs) s"
  shows "loop_post R (x # xs) s s'"
proof -
  have "loop_post R ([x] @ xs) s s'"
    by (rule loop_post_append [OF loop_post_one [OF assms(1)]])
      (use assms(2) in simp, rule listing_same)
  then show ?thesis by simp
qed

lemma for_each_post:
  assumes "\<And>x s. x \<in> set xs \<Longrightarrow> current x s \<Longrightarrow> touches R x s (snd (f x s))" and "listing xs s"
  shows "loop_post R xs s (snd (for_each f xs s))"
  using assms
proof (induction xs arbitrary: s)
  case Nil
  then show ?case by (simp add: listing_same)
next
  case (Cons x xs)
  have t: "touches R x s (snd (f x s))" using Cons.prems by (simp add: listing_def)
  have rest: "loop_post R xs (snd (f x s)) (snd (for_each f xs (snd (f x s))))"
    if "listing xs (snd (f x s))"
    using Cons.IH [OF _ that] Cons.prems(1) by simp
  show ?case
  proof (cases "f x s")
    case (Pair r s')
    show ?thesis
    proof (cases r)
      case (Inl e)
      then show ?thesis using Pair loop_post_stop [OF t Cons.prems(2)] by simp
    next
      case (Inr u)
      have "loop_post R ([x] @ xs) s (snd (for_each f xs (snd (f x s))))"
        using loop_post_append [OF loop_post_one [OF t], of xs] Cons.prems(2) rest by simp
      then show ?thesis using Pair Inr by simp
    qed
  qed
qed

lemma all_settled_post:
  assumes "\<And>x s. x \<in> set xs \<Longrightarrow> current x s \<Longrightarrow> touches R x s (snd (f x s))" and "listing xs s"
  shows "loop_post R xs s (snd (all_settled f xs s))"
  using assms
proof (induction xs arbitrary: s)
  case Nil
  then show ?case by (simp add: listing_same)
next
  case (Cons x xs)
  have t: "touches R x s (snd (f x s))" using Cons.prems by (simp add: listing_def)
  have rest: "loop_post R xs (snd (f x s)) (snd (all_settled f xs (snd (f x s))))"
    if "listing xs (snd (f x s))"
    using Cons.IH [OF _ that] Cons.prems(1) by simp
  have "loop_post R ([x] @ xs) s (snd (all_settled f xs (snd (f x s))))"
    using loop_post_append [OF loop_post_one [OF t], of xs] Cons.prems(2) rest by simp
  then show ?case by (auto split: prod.splits)
qed

section \<open>Phases\<close>

definition phase :: "(cctp_job \<Rightarrow> cctp_job \<Rightarrow> bool) \<Rightarrow> 'w actor_state \<Rightarrow> 'w actor_state \<Rightarrow> bool" where
  "phase R s s' \<longleftrightarrow> pg_invar (jobs s')
     \<and> (\<forall>k. rel_option R\<^sup>=\<^sup>= (pg_get (jobs s) k) (pg_get (jobs s') k))"

lemma phase_of_loop:
  assumes "loop_post R xs s s'" and "listing xs s"
  shows "phase R s s'"
  unfolding phase_def
proof (intro conjI allI)
  show "pg_invar (jobs s')" using assms(1) by (simp add: loop_post_def)
  fix k
  show "rel_option R\<^sup>=\<^sup>= (pg_get (jobs s) k) (pg_get (jobs s') k)"
  proof (cases "k \<in> dedupKey ` set xs")
    case True
    then obtain x where x: "x \<in> set xs" "k = dedupKey x" by blast
    then have "pg_get (jobs s) k = Some x" using assms(2) by (simp add: listing_def current_def)
    with assms(1) x show ?thesis by (auto simp: loop_post_def)
  next
    case False
    then show ?thesis using assms(1) by (simp add: loop_post_def option.rel_refl)
  qed
qed

lemma listed_state:
  "pg_invar t \<Longrightarrow> x \<in> set (pg_listByState t st n) \<Longrightarrow> state x = st"
  using pg.list_sound by blast

lemma tickDetected_post:
  assumes "pg_invar (jobs s)"
  shows "loop_post (job_step d) (pg_listByState (jobs s) Detected TICK_BATCH) s (snd (tickDetected d s))"
  using for_each_post [of "pg_listByState (jobs s) Detected TICK_BATCH" "job_step d", OF detect_touches
      listing_world [THEN iffD2, OF listing_listByState [OF assms]]] listed_state [OF assms]
  by (simp add: tickDetected_def ext_eq)

lemma tickAttested_post:
  assumes "pg_invar (jobs s)"
  shows "loop_post (job_step d) (pg_listByState (jobs s) Attested TICK_BATCH) s (snd (tickAttested d s))"
  using for_each_post [of "pg_listByState (jobs s) Attested TICK_BATCH" "job_step d", OF submit_touches
      listing_world [THEN iffD2, OF listing_listByState [OF assms]]] listed_state [OF assms]
  by (simp add: tickAttested_def ext_eq)

lemma tickSubmitted_post:
  assumes "pg_invar (jobs s)"
  shows "loop_post (job_step d) (pg_listByState (jobs s) Submitted TICK_BATCH) s (snd (tickSubmitted d s))"
  using for_each_post [of "pg_listByState (jobs s) Submitted TICK_BATCH" "job_step d", OF settle_touches
      listing_listByState [OF assms]] listed_state [OF assms]
  by (simp add: tickSubmitted_def)

text \<open>The two loops of the attestation phase run over disjoint parts of one listing.\<close>

definition expired_of :: "'w machine_deps \<Rightarrow> 'w actor_state \<Rightarrow> cctp_job list" where
  "expired_of d s = filter (is_expired d (fst (now_dep d (world s))))
     (pg_listByState (jobs s) AwaitingAttestation TICK_BATCH)"

definition pollable_of :: "'w machine_deps \<Rightarrow> 'w actor_state \<Rightarrow> cctp_job list" where
  "pollable_of d s = take IRIS_POLL_CONCURRENCY
     (filter (\<lambda>j. j \<notin> set (expired_of d s)) (pg_listByState (jobs s) AwaitingAttestation TICK_BATCH))"

lemma for_each_total:
  assumes "\<And>x s. \<exists>s'. f x s = (Inr (), s')"
  shows "fst (for_each f xs s) = Inr ()"
proof (induction xs arbitrary: s)
  case Nil
  then show ?case by simp
next
  case (Cons x xs)
  obtain s' where "f x s = (Inr (), s')" using assms by blast
  then show ?case using Cons by simp
qed

definition after_expiry :: "'w machine_deps \<Rightarrow> 'w actor_state \<Rightarrow> 'w actor_state" where
  "after_expiry d s = snd (for_each (expire_one (fst (now_dep d (world s)))) (expired_of d s)
     (s\<lparr>world := snd (now_dep d (world s))\<rparr>))"

lemma tickAwaiting_eq:
  "tickAwaitingAttestation d s = all_settled (pollOne d) (pollable_of d s) (after_expiry d s)"
proof -
  have ok: "fst (for_each (expire_one now) xs s') = Inr ()" for now xs and s' :: "'a actor_state"
    by (rule for_each_total) (simp add: expire_one_def)
  let ?now = "fst (now_dep d (world s))"
  obtain s1 where s1: "for_each (expire_one ?now) (expired_of d s)
      (s\<lparr>world := snd (now_dep d (world s))\<rparr>) = (Inr (), s1)"
    using ok [of ?now "expired_of d s" "s\<lparr>world := snd (now_dep d (world s))\<rparr>"]
    by (metis prod.collapse)
  have "for_each (expire_one ?now)
      (filter (is_expired d ?now) (pg_listByState (jobs s) AwaitingAttestation TICK_BATCH))
      (s\<lparr>world := snd (now_dep d (world s))\<rparr>) = (Inr (), s1)"
    using s1 by (simp only: expired_of_def)
  then have "tickAwaitingAttestation d s = all_settled (pollOne d) (pollable_of d s) s1"
    by (simp only: tickAwaitingAttestation_def ext_eq Let_def pollable_of_def expired_of_def
        prod.case sum.case)
  then show ?thesis by (simp add: after_expiry_def s1)
qed

lemma listing_split:
  assumes l: "listing xs s"
  shows "listing (filter P xs @ take n (filter (\<lambda>j. j \<notin> set (filter P xs)) xs)) s"
proof -
  let ?ps = "filter P xs" and ?qs = "take n (filter (\<lambda>j. j \<notin> set (filter P xs)) xs)"
  have "listing ?ps s" "listing ?qs s" using l by (auto intro: listing_filter listing_take)
  moreover have "dedupKey ` set ?ps \<inter> dedupKey ` set ?qs = {}"
  proof -
    have inj: "inj_on dedupKey (set xs)" using l by (simp add: listing_def distinct_map)
    have sub: "set ?ps \<subseteq> set xs" "set ?qs \<subseteq> set xs - set ?ps" by (auto dest: in_set_takeD)
    then show ?thesis using inj by (auto dest!: inj_onD)
  qed
  ultimately show ?thesis by (auto simp: listing_def)
qed

lemma awaiting_listing:
  assumes "pg_invar (jobs s)"
  shows "listing (expired_of d s @ pollable_of d s) s"
  unfolding expired_of_def pollable_of_def by (rule listing_split [OF listing_listByState [OF assms]])

lemma after_expiry_post:
  assumes "pg_invar (jobs s)"
  shows "loop_post (job_step d) (expired_of d s) s (after_expiry d s)"
proof -
  have "touches (job_step d) x s' (snd (expire_one (fst (now_dep d (world s))) x s'))"
    if "x \<in> set (expired_of d s)" "current x s'" for x s'
    using that listed_state [OF assms] by (intro expire_touches) (auto simp: expired_of_def)
  moreover have "listing (expired_of d s) s"
    using awaiting_listing [OF assms, of d] by (auto simp: listing_def)
  ultimately have "loop_post (job_step d) (expired_of d s) (s\<lparr>world := snd (now_dep d (world s))\<rparr>) (after_expiry d s)"
    unfolding after_expiry_def by (intro for_each_post) simp_all
  then show ?thesis by simp
qed

lemma polls_post:
  assumes "pg_invar (jobs s)"
  shows "loop_post (job_step d) (pollable_of d s) (after_expiry d s) (snd (tickAwaitingAttestation d s))"
proof -
  have "listing (pollable_of d s) (after_expiry d s)"
    by (rule listing_rest [OF after_expiry_post [OF assms] awaiting_listing [OF assms]])
  moreover have "state x = AwaitingAttestation" if "x \<in> set (pollable_of d s)" for x
    using that listed_state [OF assms] by (auto simp: pollable_of_def dest!: in_set_takeD)
  ultimately show "loop_post (job_step d) (pollable_of d s) (after_expiry d s) (snd (tickAwaitingAttestation d s))"
    unfolding tickAwaiting_eq by (intro all_settled_post poll_touches)
qed

lemma tickAwaiting_post:
  assumes "pg_invar (jobs s)"
  shows "loop_post (job_step d) (expired_of d s @ pollable_of d s) s (snd (tickAwaitingAttestation d s))"
  by (rule loop_post_append [OF after_expiry_post [OF assms] awaiting_listing [OF assms]
      polls_post [OF assms]])

lemma phases:
  assumes "pg_invar (jobs s)"
  shows "phase (job_step d) s (snd (tickDetected d s))" and "phase (job_step d) s (snd (tickAwaitingAttestation d s))"
    and "phase (job_step d) s (snd (tickAttested d s))" and "phase (job_step d) s (snd (tickSubmitted d s))"
  using phase_of_loop [OF tickDetected_post [OF assms] listing_listByState [OF assms]]
    phase_of_loop [OF tickAwaiting_post [OF assms] awaiting_listing [OF assms]]
    phase_of_loop [OF tickAttested_post [OF assms] listing_listByState [OF assms]]
    phase_of_loop [OF tickSubmitted_post [OF assms] listing_listByState [OF assms]]
  by blast+

text \<open>A tick is at most four phases.\<close>

definition evolves :: "(cctp_job \<Rightarrow> cctp_job \<Rightarrow> bool) \<Rightarrow> 'w actor_state \<Rightarrow> 'w actor_state \<Rightarrow> bool" where
  "evolves R s s' \<longleftrightarrow> pg_invar (jobs s')
     \<and> (\<forall>k. rel_option R\<^sup>*\<^sup>* (pg_get (jobs s) k) (pg_get (jobs s') k))"

lemma evolves_phase: "phase R s s' \<Longrightarrow> evolves R s s'"
proof -
  have "R\<^sup>=\<^sup>= \<le> R\<^sup>*\<^sup>*" by auto
  then have "rel_option R\<^sup>=\<^sup>= \<le> rel_option R\<^sup>*\<^sup>*" by (rule option.rel_mono)
  then show "phase R s s' \<Longrightarrow> evolves R s s'" unfolding evolves_def phase_def by blast
qed

lemma evolves_trans:
  assumes "evolves R s s1" and "evolves R s1 s2"
  shows "evolves R s s2"
proof -
  have "rel_option R\<^sup>*\<^sup>* (pg_get (jobs s) k) (pg_get (jobs s2) k)" for k
    using assms unfolding evolves_def
    by (cases "pg_get (jobs s) k"; cases "pg_get (jobs s1) k"; cases "pg_get (jobs s2) k")
      (metis option.rel_inject(2) option.rel_distinct rtranclp_trans option.rel_inject(1))+
  then show ?thesis using assms(2) by (simp add: evolves_def)
qed

lemma evolves_and_then:
  assumes "pg_invar (jobs s)" and "\<And>s. pg_invar (jobs s) \<Longrightarrow> evolves R s (snd (f s))"
    and "\<And>s. pg_invar (jobs s) \<Longrightarrow> evolves R s (snd (g s))"
  shows "evolves R s (snd (and_then f g s))"
proof -
  have f: "evolves R s (snd (f s))" using assms(1,2) by blast
  then have "evolves R (snd (f s)) (snd (g (snd (f s))))" using assms(3) by (simp add: evolves_def)
  with f have "evolves R s (snd (g (snd (f s))))" by (rule evolves_trans)
  with f show ?thesis by (auto simp: and_then_def split: prod.splits sum.splits)
qed

lemma tick_evolves:
  assumes "pg_invar (jobs s)"
  shows "evolves (job_step d) s (snd (tick d s))"
  unfolding tick_def
  by (intro evolves_and_then assms evolves_phase phases)

end
