(* ===== verification/Lifecycle.thy ===== *)
theory Lifecycle
  imports JobSteps
begin

text \<open>
  What the job pipeline guarantees over any run: the invariant of every stored job, the evidence
  behind every broadcast and delivery, and the properties of single ticks (expiry, backoff,
  settlement, polling order, progress).
\<close>

section \<open>The invariant of a job\<close>

text \<open>The bytes a job would broadcast come from the attestation client, or are the mock ones.\<close>

definition attested_bytes :: "'w machine_deps \<Rightarrow> cctp_job \<Rightarrow> bool" where
  "attested_bytes d j \<longleftrightarrow> (\<forall>att msg. attestation j = Some att \<longrightarrow> relayMessage j = Some msg \<longrightarrow>
     irisMode d = Mock \<and> att = MOCK_ATTESTATION \<and> msg = messageBytes j
     \<or> fetched d j (AttComplete att msg))"

definition submission_recorded :: "'w machine_deps \<Rightarrow> cctp_job \<Rightarrow> bool" where
  "submission_recorded d j \<longleftrightarrow>
     (if state j \<in> {Submitted, Delivered}
      then submittedAt j \<noteq> None \<and> (\<exists>h. submittedTxHash j = Some h \<and> broadcast d j (Inr h))
      else submittedTxHash j = None \<and> submittedAt j = None)"

definition delivery_recorded :: "'w machine_deps \<Rightarrow> cctp_job \<Rightarrow> bool" where
  "delivery_recorded d j \<longleftrightarrow>
     (if state j = Delivered
      then deliveredTxHash j = submittedTxHash j \<and> deliveredAt j \<noteq> None
        \<and> (\<exists>r. receipt_seen d j (Some r) \<and> rc_status r = 1 \<and> deliveredBlock j = Some (rc_blockNumber r))
      else deliveredTxHash j = None \<and> deliveredBlock j = None \<and> deliveredAt j = None)"

definition reason_recorded :: "cctp_job \<Rightarrow> bool" where
  "reason_recorded j \<longleftrightarrow> (case deadLetterReason j of
      None \<Rightarrow> state j \<notin> {DeadLetter, Skipped}
    | Some Expired \<Rightarrow> state j = DeadLetter
    | Some RetriesExhausted \<Rightarrow> state j = DeadLetter \<and> retryAttempts j = MAX_RELAY_RETRIES
    | Some (SkipReason r) \<Rightarrow> state j = Skipped)"

definition job_wf :: "'w machine_deps \<Rightarrow> cctp_job \<Rightarrow> bool" where
  "job_wf d j \<longleftrightarrow> 0 \<le> retryAttempts j \<and> retryAttempts j \<le> MAX_RELAY_RETRIES \<and> attested_bytes d j
     \<and> submission_recorded d j \<and> delivery_recorded d j \<and> reason_recorded j"

lemma dead_letter_reason:
  "reason_recorded j \<Longrightarrow> state j = DeadLetter \<Longrightarrow>
    deadLetterReason j = Some Expired
    \<or> deadLetterReason j = Some RetriesExhausted \<and> retryAttempts j = MAX_RELAY_RETRIES"
  by (auto simp: reason_recorded_def split: option.splits dl_reason.splits)

text \<open>Only messages the classifier relays leave the skipped state's side of the table.\<close>

definition classified :: "'w discovery_ctx \<Rightarrow> cctp_job \<Rightarrow> bool" where
  "classified ctx j \<longleftrightarrow> (let c = classifyMessageForRelay (dc_ethers ctx) (messageBytes j)
       (knownRecipients ctx)
       (case hookRouterByDomain ctx (destinationDomain j) of None \<Rightarrow> None | Some h \<Rightarrow> h)
     in if state j = Skipped then \<exists>r. c = Inr (NoRelay r) \<and> deadLetterReason j = Some (SkipReason r)
        else \<exists>r. c = Inr (Relay r))"

lemmas wf_defs = attested_bytes_def submission_recorded_def delivery_recorded_def reason_recorded_def

lemma fetched_cong: "query_of j' = query_of j \<Longrightarrow> fetched d j' r = fetched d j r"
  by (simp add: fetched_def)

lemma step_attested_bytes: "job_step d j j' \<Longrightarrow> attested_bytes d j \<Longrightarrow> attested_bytes d j'"
  by (induction rule: job_step.induct) (simp_all add: attested_bytes_def fetched_def query_of_def)

lemma step_submission: "job_step d j j' \<Longrightarrow> submission_recorded d j \<Longrightarrow> submission_recorded d j'"
  by (induction rule: job_step.induct) (simp_all add: submission_recorded_def broadcast_def)

lemma step_delivery: "job_step d j j' \<Longrightarrow> delivery_recorded d j \<Longrightarrow> delivery_recorded d j'"
  by (induction rule: job_step.induct) (auto simp: delivery_recorded_def receipt_seen_def)

lemma step_reason:
  "job_step d j j' \<Longrightarrow> reason_recorded j \<Longrightarrow> retryAttempts j \<le> MAX_RELAY_RETRIES \<Longrightarrow> reason_recorded j'"
  by (induction rule: job_step.induct)
    (auto simp: reason_recorded_def split: option.splits dl_reason.splits)

lemma step_retries:
  "job_step d j j' \<Longrightarrow> 0 \<le> retryAttempts j \<and> retryAttempts j \<le> MAX_RELAY_RETRIES \<Longrightarrow>
    0 \<le> retryAttempts j' \<and> retryAttempts j' \<le> MAX_RELAY_RETRIES"
  by (induction rule: job_step.induct) simp_all

lemma step_wf [inv_intros]: "job_step d j j' \<Longrightarrow> job_wf d j \<Longrightarrow> job_wf d j'"
  unfolding job_wf_def
  using step_attested_bytes step_submission step_delivery step_reason step_retries by blast

lemma step_classified [inv_intros]:
  "job_step d j j' \<Longrightarrow> classified ctx j \<Longrightarrow> classified ctx j'"
  by (induction rule: job_step.induct) (simp_all add: classified_def Let_def)

lemma step_identity: "job_step d j j' \<Longrightarrow> same_identity j j'"
  by (induction rule: job_step.induct) (simp_all add: same_identity_def)

lemma identity_steps:
  assumes "R\<^sup>*\<^sup>* j j'" and "\<And>i i'. R i i' \<Longrightarrow> same_identity i i'"
  shows "same_identity j j'"
  using assms(1)
proof (induction rule: rtranclp_induct)
  case (step y z)
  then show ?case using same_identity_trans assms(2) by blast
qed simp

lemma initial_wf: "initialJob ctx v m now = Inr j \<Longrightarrow> job_wf d j"
  by (erule initialJob_cases, drule newJob_fields)
    (auto simp: job_wf_def wf_defs MAX_RELAY_RETRIES_def)

lemma initial_classified: "initialJob ctx v m now = Inr j \<Longrightarrow> classified ctx j"
  by (erule initialJob_cases, drule newJob_fields)
    (auto simp: classified_def relayable_def hook_for_def Let_def)

section \<open>Runs of the actor\<close>

definition table_all :: "(cctp_job \<Rightarrow> bool) \<Rightarrow> job_table \<Rightarrow> bool" where
  "table_all P t \<longleftrightarrow> pg_invar t \<and> (\<forall>k j. pg_get t k = Some j \<longrightarrow> P j)"

lemma rtranclp_preserves:
  assumes "r\<^sup>*\<^sup>* x y" and "P x" and "\<And>x y. r x y \<Longrightarrow> P x \<Longrightarrow> P y"
  shows "P y"
  using assms by (induction rule: rtranclp_induct) auto

lemma evolves_all:
  assumes "evolves R s s'" and "table_all P (jobs s)"
    and "\<And>j j'. R j j' \<Longrightarrow> P j \<Longrightarrow> P j'"
  shows "table_all P (jobs s')"
  unfolding table_all_def
proof (intro conjI allI impI)
  show "pg_invar (jobs s')" using assms(1) by (simp add: evolves_def)
  fix k j' assume j': "pg_get (jobs s') k = Some j'"
  then have "rel_option R\<^sup>*\<^sup>* (pg_get (jobs s) k) (Some j')"
    using assms(1) by (metis evolves_def)
  then obtain j where j: "pg_get (jobs s) k = Some j" "R\<^sup>*\<^sup>* j j'"
    by (auto simp: option_rel_Some2)
  then have "P j" using assms(2) by (simp add: table_all_def)
  with j(2) show "P j'" using assms(3) by (rule rtranclp_preserves)
qed

lemma extends_all:
  assumes "extends ctx M t t'" and "pg_invar t'" and "table_all P t"
    and "\<And>m v now j. initialJob ctx v m now = Inr j \<Longrightarrow> P j"
  shows "table_all P t'"
  unfolding table_all_def
proof (intro conjI allI impI)
  show "pg_invar t'" by (rule assms(2))
  fix k j assume "pg_get t' k = Some j"
  then show "P j"
    using extendsD [OF assms(1), of k] assms(3,4) by (auto simp: table_all_def)
qed

text \<open>What may happen: the world changes by itself, a message is claimed (by discovery or by the
  fallback scanner), a discovery tick runs, a tick of the machine runs; each possibly cut short by
  an exception. The database starts empty.\<close>

inductive actor_run :: "'w discovery_ctx \<Rightarrow> 'w machine_deps \<Rightarrow> 'w actor_state \<Rightarrow> bool" for ctx d where
  start: "jobs s = [] \<Longrightarrow> actor_run ctx d s"
| outside: "actor_run ctx d s \<Longrightarrow> actor_run ctx d (s\<lparr>world := w\<rparr>)"
| claim: "actor_run ctx d s \<Longrightarrow> actor_run ctx d (snd (claimMessage ctx m s))"
| discover: "actor_run ctx d s \<Longrightarrow> actor_run ctx d (snd (discoverWork ctx s))"
| machine: "actor_run ctx d s \<Longrightarrow> actor_run ctx d (snd (tick d s))"

definition stored_ok :: "'w discovery_ctx \<Rightarrow> 'w machine_deps \<Rightarrow> cctp_job \<Rightarrow> bool" where
  "stored_ok ctx d j \<longleftrightarrow> job_wf d j \<and> classified ctx j"

lemma initial_ok: "initialJob ctx v m now = Inr j \<Longrightarrow> stored_ok ctx d j"
  by (simp add: stored_ok_def initial_wf initial_classified)

lemma step_ok: "job_step d j j' \<Longrightarrow> stored_ok ctx d j \<Longrightarrow> stored_ok ctx d j'"
  unfolding stored_ok_def by (blast intro: inv_intros)

lemma run_invariant: "actor_run ctx d s \<Longrightarrow> table_all (stored_ok ctx d) (jobs s)"
proof (induction rule: actor_run.induct)
  case (start s)
  then show ?case by (simp add: table_all_def pg_invar_def)
next
  case (outside s w)
  then show ?case by simp
next
  case (claim s m)
  then have "pg_invar (jobs s)" by (simp add: table_all_def)
  from claimMessage_extends [OF this, of ctx m] claim.IH show ?case
    using extends_all initial_ok by metis
next
  case (discover s)
  then show ?case
    unfolding discoverWork_eq
    using claim_loop_extends [of s ctx] extends_all initial_ok by (metis table_all_def)
next
  case (machine s)
  then have "pg_invar (jobs s)" by (simp add: table_all_def)
  from tick_evolves [OF this] machine.IH step_ok show ?case by (rule evolves_all)
qed


section \<open>Properties of every run\<close>


definition demo_deps :: "iris_mode \<Rightarrow> watcher_view machine_deps" where
  "demo_deps mode = \<lparr>irisMode = mode, stuckTxThresholdMs = 600000, maxAttestationAgeMs = 3600000,
     now_dep = (\<lambda>w. (5000, w)),
     att_fetch = (\<lambda>q w. (irisFetch 10000 q demo_response, w)),
     submitRelayWithHook = (\<lambda>dst msg att w. (Inr ''0xcc'', w)),
     getReceipt = (\<lambda>dst h w. (Inr (Some \<lparr>rc_status = 1, rc_blockNumber = 77\<rparr>), w)),
     isInMempool = (\<lambda>dst h w. (Inr True, w)),
     resetNonce = (\<lambda>dst w. (Inr (), w))\<rparr>"

definition one_job :: "cctp_job \<Rightarrow> watcher_view actor_state" where
  "one_job j = \<lparr>jobs = [jobToRow j], world = demo_view, transitions = []\<rparr>"

lemma one_job_simps [simp]:
  "pg_invar (jobs (one_job j))" "world (one_job j) = demo_view"
  "pg_get (jobs (one_job j)) k = (if dedupKey j = k then Some j else None)"
  by (simp_all add: one_job_def pg_invar_def)


text \<open>C5: In every run, whatever the world answers and wherever ticks are cut short: keys are unique;
  the retry count of a job is between 0 and 5; a submitted or delivered job records the
  transaction its own broadcast returned, and no other job records one; a job is delivered only
  with a receipt of that transaction with status 1, whose block it records; a job is
  dead-lettered with the reason \<open>expired\<close>, or \<open>retries-exhausted\<close> at exactly 5 retries; and a job
  is skipped exactly when the classifier refuses its message, with the classifier's reason.\<close>

theorem run_keeps_jobs_wellformed:
  assumes "actor_run ctx d s"
  shows "pg_invar (jobs s) \<and> (\<forall>k j. pg_get (jobs s) k = Some j \<longrightarrow>
    0 \<le> retryAttempts j \<and> retryAttempts j \<le> 5
    \<and> (state j \<in> {Submitted, Delivered} \<longrightarrow>
        (\<exists>h. submittedTxHash j = Some h \<and> broadcast d j (Inr h)))
    \<and> (state j \<notin> {Submitted, Delivered} \<longrightarrow> submittedTxHash j = None \<and> submittedAt j = None)
    \<and> (state j = Delivered \<longrightarrow> deliveredTxHash j = submittedTxHash j
        \<and> (\<exists>r. receipt_seen d j (Some r) \<and> rc_status r = 1 \<and> deliveredBlock j = Some (rc_blockNumber r)))
    \<and> (state j \<noteq> Delivered \<longrightarrow> deliveredTxHash j = None \<and> deliveredAt j = None)
    \<and> (state j = DeadLetter \<longrightarrow> deadLetterReason j = Some Expired
        \<or> deadLetterReason j = Some RetriesExhausted \<and> retryAttempts j = 5)
    \<and> (state j = Skipped \<longleftrightarrow> (\<exists>r. classifyMessageForRelay (dc_ethers ctx) (messageBytes j)
          (knownRecipients ctx) (case hookRouterByDomain ctx (destinationDomain j) of
             None \<Rightarrow> None | Some h \<Rightarrow> h) = Inr (NoRelay r) \<and> deadLetterReason j = Some (SkipReason r))))"
proof -
  from run_invariant [OF assms] have inv: "pg_invar (jobs s)"
    and ok: "\<And>k j. pg_get (jobs s) k = Some j \<Longrightarrow> job_wf d j \<and> classified ctx j"
    by (auto simp: table_all_def stored_ok_def)
  have "state j = Skipped \<longleftrightarrow> (\<exists>r. classifyMessageForRelay (dc_ethers ctx) (messageBytes j)
          (knownRecipients ctx) (case hookRouterByDomain ctx (destinationDomain j) of
             None \<Rightarrow> None | Some h \<Rightarrow> h) = Inr (NoRelay r) \<and> deadLetterReason j = Some (SkipReason r))"
    if "classified ctx j" for j
    using that by (auto simp: classified_def Let_def split: if_splits)
  moreover have "0 \<le> retryAttempts j \<and> retryAttempts j \<le> 5
      \<and> (state j \<in> {Submitted, Delivered} \<longrightarrow> (\<exists>h. submittedTxHash j = Some h \<and> broadcast d j (Inr h)))
      \<and> (state j \<notin> {Submitted, Delivered} \<longrightarrow> submittedTxHash j = None \<and> submittedAt j = None)
      \<and> (state j = Delivered \<longrightarrow> deliveredTxHash j = submittedTxHash j
        \<and> (\<exists>r. receipt_seen d j (Some r) \<and> rc_status r = 1 \<and> deliveredBlock j = Some (rc_blockNumber r)))
      \<and> (state j \<noteq> Delivered \<longrightarrow> deliveredTxHash j = None \<and> deliveredAt j = None)
      \<and> (state j = DeadLetter \<longrightarrow> deadLetterReason j = Some Expired
        \<or> deadLetterReason j = Some RetriesExhausted \<and> retryAttempts j = 5)"
    if "job_wf d j" for j
    using that dead_letter_reason [of j] unfolding job_wf_def submission_recorded_def delivery_recorded_def
    by (simp add: MAX_RELAY_RETRIES_def split: if_splits)
  ultimately show ?thesis using inv ok by blast
qed

lemma no_step_from_terminal: "job_step d j j' \<Longrightarrow> \<not> terminal (state j)"
  by (induction rule: job_step.induct) (simp_all add: terminal_def)

lemma steps_from_terminal: "(job_step d)\<^sup>*\<^sup>* j j' \<Longrightarrow> terminal (state j) \<Longrightarrow> j' = j"
  by (erule converse_rtranclpE) (auto dest: no_step_from_terminal)

text \<open>Delivered, dead-lettered, skipped and already-delivered jobs are final: no tick of the
  machine, no discovery and no claim, finished or cut short, changes anything in them.\<close>

theorem terminal_jobs_are_final:
  assumes "pg_invar (jobs s)" and "pg_get (jobs s) k = Some j" and "terminal (state j)"
  shows "pg_get (jobs (snd (tick d s))) k = Some j
    \<and> pg_get (jobs (snd (discoverWork ctx s))) k = Some j
    \<and> pg_get (jobs (snd (claimMessage ctx m s))) k = Some j"
proof -
  have "rel_option (job_step d)\<^sup>*\<^sup>* (Some j) (pg_get (jobs (snd (tick d s))) k)"
    using tick_evolves [OF assms(1), of d] assms(2) unfolding evolves_def by metis
  then have "pg_get (jobs (snd (tick d s))) k = Some j"
    using steps_from_terminal assms(3) by (fastforce simp: option_rel_Some1)
  moreover have "pg_get (jobs (snd (discoverWork ctx s))) k = Some j"
    using discovery_extends(1) [OF assms(1)] extends_keeps assms(2) by blast
  moreover have "pg_get (jobs (snd (claimMessage ctx m s))) k = Some j"
    using claimMessage_extends [OF assms(1)] extends_keeps assms(2) by blast
  ultimately show ?thesis by blast
qed

theorem terminal_jobs_are_final_witness:
  "pg_get (jobs (snd (tick (demo_deps Iris) (one_job (demo_delivered ''0:43'' 5))))) ''0:43''
     = Some (demo_delivered ''0:43'' 5)"
proof -
  have k: "pg_get (jobs (one_job (demo_delivered ''0:43'' 5))) ''0:43'' = Some (demo_delivered ''0:43'' 5)"
    by (simp add: demo_delivered_def)
  have "terminal (state (demo_delivered ''0:43'' 5))" by (simp add: demo_delivered_def terminal_def)
  from terminal_jobs_are_final [OF _ k this, of "demo_deps Iris" demo_ctx "demo_indexed ''x'' 1 1"]
  show ?thesis by simp
qed

inductive_cases submitted_stepE: "job_step d j j'"

lemma submitted_step:
  assumes "job_step d j j'" and "state j = Submitted"
  shows "(\<exists>r. receipt_seen d j (Some r) \<and>
      (if rc_status r = 1 then state j' = Delivered \<and> deliveredBlock j' = Some (rc_blockNumber r)
       else if retryAttempts j < MAX_RELAY_RETRIES
       then state j' = Attested \<and> retryAttempts j' = retryAttempts j + 1
       else state j' = DeadLetter))
    \<or> (\<exists>now. dropped d j now \<and> state j' = Attested \<and> retryAttempts j' = retryAttempts j)"
  using assms by (elim submitted_stepE) (simp_all, (force simp: not_less)+)


definition demo_submitted :: cctp_job where
  "demo_submitted = demo_job\<lparr>state := Submitted, attestation := Some ''0x'', relayMessage := Some ''0x00'',
     submittedTxHash := Some ''0xcc'', submittedAt := Some 4000\<rparr>"



end
