(* ===== verification/Progress.thy ===== *)
theory Progress
  imports Lifecycle "HOL-Library.Multiset"
begin

text \<open>
  Single ticks of the job machine: what they are sure to do. Expiry, the polling window and its
  independence of the order in which answers arrive, backoff and exhaustion of retries, the
  abort of a tick by a failing receipt query, and delivery in one tick when the outside world
  cooperates.
\<close>

section \<open>Loops reach every listed job\<close>

lemma for_each_ok:
  assumes "\<And>x s. x \<in> set xs \<Longrightarrow> current x s \<Longrightarrow>
      touches (job_step d) x s (snd (f x s)) \<and> fst (f x s) = Inr ()"
    and "listing xs s"
  shows "fst (for_each f xs s) = Inr ()"
  using assms
proof (induction xs arbitrary: s)
  case Nil
  then show ?case by simp
next
  case (Cons x xs)
  have x: "touches (job_step d) x s (snd (f x s))" "fst (f x s) = Inr ()"
    using Cons.prems by (auto simp: listing_def)
  have "listing xs (snd (f x s))"
    using x(1) Cons.prems(2) by (auto simp: listing_def touches_def current_def image_iff)
  then have "fst (for_each f xs (snd (f x s))) = Inr ()" using Cons by simp
  then show ?case using x(2) by (cases "f x s") simp
qed

lemma for_each_reach:
  assumes body: "\<And>x s. x \<in> set xs \<Longrightarrow> current x s \<Longrightarrow>
      touches (job_step d) x s (snd (f x s)) \<and> fst (f x s) = Inr ()"
    and "listing xs s" and "y \<in> set xs"
    and goal: "\<And>s. current y s \<Longrightarrow> \<exists>j'. pg_get (jobs (snd (f y s))) (dedupKey y) = Some j' \<and> Q j'"
  shows "\<exists>j'. pg_get (jobs (snd (for_each f xs s))) (dedupKey y) = Some j' \<and> Q j'"
  using assms(1-3)
proof (induction xs arbitrary: s)
  case Nil
  then show ?case by simp
next
  case (Cons x xs)
  let ?s1 = "snd (f x s)"
  have x: "touches (job_step d) x s ?s1" "fst (f x s) = Inr ()" and cur: "current x s"
    using Cons.prems by (auto simp: listing_def)
  have rest: "listing xs ?s1"
    using x(1) Cons.prems(2) by (auto simp: listing_def touches_def current_def image_iff)
  have loop: "snd (for_each f (x # xs) s) = snd (for_each f xs ?s1)"
    using x(2) by (cases "f x s") simp
  show ?case
  proof (cases "y \<in> set xs")
    case True
    then show ?thesis unfolding loop using Cons.IH [OF _ rest True] Cons.prems(1) by simp
  next
    case False
    then have y: "y = x" using Cons.prems(3) by simp
    have "dedupKey x \<notin> dedupKey ` set xs" using Cons.prems(2) by (simp add: listing_def)
    then have "pg_get (jobs (snd (for_each f xs ?s1))) (dedupKey x) = pg_get (jobs ?s1) (dedupKey x)"
      using for_each_post [of xs "job_step d" f ?s1, OF _ rest] Cons.prems(1) by (auto simp: loop_post_def)
    then show ?thesis unfolding loop y using goal cur y by simp
  qed
qed

lemma all_settled_reach:
  assumes body: "\<And>x s. x \<in> set xs \<Longrightarrow> current x s \<Longrightarrow>
      touches (job_step d) x s (snd (f x s)) \<and> fst (f x s) = Inr ()"
    and "listing xs s"
  shows "all_settled f xs s = for_each f xs s"
  using assms
proof (induction xs arbitrary: s)
  case Nil
  then show ?case by simp
next
  case (Cons x xs)
  have x: "touches (job_step d) x s (snd (f x s))" "fst (f x s) = Inr ()"
    using Cons.prems by (auto simp: listing_def)
  have rest: "listing xs (snd (f x s))"
    using x(1) Cons.prems(2) by (auto simp: listing_def touches_def current_def image_iff)
  have "all_settled f xs (snd (f x s)) = for_each f xs (snd (f x s))"
    using Cons.IH [OF _ rest] Cons.prems(1) by simp
  then show ?case using x(2) by (cases "f x s") (auto split: prod.splits)
qed

section \<open>Expiry\<close>

lemma expire_reaches:
  assumes "current y s" and "state y = AwaitingAttestation"
  shows "\<exists>j'. pg_get (jobs (snd (expire_one now y s))) (dedupKey y) = Some j'
    \<and> (state j' = DeadLetter \<and> deadLetterReason j' = Some Expired)"
  using assms by (simp add: expire_one_def jobs_move pg_get_transition current_def patch_simps)

lemma fst_expire: "fst (expire_one now x s) = Inr ()"
  by (simp add: expire_one_def)

lemma expired_dead:
  assumes inv: "pg_invar (jobs s)" and y: "y \<in> set (expired_of d s)"
  shows "\<exists>j'. pg_get (jobs (snd (tickAwaitingAttestation d s))) (dedupKey y) = Some j'
    \<and> (state j' = DeadLetter \<and> deadLetterReason j' = Some Expired)"
proof -
  let ?now = "fst (now_dep d (world s))"
  let ?s0 = "s\<lparr>world := snd (now_dep d (world s))\<rparr>"
  have st: "state x = AwaitingAttestation \<and> is_expired d ?now x" if "x \<in> set (expired_of d s)" for x
    using that listed_state [OF inv] by (auto simp: expired_of_def)
  have "listing (expired_of d s @ pollable_of d s) s" by (rule awaiting_listing [OF inv])
  then have l: "listing (expired_of d s) s" and apart: "dedupKey y \<notin> dedupKey ` set (pollable_of d s)"
    using y by (auto simp: listing_def)
  have "\<exists>j'. pg_get (jobs (after_expiry d s)) (dedupKey y) = Some j'
      \<and> (state j' = DeadLetter \<and> deadLetterReason j' = Some Expired)"
    unfolding after_expiry_def
  proof (rule for_each_reach [OF _ _ y])
    show "listing (expired_of d s) ?s0" using l by simp
    show "touches (job_step d) x s' (snd (expire_one ?now x s')) \<and> fst (expire_one ?now x s') = Inr ()"
      if "x \<in> set (expired_of d s)" "current x s'" for x and s' :: "'a actor_state"
      using that st expire_touches [of x s' d ?now] by (simp add: fst_expire)
  qed (use y st expire_reaches in blast)
  moreover have "pg_get (jobs (snd (tickAwaitingAttestation d s))) (dedupKey y)
      = pg_get (jobs (after_expiry d s)) (dedupKey y)"
    using polls_post [OF inv, of d] apart by (simp add: loop_post_def)
  ultimately show ?thesis by simp
qed

text \<open>Expiry cannot be missed. Each attestation tick, even one in which a poll throws, moves to
  the dead letters, as \<open>expired\<close>, every waiting job that is older than the maximal attestation age at
  the tick's start; only when more than a batch of 100 jobs have expired can one be left over,
  and then exactly 100 others, none of them younger, were expired in its place.\<close>

theorem expiry_sweeps_the_oldest:
  assumes "pg_invar (jobs s)" and "pg_get (jobs s) k = Some j" and "state j = AwaitingAttestation"
    and "maxAttestationAgeMs d < fst (now_dep d (world s)) - detectedAt j"
  shows "(\<exists>j'. pg_get (jobs (snd (tickAwaitingAttestation d s))) k = Some j'
            \<and> (state j' = DeadLetter \<and> deadLetterReason j' = Some Expired))
    \<or> (\<exists>xs :: cctp_job list. length xs = 100 \<and> distinct (map dedupKey xs) \<and> (\<forall>x \<in> set xs. detectedAt x \<le> detectedAt j
         \<and> (\<exists>j'. pg_get (jobs (snd (tickAwaitingAttestation d s))) (dedupKey x) = Some j'
              \<and> (state j' = DeadLetter \<and> deadLetterReason j' = Some Expired))))"
proof -
  let ?l = "pg_listByState (jobs s) AwaitingAttestation TICK_BATCH"
  have key: "dedupKey j = k" using pg.lookup_key assms(1,2) by blast
  show ?thesis
  proof (cases "j \<in> set ?l")
    case True
    then have "j \<in> set (expired_of d s)" using assms(4) by (simp add: expired_of_def is_expired_def)
    from expired_dead [OF assms(1) this] show ?thesis using key by blast
  next
    case False
    from pg.list_oldest [OF assms(1,2,3) False] have full: "length ?l = TICK_BATCH"
      and old: "\<forall>x \<in> set ?l. detectedAt x \<le> detectedAt j" by blast+
    have "x \<in> set (expired_of d s)" if "x \<in> set ?l" for x
    proof -
      have "detectedAt x \<le> detectedAt j" using old that by blast
      then show ?thesis using assms(4) that by (simp add: expired_of_def is_expired_def)
    qed
    then have "\<forall>x \<in> set ?l. detectedAt x \<le> detectedAt j
         \<and> (\<exists>j'. pg_get (jobs (snd (tickAwaitingAttestation d s))) (dedupKey x) = Some j'
              \<and> (state j' = DeadLetter \<and> deadLetterReason j' = Some Expired))"
      using old expired_dead [OF assms(1)] by blast
    moreover have "distinct (map dedupKey ?l)" by (rule pg.list_distinct [OF assms(1)])
    ultimately show ?thesis using full unfolding TICK_BATCH_def by blast
  qed
qed

definition demo_waiting :: cctp_job where
  "demo_waiting = demo_job\<lparr>state := AwaitingAttestation, detectedAt := - 4000000\<rparr>"

theorem expiry_sweeps_the_oldest_witness:
  "maxAttestationAgeMs (demo_deps Iris)
     < fst (now_dep (demo_deps Iris) (world (one_job demo_waiting))) - detectedAt demo_waiting
   \<and> (\<exists>xs. \<exists>j'. pg_get (jobs (snd (tickAwaitingAttestation (demo_deps Iris) (one_job demo_waiting)))) xs
        = Some j' \<and> state j' = DeadLetter)"
proof -
  have k: "pg_get (jobs (one_job demo_waiting)) ''0:42'' = Some demo_waiting"
    by (simp add: demo_waiting_def demo_job_def)
  have st: "state demo_waiting = AwaitingAttestation" by (simp add: demo_waiting_def)
  have age: "maxAttestationAgeMs (demo_deps Iris)
      < fst (now_dep (demo_deps Iris) (world (one_job demo_waiting))) - detectedAt demo_waiting"
    by (simp add: demo_waiting_def demo_deps_def)
  from expiry_sweeps_the_oldest [OF _ k st age]
  consider (a) "\<exists>j'. pg_get (jobs (snd (tickAwaitingAttestation (demo_deps Iris) (one_job demo_waiting))))
      ''0:42'' = Some j' \<and> (state j' = DeadLetter \<and> deadLetterReason j' = Some Expired)"
    | (b) xs :: "cctp_job list" where "length xs = 100"
      "\<forall>x \<in> set xs. \<exists>j'. pg_get (jobs (snd (tickAwaitingAttestation (demo_deps Iris) (one_job demo_waiting))))
          (dedupKey x) = Some j' \<and> (state j' = DeadLetter \<and> deadLetterReason j' = Some Expired)"
    by auto
  then show ?thesis
  proof cases
    case a
    then show ?thesis using age by blast
  next
    case b
    then have "hd xs \<in> set xs" by (cases xs) auto
    then show ?thesis using age b(2) by blast
  qed
qed


section \<open>The polling window\<close>

lemma unpolled_unchanged:
  assumes "pg_invar (jobs s)" and "pg_get (jobs s) k = Some j"
    and "j \<notin> set (expired_of d s)" and "j \<notin> set (pollable_of d s)"
  shows "pg_get (jobs (snd (tickAwaitingAttestation d s))) k = Some j"
proof -
  have "listing (expired_of d s @ pollable_of d s) s" by (rule awaiting_listing [OF assms(1)])
  then have "k \<notin> dedupKey ` set (expired_of d s @ pollable_of d s)"
    using assms(2-4) by (auto simp: listing_def current_def)
  then show ?thesis using tickAwaiting_post [OF assms(1), of d] assms(2) by (simp add: loop_post_def)
qed

text \<open>In a list sorted by \<open>f\<close>, an element among the first \<open>n\<close> has fewer than \<open>n\<close> elements with a
  strictly smaller key.\<close>

lemma before_in_sorted:
  assumes "sorted (map f xs)" and "y \<in> set (take n xs)"
  shows "card {x \<in> set xs. f x < f y} < n"
proof -
  obtain i where i: "i < n" "i < length xs" "xs ! i = y"
    using assms(2) by (auto simp: in_set_conv_nth)
  have "{x \<in> set xs. f x < f y} \<subseteq> set (take i xs)"
  proof
    fix x assume "x \<in> {x \<in> set xs. f x < f y}"
    then obtain m where m: "m < length xs" "xs ! m = x" "f x < f y" by (auto simp: in_set_conv_nth)
    have "m < i"
    proof (rule ccontr)
      assume "\<not> m < i"
      then have "f (xs ! i) \<le> f (xs ! m)"
        using sorted_nth_mono [OF assms(1), of i m] m(1) i(2) by simp
      with m i show False by simp
    qed
    then show "x \<in> set (take i xs)" using m i by (auto simp: in_set_conv_nth)
  qed
  then have "card {x \<in> set xs. f x < f y} \<le> card (set (take i xs))" by (intro card_mono) auto
  also have "\<dots> \<le> i" using card_length [of "take i xs"] by simp
  finally show ?thesis using i(1) by simp
qed

text \<open>A tick asks Iris about at most the eight oldest unexpired jobs. While eight waiting jobs
  detected strictly before a job have neither expired nor been attested, an attestation tick
  leaves the job entirely unchanged, its poll count included, whatever Iris would have answered:
  eight pending messages hold up every younger one until they expire.\<close>

theorem polling_window_starves_younger_jobs:
  assumes "pg_invar (jobs s)" and "pg_get (jobs s) k = Some j" and "state j = AwaitingAttestation"
    and "8 \<le> card {x. pg_get (jobs s) (dedupKey x) = Some x \<and> state x = AwaitingAttestation
           \<and> detectedAt x < detectedAt j
           \<and> fst (now_dep d (world s)) - detectedAt x \<le> maxAttestationAgeMs d}"
  shows "pg_get (jobs (snd (tickAwaitingAttestation d s))) k = Some j"
proof -
  let ?now = "fst (now_dep d (world s))"
  let ?old = "{x. pg_get (jobs s) (dedupKey x) = Some x \<and> state x = AwaitingAttestation
    \<and> detectedAt x < detectedAt j \<and> ?now - detectedAt x \<le> maxAttestationAgeMs d}"
  let ?l = "pg_listByState (jobs s) AwaitingAttestation TICK_BATCH"
  let ?open = "filter (\<lambda>x. x \<notin> set (expired_of d s)) ?l"
  obtain x where "x \<in> ?old" using assms(4) by (cases "?old = {}") auto
  then have "j \<notin> set (expired_of d s)" by (auto simp: expired_of_def is_expired_def)
  moreover have "j \<notin> set (pollable_of d s)"
  proof
    assume poll: "j \<in> set (pollable_of d s)"
    have sorted: "sorted (map detectedAt ?open)"
      using pg.list_sorted [OF assms(1)] by (rule sorted_filter)
    have jl: "j \<in> set ?l" using poll by (auto simp: pollable_of_def dest!: in_set_takeD)
    have "?old \<subseteq> {x \<in> set ?open. detectedAt x < detectedAt j}"
    proof
      fix x assume x: "x \<in> ?old"
      have "x \<in> set ?l"
      proof (rule ccontr)
        assume "x \<notin> set ?l"
        then have "\<forall>y \<in> set ?l. detectedAt y \<le> detectedAt x"
          using pg.list_oldest [OF assms(1), of "dedupKey x" x AwaitingAttestation TICK_BATCH] x by simp
        with jl x show False by fastforce
      qed
      then show "x \<in> {x \<in> set ?open. detectedAt x < detectedAt j}"
        using x by (auto simp: expired_of_def is_expired_def)
    qed
    then have "card ?old \<le> card {x \<in> set ?open. detectedAt x < detectedAt j}"
      by (intro card_mono) auto
    also have "\<dots> < IRIS_POLL_CONCURRENCY"
      using before_in_sorted [OF sorted] poll by (simp add: pollable_of_def)
    finally show False using assms(4) by (simp add: IRIS_POLL_CONCURRENCY_def)
  qed
  ultimately show ?thesis using unpolled_unchanged [OF assms(1,2)] by blast
qed

definition queued :: "nat \<Rightarrow> cctp_job" where
  "queued i = demo_job\<lparr>dedupKey := [char_of (48 + i)], state := AwaitingAttestation, detectedAt := int i\<rparr>"

definition nine_waiting :: "watcher_view actor_state" where
  "nine_waiting = \<lparr>jobs = map (\<lambda>i. jobToRow (queued i)) [0..<9], world = demo_view, transitions = []\<rparr>"

lemma nine_waiting_invar: "pg_invar (jobs nine_waiting)"
  by (simp add: pg_invar_def nine_waiting_def queued_def upt_rec)

lemma nine_waiting_get: "i < 9 \<Longrightarrow> pg_get (jobs nine_waiting) (dedupKey (queued i)) = Some (queued i)"
  unfolding pg_get_iff [OF nine_waiting_invar] by (auto simp: nine_waiting_def)

theorem polling_window_starves_younger_jobs_witness:
  "pg_get (jobs (snd (tickAwaitingAttestation (demo_deps Iris) nine_waiting))) (dedupKey (queued 8))
     = Some (queued 8)"
proof -
  let ?old = "{x. pg_get (jobs nine_waiting) (dedupKey x) = Some x \<and> state x = AwaitingAttestation
    \<and> detectedAt x < detectedAt (queued 8)
    \<and> fst (now_dep (demo_deps Iris) (world nine_waiting)) - detectedAt x
        \<le> maxAttestationAgeMs (demo_deps Iris)}"
  have "queued ` {0..<8} \<subseteq> ?old"
    using nine_waiting_get by (auto simp: queued_def demo_deps_def nine_waiting_def)
  moreover have "?old \<subseteq> rowToJob ` set (jobs nine_waiting)"
    by (auto simp: pg_get_iff [OF nine_waiting_invar])
  then have "finite ?old" by (rule finite_subset) simp
  ultimately have "card (queued ` {0..<8}) \<le> card ?old" by (rule card_mono [rotated])
  moreover have "inj_on queued {0..<8}"
  proof (rule inj_onI)
    fix x y assume "queued x = queued y"
    then have "detectedAt (queued x) = detectedAt (queued y)" by simp
    then show "x = y" by (simp add: queued_def)
  qed
  ultimately have "8 \<le> card ?old" by (simp add: card_image)
  moreover have "pg_get (jobs nine_waiting) (dedupKey (queued 8)) = Some (queued 8)"
    by (rule nine_waiting_get) simp
  moreover have "state (queued 8) = AwaitingAttestation" by (simp add: queued_def)
  ultimately show ?thesis
    using polling_window_starves_younger_jobs [OF nine_waiting_invar] by blast
qed

section \<open>Answers arrive in any order\<close>

text \<open>The polls of a tick run concurrently. Each answer, with the clock read after it, is one write
  to the table.\<close>

definition poll_patch :: "cctp_job \<Rightarrow> attestation_result \<Rightarrow> job_patch" where
  "poll_patch job r = (case r of
     AttComplete att msg \<Rightarrow> no_patch\<lparr>p_attestation := Some (Some att), p_relayMessage := Some (Some msg),
       p_lastIrisStatus := Some (Some ''complete''), p_pollAttempts := Some (pollAttempts job + 1),
       p_state := Some Attested\<rparr>
   | AttPending det \<Rightarrow> no_patch\<lparr>p_pollAttempts := Some (pollAttempts job + 1),
       p_lastIrisStatus := Some (Some (case det of None \<Rightarrow> ''pending'' | Some x \<Rightarrow> x))\<rparr>
   | AttError e \<Rightarrow> no_patch\<lparr>p_pollAttempts := Some (pollAttempts job + 1),
       p_lastIrisStatus := Some (Some (''error:'' @ e))\<rparr>)"

lemma jobs_record_poll:
  "jobs (record_poll job r now s)
    = snd (pg_transition (jobs s) (dedupKey job) AwaitingAttestation (poll_patch job r) now)"
  by (cases r) (simp_all add: record_poll_def poll_patch_def jobs_move jobs_repo_transition)

lemma pg_transition_commute:
  assumes "k \<noteq> k'"
  shows "snd (pg_transition (snd (pg_transition t k f p now)) k' f' p' now')
    = snd (pg_transition (snd (pg_transition t k' f' p' now')) k f p now)"
  using assms by (simp add: pg_transition_def Let_def)

definition answers :: "(cctp_job \<times> attestation_result \<times> int) list \<Rightarrow> 'w actor_state \<Rightarrow> 'w actor_state" where
  "answers as s = fold (\<lambda>(job, r, now). record_poll job r now) as s"

definition answer_table :: "cctp_job \<times> attestation_result \<times> int \<Rightarrow> job_table \<Rightarrow> job_table" where
  "answer_table a t = (case a of (job, r, now) \<Rightarrow>
     snd (pg_transition t (dedupKey job) AwaitingAttestation (poll_patch job r) now))"

lemma jobs_answers: "jobs (answers as s) = fold answer_table as (jobs s)"
  by (induction as arbitrary: s) (auto simp: answers_def answer_table_def jobs_record_poll)

lemma answer_table_commute:
  "dedupKey (fst a) \<noteq> dedupKey (fst b) \<Longrightarrow> answer_table a \<circ> answer_table b = answer_table b \<circ> answer_table a"
  by (rule ext) (auto simp: answer_table_def case_prod_beta intro: pg_transition_commute)

text \<open>The answers to the concurrent polls of a tick may be written in any order: for jobs with
  different keys every order of the same answers leaves the same table.\<close>

theorem poll_answers_commute:
  assumes "mset as = mset bs" and "distinct (map (\<lambda>(job, _). dedupKey job) as)"
  shows "jobs (answers as s) = jobs (answers bs s)"
proof -
  have "answer_table a \<circ> answer_table b = answer_table b \<circ> answer_table a"
    if "a \<in> set as" "b \<in> set as" for a b
  proof (cases "a = b")
    case False
    have "inj_on (\<lambda>(job, _). dedupKey job) (set as)" using assms(2) by (simp add: distinct_map)
    then have "dedupKey (fst a) \<noteq> dedupKey (fst b)"
      using that False unfolding inj_on_def case_prod_beta by blast
    then show ?thesis by (rule answer_table_commute)
  qed simp
  then have "fold answer_table as = fold answer_table bs"
    by (rule fold_multiset_equiv [OF _ assms(1)])
  then show ?thesis by (simp add: jobs_answers)
qed


theorem poll_answers_commute_witness:
  "jobs (answers [(queued 1, AttPending None, 7), (queued 2, AttError ''http 500'', 8)] nine_waiting)
     = jobs (answers [(queued 2, AttError ''http 500'', 8), (queued 1, AttPending None, 7)] nine_waiting)"
  by (rule poll_answers_commute) (simp_all add: queued_def)

section \<open>Backoff\<close>

text \<open>The keys of the jobs that are not final, and how many they are.\<close>

definition open_keys :: "'w actor_state \<Rightarrow> string set" where
  "open_keys s = {k. \<exists>j. pg_get (jobs s) k = Some j \<and> \<not> terminal (state j)}"

definition open_count :: "'w actor_state \<Rightarrow> nat" where
  "open_count s = card (open_keys s)"

lemma finite_open_keys: "finite (open_keys s)"
proof -
  have "open_keys s \<subseteq> dedup_key ` set (jobs s)"
  proof
    fix k assume "k \<in> open_keys s"
    then have "pg_get (jobs s) k \<noteq> None" by (auto simp: open_keys_def)
    then show "k \<in> dedup_key ` set (jobs s)" unfolding pg_get_None by blast
  qed
  then show ?thesis by (rule finite_subset) simp
qed

text \<open>A listing at least as long as there are open jobs lists every job of an open state.\<close>

lemma listed_if_few:
  assumes "pg_invar (jobs s)" and "pg_get (jobs s) k = Some j" and "state j = st"
    and "\<not> terminal st" and "open_count s \<le> n"
  shows "j \<in> set (pg_listByState (jobs s) st n)"
proof (rule ccontr)
  let ?l = "pg_listByState (jobs s) st n"
  assume no: "j \<notin> set ?l"
  then have len: "length ?l = n" using pg.list_oldest [OF assms(1,2,3)] by blast
  have "set (map dedupKey ?l) \<subseteq> open_keys s - {k}"
  proof
    fix x assume "x \<in> set (map dedupKey ?l)"
    then obtain i where i: "i \<in> set ?l" "x = dedupKey i" by auto
    then have "pg_get (jobs s) x = Some i" "state i = st" using pg.list_sound [OF assms(1)] by blast+
    moreover have "x \<noteq> k" using calculation assms(2) i(1) no by auto
    ultimately show "x \<in> open_keys s - {k}" using assms(4) by (auto simp: open_keys_def)
  qed
  then have "card (set (map dedupKey ?l)) \<le> card (open_keys s - {k})"
    by (intro card_mono) (simp_all add: finite_open_keys)
  moreover have "card (open_keys s - {k}) < card (open_keys s)"
    using assms(2-4) by (intro card_Diff1_less finite_open_keys) (auto simp: open_keys_def)
  moreover have "card (set (map dedupKey ?l)) = n"
    using pg.list_distinct [OF assms(1)] len by (metis distinct_card length_map)
  ultimately show False using assms(5) by (simp add: open_count_def)
qed

lemma phase_open_count:
  assumes "phase (job_step d) s s'"
  shows "open_count s' \<le> open_count s"
proof -
  have "open_keys s' \<subseteq> open_keys s"
  proof
    fix k assume "k \<in> open_keys s'"
    then obtain j' where j': "pg_get (jobs s') k = Some j'" "\<not> terminal (state j')"
      by (auto simp: open_keys_def)
    then have "rel_option (job_step d)\<^sup>=\<^sup>= (pg_get (jobs s) k) (Some j')"
      using assms unfolding phase_def by metis
    then obtain j where "pg_get (jobs s) k = Some j" "j' = j \<or> job_step d j j'"
      by (auto simp: option_rel_Some2)
    then show "k \<in> open_keys s"
      using j'(2) no_step_from_terminal by (auto simp: open_keys_def)
  qed
  then show ?thesis unfolding open_count_def by (rule card_mono [OF finite_open_keys])
qed

lemma submit_one_ok: "fst (submit_one d now x s) = Inr ()"
  by (simp add: submit_one_def recordSubmissionFailure_def ext_eq Let_def split: option.splits sum.splits)

lemma submit_fails:
  assumes "current x s" and "state x = Attested" and "\<not> retry_later now x"
    and "attestation x = Some att" and "relayMessage x = Some msg"
    and "\<And>w. fst (submitRelayWithHook d (destinationDomain x) msg att w) = Inl e"
    and "\<not> already_processed e"
  shows "\<exists>j'. pg_get (jobs (snd (submit_one d now x s))) (dedupKey x) = Some j'
    \<and> (\<exists>t. j' = failed_job x t)"
proof -
  let ?s1 = "snd (ext (submitRelayWithHook d (destinationDomain x) msg att) s)"
  have "submit_one d now x s = recordSubmissionFailure d x ?s1"
    using assms(3-7) by (simp add: submit_one_def ext_eq)
  moreover have "current x ?s1" using assms(1) by (simp add: ext_eq)
  ultimately show ?thesis using record_failure [of x ?s1 d "dedupKey x"] assms(2) by auto
qed


definition failing_deps :: "watcher_view machine_deps" where
  "failing_deps = (demo_deps Iris)\<lparr>submitRelayWithHook := (\<lambda>dst msg att w. (Inl ''insufficient funds'', w))\<rparr>"

definition demo_attested :: cctp_job where
  "demo_attested = demo_job\<lparr>state := Attested, attestation := Some ''0x'', relayMessage := Some ''0x00'',
     retryAttempts := 3\<rparr>"

lemma one_job_count: "open_count (one_job j) \<le> 1"
proof -
  have "open_keys (one_job j) \<subseteq> {dedupKey j}" by (auto simp: open_keys_def split: if_splits)
  then have "card (open_keys (one_job j)) \<le> card {dedupKey j}" by (rule card_mono [rotated]) simp
  then show ?thesis by (simp add: open_count_def)
qed



section \<open>A failing receipt query\<close>

text \<open>A receipt query that throws ends the tick. When the oldest submitted job is one whose
  receipt cannot be read (an unreachable destination chain, or a destination domain that is not
  configured), the submission phase throws before any other job is looked at and changes no job:
  no submitted job of any chain is settled as long as this lasts.\<close>

theorem receipt_failure_blocks_settlement:
  assumes "pg_listByState (jobs s) Submitted TICK_BATCH = x # xs"
    and "submittedAt x = Some at" and "submittedTxHash x = Some hash"
    and "\<And>w. fst (getReceipt d (destinationDomain x) hash w) = Inl e"
  shows "fst (tickSubmitted d s) = Inl e \<and> jobs (snd (tickSubmitted d s)) = jobs s"
  using assms by (simp add: tickSubmitted_def settle_one_def ext_eq)

definition unreachable_deps :: "watcher_view machine_deps" where
  "unreachable_deps = (demo_deps Iris)\<lparr>getReceipt :=
     (\<lambda>dst h w. (if dst = 3 then Inl ''no destination configured'' else Inr (Some \<lparr>rc_status = 1, rc_blockNumber = 77\<rparr>), w))\<rparr>"

definition two_submitted :: "watcher_view actor_state" where
  "two_submitted = \<lparr>jobs = map jobToRow [demo_submitted,
     demo_submitted\<lparr>dedupKey := ''0:44'', destinationDomain := 6, detectedAt := 2000\<rparr>],
     world = demo_view, transitions = []\<rparr>"

theorem receipt_failure_blocks_settlement_witness:
  "fst (tickSubmitted unreachable_deps two_submitted) = Inl ''no destination configured''
    \<and> map state (pg_listByState (jobs (snd (tickSubmitted unreachable_deps two_submitted))) Submitted 2)
        = [Submitted, Submitted]"
proof -
  let ?j2 = "demo_submitted\<lparr>dedupKey := ''0:44'', destinationDomain := 6, detectedAt := 2000\<rparr>"
  have l: "pg_listByState (jobs two_submitted) Submitted n = take n [demo_submitted, ?j2]" for n
    unfolding listByState_sort
    by (simp add: two_submitted_def demo_submitted_def demo_job_def)
  have "pg_listByState (jobs two_submitted) Submitted TICK_BATCH = demo_submitted # [?j2]"
    unfolding l by (simp add: TICK_BATCH_def)
  moreover have "submittedAt demo_submitted = Some 4000" "submittedTxHash demo_submitted = Some ''0xcc''"
    by (simp_all add: demo_submitted_def)
  moreover have "fst (getReceipt unreachable_deps (destinationDomain demo_submitted) ''0xcc'' w)
      = Inl ''no destination configured''" for w
    by (simp add: unreachable_deps_def demo_submitted_def demo_job_def)
  ultimately have "fst (tickSubmitted unreachable_deps two_submitted) = Inl ''no destination configured''
      \<and> jobs (snd (tickSubmitted unreachable_deps two_submitted)) = jobs two_submitted"
    by (rule receipt_failure_blocks_settlement)
  then show ?thesis using l [of 2] by (simp add: demo_submitted_def)
qed

section \<open>Delivery\<close>

text \<open>A world in which no query throws, and one that moreover serves a given job: Iris completes its
  query, its destination accepts every broadcast and answers every receipt query with status 1.\<close>

definition quiet :: "'w machine_deps \<Rightarrow> bool" where
  "quiet d \<longleftrightarrow> (\<forall>q w e. fst (att_fetch d q w) \<noteq> Inl e)
     \<and> (\<forall>dst h w e. fst (getReceipt d dst h w) \<noteq> Inl e)
     \<and> (\<forall>dst h w e. fst (isInMempool d dst h w) \<noteq> Inl e)
     \<and> (\<forall>dst w e. fst (resetNonce d dst w) \<noteq> Inl e)"

definition serves :: "'w machine_deps \<Rightarrow> cctp_job \<Rightarrow> bool" where
  "serves d j \<longleftrightarrow> (\<forall>w. \<exists>att msg. fst (att_fetch d (query_of j) w) = Inr (AttComplete att msg))
     \<and> (\<forall>msg att w. \<exists>h. fst (submitRelayWithHook d (destinationDomain j) msg att w) = Inr h)
     \<and> (\<forall>h w. \<exists>r. fst (getReceipt d (destinationDomain j) h w) = Inr (Some r) \<and> rc_status r = 1)"

lemma serves_identity: "same_identity j j' \<Longrightarrow> serves d j' = serves d j"
  by (simp add: serves_def same_identity_def query_of_def)

definition ready :: "cctp_job \<Rightarrow> bool" where
  "ready j \<longleftrightarrow> nextRetryAt j = None \<and> (state j = Detected
     \<or> state j = AwaitingAttestation
     \<or> state j = Attested \<and> attestation j \<noteq> None \<and> relayMessage j \<noteq> None
     \<or> state j = Submitted \<and> submittedAt j \<noteq> None \<and> submittedTxHash j \<noteq> None)"

lemma detect_reaches:
  assumes "current x s" and "state x = Detected" and "nextRetryAt x = None"
  shows "\<exists>j'. pg_get (jobs (snd (detect_one d now x s))) (dedupKey x) = Some j'
    \<and> (ready j' \<and> state j' \<noteq> Detected)"
proof (cases "irisMode d")
  case Mock
  then show ?thesis using assms
    by (simp add: detect_one_def jobs_move pg_get_transition current_def patch_simps ready_def)
next
  case Iris
  then show ?thesis using assms
    by (simp add: detect_one_def jobs_move pg_get_transition current_def patch_simps ready_def)
qed

lemma detect_ok: "fst (detect_one d now x s) = Inr ()"
  by (simp add: detect_one_def)

lemma poll_ok:
  assumes "quiet d"
  shows "fst (pollOne d x s) = Inr ()"
  using assms by (auto simp: pollOne_def ext_eq quiet_def split: sum.splits)

lemma poll_reaches:
  assumes "serves d x" and "current x s" and "state x = AwaitingAttestation"
  shows "\<exists>j'. pg_get (jobs (snd (pollOne d x s))) (dedupKey x) = Some j'
    \<and> (state j' = Attested \<and> (nextRetryAt x = None \<longrightarrow> ready j'))"
proof -
  obtain att msg where got: "fst (att_fetch d (query_of x) (world s)) = Inr (AttComplete att msg)"
    using assms(1) unfolding serves_def by blast
  then have "fst (att_fetch d \<lparr>q_sourceDomain = sourceDomain x,
      q_sourceTxHash = sourceTxHash x, q_expectedMessageHex = messageBytes x\<rparr> (world s))
      = Inr (AttComplete att msg)"
    by (simp add: query_of_def)
  then show ?thesis using assms(2-3)
    by (simp add: pollOne_def ext_eq jobs_record_poll poll_patch_def pg_get_transition current_def
        patch_simps ready_def)
qed

lemma submit_reaches:
  assumes "serves d x" and "current x s" and "state x = Attested" and "ready x"
  shows "\<exists>j'. pg_get (jobs (snd (submit_one d now x s))) (dedupKey x) = Some j'
    \<and> (ready j' \<and> state j' = Submitted)"
proof -
  from assms(3,4) obtain att msg where b: "attestation x = Some att" "relayMessage x = Some msg"
      "nextRetryAt x = None" by (auto simp: ready_def)
  obtain h where "fst (submitRelayWithHook d (destinationDomain x) msg att (world s)) = Inr h"
    using assms(1) unfolding serves_def by blast
  then show ?thesis using assms(2,3) b
    by (simp add: submit_one_def retry_later_def ext_eq jobs_move pg_get_transition current_def
        patch_simps ready_def)
qed

lemma receipt_success:
  assumes "serves d x"
  obtains r where "fst (getReceipt d (destinationDomain x) h w) = Inr (Some r)" and "rc_status r = 1"
  using assms unfolding serves_def by blast

lemma settle_reaches:
  assumes "serves d x" and "current x s" and "state x = Submitted" and "ready x"
  shows "\<exists>j'. pg_get (jobs (snd (settle_one d x s))) (dedupKey x) = Some j' \<and> state j' = Delivered"
proof -
  from assms(3,4) obtain at h where b: "submittedAt x = Some at" "submittedTxHash x = Some h"
    by (auto simp: ready_def)
  obtain r where r: "fst (getReceipt d (destinationDomain x) h (snd (now_dep d (world s)))) = Inr (Some r)"
      "rc_status r = 1"
    using assms(1) by (rule receipt_success)
  then show ?thesis using assms(2,3) b
    by (simp add: settle_one_def settle_receipt_def ext_eq jobs_move pg_get_transition current_def
        patch_simps)
qed

lemma settle_ok:
  assumes "quiet d"
  shows "fst (settle_one d x s) = Inr ()"
proof -
  have rec: "fst (recordSubmissionFailure d y u) = Inr ()" for y u
    by (simp add: recordSubmissionFailure_def ext_eq Let_def)
  have "fst (settle_receipt d x h r u) = Inr ()" for h r u
    using rec by (simp add: settle_receipt_def ext_eq split: prod.splits option.splits)
  then show ?thesis
    using assms by (auto simp: settle_one_def ext_eq quiet_def split: option.splits sum.splits bool.splits)
qed

lemma unlisted_unchanged:
  assumes "loop_post (job_step d) (pg_listByState (jobs s) st n) s s'" and "pg_invar (jobs s)"
    and "pg_get (jobs s) k = Some j" and "state j \<noteq> st"
  shows "pg_get (jobs s') k = Some j"
proof -
  have "k \<notin> dedupKey ` set (pg_listByState (jobs s) st n)"
    using pg.list_sound [OF assms(2)] assms(3,4) by auto
  then show ?thesis using assms(1,3) by (simp add: loop_post_def)
qed

text \<open>A state with few open jobs and one ready job, and what each phase makes of it.\<close>

definition on_track :: "'w machine_deps \<Rightarrow> 'w actor_state \<Rightarrow> string \<Rightarrow> cctp_job \<Rightarrow> bool" where
  "on_track d s k j \<longleftrightarrow> pg_invar (jobs s) \<and> open_count s \<le> 8 \<and> pg_get (jobs s) k = Some j
     \<and> ready j \<and> serves d j"

lemma on_track_key: "on_track d s k j \<Longrightarrow> dedupKey j = k"
  using pg.lookup_key unfolding on_track_def by blast

lemma on_track_listed:
  assumes "on_track d s k j" and "state j = st" and "\<not> terminal st"
  shows "j \<in> set (pg_listByState (jobs s) st TICK_BATCH)"
  using assms listed_if_few [of s k j st TICK_BATCH] by (simp add: on_track_def TICK_BATCH_def)

lemma phase_identity:
  assumes "phase (job_step d) s s'" and "pg_get (jobs s) k = Some j" and "pg_get (jobs s') k = Some j'"
  shows "same_identity j j'"
proof -
  have "rel_option (job_step d)\<^sup>=\<^sup>= (Some j) (Some j')"
    using assms unfolding phase_def by metis
  then show ?thesis using step_identity by auto
qed

lemma on_track_phase:
  assumes "on_track d s k j" and "phase (job_step d) s s'" and "pg_get (jobs s') k = Some j'" and "ready j'"
  shows "on_track d s' k j' \<and> same_identity j j'"
  using assms phase_open_count [OF assms(2)] phase_identity [OF assms(2) _ assms(3)] serves_identity
  by (auto simp: on_track_def phase_def)

text \<open>A loop over the jobs of one state, none of whose bodies throws.\<close>

lemma state_loop:
  assumes t: "on_track d s k j" and st: "\<not> terminal st"
    and run: "r = for_each f (pg_listByState (jobs s) st TICK_BATCH) (s\<lparr>world := w\<rparr>)"
    and body: "\<And>x s. current x s \<Longrightarrow> state x = st \<Longrightarrow> touches (job_step d) x s (snd (f x s)) \<and> fst (f x s) = Inr ()"
    and goal: "\<And>s. state j = st \<Longrightarrow> current j s \<Longrightarrow>
      \<exists>j'. pg_get (jobs (snd (f j s))) (dedupKey j) = Some j' \<and> Q j'"
    and other: "state j \<noteq> st \<Longrightarrow> Q j"
  shows "fst r = Inr () \<and> (\<exists>j'. pg_get (jobs (snd r)) k = Some j' \<and> Q j')"
proof -
  let ?l = "pg_listByState (jobs s) st TICK_BATCH"
  have inv: "pg_invar (jobs s)" using t by (simp add: on_track_def)
  have l: "listing ?l (s\<lparr>world := w\<rparr>)" using listing_listByState [OF inv] by simp
  have body': "touches (job_step d) x s' (snd (f x s')) \<and> fst (f x s') = Inr ()"
    if "x \<in> set ?l" "current x s'" for x s'
    using body that listed_state [OF inv] by blast
  have "\<exists>j'. pg_get (jobs (snd r)) k = Some j' \<and> Q j'"
  proof (cases "state j = st")
    case True
    show ?thesis
      using for_each_reach [OF body' l on_track_listed [OF t True st] goal [OF True]]
      by (simp add: run on_track_key [OF t])
  next
    case False
    have "loop_post (job_step d) ?l s (snd r)" using for_each_post [OF _ l, of "job_step d" f] body' by (simp add: run)
    from unlisted_unchanged [OF this inv _ False] t other [OF False] show ?thesis
      by (auto simp: on_track_def)
  qed
  then show ?thesis using for_each_ok [OF body' l] by (simp add: run)
qed

lemma detected_phase:
  assumes "on_track d s k j"
  shows "fst (tickDetected d s) = Inr () \<and> (\<exists>j'. pg_get (jobs (snd (tickDetected d s))) k = Some j'
    \<and> (ready j' \<and> state j' \<noteq> Detected))"
proof (rule state_loop [OF assms, of Detected])
  show "tickDetected d s = for_each (detect_one d (fst (now_dep d (world s))))
      (pg_listByState (jobs s) Detected TICK_BATCH) (s\<lparr>world := snd (now_dep d (world s))\<rparr>)"
    by (simp add: tickDetected_def ext_eq)
qed (use assms detect_touches detect_ok detect_reaches in
    \<open>auto simp: terminal_def on_track_def ready_def\<close>)

lemma attested_phase:
  assumes "on_track d s k j" and "state j \<in> {Attested, Submitted}"
  shows "fst (tickAttested d s) = Inr () \<and> (\<exists>j'. pg_get (jobs (snd (tickAttested d s))) k = Some j'
    \<and> (ready j' \<and> state j' = Submitted))"
proof (rule state_loop [OF assms(1), of Attested])
  show "tickAttested d s = for_each (submit_one d (fst (now_dep d (world s))))
      (pg_listByState (jobs s) Attested TICK_BATCH) (s\<lparr>world := snd (now_dep d (world s))\<rparr>)"
    by (simp add: tickAttested_def ext_eq)
qed (use assms submit_touches submit_one_ok submit_reaches in
    \<open>auto simp: terminal_def on_track_def\<close>)

lemma submitted_phase:
  assumes "on_track d s k j" and "quiet d" and "state j = Submitted"
  shows "fst (tickSubmitted d s) = Inr ()
    \<and> (\<exists>j'. pg_get (jobs (snd (tickSubmitted d s))) k = Some j' \<and> state j' = Delivered)"
proof (rule state_loop [OF assms(1), of Submitted])
  show "tickSubmitted d s = for_each (settle_one d)
      (pg_listByState (jobs s) Submitted TICK_BATCH) (s\<lparr>world := world s\<rparr>)"
    by (simp add: tickSubmitted_def)
qed (use assms settle_touches settle_ok [OF assms(2)] settle_reaches in
    \<open>auto simp: terminal_def on_track_def\<close>)

lemma pollable_if_few:
  assumes "on_track d s k j" and "state j = AwaitingAttestation" and "j \<notin> set (expired_of d s)"
  shows "j \<in> set (pollable_of d s)"
proof -
  let ?l = "pg_listByState (jobs s) AwaitingAttestation TICK_BATCH"
  have inv: "pg_invar (jobs s)" using assms(1) by (simp add: on_track_def)
  have "set (map dedupKey ?l) \<subseteq> open_keys s"
  proof
    fix x assume "x \<in> set (map dedupKey ?l)"
    then obtain i where "i \<in> set ?l" "x = dedupKey i" by auto
    then show "x \<in> open_keys s" using pg.list_sound [OF inv] by (fastforce simp: open_keys_def terminal_def)
  qed
  then have "card (set (map dedupKey ?l)) \<le> open_count s"
    unfolding open_count_def by (rule card_mono [OF finite_open_keys])
  then have "length ?l \<le> 8"
    using distinct_card [OF pg.list_distinct [OF inv, of AwaitingAttestation TICK_BATCH]] assms(1)
    by (simp add: on_track_def)
  then have "length (filter (\<lambda>x. x \<notin> set (expired_of d s)) ?l) \<le> 8"
    by (rule order_trans [OF length_filter_le])
  then have "pollable_of d s = filter (\<lambda>x. x \<notin> set (expired_of d s)) ?l"
    by (simp add: pollable_of_def IRIS_POLL_CONCURRENCY_def)
  then show ?thesis using on_track_listed [OF assms(1,2)] assms(3) by (simp add: terminal_def)
qed

lemma awaiting_phase:
  assumes t: "on_track d s k j" and quiet: "quiet d" and "state j \<noteq> Detected"
    and young: "\<And>w. fst (now_dep d w) - detectedAt j \<le> maxAttestationAgeMs d"
  shows "fst (tickAwaitingAttestation d s) = Inr ()
    \<and> (\<exists>j'. pg_get (jobs (snd (tickAwaitingAttestation d s))) k = Some j'
         \<and> (ready j' \<and> state j' \<in> {Attested, Submitted}))"
proof -
  have inv: "pg_invar (jobs s)" and get: "pg_get (jobs s) k = Some j" and r: "ready j"
    and coop: "serves d j" using t by (auto simp: on_track_def)
  have body: "touches (job_step d) x s' (snd (pollOne d x s')) \<and> fst (pollOne d x s') = Inr ()"
    if "x \<in> set (pollable_of d s)" "current x s'" for x s'
  proof -
    have "state x = AwaitingAttestation"
      using that(1) listed_state [OF inv] by (auto simp: pollable_of_def dest!: in_set_takeD)
    then show ?thesis using poll_touches [OF that(2)] poll_ok [OF quiet] by blast
  qed
  have l: "listing (pollable_of d s) (after_expiry d s)"
    by (rule listing_rest [OF after_expiry_post [OF inv] awaiting_listing [OF inv]])
  have run: "tickAwaitingAttestation d s = for_each (pollOne d) (pollable_of d s) (after_expiry d s)"
    unfolding tickAwaiting_eq by (rule all_settled_reach [OF body l])
  have old: "j \<notin> set (expired_of d s)"
    using young [of "world s"] by (simp add: expired_of_def is_expired_def)
  have "\<exists>j'. pg_get (jobs (snd (tickAwaitingAttestation d s))) k = Some j'
      \<and> (ready j' \<and> state j' \<in> {Attested, Submitted})"
  proof (cases "state j = AwaitingAttestation")
    case True
    have "\<exists>j'. pg_get (jobs (snd (for_each (pollOne d) (pollable_of d s) (after_expiry d s)))) (dedupKey j)
        = Some j' \<and> (ready j' \<and> state j' \<in> {Attested, Submitted})"
    proof (rule for_each_reach [OF body l pollable_if_few [OF t True old]])
      fix s' :: "'a actor_state" assume "current j s'"
      from poll_reaches [OF coop this True] r
      show "\<exists>j'. pg_get (jobs (snd (pollOne d j s'))) (dedupKey j) = Some j'
          \<and> (ready j' \<and> state j' \<in> {Attested, Submitted})"
        by (auto simp: ready_def)
    qed
    then show ?thesis unfolding run on_track_key [OF t] .
  next
    case False
    then have "j \<notin> set (pollable_of d s)"
      using listed_state [OF inv] by (auto simp: pollable_of_def dest!: in_set_takeD)
    from unpolled_unchanged [OF inv get old this] r False assms(3) show ?thesis
      by (auto simp: ready_def)
  qed
  then show ?thesis using for_each_ok [OF body l] by (simp add: run)
qed

lemma and_then_ok: "fst (f s) = Inr () \<Longrightarrow> and_then f g s = g (snd (f s))"
  by (cases "f s") (simp add: and_then_def)

lemma tick_delivers:
  assumes "pg_invar (jobs s)" and "pg_get (jobs s) k = Some j" and "ready j"
    and "open_count s \<le> 8" and quiet: "quiet d" and "serves d j"
    and young: "\<And>w. fst (now_dep d w) - detectedAt j \<le> maxAttestationAgeMs d"
  shows "fst (tick d s) = Inr ()
    \<and> (\<exists>j'. pg_get (jobs (snd (tick d s))) k = Some j' \<and> state j' = Delivered)"
proof -
  have t0: "on_track d s k j" using assms by (simp add: on_track_def)
  let ?s1 = "snd (tickDetected d s)"
  obtain j1 where 1: "fst (tickDetected d s) = Inr ()" "pg_get (jobs ?s1) k = Some j1" "ready j1"
      "state j1 \<noteq> Detected"
    using detected_phase [OF t0] by blast
  have t1: "on_track d ?s1 k j1" and "same_identity j j1"
    using on_track_phase [OF t0 phases(1) [OF assms(1)] 1(2,3)] by blast+
  then have young1: "fst (now_dep d w) - detectedAt j1 \<le> maxAttestationAgeMs d" for w
    using young by (simp add: same_identity_def)
  let ?s2 = "snd (tickAwaitingAttestation d ?s1)"
  obtain j2 where 2: "fst (tickAwaitingAttestation d ?s1) = Inr ()" "pg_get (jobs ?s2) k = Some j2"
      "ready j2" "state j2 \<in> {Attested, Submitted}"
    using awaiting_phase [OF t1 quiet 1(4) young1] by auto
  have inv1: "pg_invar (jobs ?s1)" using t1 by (simp add: on_track_def)
  have t2: "on_track d ?s2 k j2" using on_track_phase [OF t1 phases(2) [OF inv1] 2(2,3)] by blast
  let ?s3 = "snd (tickAttested d ?s2)"
  obtain j3 where 3: "fst (tickAttested d ?s2) = Inr ()" "pg_get (jobs ?s3) k = Some j3"
      "ready j3" "state j3 = Submitted"
    using attested_phase [OF t2 2(4)] by blast
  have inv2: "pg_invar (jobs ?s2)" using t2 by (simp add: on_track_def)
  have t3: "on_track d ?s3 k j3" using on_track_phase [OF t2 phases(3) [OF inv2] 3(2,3)] by blast
  have 4: "fst (tickSubmitted d ?s3) = Inr ()"
      "\<exists>j'. pg_get (jobs (snd (tickSubmitted d ?s3))) k = Some j' \<and> state j' = Delivered"
    using submitted_phase [OF t3 quiet 3(4)] by blast+
  have "tick d s = tickSubmitted d ?s3"
    using 1(1) 2(1) 3(1) by (simp add: tick_def and_then_ok)
  with 4 show ?thesis by simp
qed


definition mock_deps :: "watcher_view machine_deps" where
  "mock_deps = (demo_deps Mock)\<lparr>att_fetch := (\<lambda>q w. (mockFetch q, w))\<rparr>"



text \<open>A discovery tick opens at most as many jobs as messages were due.\<close>

lemma discovery_open_count:
  assumes "pg_invar (jobs s)"
  shows "open_count (snd (discoverWork ctx s))
    \<le> open_count s + length (due_now ctx (dc_view ctx (world s)) (jobs s))"
proof -
  let ?ms = "take DISCOVERY_BATCH_LIMIT (sort_key m_blockNumber (due_now ctx (dc_view ctx (world s)) (jobs s)))"
  have "open_keys (snd (discoverWork ctx s)) \<subseteq> open_keys s \<union> set (map m_id ?ms)"
  proof
    fix k assume "k \<in> open_keys (snd (discoverWork ctx s))"
    then show "k \<in> open_keys s \<union> set (map m_id ?ms)"
      using extendsD [OF discovery_extends(1) [OF assms, of ctx], of k] by (auto simp: open_keys_def)
  qed
  then have "open_count (snd (discoverWork ctx s)) \<le> card (open_keys s \<union> set (map m_id ?ms))"
    unfolding open_count_def by (intro card_mono) (simp_all add: finite_open_keys)
  also have "\<dots> \<le> open_count s + length (map m_id ?ms)"
    unfolding open_count_def using card_Un_le card_length add_left_mono order_trans by metis
  finally show ?thesis by simp
qed

section \<open>A run from observation to delivery\<close>

text \<open>The demonstration message is claimed and, one tick later, delivered: a concrete run of the
  actor in Iris mode.\<close>

definition observed :: indexed_message where
  "observed = demo_indexed ''a'' 1 10"

definition claimed_state :: "watcher_view actor_state" where
  "claimed_state = snd (claimMessage demo_ctx observed demo_state)"

definition delivered_state :: "watcher_view actor_state" where
  "delivered_state = snd (tick (demo_deps Iris) claimed_state)"

lemma delivered_run: "actor_run demo_ctx (demo_deps Iris) delivered_state"
proof -
  have "actor_run demo_ctx (demo_deps Iris) demo_state" by (rule actor_run.start) (simp add: demo_state_def)
  then show ?thesis unfolding delivered_state_def claimed_state_def
    by (rule actor_run.machine [OF actor_run.claim])
qed

lemma observed_initial:
  "\<exists>j. initialJob demo_ctx demo_view observed 5000 = Inr j \<and> state j = Detected
     \<and> nextRetryAt j = None \<and> messageBytes j = demo_message \<and> detectedAt j = 5000 \<and> dedupKey j = ''a''"
proof -
  have cls: "classifyMessageForRelay (dc_ethers demo_ctx) (m_messageBytes observed) (knownRecipients demo_ctx)
      (case hookRouterByDomain demo_ctx (m_destinationDomain observed) of None \<Rightarrow> None | Some h \<Rightarrow> h)
      = Inr (Relay (''0x'' @ demo_recipient))"
    using demo_classified by (simp add: demo_ctx_def observed_def demo_indexed_def)
  obtain base where base: "newJob (dc_ethers demo_ctx) observed Detected 5000 = Inr base"
    by (simp add: newJob_def Let_def observed_def demo_indexed_def)
  have "\<not> pg_messageReceivedExists demo_view n m" for n m
    by (simp add: pg_messageReceivedExists_def demo_view_def)
  then have "initialJob demo_ctx demo_view observed 5000 = Inr base"
    by (simp add: initialJob_def base cls)
  then show ?thesis using newJob_fields [OF base] by (simp add: observed_def demo_indexed_def)
qed

lemma delivered_job:
  "\<exists>j. pg_get (jobs delivered_state) ''a'' = Some j \<and> state j = Delivered"
proof -
  obtain j where init: "initialJob demo_ctx demo_view observed 5000 = Inr j"
    and j: "state j = Detected" "nextRetryAt j = None" "messageBytes j = demo_message"
      "detectedAt j = 5000" "dedupKey j = ''a''"
    using observed_initial by blast
  have jobs: "jobs claimed_state = [jobToRow j]"
    using init by (simp add: claimed_state_def claimMessage_def demo_state_def demo_ctx_def
        pg_insertIfAbsent_def)
  have "serves (demo_deps Iris) j"
    using demo_fetch [of "query_of j"] j(3) by (simp add: serves_def demo_deps_def query_of_def)
  moreover have "quiet (demo_deps Iris)"
    using demo_response_answers by (simp add: quiet_def demo_deps_def)
  moreover have "open_count claimed_state \<le> 8"
  proof -
    have "open_keys claimed_state \<subseteq> {''a''}"
      using j(5) by (auto simp: open_keys_def jobs split: if_splits)
    then have "card (open_keys claimed_state) \<le> card {''a''}" by (rule card_mono [rotated]) simp
    then show ?thesis by (simp add: open_count_def)
  qed
  moreover have "pg_invar (jobs claimed_state)" "pg_get (jobs claimed_state) ''a'' = Some j"
    using j(5) by (simp_all add: jobs pg_invar_def)
  moreover have "ready j" using j by (simp add: ready_def)
  moreover have "fst (now_dep (demo_deps Iris) w) - detectedAt j \<le> maxAttestationAgeMs (demo_deps Iris)" for w
    using j(4) by (simp add: demo_deps_def)
  ultimately show ?thesis unfolding delivered_state_def using tick_delivers by blast
qed

theorem run_keeps_jobs_wellformed_witness:
  "\<exists>j. pg_get (jobs delivered_state) ''a'' = Some j \<and> state j = Delivered
     \<and> deliveredTxHash j = submittedTxHash j \<and> retryAttempts j \<le> 5"
  using delivered_job run_keeps_jobs_wellformed [OF delivered_run] by blast


end
