(* ===== verification/FallbackScanner.thy ===== *)
theory FallbackScanner
  imports WorkDiscovery
begin

text \<open>
  \<open>actor/src/jobs/fallback-scanner.ts\<close>: the chunked and bisecting log query, the per-chain scan
  state with its activation and deactivation, and the scanner tick.

  A chain's provider and the ABI decoding of a log are parameters. The provider's two calls are
  functions on the world that may throw. The topic filter is the constant of the source and is
  not repeated in the parameter. \<open>onActive\<close>, \<open>onRpc\<close> and the logger are left out.
\<close>

section \<open>Querying logs\<close>

record chain_log =
  lg_topics :: "string list"
  lg_data :: string
  lg_transactionHash :: string
  lg_index :: int
  lg_blockNumber :: int

record 'w scan_provider =
  getBlockNumber :: "'w \<Rightarrow> (exn + int) \<times> 'w"
  getLogs :: "string \<Rightarrow> int \<Rightarrow> int \<Rightarrow> 'w \<Rightarrow> (exn + chain_log list) \<times> 'w"

function bisectingGetLogs ::
    "'w scan_provider \<Rightarrow> string \<Rightarrow> int \<Rightarrow> int \<Rightarrow> ('w, chain_log list) act" where
  "bisectingGetLogs P address fromBlock toBlock w =
     (case getLogs P address fromBlock toBlock w of
        (Inr ls, w) \<Rightarrow> (Inr ls, w)
      | (Inl e, w) \<Rightarrow>
          if toBlock \<le> fromBlock then (Inl e, w)
          else let mid = (fromBlock + toBlock) div 2
            in case bisectingGetLogs P address fromBlock mid w of
                 (Inl e, w) \<Rightarrow> (Inl e, w)
               | (Inr left, w) \<Rightarrow>
                   (case bisectingGetLogs P address (mid + 1) toBlock w of
                      (Inl e, w) \<Rightarrow> (Inl e, w)
                    | (Inr right, w) \<Rightarrow> (Inr (left @ right), w)))"
  by pat_completeness auto
termination
  by (relation "measure (\<lambda>(P, address, fromBlock, toBlock, w). nat (toBlock - fromBlock))") auto

declare bisectingGetLogs.simps [simp del]

text \<open>The loop over chunks ends only for a positive chunk size: not returning is \<open>None\<close>.\<close>

partial_function (option) chunk_loop ::
    "'w scan_provider \<Rightarrow> string \<Rightarrow> int \<Rightarrow> int \<Rightarrow> chain_log list \<Rightarrow> int \<Rightarrow> 'w
      \<Rightarrow> ((exn + chain_log list) \<times> 'w) option" where
  "chunk_loop P address toBlock chunkSize out start w =
     (if toBlock < start then Some (Inr out, w)
      else let end = min (start + chunkSize - 1) toBlock
        in case bisectingGetLogs P address start end w of
             (Inl e, w) \<Rightarrow> Some (Inl e, w)
           | (Inr ls, w) \<Rightarrow> chunk_loop P address toBlock chunkSize (out @ ls) (end + 1) w)"

definition getLogsChunked ::
    "'w scan_provider \<Rightarrow> string \<Rightarrow> int \<Rightarrow> int \<Rightarrow> int \<Rightarrow> 'w \<Rightarrow> ((exn + chain_log list) \<times> 'w) option" where
  "getLogsChunked P address fromBlock toBlock chunkSize w =
     chunk_loop P address toBlock chunkSize [] fromBlock w"

section \<open>The scanner\<close>

record 'w scanner_chain =
  sc_chainId :: int
  sc_domain :: int
  sc_messageTransmitter :: string
  sc_deployBlock :: int
  sc_confirmations :: int
  sc_provider :: "'w scan_provider"

record chain_scan =
  active :: bool
  cursor :: "int option"

record 'w scanner_deps =
  sd_chains :: "'w scanner_chain list"
  sd_discovery :: "'w discovery_ctx"
  sd_activateAfterMs :: int
  sd_chunkSize :: int
  sd_now :: "'w \<Rightarrow> int \<times> 'w"
  sd_parseMessageSent :: "chain_log \<Rightarrow> exn + string"

record 'w scanner_state =
  scans :: "int \<Rightarrow> chain_scan option"
  actor :: "'w actor_state"

definition isActive :: "'w scanner_state \<Rightarrow> int \<Rightarrow> bool" where
  "isActive s chainId = (case scans s chainId of None \<Rightarrow> False | Some c \<Rightarrow> active c)"

definition toIndexedShape ::
    "'w scanner_deps \<Rightarrow> 'w scanner_chain \<Rightarrow> chain_log \<Rightarrow> exn + indexed_message option" where
  "toIndexedShape d chain log =
     (let E = dc_ethers (sd_discovery d)
      in case sd_parseMessageSent d log of
           Inl _ \<Rightarrow> Inr None
         | Inr bytes \<Rightarrow>
            (case decodeMessageHeader E bytes of
               Inl _ \<Rightarrow> Inr None
             | Inr header \<Rightarrow>
                (case keccak256 E bytes of
                   Inl e \<Rightarrow> Inl e
                 | Inr h \<Rightarrow> Inr (Some \<lparr>
                     m_id = lg_transactionHash log @ '':'' @ show_int (lg_index log),
                     m_chainId = sc_chainId chain, m_sourceDomain = hd_sourceDomain header,
                     m_destinationDomain = hd_destinationDomain header,
                     m_messageBytes = bytes, m_messageHash = h,
                     m_sourceTxHash = lg_transactionHash log, m_logIndex = lg_index log,
                     m_blockNumber = lg_blockNumber log, m_blockTimestamp = 0 \<rparr>))))"

definition claim_log ::
    "'w scanner_deps \<Rightarrow> 'w scanner_chain \<Rightarrow> chain_log \<Rightarrow> ('w actor_state, unit) act" where
  "claim_log d chain log s =
     (case toIndexedShape d chain log of
        Inl e \<Rightarrow> (Inl e, s)
      | Inr None \<Rightarrow> (Inr (), s)
      | Inr (Some msg) \<Rightarrow>
         (case claimMessage (sd_discovery d) msg s of
            (Inl e, s) \<Rightarrow> (Inl e, s)
          | (Inr _, s) \<Rightarrow> (Inr (), s)))"

text \<open>\<open>freshnessMs <= activateAfterMs\<close>, the freshness being infinite without a timestamp.\<close>

definition fresh :: "'w scanner_deps \<Rightarrow> int \<Rightarrow> chain_progress option \<Rightarrow> bool" where
  "fresh d now progress =
     (case progress of
        None \<Rightarrow> False
      | Some p \<Rightarrow> (case cp_lastIndexedBlockTimestamp p of
          None \<Rightarrow> False
        | Some t \<Rightarrow> now - t \<le> sd_activateAfterMs d))"

definition caught_up :: "chain_scan \<Rightarrow> chain_progress option \<Rightarrow> bool" where
  "caught_up st progress =
     (case progress of
        None \<Rightarrow> False
      | Some p \<Rightarrow> (case cursor st of None \<Rightarrow> True | Some c \<Rightarrow> c \<le> cp_lastIndexedBlock p))"

text \<open>The block the scan starts from: behind the last indexed block, else behind the highest
  claimed one, else behind the deploy block.\<close>

definition start_cursor ::
    "'w scanner_chain \<Rightarrow> chain_progress option \<Rightarrow> job_table \<Rightarrow> int" where
  "start_cursor chain progress t =
     (case progress of
        Some p \<Rightarrow> cp_lastIndexedBlock p
      | None \<Rightarrow> (case pg_maxSourceBlock t (sc_domain chain) of
          Some b \<Rightarrow> b
        | None \<Rightarrow> sc_deployBlock chain)) + 1"

definition set_scan :: "'w scanner_chain \<Rightarrow> chain_scan \<Rightarrow> 'w scanner_state \<Rightarrow> 'w scanner_state" where
  "set_scan chain c s = s\<lparr>scans := (scans s)(sc_chainId chain := Some c)\<rparr>"

definition set_world :: "'w \<Rightarrow> 'w scanner_state \<Rightarrow> 'w scanner_state" where
  "set_world w s = s\<lparr>actor := (actor s)\<lparr>world := w\<rparr>\<rparr>"

text \<open>The part of \<open>tickChain\<close> behind the cursor: read the head, query the logs, claim them, advance.\<close>

definition scan_range ::
    "'w scanner_deps \<Rightarrow> 'w scanner_chain \<Rightarrow> int \<Rightarrow> 'w scanner_state
      \<Rightarrow> ((exn + unit) \<times> 'w scanner_state) option" where
  "scan_range d chain cur s =
     (case getBlockNumber (sc_provider chain) (world (actor s)) of
        (Inl e, w) \<Rightarrow> Some (Inl e, set_world w s)
      | (Inr head, w) \<Rightarrow>
          let safeHead = head - sc_confirmations chain
          in if safeHead < cur then Some (Inr (), set_world w s)
          else case getLogsChunked (sc_provider chain) (sc_messageTransmitter chain) cur safeHead
                 (sd_chunkSize d) w of
              None \<Rightarrow> None
            | Some (Inl e, w) \<Rightarrow> Some (Inl e, set_world w s)
            | Some (Inr logs, w) \<Rightarrow>
               (case for_each (claim_log d chain) logs ((actor s)\<lparr>world := w\<rparr>) of
                  (Inl e, a) \<Rightarrow> Some (Inl e, s\<lparr>actor := a\<rparr>)
                | (Inr _, a) \<Rightarrow>
                    Some (Inr (), set_scan chain \<lparr>active = True, cursor = Some (safeHead + 1)\<rparr>
                      (s\<lparr>actor := a\<rparr>))))"

definition scan_from ::
    "'w scanner_deps \<Rightarrow> 'w scanner_chain \<Rightarrow> chain_progress option \<Rightarrow> chain_scan \<Rightarrow> 'w scanner_state
      \<Rightarrow> ((exn + unit) \<times> 'w scanner_state) option" where
  "scan_from d chain progress st s =
     (let cur = (case cursor st of
            Some c \<Rightarrow> c
          | None \<Rightarrow> start_cursor chain progress (jobs (actor s)))
      in scan_range d chain cur (set_scan chain \<lparr>active = True, cursor = Some cur\<rparr> s))"

definition tickChain ::
    "'w scanner_deps \<Rightarrow> 'w scanner_chain \<Rightarrow> chain_progress option \<Rightarrow> 'w scanner_state
      \<Rightarrow> ((exn + unit) \<times> 'w scanner_state) option" where
  "tickChain d chain progress s =
     (let st = (case scans s (sc_chainId chain) of None \<Rightarrow> \<lparr>active = False, cursor = None\<rparr> | Some c \<Rightarrow> c);
          s = set_scan chain st s
      in case sd_now d (world (actor s)) of (now, w) \<Rightarrow>
        let s = set_world w s
        in if active st then
             (if fresh d now progress \<and> caught_up st progress
              then Some (Inr (), set_scan chain \<lparr>active = False, cursor = None\<rparr> s)
              else scan_from d chain progress st s)
           else if fresh d now progress then Some (Inr (), s)
           else scan_from d chain progress \<lparr>active = True, cursor = None\<rparr> s)"

text \<open>\<open>new Map(progress.map(...))\<close>: of two rows of one chain the later wins.\<close>

definition progress_of :: "chain_progress list \<Rightarrow> int \<Rightarrow> chain_progress option" where
  "progress_of ps chainId = map_of (rev (map (\<lambda>p. (cp_chainId p, p)) ps)) chainId"

fun scan_chains ::
    "'w scanner_deps \<Rightarrow> chain_progress list \<Rightarrow> 'w scanner_chain list \<Rightarrow> 'w scanner_state
      \<Rightarrow> ((exn + unit) \<times> 'w scanner_state) option" where
  "scan_chains d ps [] s = Some (Inr (), s)"
| "scan_chains d ps (c # cs) s =
     (case tickChain d c (progress_of ps (sc_chainId c)) s of
        None \<Rightarrow> None
      | Some (Inl e, s) \<Rightarrow> Some (Inl e, s)
      | Some (Inr _, s) \<Rightarrow> scan_chains d ps cs s)"

definition scannerTick ::
    "'w scanner_deps \<Rightarrow> 'w scanner_state \<Rightarrow> ((exn + unit) \<times> 'w scanner_state) option" where
  "scannerTick d s =
     scan_chains d (pg_watcherProgress (dc_view (sd_discovery d) (world (actor s)))) (sd_chains d) s"

section \<open>Log queries are exact\<close>

text \<open>A provider is truthful about a chain when every answer it gives to a range query is the list
  of the chain's logs in that range, in order. It may still fail on any range.\<close>

definition logs_in :: "chain_log list \<Rightarrow> int \<Rightarrow> int \<Rightarrow> chain_log list" where
  "logs_in chain a b = filter (\<lambda>l. a \<le> lg_blockNumber l \<and> lg_blockNumber l \<le> b) chain"

definition truthful :: "'w scan_provider \<Rightarrow> string \<Rightarrow> chain_log list \<Rightarrow> bool" where
  "truthful P address chain \<longleftrightarrow> sorted (map lg_blockNumber chain)
     \<and> (\<forall>a b w ls. fst (getLogs P address a b w) = Inr ls \<longrightarrow> ls = logs_in chain a b)"

lemma sorted_filter_split:
  assumes "sorted (map f xs)" and "a \<le> m + 1" and "m \<le> b"
  shows "filter (\<lambda>x. a \<le> f x \<and> f x \<le> m) xs @ filter (\<lambda>x. (m + 1 :: int) \<le> f x \<and> f x \<le> b) xs
    = filter (\<lambda>x. a \<le> f x \<and> f x \<le> b) xs"
  using assms
proof (induction xs)
  case Nil
  then show ?case by simp
next
  case (Cons x xs)
  show ?case
  proof (cases "f x \<le> m")
    case True
    then show ?thesis using Cons by auto
  next
    case False
    then have none: "filter (\<lambda>x. a \<le> f x \<and> f x \<le> m) (x # xs) = []"
      using Cons.prems(1) by (auto simp: filter_empty_conv)
    have "filter (\<lambda>x. m + 1 \<le> f x \<and> f x \<le> b) (x # xs) = filter (\<lambda>x. a \<le> f x \<and> f x \<le> b) (x # xs)"
    proof (rule filter_cong [OF refl])
      fix y assume "y \<in> set (x # xs)"
      then have "m < f y" using Cons.prems(1) False by auto
      then show "(m + 1 \<le> f y \<and> f y \<le> b) = (a \<le> f y \<and> f y \<le> b)" using Cons.prems(2) by auto
    qed
    with none show ?thesis by simp
  qed
qed

lemma logs_in_split:
  assumes "truthful P address chain" and "a \<le> m + 1" and "m \<le> b"
  shows "logs_in chain a m @ logs_in chain (m + 1) b = logs_in chain a b"
  using assms unfolding logs_in_def truthful_def by (intro sorted_filter_split) auto

lemma bisect_exact:
  assumes "truthful P address chain" and "a \<le> b"
    and "fst (bisectingGetLogs P address a b w) = Inr ls"
  shows "ls = logs_in chain a b"
  using assms
proof (induction P address a b w arbitrary: ls rule: bisectingGetLogs.induct)
  case (1 P address a b w)
  let ?m = "(a + b) div 2"
  show ?case
  proof (cases "getLogs P address a b w")
    case (Pair r w1)
    show ?thesis
    proof (cases r)
      case (Inr ls')
      then show ?thesis
        using 1(3,5) Pair by (simp add: bisectingGetLogs.simps [of P address a b w] truthful_def)
          (metis fst_conv)
    next
      case (Inl e)
      then have lt: "a < b" using 1(4,5) Pair
        by (auto simp: bisectingGetLogs.simps [of P address a b w] split: if_splits)
      then have m: "a \<le> ?m" "?m + 1 \<le> b" by auto
      obtain r2 w2 where left: "bisectingGetLogs P address a ?m w1 = (r2, w2)" by fastforce
      obtain r3 w3 where right: "bisectingGetLogs P address (?m + 1) b w2 = (r3, w3)" by fastforce
      from 1(5) Pair Inl lt left right obtain l2 l3 where
        parts: "r2 = Inr l2" "r3 = Inr l3" "ls = l2 @ l3"
        by (auto simp: bisectingGetLogs.simps [of P address a b w] Let_def split: sum.splits)
      have "l2 = logs_in chain a ?m"
        using 1(1) [of r w1 e ?m l2] Pair Inl lt left parts 1(3) m by simp
      moreover have "l3 = logs_in chain (?m + 1) b"
        using 1(2) [of r w1 e ?m r2 w2 l2 l3] Pair Inl lt left right parts 1(3) m by simp
      moreover have "logs_in chain a ?m @ logs_in chain (?m + 1) b = logs_in chain a b"
        by (rule logs_in_split [OF 1(3)]) (use m in auto)
      ultimately show ?thesis using parts by simp
    qed
  qed
qed

text \<open>When no query for a single block fails, bisection always succeeds.\<close>

lemma bisect_succeeds:
  assumes "\<And>c w e. fst (getLogs P address c c w) \<noteq> Inl e" and "a \<le> b"
  shows "\<exists>ls. fst (bisectingGetLogs P address a b w) = Inr ls"
  using assms
proof (induction P address a b w rule: bisectingGetLogs.induct)
  case (1 P address a b w)
  let ?m = "(a + b) div 2"
  show ?case
  proof (cases "getLogs P address a b w")
    case (Pair r w1)
    show ?thesis
    proof (cases r)
      case (Inr ls')
      then show ?thesis using Pair by (simp add: bisectingGetLogs.simps [of P address a b w])
    next
      case (Inl e)
      then have lt: "a < b" using 1(3) [of a w e] 1(4) Pair by (cases "a = b") auto
      then have m: "a \<le> ?m" "?m + 1 \<le> b" by auto
      obtain r2 w2 where left: "bisectingGetLogs P address a ?m w1 = (r2, w2)" by fastforce
      obtain r3 w3 where right: "bisectingGetLogs P address (?m + 1) b w2 = (r3, w3)" by fastforce
      obtain l2 where "r2 = Inr l2"
        using 1(1) [of r w1 e ?m] Pair Inl lt left 1(3) m by auto
      moreover from this obtain l3 where "r3 = Inr l3"
        using 1(2) [of r w1 e ?m r2 w2 l2] Pair Inl lt left right 1(3) m by auto
      ultimately show ?thesis
        using Pair Inl lt left right by (simp add: bisectingGetLogs.simps [of P address a b w] Let_def)
    qed
  qed
qed

lemma chunk_loop_exact:
  assumes "0 < chunkSize" and "truthful P address chain"
    and "from \<le> start" and "start \<le> to + 1" and "out = logs_in chain from (start - 1)"
  shows "\<exists>r w'. chunk_loop P address to chunkSize out start w = Some (r, w')
    \<and> (\<forall>ls. r = Inr ls \<longrightarrow> ls = logs_in chain from to)
    \<and> ((\<forall>c w e. fst (getLogs P address c c w) \<noteq> Inl e) \<longrightarrow> (\<exists>ls. r = Inr ls))"
  using assms(3-5)
proof (induction "nat (to + 1 - start)" arbitrary: start out w rule: less_induct)
  case less
  show ?case
  proof (cases "to < start")
    case True
    then have "start - 1 = to" using less.prems(2) by simp
    then show ?thesis
      using True less.prems(3) by (subst chunk_loop.simps) simp
  next
    case False
    let ?hi = "min (start + chunkSize - 1) to"
    have le: "start \<le> ?hi" using False assms(1) by simp
    obtain r w1 where b: "bisectingGetLogs P address start ?hi w = (r, w1)" by fastforce
    show ?thesis
    proof (cases r)
      case (Inl e)
      have ok: "\<exists>ls. r = Inr ls" if "\<forall>c w e. fst (getLogs P address c c w) \<noteq> Inl e"
        using bisect_succeeds [of P address start ?hi w] that le b by simp
      have "chunk_loop P address to chunkSize out start w = Some (Inl e, w1)"
        using False b Inl by (subst chunk_loop.simps) (simp add: Let_def)
      with ok Inl show ?thesis by auto
    next
      case (Inr ls)
      have ls: "ls = logs_in chain start ?hi"
        using bisect_exact [OF assms(2) le, of w ls] b Inr by simp
      have "logs_in chain from (start - 1) @ logs_in chain (start - 1 + 1) ?hi = logs_in chain from ?hi"
        by (rule logs_in_split [OF assms(2)]) (use less.prems(1) le in auto)
      then have out: "out @ ls = logs_in chain from (?hi + 1 - 1)"
        using ls less.prems(3) by simp
      have step: "chunk_loop P address to chunkSize out start w
          = chunk_loop P address to chunkSize (out @ ls) (?hi + 1) w1"
        using False b Inr by (subst chunk_loop.simps) (simp add: Let_def)
      show ?thesis
        unfolding step using less.hyps [OF _ _ _ out] le less.prems(1) by auto
    qed
  qed
qed

lemma getLogsChunked_exact:
  assumes "0 < chunkSize" and "truthful P address chain"
  shows "\<exists>r w'. getLogsChunked P address from to chunkSize w = Some (r, w')
    \<and> (\<forall>ls. r = Inr ls \<longrightarrow> ls = logs_in chain from to)
    \<and> ((\<forall>c w e. fst (getLogs P address c c w) \<noteq> Inl e) \<longrightarrow> (\<exists>ls. r = Inr ls))"
proof (cases "to < from")
  case True
  then have "logs_in chain from to = []" by (auto simp: logs_in_def filter_empty_conv)
  with True show ?thesis unfolding getLogsChunked_def by (subst chunk_loop.simps) simp
next
  case False
  have "[] = logs_in chain from (from - 1)" by (auto simp: logs_in_def filter_empty_conv)
  with False chunk_loop_exact [OF assms, of "from" "from" to "[]" w] show ?thesis
    unfolding getLogsChunked_def by simp
qed

lemma chunk_loop_total:
  assumes "0 < chunkSize"
  shows "chunk_loop P address to chunkSize out start w \<noteq> None"
proof (induction "nat (to + 1 - start)" arbitrary: start out w rule: less_induct)
  case less
  let ?hi = "min (start + chunkSize - 1) to"
  show ?case
  proof (cases "to < start")
    case True
    then show ?thesis by (subst chunk_loop.simps) simp
  next
    case False
    obtain r w1 where b: "bisectingGetLogs P address start ?hi w = (r, w1)" by fastforce
    have "nat (to + 1 - (?hi + 1)) < nat (to + 1 - start)" using False assms by simp
    from less [OF this] b False show ?thesis
      by (subst chunk_loop.simps) (simp add: Let_def split: sum.split)
  qed
qed

section \<open>Claiming the logs\<close>

lemma claim_log_effect:
  assumes "pg_invar (jobs s)"
  shows "pg_invar (jobs (snd (claim_log d chain log s)))
    \<and> (\<forall>k j. pg_get (jobs s) k = Some j \<longrightarrow> pg_get (jobs (snd (claim_log d chain log s))) k = Some j)
    \<and> (fst (claim_log d chain log s) = Inr () \<longrightarrow> (\<forall>m. toIndexedShape d chain log = Inr (Some m) \<longrightarrow>
         pg_get (jobs (snd (claim_log d chain log s))) (m_id m) \<noteq> None))"
proof (cases "toIndexedShape d chain log")
  case (Inl e)
  then show ?thesis using assms by (simp add: claim_log_def)
next
  case (Inr r)
  show ?thesis
  proof (cases r)
    case None
    then show ?thesis using Inr assms by (simp add: claim_log_def)
  next
    case (Some m)
    let ?c = "claimMessage (sd_discovery d) m s"
    have ext: "extends (sd_discovery d) {m} (jobs s) (jobs (snd ?c)) \<and> pg_invar (jobs (snd ?c))"
      by (rule claimMessage_extends [OF assms])
    have snd: "snd (claim_log d chain log s) = snd ?c"
      using Inr Some by (auto simp: claim_log_def split: prod.splits sum.splits)
    have fst: "fst (claim_log d chain log s) = Inr () \<longrightarrow> (\<exists>o'. fst ?c = Inr o')"
      using Inr Some by (auto simp: claim_log_def split: prod.splits sum.splits)
    have got: "pg_get (jobs (snd ?c)) (m_id m) \<noteq> None" if "fst ?c = Inr o'" for o'
    proof (cases rule: claimMessage_cases [of "sd_discovery d" m s])
      case 1
      then show ?thesis using that by simp
    next
      case 2
      then show ?thesis by simp
    next
      case (3 w now job)
      then show ?thesis using initialJob_key [OF 3(1)] by (simp add: pg_get_append)
    qed
    show ?thesis
      unfolding snd using ext extends_keeps fst got Inr Some by (metis sum.inject(2) option.inject)
  qed
qed

lemma claim_logs_effect:
  assumes "pg_invar (jobs s)"
  shows "pg_invar (jobs (snd (for_each (claim_log d chain) logs s)))
    \<and> (\<forall>k j. pg_get (jobs s) k = Some j \<longrightarrow>
          pg_get (jobs (snd (for_each (claim_log d chain) logs s))) k = Some j)
    \<and> (fst (for_each (claim_log d chain) logs s) = Inr () \<longrightarrow>
         (\<forall>log \<in> set logs. \<forall>m. toIndexedShape d chain log = Inr (Some m) \<longrightarrow>
            pg_get (jobs (snd (for_each (claim_log d chain) logs s))) (m_id m) \<noteq> None))"
  using assms
proof (induction logs arbitrary: s)
  case Nil
  then show ?case by simp
next
  case (Cons log logs)
  obtain r s1 where one: "claim_log d chain log s = (r, s1)" by fastforce
  from claim_log_effect [OF Cons.prems, of d chain log] one
  have inv: "pg_invar (jobs s1)" and keep: "\<forall>k j. pg_get (jobs s) k = Some j \<longrightarrow> pg_get (jobs s1) k = Some j"
    and got: "r = Inr () \<longrightarrow> (\<forall>m. toIndexedShape d chain log = Inr (Some m) \<longrightarrow> pg_get (jobs s1) (m_id m) \<noteq> None)"
    by simp_all
  show ?case
  proof (cases r)
    case (Inl e)
    then show ?thesis using one inv keep by simp
  next
    case (Inr u)
    from Cons.IH [OF inv] keep got Inr one show ?thesis by (simp) (metis not_Some_eq)
  qed
qed

text \<open>A new key comes from one of the logs.\<close>

lemma claim_logs_origin:
  assumes "pg_invar (jobs s)" and "pg_get (jobs s) k = None"
    and "pg_get (jobs (snd (for_each (claim_log d chain) logs s))) k \<noteq> None"
  shows "\<exists>log \<in> set logs. \<exists>m. toIndexedShape d chain log = Inr (Some m) \<and> m_id m = k"
  using assms
proof (induction logs arbitrary: s)
  case Nil
  then show ?case by simp
next
  case (Cons log logs)
  obtain r s1 where one: "claim_log d chain log s = (r, s1)" by fastforce
  have inv: "pg_invar (jobs s1)" using claim_log_effect [OF Cons.prems(1), of d chain log] one by simp
  have origin: "\<exists>m. toIndexedShape d chain log = Inr (Some m) \<and> m_id m = k"
    if new: "pg_get (jobs s1) k \<noteq> None"
  proof -
    from one new Cons.prems(2) obtain m where m: "toIndexedShape d chain log = Inr (Some m)"
        "jobs s1 = jobs (snd (claimMessage (sd_discovery d) m s))"
      by (auto simp: claim_log_def split: sum.splits option.splits prod.splits)
    from claimMessage_extends [OF Cons.prems(1), of "sd_discovery d" m]
    have "extends (sd_discovery d) {m} (jobs s) (jobs s1)" using m(2) by simp
    from extendsD [OF this, of k] new Cons.prems(2) have "m_id m = k" by auto
    with m show ?thesis by blast
  qed
  show ?case
  proof (cases "pg_get (jobs s1) k")
    case (Some j)
    then show ?thesis using origin by simp
  next
    case None
    from Cons.prems(3) one obtain u where "r = Inr u" using None by (cases r) auto
    then have "pg_get (jobs (snd (for_each (claim_log d chain) logs s1))) k \<noteq> None"
      using Cons.prems(3) one by simp
    from Cons.IH [OF inv None this] show ?thesis by auto
  qed
qed

section \<open>One chain's tick\<close>

lemma actor_set_world [simp]: "actor (set_world w s) = (actor s)\<lparr>world := w\<rparr>"
  by (simp add: set_world_def)

lemma scans_set_world [simp]: "scans (set_world w s) = scans s"
  by (simp add: set_world_def)

lemma actor_set_scan [simp]: "actor (set_scan chain c s) = actor s"
  by (simp add: set_scan_def)

lemma scans_set_scan [simp]:
  "scans (set_scan chain c s) k = (if k = sc_chainId chain then Some c else scans s k)"
  by (simp add: set_scan_def)

text \<open>What a scan from block \<open>cur\<close> comes to: the scan stays active, its cursor does not move back
  and moves only on success; stored jobs stay; new ones are from logs at or behind \<open>cur\<close>; and after
  a success every readable log between the cursors has a job.\<close>

definition scanned ::
    "'w scanner_deps \<Rightarrow> 'w scanner_chain \<Rightarrow> int \<Rightarrow> 'w scanner_state \<Rightarrow> exn + unit \<Rightarrow> 'w scanner_state \<Rightarrow> bool" where
  "scanned d chain cur s r s' \<longleftrightarrow> pg_invar (jobs (actor s'))
     \<and> (\<forall>k j. pg_get (jobs (actor s)) k = Some j \<longrightarrow> pg_get (jobs (actor s')) k = Some j)
     \<and> (\<exists>c'. scans s' (sc_chainId chain) = Some \<lparr>active = True, cursor = Some c'\<rparr> \<and> cur \<le> c'
          \<and> (\<forall>e. r = Inl e \<longrightarrow> c' = cur)
          \<and> (\<forall>logs. truthful (sc_provider chain) (sc_messageTransmitter chain) logs \<longrightarrow>
               (r = Inr () \<longrightarrow> (\<forall>log \<in> set logs. \<forall>m. cur \<le> lg_blockNumber log \<longrightarrow> lg_blockNumber log < c' \<longrightarrow>
                  toIndexedShape d chain log = Inr (Some m) \<longrightarrow> pg_get (jobs (actor s')) (m_id m) \<noteq> None))
               \<and> (\<forall>k. pg_get (jobs (actor s)) k = None \<longrightarrow> pg_get (jobs (actor s')) k \<noteq> None \<longrightarrow>
                  (\<exists>log \<in> set logs. \<exists>m. cur \<le> lg_blockNumber log
                     \<and> toIndexedShape d chain log = Inr (Some m) \<and> m_id m = k))))"

lemma scanned_idle:
  assumes "pg_invar (jobs (actor s))" and "scans s (sc_chainId chain) = Some \<lparr>active = True, cursor = Some cur\<rparr>"
  shows "scanned d chain cur s r (set_world w s)"
  unfolding scanned_def using assms by auto

lemma scan_range_scanned:
  assumes "0 < sd_chunkSize d" and inv: "pg_invar (jobs (actor s))"
    and st: "scans s (sc_chainId chain) = Some \<lparr>active = True, cursor = Some cur\<rparr>"
  shows "\<exists>r s'. scan_range d chain cur s = Some (r, s') \<and> scanned d chain cur s r s'"
proof -
  let ?P = "sc_provider chain" and ?A = "sc_messageTransmitter chain"
  obtain rh w where head: "getBlockNumber ?P (world (actor s)) = (rh, w)" by fastforce
  show ?thesis
  proof (cases rh)
    case (Inl e)
    then have "scan_range d chain cur s = Some (Inl e, set_world w s)"
      using head by (simp add: scan_range_def)
    then show ?thesis using scanned_idle [OF inv st] by blast
  next
    case (Inr h)
    let ?safe = "h - sc_confirmations chain"
    show ?thesis
    proof (cases "?safe < cur")
      case True
      then have "scan_range d chain cur s = Some (Inr (), set_world w s)"
        using head Inr by (simp add: scan_range_def)
      then show ?thesis using scanned_idle [OF inv st] by blast
    next
      case False
      have "getLogsChunked ?P ?A cur ?safe (sd_chunkSize d) w \<noteq> None"
        unfolding getLogsChunked_def by (rule chunk_loop_total [OF assms(1)])
      then obtain rl w2 where logs: "getLogsChunked ?P ?A cur ?safe (sd_chunkSize d) w = Some (rl, w2)"
        by auto
      show ?thesis
      proof (cases rl)
        case (Inl e)
        then have "scan_range d chain cur s = Some (Inl e, set_world w2 s)"
          using head Inr False logs by (simp add: scan_range_def)
        then show ?thesis using scanned_idle [OF inv st] by blast
      next
        case ls: (Inr ls)
        obtain rc a where claims: "for_each (claim_log d chain) ls ((actor s)\<lparr>world := w2\<rparr>) = (rc, a)"
          by fastforce
        have inv2: "pg_invar (jobs ((actor s)\<lparr>world := w2\<rparr>))" using inv by simp
        note eff = claim_logs_effect [OF inv2, of d chain ls, unfolded claims]
        have logs_eq: "ls = logs_in L cur ?safe" if "truthful ?P ?A L" for L
          using getLogsChunked_exact [OF assms(1) that, of cur ?safe w] logs ls by auto
        have origin: "\<exists>log \<in> set L. \<exists>m. cur \<le> lg_blockNumber log
            \<and> toIndexedShape d chain log = Inr (Some m) \<and> m_id m = k"
          if "truthful ?P ?A L" "pg_get (jobs (actor s)) k = None" "pg_get (jobs a) k \<noteq> None" for L k
        proof -
          have "\<exists>log \<in> set ls. \<exists>m. toIndexedShape d chain log = Inr (Some m) \<and> m_id m = k"
            using claim_logs_origin [OF inv2, of k d chain ls] that(2,3) claims by simp
          then show ?thesis using logs_eq [OF that(1)] by (auto simp: logs_in_def)
        qed
        show ?thesis
        proof (cases rc)
          case (Inl e)
          then have run: "scan_range d chain cur s = Some (Inl e, s\<lparr>actor := a\<rparr>)"
            using head Inr False logs ls claims by (simp add: scan_range_def Let_def)
          have "scanned d chain cur s (Inl e) (s\<lparr>actor := a\<rparr>)"
            unfolding scanned_def using eff st origin by simp
          with run show ?thesis by blast
        next
          case u: (Inr u)
          let ?s' = "set_scan chain \<lparr>active = True, cursor = Some (?safe + 1)\<rparr> (s\<lparr>actor := a\<rparr>)"
          have run: "scan_range d chain cur s = Some (Inr (), ?s')"
            using head Inr False logs ls claims u by (simp add: scan_range_def Let_def)
          have "pg_get (jobs a) (m_id m) \<noteq> None"
            if "truthful ?P ?A L" "log \<in> set L" "cur \<le> lg_blockNumber log" "lg_blockNumber log < ?safe + 1"
              "toIndexedShape d chain log = Inr (Some m)" for L log m
          proof -
            have "log \<in> set ls" using logs_eq [OF that(1)] that(2-4) by (simp add: logs_in_def)
            then show ?thesis using eff that(5) u by auto
          qed
          then have "scanned d chain cur s (Inr ()) ?s'"
            unfolding scanned_def using eff origin False by simp
          with run show ?thesis by blast
        qed
      qed
    qed
  qed
qed

text \<open>The scan state of a chain, as the tick reads it.\<close>

definition scan_of :: "'w scanner_state \<Rightarrow> 'w scanner_chain \<Rightarrow> chain_scan" where
  "scan_of s chain = (case scans s (sc_chainId chain) of
     None \<Rightarrow> \<lparr>active = False, cursor = None\<rparr> | Some c \<Rightarrow> c)"

definition scan_start :: "'w scanner_state \<Rightarrow> 'w scanner_chain \<Rightarrow> chain_progress option \<Rightarrow> int" where
  "scan_start s chain progress =
     (case (if active (scan_of s chain) then cursor (scan_of s chain) else None) of
        Some c \<Rightarrow> c | None \<Rightarrow> start_cursor chain progress (jobs (actor s)))"

definition stays_idle :: "'w scanner_deps \<Rightarrow> 'w scanner_chain \<Rightarrow> chain_progress option \<Rightarrow> 'w scanner_state \<Rightarrow> bool" where
  "stays_idle d chain progress s \<longleftrightarrow>
     fresh d (fst (sd_now d (world (actor s)))) progress
     \<and> (active (scan_of s chain) \<longrightarrow> caught_up (scan_of s chain) progress)"

lemma tickChain_run:
  assumes "\<not> stays_idle d chain progress s"
  shows "tickChain d chain progress s = scan_range d chain (scan_start s chain progress)
    (set_scan chain \<lparr>active = True, cursor = Some (scan_start s chain progress)\<rparr>
      (set_world (snd (sd_now d (world (actor s)))) (set_scan chain (scan_of s chain) s)))"
  using assms
  by (auto simp: tickChain_def stays_idle_def scan_from_def scan_start_def scan_of_def [symmetric] Let_def
      split: prod.splits option.splits)

lemma tickChain_scans:
  assumes "0 < sd_chunkSize d" and "pg_invar (jobs (actor s))" and "\<not> stays_idle d chain progress s"
  shows "\<exists>r s'. tickChain d chain progress s = Some (r, s')
    \<and> scanned d chain (scan_start s chain progress) s r s'"
proof -
  let ?w = "snd (sd_now d (world (actor s)))"
  let ?cur = "scan_start s chain progress"
  let ?s1 = "set_world ?w (set_scan chain (scan_of s chain) s)"
  let ?s2 = "set_scan chain \<lparr>active = True, cursor = Some ?cur\<rparr> ?s1"
  have run: "tickChain d chain progress s = scan_range d chain ?cur ?s2"
    by (rule tickChain_run [OF assms(3)])
  have "\<exists>r s'. scan_range d chain ?cur ?s2 = Some (r, s') \<and> scanned d chain ?cur ?s2 r s'"
    by (rule scan_range_scanned [OF assms(1)]) (use assms(2) in simp_all)
  then show ?thesis unfolding run by (simp add: scanned_def)
qed

lemma tickChain_idle:
  assumes "stays_idle d chain progress s"
  shows "\<exists>s'. tickChain d chain progress s = Some (Inr (), s')
    \<and> actor s' = (actor s)\<lparr>world := snd (sd_now d (world (actor s)))\<rparr> \<and> \<not> isActive s' (sc_chainId chain)"
  using assms
  by (auto simp: tickChain_def stays_idle_def scan_of_def [symmetric] isActive_def Let_def
      split: prod.splits)


section \<open>Properties\<close>

text \<open>C27: With a positive chunk size the chunked query always returns; and against a provider that
  answers truthfully when it answers, whatever ranges it refuses, the result is an error or
  exactly the chain's logs of the whole range, in order, none missing at a chunk or bisection
  boundary and none twice. It is not an error when no single-block query fails.\<close>

theorem chunked_query_exact:
  assumes "0 < chunkSize" and "truthful P address chain"
  shows "\<exists>r w'. getLogsChunked P address from to chunkSize w = Some (r, w')
    \<and> (\<forall>ls. r = Inr ls \<longrightarrow> ls = filter (\<lambda>l. from \<le> lg_blockNumber l \<and> lg_blockNumber l \<le> to) chain)
    \<and> ((\<forall>c w e. fst (getLogs P address c c w) \<noteq> Inl e) \<longrightarrow> (\<exists>ls. r = Inr ls))"
  using getLogsChunked_exact [OF assms, of "from" to w] by (simp add: logs_in_def)

text \<open>A provider that refuses ranges of more than three blocks.\<close>

definition demo_log :: "int \<Rightarrow> chain_log" where
  "demo_log b = \<lparr>lg_topics = [], lg_data = [], lg_transactionHash = ''0xbb'', lg_index = 0, lg_blockNumber = b\<rparr>"

definition demo_provider :: "watcher_view scan_provider" where
  "demo_provider = \<lparr>getBlockNumber = (\<lambda>w. (Inr 100, w)),
     getLogs = (\<lambda>a from to w. (if 3 < to - from + 1 then Inl ''range too large''
        else Inr (logs_in [demo_log 55, demo_log 60] from to), w))\<rparr>"

lemma demo_truthful: "truthful demo_provider a [demo_log 55, demo_log 60]"
  by (simp add: truthful_def demo_provider_def demo_log_def)

theorem chunked_query_exact_witness:
  "\<exists>w'. getLogsChunked demo_provider ''0x'' 53 88 20 demo_view = Some (Inr [demo_log 55, demo_log 60], w')"
proof -
  have single: "\<forall>c w e. fst (getLogs demo_provider ''0x'' c c w) \<noteq> Inl e"
    by (simp add: demo_provider_def)
  obtain r w' where run: "getLogsChunked demo_provider ''0x'' 53 88 20 demo_view = Some (r, w')"
    and ok: "\<forall>ls. r = Inr ls \<longrightarrow> ls = filter (\<lambda>l. 53 \<le> lg_blockNumber l \<and> lg_blockNumber l \<le> 88)
        [demo_log 55, demo_log 60]"
    and ex: "\<exists>ls. r = Inr ls"
    using chunked_query_exact [OF _ demo_truthful, of 20 "''0x''" 53 88 demo_view] single by auto
  then have "r = Inr [demo_log 55, demo_log 60]" by (auto simp: demo_log_def)
  with run show ?thesis by blast
qed

text \<open>The scanner works exactly while the watcher is behind. While the watcher is fresh, and has
  caught up with the cursor of a scan that was active, the tick of a chain reads the clock and
  nothing else: no query is sent, no job changes, and the scan is off. Otherwise the scan is on,
  and whether or not the tick throws, stored jobs are kept, the cursor does not move back, and it
  moves only if every log up to it was handled: after an exception the same range is scanned again.\<close>

theorem scanner_tick_modes:
  assumes "0 < sd_chunkSize d" and "pg_invar (jobs (actor s))"
  shows "if stays_idle d chain progress s
    then \<exists>s'. tickChain d chain progress s = Some (Inr (), s') \<and> \<not> isActive s' (sc_chainId chain)
      \<and> actor s' = (actor s)\<lparr>world := snd (sd_now d (world (actor s)))\<rparr>
    else \<exists>r s' c'. tickChain d chain progress s = Some (r, s')
      \<and> scans s' (sc_chainId chain) = Some \<lparr>active = True, cursor = Some c'\<rparr>
      \<and> scan_start s chain progress \<le> c'
      \<and> (\<forall>e. r = Inl e \<longrightarrow> c' = scan_start s chain progress)
      \<and> (\<forall>k j. pg_get (jobs (actor s)) k = Some j \<longrightarrow> pg_get (jobs (actor s')) k = Some j)"
proof (cases "stays_idle d chain progress s")
  case True
  then show ?thesis using tickChain_idle [OF True] by auto
next
  case False
  from tickChain_scans [OF assms False] obtain r s' where
    "tickChain d chain progress s = Some (r, s')" "scanned d chain (scan_start s chain progress) s r s'"
    by blast
  then show ?thesis using False unfolding scanned_def by auto
qed


definition demo_scanner :: "watcher_view scanner_deps" where
  "demo_scanner = \<lparr>sd_chains = [], sd_discovery = demo_ctx, sd_activateAfterMs = 120000,
     sd_chunkSize = 20, sd_now = (\<lambda>w. (1700000500000, w)),
     sd_parseMessageSent = (\<lambda>log. Inl ''unparseable'')\<rparr>"

definition demo_chain :: "watcher_view scanner_chain" where
  "demo_chain = \<lparr>sc_chainId = 1, sc_domain = 6, sc_messageTransmitter = ''0xaa'', sc_deployBlock = 0,
     sc_confirmations = 12, sc_provider = demo_provider\<rparr>"

definition gap_view :: watcher_view where
  "gap_view = demo_view\<lparr>sent_rows := [demo_indexed ''g'' 1 50]\<rparr>"

definition stale_progress :: chain_progress where
  "stale_progress = \<lparr>cp_chainId = 1, cp_lastIndexedBlock = 52,
     cp_lastIndexedBlockTimestamp = Some 1700000000000, cp_ready = True\<rparr>"

definition gap_state :: "watcher_view scanner_state" where
  "gap_state = \<lparr>scans = (\<lambda>_. None), actor = \<lparr>jobs = [], world = gap_view, transitions = []\<rparr>\<rparr>"

lemma gap_setup:
  "0 < sd_chunkSize demo_scanner" "pg_invar (jobs (actor gap_state))"
  "\<not> stays_idle demo_scanner demo_chain (Some stale_progress) gap_state"
  by (simp_all add: demo_scanner_def gap_state_def pg_invar_def stays_idle_def fresh_def stale_progress_def)

theorem scanner_tick_modes_witness:
  "\<exists>r s' c'. tickChain demo_scanner demo_chain (Some stale_progress) gap_state = Some (r, s')
     \<and> scans s' 1 = Some \<lparr>active = True, cursor = Some c'\<rparr> \<and> 53 \<le> c'"
proof -
  have "scan_start gap_state demo_chain (Some stale_progress) = 53"
    by (simp add: scan_start_def scan_of_def gap_state_def start_cursor_def stale_progress_def)
  then show ?thesis
    using scanner_tick_modes [OF gap_setup(1,2), of demo_chain "Some stale_progress"] gap_setup(3)
    by (auto simp: demo_chain_def)
qed

lemma gap_logs_unreadable: "toIndexedShape demo_scanner demo_chain log = Inr None"
  by (simp add: toIndexedShape_def demo_scanner_def)


lemma discovery_leaves_gap:
  assumes "pg_invar (jobs s)" and "pg_get (jobs s) (m_id m) = None"
    and m: "m \<in> set (sent_rows (dc_view ctx (world s)))"
    and ids: "distinct (map m_id (sent_rows (dc_view ctx (world s))))"
    and last: "\<forall>p \<in> set (pg_watcherProgress (dc_view ctx (world s))).
      cp_chainId p = m_chainId m \<longrightarrow> cp_lastIndexedBlock p = L"
    and conf: "confirmationsByChain ctx (m_chainId m) = Some conf" and late: "L - conf < m_blockNumber m"
  shows "pg_get (jobs (snd (discoverWork ctx s))) (m_id m) = None"
proof (rule ccontr)
  let ?v = "dc_view ctx (world s)"
  let ?ms = "take DISCOVERY_BATCH_LIMIT (sort_key m_blockNumber (due_now ctx ?v (jobs s)))"
  assume new: "pg_get (jobs (snd (discoverWork ctx s))) (m_id m) \<noteq> None"
  have "extends ctx (set ?ms) (jobs s) (jobs (snd (discoverWork ctx s)))"
    by (rule discovery_extends(1) [OF assms(1)])
  from extendsD [OF this, of "m_id m"] new assms(2) obtain m' where
    m': "m' \<in> set ?ms" "m_id m' = m_id m" by auto
  then have due: "m' \<in> set (due_now ctx ?v (jobs s))" by (blast intro: in_set_take_sort)
  then have "m' = m" using m'(2) m ids by (auto simp: due_now_iff distinct_map dest: inj_onD)
  with due obtain g where "m_blockNumber m \<le> g"
      "map_of (discoveryGate ctx [] (pg_watcherProgress ?v)) (m_chainId m) = Some g"
    by (auto simp: due_now_iff)
  from discoveryGate_bound [OF this(2)] this(1) last conf late show False by auto
qed

text \<open>The fallback does not cover the confirmation window of a stalled watcher. When the watcher
  has stalled at block \<open>L\<close>, a message it has indexed in the last \<open>confirmations\<close> blocks up to \<open>L\<close> is
  claimed neither by discovery, which stops at \<open>L - confirmations\<close>, nor by the scan this activates,
  which starts at \<open>L + 1\<close>: after both ticks it still has no job, for as long as the watcher is stalled.\<close>

theorem stalled_watcher_gap:
  assumes "0 < sd_chunkSize d" and "pg_invar (jobs (actor s))" and "pg_get (jobs (actor s)) (m_id m) = None"
    and "m \<in> set (sent_rows (dc_view ctx (world (actor s))))"
    and "distinct (map m_id (sent_rows (dc_view ctx (world (actor s)))))"
    and "\<forall>p \<in> set (pg_watcherProgress (dc_view ctx (world (actor s)))).
      cp_chainId p = m_chainId m \<longrightarrow> cp_lastIndexedBlock p = L"
    and "confirmationsByChain ctx (m_chainId m) = Some conf"
    and "L - conf < m_blockNumber m" and "m_blockNumber m \<le> L"
    and "s1 = s\<lparr>actor := snd (discoverWork ctx (actor s))\<rparr>"
    and "\<not> stays_idle d chain (Some p) s1" and "cp_lastIndexedBlock p = L" and "\<not> active (scan_of s chain)"
    and "truthful (sc_provider chain) (sc_messageTransmitter chain) logs"
    and "\<forall>log \<in> set logs. \<forall>m'. toIndexedShape d chain log = Inr (Some m') \<longrightarrow> m_id m' = m_id m \<longrightarrow>
      lg_blockNumber log = m_blockNumber m"
  shows "pg_get (jobs (actor s1)) (m_id m) = None
    \<and> (\<exists>r s2. tickChain d chain (Some p) s1 = Some (r, s2) \<and> pg_get (jobs (actor s2)) (m_id m) = None)"
proof -
  have none: "pg_get (jobs (actor s1)) (m_id m) = None"
    using discovery_leaves_gap [OF assms(2-8)] assms(10) by simp
  have inv: "pg_invar (jobs (actor s1))"
    using claim_loop_extends [OF assms(2)] by (simp add: assms(10) discoverWork_eq)
  have start: "scan_start s1 chain (Some p) = L + 1"
    using assms(10,12,13) by (simp add: scan_start_def scan_of_def start_cursor_def)
  from tickChain_scans [OF assms(1) inv assms(11)] obtain r s2 where
    run: "tickChain d chain (Some p) s1 = Some (r, s2)" and sc: "scanned d chain (L + 1) s1 r s2"
    unfolding start by blast
  have "pg_get (jobs (actor s2)) (m_id m) = None"
  proof (rule ccontr)
    assume "pg_get (jobs (actor s2)) (m_id m) \<noteq> None"
    with sc none assms(14) obtain log m' where "log \<in> set logs" "L + 1 \<le> lg_blockNumber log"
        "toIndexedShape d chain log = Inr (Some m')" "m_id m' = m_id m"
      unfolding scanned_def by blast
    with assms(9,15) show False by fastforce
  qed
  with none run show ?thesis by blast
qed

lemma gap_progress: "\<forall>p \<in> set (pg_watcherProgress gap_view). cp_chainId p = 1 \<longrightarrow> cp_lastIndexedBlock p = 52"
  using decode_padded [of 1700000000 1 52 "pad_dec 33 0"]
  by (simp add: pg_watcherProgress_def gap_view_def demo_view_def digits_pad_dec)

theorem stalled_watcher_gap_witness:
  "\<exists>r s2. tickChain demo_scanner demo_chain (Some stale_progress)
      (gap_state\<lparr>actor := snd (discoverWork demo_ctx (actor gap_state))\<rparr>) = Some (r, s2)
    \<and> pg_get (jobs (actor s2)) ''g'' = None"
proof -
  let ?m = "demo_indexed ''g'' 1 50"
  have m: "m_id ?m = ''g''" "m_chainId ?m = 1" "m_blockNumber ?m = 50" by (simp_all add: demo_indexed_def)
  have view: "dc_view demo_ctx (world (actor gap_state)) = gap_view"
    by (simp add: demo_ctx_def gap_state_def)
  have sent: "sent_rows gap_view = [?m]" by (simp add: gap_view_def)
  have idle: "\<not> stays_idle demo_scanner demo_chain (Some stale_progress)
      (gap_state\<lparr>actor := snd (discoverWork demo_ctx (actor gap_state))\<rparr>)"
    by (simp add: stays_idle_def demo_scanner_def fresh_def stale_progress_def)
  have last: "cp_lastIndexedBlock stale_progress = 52" by (simp add: stale_progress_def)
  have off: "\<not> active (scan_of gap_state demo_chain)" by (simp add: scan_of_def gap_state_def)
  have conf: "confirmationsByChain demo_ctx 1 = Some 12" by (simp add: demo_ctx_def)
  have none: "pg_get (jobs (actor gap_state)) ''g'' = None" by (simp add: gap_state_def)
  have tr: "truthful (sc_provider demo_chain) (sc_messageTransmitter demo_chain) [demo_log 55, demo_log 60]"
    using demo_truthful by (simp add: demo_chain_def)
  from stalled_watcher_gap [OF gap_setup(1,2), of ?m demo_ctx 52 12, unfolded m view sent,
      OF none _ _ gap_progress conf _ _ refl idle last off tr]
  show ?thesis by (simp add: gap_logs_unreadable)
qed

end
