(* ===== verification/Lock.thy ===== *)
theory Lock
  imports Prelude
begin

text \<open>
  The interface between a handler that must not run twice at a time on a chain and the provider of its
  lock: a synchronous \<open>tryAcquire\<close>, a \<open>release\<close>, and the section
  \<open>if (!tryAcquire) throw; try { ... } finally { release }\<close> between them. The wallet provides the lock,
  the relay pipeline is the client.
\<close>

definition with_lock ::
    "('s \<Rightarrow> bool \<times> 's) \<Rightarrow> ('s \<Rightarrow> 's) \<Rightarrow> 'e \<Rightarrow> ('s \<Rightarrow> ('e + 'a) \<times> 's) \<Rightarrow> 's \<Rightarrow> ('e + 'a) \<times> 's" where
  "with_lock acquire unlock busyError body s =
     (case acquire s of
        (False, s) \<Rightarrow> (Inl busyError, s)
      | (True, s) \<Rightarrow> (case body s of (r, s) \<Rightarrow> (r, unlock s)))"

locale chain_lock =
  fixes acquire :: "int \<Rightarrow> 's \<Rightarrow> bool \<times> 's"
    and unlock :: "int \<Rightarrow> 's \<Rightarrow> 's"
    and held :: "'s \<Rightarrow> int set"
  assumes acquire_free: "c \<notin> held s \<Longrightarrow> fst (acquire c s) \<and> held (snd (acquire c s)) = insert c (held s)"
    and acquire_busy: "c \<in> held s \<Longrightarrow> acquire c s = (False, s)"
    and unlock_held: "held (unlock c s) = held s - {c}"
begin

lemma section_busy: "c \<in> held s \<Longrightarrow> with_lock (acquire c) (unlock c) e body s = (Inl e, s)"
  by (simp add: with_lock_def acquire_busy)

lemma section_runs:
  assumes "c \<notin> held s"
  obtains s0 where "acquire c s = (True, s0)" "held s0 = insert c (held s)"
    "with_lock (acquire c) (unlock c) e body s = (fst (body s0), unlock c (snd (body s0)))"
  using acquire_free [OF assms]
  by (cases "acquire c s") (auto simp: with_lock_def split: prod.splits)

text \<open>Whatever the body returns or throws, the section leaves the lock as it found it.\<close>

lemma section_restores:
  assumes "\<And>s. c \<in> held s \<Longrightarrow> held (snd (body s)) = held s"
  shows "held (snd (with_lock (acquire c) (unlock c) e body s)) = held s"
proof (cases "c \<in> held s")
  case True
  then show ?thesis by (simp add: section_busy)
next
  case False
  then obtain s0 where "held s0 = insert c (held s)"
      "with_lock (acquire c) (unlock c) e body s = (fst (body s0), unlock c (snd (body s0)))"
    by (rule section_runs)
  then show ?thesis using False assms [of s0] by (auto simp: unlock_held)
qed

end

end
