(* ===== verification/Wallet.thy ===== *)
theory Wallet
  imports StateMachine Lock
begin

text \<open>
  \<open>actor/src/wallet/nonce-coordinator.ts\<close>, \<open>actor/src/wallet/wallet-manager.ts\<close> and
  \<open>actor/src/jobs/destination-submitter.ts\<close>: the per-chain nonce streams under concurrency, the
  wallet's busy lock and key choice, and the submitter the job machine is given.

  One chain's stream is a queue of calls of which one runs at a time: the promise chain of the
  source. What can happen to it is an event; \<open>nonce_event\<close> lists them: a call of \<open>withNonce\<close>, the
  start of the next queued call, the answer to its seed query, the outcome of its broadcast, and
  a call of \<open>reset\<close>, which may come at any moment.
\<close>

section \<open>The nonce coordinator\<close>

datatype running_call = Seeding nat | Sending nat int

record stream =
  next_nonce :: "int option"
  waiting :: "nat list"
  running :: "running_call option"
  sent_calls :: "(nat \<times> int) list"

definition new_stream :: stream where
  "new_stream = \<lparr>next_nonce = None, waiting = [], running = None, sent_calls = []\<rparr>"

datatype nonce_event =
    Call nat              \<comment> \<open>\<open>withNonce\<close> is called, by caller \<open>n\<close>\<close>
  | Begin                 \<comment> \<open>the head of the queue starts\<close>
  | Seeded int
  | SeedFailed
  | Sent                  \<comment> \<open>\<open>fn(nonce)\<close> resolved\<close>
  | SendFailed            \<comment> \<open>\<open>fn(nonce)\<close> rejected\<close>
  | Reset

fun nonce_step :: "nonce_event \<Rightarrow> stream \<Rightarrow> stream option" where
  "nonce_step (Call c) s = Some (s\<lparr>waiting := waiting s @ [c]\<rparr>)"
| "nonce_step Begin s =
     (case (running s, waiting s) of
        (None, c # cs) \<Rightarrow> Some (s\<lparr>waiting := cs, running := Some
           (case next_nonce s of None \<Rightarrow> Seeding c | Some n \<Rightarrow> Sending c n)\<rparr>)
      | _ \<Rightarrow> None)"
| "nonce_step (Seeded n) s =
     (case running s of
        Some (Seeding c) \<Rightarrow> Some (s\<lparr>next_nonce := Some n, running := Some (Sending c n)\<rparr>)
      | _ \<Rightarrow> None)"
| "nonce_step SeedFailed s =
     (case running s of Some (Seeding c) \<Rightarrow> Some (s\<lparr>running := None\<rparr>) | _ \<Rightarrow> None)"
| "nonce_step Sent s =
     (case running s of
        Some (Sending c n) \<Rightarrow> Some (s\<lparr>next_nonce := Some (n + 1), running := None,
           sent_calls := sent_calls s @ [(c, n)]\<rparr>)
      | _ \<Rightarrow> None)"
| "nonce_step SendFailed s =
     (case running s of Some (Sending c n) \<Rightarrow> Some (s\<lparr>running := None\<rparr>) | _ \<Rightarrow> None)"
| "nonce_step Reset s = Some (s\<lparr>next_nonce := None\<rparr>)"

fun nonce_run :: "nonce_event list \<Rightarrow> stream \<Rightarrow> stream option" where
  "nonce_run [] s = Some s"
| "nonce_run (e # es) s = (case nonce_step e s of None \<Rightarrow> None | Some s' \<Rightarrow> nonce_run es s')"

lemma nonce_run_append:
  "nonce_run (es @ fs) s = (case nonce_run es s of None \<Rightarrow> None | Some s' \<Rightarrow> nonce_run fs s')"
  by (induction es arbitrary: s) (simp_all split: option.splits)

text \<open>The nonces of the successful broadcasts, and the calls in the order they were made.\<close>

definition used :: "stream \<Rightarrow> int list" where
  "used s = map snd (sent_calls s)"

lemma used_simps [simp]:
  "used (s\<lparr>waiting := q\<rparr>) = used s" "used (s\<lparr>running := r\<rparr>) = used s"
  "used (s\<lparr>next_nonce := n\<rparr>) = used s" "used (s\<lparr>sent_calls := xs\<rparr>) = map snd xs"
  by (simp_all add: used_def)

section \<open>Nonces do not collide\<close>

text \<open>A seed is fresh when it lies above every nonce already broadcast, as the pending transaction
  count of the account does.\<close>

definition seed_fresh :: "nonce_event \<Rightarrow> stream \<Rightarrow> bool" where
  "seed_fresh e s = (case e of Seeded n \<Rightarrow> (\<forall>m \<in> set (used s). m < n) | _ \<Rightarrow> True)"

fun fresh_run :: "nonce_event list \<Rightarrow> stream \<Rightarrow> bool" where
  "fresh_run [] s = True"
| "fresh_run (e # es) s =
     (seed_fresh e s \<and> (case nonce_step e s of None \<Rightarrow> True | Some s' \<Rightarrow> fresh_run es s'))"

definition stream_ok :: "stream \<Rightarrow> bool" where
  "stream_ok s \<longleftrightarrow> sorted_wrt (<) (used s)
     \<and> (\<forall>n. next_nonce s = Some n \<longrightarrow> (\<forall>m \<in> set (used s). m < n))
     \<and> (\<forall>c n. running s = Some (Sending c n) \<longrightarrow> (\<forall>m \<in> set (used s). m < n))"

lemma stream_ok_new: "stream_ok new_stream"
  by (simp add: stream_ok_def new_stream_def used_def)

lemma stream_ok_step:
  assumes "stream_ok s" and "nonce_step e s = Some s'" and "seed_fresh e s"
  shows "stream_ok s'"
proof (cases e)
  case Sent
  then obtain c n where c: "running s = Some (Sending c n)"
    "s' = s\<lparr>next_nonce := Some (n + 1), running := None, sent_calls := sent_calls s @ [(c, n)]\<rparr>"
    using assms(2) by (auto split: option.splits running_call.splits)
  then have below: "\<forall>m \<in> set (used s). m < n" and srt: "sorted_wrt (<) (used s)"
    using assms(1) by (auto simp: stream_ok_def)
  have "used s' = used s @ [n]" using c by (simp add: used_def)
  then show ?thesis using below srt c by (auto simp: stream_ok_def sorted_wrt_append)
next
  case Begin
  then obtain c cs where "s' = s\<lparr>waiting := cs, running := Some
      (case next_nonce s of None \<Rightarrow> Seeding c | Some n \<Rightarrow> Sending c n)\<rparr>"
    using assms(2) by (auto split: option.splits list.splits)
  then show ?thesis using assms(1) by (auto simp: stream_ok_def used_def split: option.splits)
next
  case (Seeded n)
  then obtain c where c: "s' = s\<lparr>next_nonce := Some n, running := Some (Sending c n)\<rparr>"
    using assms(2) by (auto split: option.splits running_call.splits)
  then have "used s' = used s" by (simp add: used_def)
  then show ?thesis using assms c Seeded by (simp add: stream_ok_def seed_fresh_def)
qed (use assms in \<open>auto simp: stream_ok_def split: option.splits running_call.splits\<close>)

lemma stream_ok_run:
  "stream_ok s \<Longrightarrow> nonce_run es s = Some s' \<Longrightarrow> fresh_run es s \<Longrightarrow> stream_ok s'"
proof (induction es arbitrary: s)
  case Nil
  then show ?case by simp
next
  case (Cons e es)
  then obtain s1 where s1: "nonce_step e s = Some s1" "nonce_run es s1 = Some s'"
    by (auto split: option.splits)
  then show ?case using Cons stream_ok_step by auto
qed

text \<open>Without a reset the successful broadcasts use consecutive nonces.\<close>

definition consecutive_from :: "int \<Rightarrow> stream \<Rightarrow> bool" where
  "consecutive_from n0 s \<longleftrightarrow> (\<forall>i < length (used s). used s ! i = n0 + int i)
     \<and> (\<forall>n. next_nonce s = Some n \<longrightarrow> n = n0 + int (length (used s)))
     \<and> (\<forall>c n. running s = Some (Sending c n) \<longrightarrow> next_nonce s = Some n)
     \<and> (\<forall>c. running s = Some (Seeding c) \<longrightarrow> next_nonce s = None)
     \<and> (next_nonce s = None \<longrightarrow> used s = [])"

definition consecutive :: "stream \<Rightarrow> bool" where
  "consecutive s \<longleftrightarrow> (\<exists>n0. consecutive_from n0 s)"

lemma consecutive_step:
  assumes "consecutive_from n0 s" and "nonce_step e s = Some s'" and "e \<noteq> Reset"
  shows "consecutive s'"
proof (cases e)
  case (Seeded n)
  then obtain c where c: "running s = Some (Seeding c)"
    "s' = s\<lparr>next_nonce := Some n, running := Some (Sending c n)\<rparr>"
    using assms(2) by (auto split: option.splits running_call.splits)
  then have "used s' = []" using assms(1) by (simp add: consecutive_from_def used_def)
  then have "consecutive_from n s'" using c by (simp add: consecutive_from_def)
  then show ?thesis unfolding consecutive_def ..
next
  case Sent
  then obtain c n where c: "running s = Some (Sending c n)"
    "s' = s\<lparr>next_nonce := Some (n + 1), running := None, sent_calls := sent_calls s @ [(c, n)]\<rparr>"
    using assms(2) by (auto split: option.splits running_call.splits)
  then have n: "n = n0 + int (length (used s))" using assms(1) by (simp add: consecutive_from_def)
  have u: "used s' = used s @ [n]" using c by (simp add: used_def)
  have "(used s @ [n]) ! i = n0 + int i" if "i < length (used s @ [n])" for i
    using that assms(1) n
    by (cases "i < length (used s)") (auto simp: nth_append consecutive_from_def less_Suc_eq)
  then have "consecutive_from n0 s'" unfolding consecutive_from_def u using c n by simp
  then show ?thesis unfolding consecutive_def ..
next
  case Begin
  then obtain c cs where c: "running s = None"
    "s' = s\<lparr>waiting := cs, running := Some (case next_nonce s of None \<Rightarrow> Seeding c | Some n \<Rightarrow> Sending c n)\<rparr>"
    using assms(2) by (auto split: option.splits list.splits)
  have "used s' = used s" using c by (simp add: used_def)
  then have "consecutive_from n0 s'"
    using assms(1) c(2) by (cases "next_nonce s") (simp_all add: consecutive_from_def)
  then show ?thesis unfolding consecutive_def ..
next
  case (Call c)
  then have "consecutive_from n0 s'" using assms(1,2) by (auto simp: consecutive_from_def used_def)
  then show ?thesis unfolding consecutive_def ..
next
  case SeedFailed
  then have "s' = s\<lparr>running := None\<rparr>" using assms(2) by (auto split: option.splits running_call.splits)
  then have "consecutive_from n0 s'" using assms(1) by (simp add: consecutive_from_def used_def)
  then show ?thesis unfolding consecutive_def ..
next
  case SendFailed
  then have "s' = s\<lparr>running := None\<rparr>" using assms(2) by (auto split: option.splits running_call.splits)
  then have "consecutive_from n0 s'" using assms(1) by (simp add: consecutive_from_def used_def)
  then show ?thesis unfolding consecutive_def ..
next
  case Reset
  then show ?thesis using assms(3) by simp
qed

lemma consecutive_run:
  "consecutive s \<Longrightarrow> nonce_run es s = Some s' \<Longrightarrow> Reset \<notin> set es \<Longrightarrow> consecutive s'"
proof (induction es arbitrary: s)
  case Nil
  then show ?case by simp
next
  case (Cons e es)
  then obtain s1 where "nonce_step e s = Some s1" "nonce_run es s1 = Some s'"
    by (auto split: option.splits)
  then show ?case using Cons consecutive_step unfolding consecutive_def by (metis list.set_intros)
qed

lemma consecutive_new: "consecutive new_stream"
  by (simp add: consecutive_def consecutive_from_def new_stream_def used_def)

text \<open>C22: Concurrent submissions on a chain never collide. Whatever the order of calls, seed answers,
  broadcast outcomes and resets, as long as each seed lies above the nonces already broadcast,
  the successful broadcasts use strictly increasing nonces; and without a reset they use
  consecutive ones, so that no gap can hold up later transactions.\<close>

theorem nonces_never_collide:
  assumes "nonce_run es new_stream = Some s" and "fresh_run es new_stream"
  shows "sorted_wrt (<) (used s)
    \<and> (Reset \<notin> set es \<longrightarrow> (\<exists>n0. \<forall>i < length (used s). used s ! i = n0 + int i))"
  using stream_ok_run [OF stream_ok_new assms] consecutive_run [OF consecutive_new assms(1)]
  by (auto simp: stream_ok_def consecutive_def consecutive_from_def)

theorem nonces_never_collide_witness:
  "\<exists>s. nonce_run [Call 1, Call 2, Begin, Seeded 7, SendFailed, Begin, Sent, Call 3, Reset, Begin, Seeded 8, Sent]
       new_stream = Some s \<and> used s = [7, 8] \<and> sorted_wrt (<) (used s)"
proof -
  let ?es = "[Call 1, Call 2, Begin, Seeded 7, SendFailed, Begin, Sent, Call 3, Reset, Begin, Seeded 8, Sent]"
  obtain s where run: "nonce_run ?es new_stream = Some s" and u: "used s = [7, 8]"
    by (simp add: new_stream_def used_def)
  have "fresh_run ?es new_stream"
    by (simp add: new_stream_def used_def seed_fresh_def)
  from nonces_never_collide [OF run this] run u show ?thesis by blast
qed

text \<open>A failed broadcast frees its nonce: the next call in the queue, of whatever caller, sends
  with the nonce that failed, without a new seed.\<close>

theorem failed_nonce_is_reused:
  assumes "running s = Some (Sending c n)" and "next_nonce s = Some n" and "waiting s = c' # cs"
  shows "\<exists>s'. nonce_run [SendFailed, Begin] s = Some s' \<and> running s' = Some (Sending c' n)
    \<and> sent_calls s' = sent_calls s"
  using assms by simp

theorem failed_nonce_is_reused_witness:
  "\<exists>s'. nonce_run [SendFailed, Begin]
      \<lparr>next_nonce = Some 4, waiting = [9], running = Some (Sending 8 4), sent_calls = []\<rparr> = Some s'
    \<and> running s' = Some (Sending 9 4)"
  using failed_nonce_is_reused [of "\<lparr>next_nonce = Some 4, waiting = [9], running = Some (Sending 8 4),
      sent_calls = []\<rparr>" 8 4 9 "[]"] by auto

text \<open>A reset that arrives while a broadcast is in flight is lost. When the broadcast succeeds the
  stream is the one it would be without the reset: the next call does not seed again but uses
  the successor of the nonce in flight, whatever transaction the reset was meant to recover from.\<close>

theorem reset_in_flight_is_lost:
  assumes "running s = Some (Sending c n)"
  shows "nonce_run [Reset, Sent] s = nonce_run [Sent] s
    \<and> (\<exists>s'. nonce_run [Reset, Sent] s = Some s' \<and> next_nonce s' = Some (n + 1))"
  using assms by simp

theorem reset_in_flight_is_lost_witness:
  "\<exists>s'. nonce_run [Call 1, Begin, Seeded 5, Reset, Sent] new_stream = Some s' \<and> next_nonce s' = Some 6"
proof -
  let ?s = "\<lparr>next_nonce = Some 5, waiting = [], running = Some (Sending 1 5), sent_calls = []\<rparr>"
  have "nonce_run [Call 1, Begin, Seeded 5] new_stream = Some ?s" by (simp add: new_stream_def)
  then have "nonce_run ([Call 1, Begin, Seeded 5] @ [Reset, Sent]) new_stream = nonce_run [Reset, Sent] ?s"
    by (simp only: nonce_run_append option.case)
  then show ?thesis using reset_in_flight_is_lost [of ?s 1 5] by simp
qed


section \<open>The wallet\<close>

text \<open>A call of \<open>withNonce\<close> that nobody contends with, on the wallet's own state: the next nonce of
  each chain, the busy set, and the rest of the world.\<close>

record 'w wallet_world =
  nonces :: "int \<Rightarrow> int option"
  busy :: "int set"
  net :: 'w

record 'w chain_rpc =
  configured :: "int \<Rightarrow> bool"
  rpc_transactionCount :: "int \<Rightarrow> 'w \<Rightarrow> (exn + int) \<times> 'w"
  rpc_estimateGas :: "int \<Rightarrow> string \<Rightarrow> string \<Rightarrow> 'w \<Rightarrow> (exn + int) \<times> 'w"
  rpc_sendTransaction :: "int \<Rightarrow> string \<Rightarrow> string \<Rightarrow> int option \<Rightarrow> int \<Rightarrow> 'w \<Rightarrow> (exn + string) \<times> 'w"
  rpc_receipt :: "int \<Rightarrow> string \<Rightarrow> 'w \<Rightarrow> (exn + (int option \<times> int) option) \<times> 'w"
  rpc_hasTransaction :: "int \<Rightarrow> string \<Rightarrow> 'w \<Rightarrow> (exn + bool) \<times> 'w"

definition lift_net :: "('w \<Rightarrow> 'a \<times> 'w) \<Rightarrow> 'w wallet_world \<Rightarrow> 'a \<times> 'w wallet_world" where
  "lift_net f W = (case f (net W) of (r, w) \<Rightarrow> (r, W\<lparr>net := w\<rparr>))"

definition withNonce ::
    "'w chain_rpc \<Rightarrow> int \<Rightarrow> (int \<Rightarrow> ('w wallet_world, string) act) \<Rightarrow> ('w wallet_world, string) act" where
  "withNonce R chainId fn W =
     (case (case nonces W chainId of
              Some n \<Rightarrow> (Inr n, W)
            | None \<Rightarrow>
                (case lift_net (rpc_transactionCount R chainId) W of
                   (Inl e, W) \<Rightarrow> (Inl e, W)
                 | (Inr n, W) \<Rightarrow> (Inr n, W\<lparr>nonces := (nonces W)(chainId := Some n)\<rparr>))) of
        (Inl e, W) \<Rightarrow> (Inl e, W)
      | (Inr n, W) \<Rightarrow>
          (case fn n W of
             (Inl e, W) \<Rightarrow> (Inl e, W)
           | (Inr result, W) \<Rightarrow> (Inr result, W\<lparr>nonces := (nonces W)(chainId := Some (n + 1))\<rparr>)))"

definition resetStream :: "int \<Rightarrow> 'w wallet_world \<Rightarrow> 'w wallet_world" where
  "resetStream chainId W = W\<lparr>nonces := (nonces W)(chainId := None)\<rparr>"

definition wallet_submit ::
    "'w chain_rpc \<Rightarrow> int \<Rightarrow> string \<Rightarrow> string \<Rightarrow> int option \<Rightarrow> ('w wallet_world, string) act" where
  "wallet_submit R chainId to data gasLimit W =
     (if \<not> configured R chainId then (Inl (''no signer configured for chain '' @ show_int chainId), W)
      else withNonce R chainId
        (\<lambda>nonce. lift_net (rpc_sendTransaction R chainId to data gasLimit nonce)) W)"

definition tryAcquire :: "int \<Rightarrow> 'w wallet_world \<Rightarrow> bool \<times> 'w wallet_world" where
  "tryAcquire chainId W =
     (if chainId \<in> busy W then (False, W) else (True, W\<lparr>busy := insert chainId (busy W)\<rparr>))"

definition release :: "int \<Rightarrow> 'w wallet_world \<Rightarrow> 'w wallet_world" where
  "release chainId W = W\<lparr>busy := busy W - {chainId}\<rparr>"

interpretation wallet_lock: chain_lock tryAcquire release busy
  by unfold_locales (auto simp: tryAcquire_def release_def)

text \<open>The key: the relayer's own, else the deployer's, else on the local network a public one.
  \<open>None\<close> is an unset variable; the empty string is falsy.\<close>

definition LOCAL_DEPLOYER_KEY :: string where
  "LOCAL_DEPLOYER_KEY = ''0xac0974bec39a17e36ba4a6b4d238ff944bacb478cbed5efcae784d7bf4f2ff80''"

definition resolvePrivateKey :: "string option \<Rightarrow> string option \<Rightarrow> string \<Rightarrow> exn + string" where
  "resolvePrivateKey relayerKey deployerKey network =
     (case relayerKey of
        Some (c # cs) \<Rightarrow> Inr (c # cs)
      | _ \<Rightarrow>
         let fallback = (case deployerKey of
               Some k \<Rightarrow> Some k
             | None \<Rightarrow> if network = ''local'' then Some LOCAL_DEPLOYER_KEY else None)
         in case fallback of
              Some (c # cs) \<Rightarrow> Inr (c # cs)
            | _ \<Rightarrow> Inl ''RELAYER_PRIVATE_KEY is required (no deployer-key fallback available)'')"

section \<open>The destination submitter\<close>

record domain_target =
  dt_chainId :: int
  dt_hookRouter :: "string option"
  dt_messageTransmitter :: string

text \<open>The ABI encoders of the two calls are parameters.\<close>

record call_encoders =
  enc_relayWithHook :: "string \<Rightarrow> string \<Rightarrow> exn + string"
  enc_receiveMessage :: "string \<Rightarrow> string \<Rightarrow> exn + string"

definition chainOf :: "(int \<Rightarrow> domain_target option) \<Rightarrow> int \<Rightarrow> exn + domain_target" where
  "chainOf targets domain =
     (case targets domain of
        None \<Rightarrow> Inl (''no destination configured for CCTP domain '' @ show_int domain)
      | Some t \<Rightarrow> Inr t)"

definition ds_submit ::
    "'w chain_rpc \<Rightarrow> call_encoders \<Rightarrow> (int \<Rightarrow> domain_target option) \<Rightarrow> int \<Rightarrow> string \<Rightarrow> string
      \<Rightarrow> ('w wallet_world, string) act" where
  "ds_submit R enc targets domain msg att W =
     (case chainOf targets domain of
        Inl e \<Rightarrow> (Inl e, W)
      | Inr t \<Rightarrow>
         (case (if hook_set (dt_hookRouter t)
                then (the (dt_hookRouter t), enc_relayWithHook enc msg att)
                else (dt_messageTransmitter t, enc_receiveMessage enc msg att)) of
            (to, Inl e) \<Rightarrow> (Inl e, W)
          | (to, Inr data) \<Rightarrow> wallet_submit R (dt_chainId t) to data None W))"

definition ds_receipt ::
    "'w chain_rpc \<Rightarrow> (int \<Rightarrow> domain_target option) \<Rightarrow> int \<Rightarrow> string
      \<Rightarrow> ('w wallet_world, receipt_info option) act" where
  "ds_receipt R targets domain txHash W =
     (case chainOf targets domain of
        Inl e \<Rightarrow> (Inl e, W)
      | Inr t \<Rightarrow>
          if \<not> configured R (dt_chainId t) then (Inl (''no provider configured for chain '' @ show_int (dt_chainId t)), W)
          else (case lift_net (rpc_receipt R (dt_chainId t) txHash) W of
             (Inl e, W) \<Rightarrow> (Inl e, W)
           | (Inr None, W) \<Rightarrow> (Inr None, W)
           | (Inr (Some (status, block)), W) \<Rightarrow>
               (Inr (Some \<lparr>rc_status = (case status of None \<Rightarrow> 0 | Some x \<Rightarrow> x), rc_blockNumber = block\<rparr>), W)))"

definition ds_inMempool ::
    "'w chain_rpc \<Rightarrow> (int \<Rightarrow> domain_target option) \<Rightarrow> int \<Rightarrow> string \<Rightarrow> ('w wallet_world, bool) act" where
  "ds_inMempool R targets domain txHash W =
     (case chainOf targets domain of
        Inl e \<Rightarrow> (Inl e, W)
      | Inr t \<Rightarrow>
          if \<not> configured R (dt_chainId t) then (Inl (''no provider configured for chain '' @ show_int (dt_chainId t)), W)
          else lift_net (rpc_hasTransaction R (dt_chainId t) txHash) W)"

definition ds_resetNonce ::
    "(int \<Rightarrow> domain_target option) \<Rightarrow> int \<Rightarrow> ('w wallet_world, unit) act" where
  "ds_resetNonce targets domain W =
     (case chainOf targets domain of
        Inl e \<Rightarrow> (Inl e, W)
      | Inr t \<Rightarrow> (Inr (), resetStream (dt_chainId t) W))"

definition createDestinationSubmitter ::
    "'w chain_rpc \<Rightarrow> call_encoders \<Rightarrow> (int \<Rightarrow> domain_target option)
      \<Rightarrow> 'w wallet_world machine_deps \<Rightarrow> 'w wallet_world machine_deps" where
  "createDestinationSubmitter R enc targets d = d\<lparr>
     submitRelayWithHook := ds_submit R enc targets,
     getReceipt := ds_receipt R targets,
     isInMempool := ds_inMempool R targets,
     resetNonce := ds_resetNonce targets\<rparr>"

text \<open>An uncontended call is a run of the stream's events.\<close>

definition idle_stream :: "'w wallet_world \<Rightarrow> int \<Rightarrow> stream" where
  "idle_stream W chainId = \<lparr>next_nonce = nonces W chainId, waiting = [], running = None, sent_calls = []\<rparr>"

definition call_events :: "'w chain_rpc \<Rightarrow> int \<Rightarrow> (int \<Rightarrow> ('w wallet_world, string) act) \<Rightarrow> 'w wallet_world \<Rightarrow> nonce_event list" where
  "call_events R chainId fn W =
     [Call 0, Begin] @
     (let outcome = (\<lambda>n W. case fst (fn n W) of Inl _ \<Rightarrow> SendFailed | Inr _ \<Rightarrow> Sent)
      in case nonces W chainId of
           Some n \<Rightarrow> [outcome n W]
         | None \<Rightarrow>
             (case lift_net (rpc_transactionCount R chainId) W of
                (Inl _, _) \<Rightarrow> [SeedFailed]
              | (Inr n, W') \<Rightarrow>
                  [Seeded n, outcome n (W'\<lparr>nonces := (nonces W')(chainId := Some n)\<rparr>)]))"

text \<open>An uncontended call of \<open>withNonce\<close> implements the stream: it seeds when, and only when, no
  nonce is cached, hands the callback the cached or seeded nonce, and leaves in the cache what the
  corresponding events leave in the stream (the successor after a success, the same nonce after a
  failure), provided the callback itself leaves the cache alone; other chains are untouched.\<close>

theorem withNonce_refines_stream:
  assumes "\<And>n W. nonces (snd (fn n W)) = nonces W"
  shows "\<exists>s'. nonce_run (call_events R chainId fn W) (idle_stream W chainId) = Some s'
    \<and> next_nonce s' = nonces (snd (withNonce R chainId fn W)) chainId
    \<and> (used s' \<noteq> [] \<longleftrightarrow> (\<exists>h. fst (withNonce R chainId fn W) = Inr h))
    \<and> (\<forall>c. c \<noteq> chainId \<longrightarrow> nonces (snd (withNonce R chainId fn W)) c = nonces W c)"
proof -
  have keep: "nonces W' = nonces W" if "fn n W = (r, W')" for n W r W'
    using assms [of n W] that by simp
  show ?thesis
  proof (cases "nonces W chainId")
    case (Some n)
    obtain r2 W2 where sent: "fn n W = (r2, W2)" by fastforce
    show ?thesis
      using Some sent keep [OF sent]
      by (cases r2) (simp_all add: call_events_def idle_stream_def withNonce_def used_def)
  next
    case None
    obtain r w where seed: "rpc_transactionCount R chainId (net W) = (r, w)" by fastforce
    show ?thesis
    proof (cases r)
      case (Inl e)
      then show ?thesis using None seed
        by (simp add: call_events_def idle_stream_def withNonce_def used_def lift_net_def)
    next
      case (Inr n)
      let ?W = "W\<lparr>net := w, nonces := (nonces W)(chainId := Some n)\<rparr>"
      obtain r2 W2 where sent: "fn n ?W = (r2, W2)" by fastforce
      show ?thesis
        using None seed Inr sent keep [OF sent]
        by (cases r2) (simp_all add: call_events_def idle_stream_def withNonce_def used_def lift_net_def Let_def)
    qed
  qed
qed

definition demo_rpc :: "nat chain_rpc" where
  "demo_rpc = \<lparr>configured = (\<lambda>c. c = 1), rpc_transactionCount = (\<lambda>c w. (Inr 12, w)),
     rpc_estimateGas = (\<lambda>c to data w. (Inr 21000, w)),
     rpc_sendTransaction = (\<lambda>c to data g n w. (Inr ''0xcc'', Suc w)),
     rpc_receipt = (\<lambda>c h w. (Inr None, w)), rpc_hasTransaction = (\<lambda>c h w. (Inr True, w))\<rparr>"

definition demo_world :: "nat wallet_world" where
  "demo_world = \<lparr>nonces = (\<lambda>_. None), busy = {}, net = 0\<rparr>"

theorem withNonce_refines_stream_witness:
  "nonces (snd (withNonce demo_rpc 1 (\<lambda>n. lift_net (rpc_sendTransaction demo_rpc 1 ''0xaa'' ''0x'' None n)) demo_world)) 1
     = Some 13"
proof -
  let ?fn = "\<lambda>n. lift_net (rpc_sendTransaction demo_rpc 1 ''0xaa'' ''0x'' None n)"
  have "\<And>n W. nonces (snd (?fn n W)) = nonces W" by (simp add: lift_net_def demo_rpc_def)
  from withNonce_refines_stream [where fn = ?fn and R = demo_rpc and chainId = 1 and W = demo_world, OF this]
  obtain s' where "nonce_run (call_events demo_rpc 1 ?fn demo_world) (idle_stream demo_world 1) = Some s'"
    "next_nonce s' = nonces (snd (withNonce demo_rpc 1 ?fn demo_world)) 1"
    by blast
  then show ?thesis
    by (auto simp: call_events_def idle_stream_def lift_net_def demo_rpc_def demo_world_def)
qed

text \<open>The submitter addresses the configured contract. A successful submission to a destination
  cost exactly one broadcast on the target's chain, to the hook router with the hook-router call
  when one is configured and else to the message transmitter with the \<open>receiveMessage\<close> call, at the
  chain's cached nonce, and it advanced that nonce by one and nothing else.\<close>

theorem submitter_routes:
  assumes "targets domain = Some t" and "nonces W (dt_chainId t) = Some n"
    and "ds_submit R enc targets domain msg att W = (Inr hash, W')"
  shows "\<exists>to data w. (if hook_set (dt_hookRouter t)
        then dt_hookRouter t = Some to \<and> enc_relayWithHook enc msg att = Inr data
        else to = dt_messageTransmitter t \<and> enc_receiveMessage enc msg att = Inr data)
      \<and> rpc_sendTransaction R (dt_chainId t) to data None n (net W) = (Inr hash, w)
      \<and> W' = W\<lparr>net := w, nonces := (nonces W)(dt_chainId t := Some (n + 1))\<rparr>"
proof -
  obtain to enc_data where call: "(if hook_set (dt_hookRouter t)
      then (the (dt_hookRouter t), enc_relayWithHook enc msg att)
      else (dt_messageTransmitter t, enc_receiveMessage enc msg att)) = (to, enc_data)" by fastforce
  from assms call obtain data where data: "enc_data = Inr data"
    by (cases enc_data) (auto simp: ds_submit_def chainOf_def)
  obtain r w where sent: "rpc_sendTransaction R (dt_chainId t) to data None n (net W) = (r, w)" by fastforce
  from assms call data have run: "wallet_submit R (dt_chainId t) to data None W = (Inr hash, W')"
    by (simp add: ds_submit_def chainOf_def)
  then have "r = Inr hash \<and> W' = W\<lparr>net := w, nonces := (nonces W)(dt_chainId t := Some (n + 1))\<rparr>"
    using assms(2) sent
    by (cases r) (auto simp: wallet_submit_def withNonce_def lift_net_def split: if_splits)
  moreover have "if hook_set (dt_hookRouter t)
        then dt_hookRouter t = Some to \<and> enc_relayWithHook enc msg att = Inr data
        else to = dt_messageTransmitter t \<and> enc_receiveMessage enc msg att = Inr data"
    using call data by (auto simp: hook_set_def split: if_splits option.splits)
  ultimately show ?thesis using sent by blast
qed

definition demo_targets :: "int \<Rightarrow> domain_target option" where
  "demo_targets c = (if c = 3 then Some \<lparr>dt_chainId = 1, dt_hookRouter = Some ''0xdd'',
     dt_messageTransmitter = ''0xee''\<rparr> else None)"

definition demo_encoders :: call_encoders where
  "demo_encoders = \<lparr>enc_relayWithHook = (\<lambda>m a. Inr (''hook'' @ m)), enc_receiveMessage = (\<lambda>m a. Inr (''recv'' @ m))\<rparr>"

theorem submitter_routes_witness:
  "\<exists>W'. ds_submit demo_rpc demo_encoders demo_targets 3 ''0x01'' ''0x'' (demo_world\<lparr>nonces := (\<lambda>_. Some 4)\<rparr>)
      = (Inr ''0xcc'', W') \<and> nonces W' 1 = Some 5"
proof -
  let ?W = "demo_world\<lparr>nonces := (\<lambda>_. Some 4)\<rparr>"
  have t: "demo_targets 3 = Some \<lparr>dt_chainId = 1, dt_hookRouter = Some ''0xdd'', dt_messageTransmitter = ''0xee''\<rparr>"
    by (simp add: demo_targets_def)
  have run: "ds_submit demo_rpc demo_encoders demo_targets 3 ''0x01'' ''0x'' ?W
      = (Inr ''0xcc'', ?W\<lparr>net := 1, nonces := (nonces ?W)(1 := Some 5)\<rparr>)"
    by (simp add: ds_submit_def chainOf_def t demo_encoders_def hook_set_def wallet_submit_def withNonce_def
        lift_net_def demo_rpc_def demo_world_def)
  from submitter_routes [OF t _ run] show ?thesis using run by auto
qed

end
