(* ===== verification/Numbers.thy ===== *)
theory Numbers
  imports Complex_Main Prelude
begin

text \<open>
  JavaScript numbers and bigint division.

  A finite number is the rational it denotes. The arithmetic of numbers rounds to binary64:
  \<open>dbl\<close> is round-to-nearest, ties to even, on a 53-bit significand; exponents are unbounded, since
  nothing in the modelled code comes near the overflow or subnormal range. \<open>Math.round\<close>, the
  conversion \<open>BigInt(x)\<close>, which throws on a fraction, and the truncating division of bigints,
  which throws on zero, follow the language.
\<close>

fun bit_len :: "nat \<Rightarrow> nat" where
  "bit_len n = (if n = 0 then 0 else Suc (bit_len (n div 2)))"

declare bit_len.simps [simp del]

definition dbl_exp :: "rat \<Rightarrow> int" where
  "dbl_exp x =
     (case quotient_of \<bar>x\<bar> of (p, q) \<Rightarrow>
        let k = int (bit_len (nat p)) - int (bit_len (nat q)) - 53
        in if \<bar>x\<bar> \<ge> 2 powi (53 + k) then k + 1 else k)"

definition round_half_even :: "rat \<Rightarrow> int" where
  "round_half_even y =
     (let f = \<lfloor>y\<rfloor>; r = y - of_int f
      in if r < 1 / 2 then f else if 1 / 2 < r then f + 1 else if even f then f else f + 1)"

definition dbl :: "rat \<Rightarrow> rat" where
  "dbl x = (if x = 0 then 0
     else of_int (round_half_even (x / 2 powi dbl_exp x)) * 2 powi dbl_exp x)"

definition math_round :: "rat \<Rightarrow> int" where
  "math_round x = \<lfloor>x + 1 / 2\<rfloor>"

definition toBigInt :: "rat \<Rightarrow> exn + int" where
  "toBigInt x = (if of_int \<lfloor>x\<rfloor> = x then Inr \<lfloor>x\<rfloor>
     else Inl ''The number cannot be converted to a BigInt because it is not an integer'')"

definition bigint_div :: "int \<Rightarrow> int \<Rightarrow> exn + int" where
  "bigint_div a b = (if b = 0 then Inl ''Division by zero''
     else Inr (sgn a * sgn b * (\<bar>a\<bar> div \<bar>b\<bar>)))"

section \<open>Integers are exact\<close>

lemma bit_len_bounds: "0 < n \<Longrightarrow> 2 ^ (bit_len n - 1) \<le> n \<and> n < 2 ^ bit_len n \<and> 0 < bit_len n"
proof (induction n rule: bit_len.induct)
  case (1 n)
  show ?case
  proof (cases "n div 2 = 0")
    case True
    with 1 have "n = 1" by linarith
    then show ?thesis by (simp add: bit_len.simps [of "Suc 0"] bit_len.simps [of 0])
  next
    case False
    with 1 have IH: "2 ^ (bit_len (n div 2) - 1) \<le> n div 2" "n div 2 < 2 ^ bit_len (n div 2)"
        "0 < bit_len (n div 2)" by simp_all
    have e: "bit_len n = Suc (bit_len (n div 2))" using 1 by (simp add: bit_len.simps [of n])
    obtain m where m: "bit_len (n div 2) = Suc m" using IH(3) gr0_conv_Suc by blast
    show ?thesis using IH(1,2) by (simp add: e m) linarith
  qed
qed

lemma powi_mono: "(m :: int) \<le> n \<Longrightarrow> (2 :: rat) powi m \<le> 2 powi n"
  by (rule power_int_increasing) simp_all

text \<open>The chosen exponent leaves a significand of at least 53 bits.\<close>

lemma dbl_exp_lower:
  assumes "0 < x" shows "2 powi (52 + dbl_exp x) \<le> x"
proof -
  obtain p q where pq: "quotient_of x = (p, q)" by fastforce
  have q: "0 < q" and xq: "x = of_int p / of_int q"
    using quotient_of_denom_pos [OF pq] quotient_of_div [OF pq] by simp_all
  have p: "0 < p" using assms q by (simp add: xq zero_less_divide_iff)
  let ?P = "bit_len (nat p)" and ?Q = "bit_len (nat q)"
  define k where "k = int ?P - int ?Q - 53"
  have P: "2 ^ (?P - 1) \<le> nat p" "0 < ?P" and Q: "nat q < 2 ^ ?Q"
    using bit_len_bounds [of "nat p"] bit_len_bounds [of "nat q"] p q by simp_all
  have "of_nat (2 ^ (?P - 1)) \<le> (of_nat (nat p) :: rat)" using P(1) by (simp only: of_nat_le_iff)
  then have P': "(2 :: rat) ^ (?P - 1) \<le> of_int p" using p by (simp add: of_nat_nat)
  have "of_nat (nat q) \<le> (of_nat (2 ^ ?Q) :: rat)" using Q by (simp only: of_nat_le_iff less_imp_le)
  then have Q': "of_int q \<le> (2 :: rat) ^ ?Q" using q by (simp add: of_nat_nat)
  have "(2 :: rat) powi (52 + k) = 2 powi (int (?P - 1)) / 2 powi int ?Q"
    using P(2) by (subst power_int_diff [symmetric]) (simp_all add: k_def of_nat_diff algebra_simps)
  also have "\<dots> = 2 ^ (?P - 1) / 2 ^ ?Q" by (simp add: power_int_of_nat)
  also have "\<dots> \<le> of_int p / of_int q"
    using P' Q' p q by (intro frac_le) simp_all
  finally have low: "(2 :: rat) powi (52 + k) \<le> x" by (simp add: xq)
  have "dbl_exp x = (if 2 powi (53 + k) \<le> x then k + 1 else k)"
    using assms pq by (simp add: dbl_exp_def k_def Let_def)
  then show ?thesis using low by (simp split: if_splits add: algebra_simps)
qed

lemma dbl_exp_le_0:
  assumes "0 < x" and "x < 2 ^ 53" shows "dbl_exp x \<le> 0"
proof (rule ccontr)
  assume "\<not> dbl_exp x \<le> 0"
  then have "(2 :: rat) powi 53 \<le> 2 powi (52 + dbl_exp x)" by (intro powi_mono) simp
  with dbl_exp_lower [OF assms(1)] have "2 powi 53 \<le> x" by linarith
  with assms(2) show False by (simp add: power_int_def)
qed

lemma round_int [simp]: "round_half_even (of_int n) = n"
  by (simp add: round_half_even_def)

lemma round_le: "y \<le> of_int n \<Longrightarrow> round_half_even y \<le> n"
proof -
  assume le: "y \<le> of_int n"
  have f: "of_int \<lfloor>y\<rfloor> \<le> y" by simp
  show "round_half_even y \<le> n"
  proof (cases "\<lfloor>y\<rfloor> = n")
    case True
    then show ?thesis using le f by (simp add: round_half_even_def Let_def)
  next
    case False
    have "\<lfloor>y\<rfloor> \<le> n" using le f by (metis floor_mono floor_of_int)
    with False show ?thesis by (simp add: round_half_even_def Let_def)
  qed
qed

lemma round_ge: "of_int n \<le> y \<Longrightarrow> n \<le> round_half_even y"
proof -
  assume "of_int n \<le> y"
  then have "n \<le> \<lfloor>y\<rfloor>" by (simp add: le_floor_iff)
  then show ?thesis by (simp add: round_half_even_def Let_def)
qed

text \<open>Below \<open>2\<^sup>53\<close> integers are multiples of the unit in the last place.\<close>

lemma int_scaled:
  assumes "e \<le> 0" shows "\<exists>m. (of_int n :: rat) / 2 powi e = of_int m"
proof -
  have "(of_int n :: rat) / 2 powi e = of_int (n * 2 ^ nat (- e))"
    using assms by (simp add: power_int_def field_simps power_inverse)
  then show ?thesis by blast
qed

lemma dbl_exp_minus: "dbl_exp (- x) = dbl_exp x"
  by (simp add: dbl_exp_def)

lemma dbl_int [simp]:
  assumes "\<bar>n\<bar> < 2 ^ 53" shows "dbl (of_int n) = of_int n"
proof (cases "n = 0")
  case True
  then show ?thesis by (simp add: dbl_def)
next
  case False
  have "(of_int \<bar>n\<bar> :: rat) < of_int (2 ^ 53)" using assms by (simp only: of_int_less_iff)
  then have "dbl_exp (of_int \<bar>n\<bar>) \<le> 0" using False by (intro dbl_exp_le_0) simp_all
  then have "dbl_exp (of_int n) \<le> 0"
    using dbl_exp_minus [of "of_int n"] by (cases "n < 0") simp_all
  then obtain m where m: "(of_int n :: rat) / 2 powi dbl_exp (of_int n) = of_int m"
    using int_scaled by blast
  have "dbl (of_int n) = of_int m * 2 powi dbl_exp (of_int n)"
    using False by (simp add: dbl_def m)
  also have "\<dots> = of_int n" by (simp add: m [symmetric])
  finally show ?thesis .
qed

lemma dbl_le_int:
  assumes "0 \<le> x" and "x \<le> of_int n" and "n < 2 ^ 53" shows "dbl x \<le> of_int n"
proof (cases "x = 0")
  case True
  then show ?thesis using assms by (simp add: dbl_def)
next
  case False
  have "(of_int n :: rat) < 2 ^ 53" using assms(3) by (metis of_int_less_iff of_int_numeral of_int_power)
  then have e: "dbl_exp x \<le> 0" using assms False by (intro dbl_exp_le_0) simp_all
  obtain m where m: "(of_int n :: rat) / 2 powi dbl_exp x = of_int m" using int_scaled [OF e] by blast
  have "x / 2 powi dbl_exp x \<le> of_int m"
    unfolding m [symmetric] using assms(2) by (intro divide_right_mono) simp_all
  then have "round_half_even (x / 2 powi dbl_exp x) \<le> m" by (rule round_le)
  then have "dbl x \<le> of_int m * 2 powi dbl_exp x"
    using False by (simp add: dbl_def mult_right_mono)
  also have "\<dots> = of_int n" by (simp add: m [symmetric])
  finally show ?thesis .
qed

lemma dbl_nonneg: "0 \<le> x \<Longrightarrow> 0 \<le> dbl x"
  by (auto simp: dbl_def intro!: mult_nonneg_nonneg round_ge [where n = 0, simplified])

lemma dbl_numeral [simp]: "(numeral k :: int) < 2 ^ 53 \<Longrightarrow> dbl (numeral k) = numeral k"
  using dbl_int [of "numeral k"] by simp

lemma dbl_0 [simp]: "dbl 0 = 0"
  by (simp add: dbl_def)

section \<open>Conversions\<close>

lemma toBigInt_int [simp]: "toBigInt (of_int n) = Inr n"
  by (simp add: toBigInt_def)

lemma toBigInt_numeral [simp]: "toBigInt (numeral k) = Inr (numeral k)" "toBigInt 0 = Inr 0"
  using toBigInt_int [of "numeral k"] toBigInt_int [of 0] by simp_all

lemma math_round_int [simp]: "math_round (of_int n) = n"
  by (simp add: math_round_def floor_eq_iff)

lemma bigint_div_nat [simp]: "0 \<le> a \<Longrightarrow> 0 < b \<Longrightarrow> bigint_div a b = Inr (a div b)"
  by (auto simp: bigint_div_def sgn_if)

section \<open>Rounding error and monotonicity\<close>

lemma dbl_exp_upper:
  assumes "0 < x" shows "x < 2 powi (53 + dbl_exp x)"
proof -
  obtain p q where pq: "quotient_of x = (p, q)" by fastforce
  have q: "0 < q" and xq: "x = of_int p / of_int q"
    using quotient_of_denom_pos [OF pq] quotient_of_div [OF pq] by simp_all
  have p: "0 < p" using assms q by (simp add: xq zero_less_divide_iff)
  let ?P = "bit_len (nat p)" and ?Q = "bit_len (nat q)"
  define k where "k = int ?P - int ?Q - 53"
  have P: "nat p < 2 ^ ?P" and Q: "2 ^ (?Q - 1) \<le> nat q" "0 < ?Q"
    using bit_len_bounds [of "nat p"] bit_len_bounds [of "nat q"] p q by simp_all
  have "of_nat (nat p) < (of_nat (2 ^ ?P) :: rat)" using P by (simp only: of_nat_less_iff)
  then have P': "of_int p < (2 :: rat) ^ ?P" using p by (simp add: of_nat_nat)
  have "of_nat (2 ^ (?Q - 1)) \<le> (of_nat (nat q) :: rat)" using Q(1) by (simp only: of_nat_le_iff)
  then have Q': "(2 :: rat) ^ (?Q - 1) \<le> of_int q" using q by (simp add: of_nat_nat)
  have "of_int p / of_int q < (2 :: rat) ^ ?P / 2 ^ (?Q - 1)"
    using P' Q' p q by (intro frac_less) simp_all
  also have "\<dots> = 2 powi int ?P / 2 powi (int (?Q - 1))" by (simp add: power_int_of_nat)
  also have "\<dots> = 2 powi (54 + k)"
    using Q(2) by (subst power_int_diff [symmetric]) (simp_all add: k_def of_nat_diff algebra_simps)
  finally have up: "x < 2 powi (54 + k)" by (simp add: xq)
  have "dbl_exp x = (if 2 powi (53 + k) \<le> x then k + 1 else k)"
    using assms pq by (simp add: dbl_exp_def k_def Let_def)
  then show ?thesis using up by (simp split: if_splits add: algebra_simps)
qed

lemma dbl_exp_mono:
  assumes "0 < x" and "x \<le> y" shows "dbl_exp x \<le> dbl_exp y"
proof (rule ccontr)
  assume "\<not> dbl_exp x \<le> dbl_exp y"
  then have "(2 :: rat) powi (53 + dbl_exp y) \<le> 2 powi (52 + dbl_exp x)" by (intro powi_mono) simp
  with dbl_exp_lower [OF assms(1)] dbl_exp_upper [of y] assms show False by linarith
qed

lemma round_mono:
  assumes "y \<le> z" shows "round_half_even y \<le> round_half_even z"
proof (cases "\<lfloor>y\<rfloor> = \<lfloor>z\<rfloor>")
  case True
  with assms show ?thesis by (simp add: round_half_even_def Let_def)
next
  case False
  with assms have "\<lfloor>y\<rfloor> + 1 \<le> \<lfloor>z\<rfloor>" using floor_mono [of y z] by linarith
  moreover have "round_half_even y \<le> \<lfloor>y\<rfloor> + 1" and "\<lfloor>z\<rfloor> \<le> round_half_even z"
    by (simp_all add: round_half_even_def Let_def)
  ultimately show ?thesis by linarith
qed

lemma round_error: "\<bar>of_int (round_half_even y) - y\<bar> \<le> 1 / 2"
proof -
  obtain f r where fr: "y = of_int f + r" "0 \<le> r" "r < 1" "\<lfloor>y\<rfloor> = f"
  proof
    show "y = of_int \<lfloor>y\<rfloor> + (y - of_int \<lfloor>y\<rfloor>)" by simp
  qed (simp_all, linarith)
  then show ?thesis by (auto simp: round_half_even_def Let_def abs_le_iff)
qed

lemma dbl_mono:
  assumes "0 \<le> x" and "x \<le> y" shows "dbl x \<le> dbl y"
proof (cases "x = 0")
  case True
  then show ?thesis using assms by (simp add: dbl_nonneg)
next
  case False
  with assms have x: "0 < x" and y: "0 < y" by simp_all
  let ?e = "dbl_exp x" and ?f = "dbl_exp y"
  have dx: "dbl x = of_int (round_half_even (x / 2 powi ?e)) * 2 powi ?e"
    and dy: "dbl y = of_int (round_half_even (y / 2 powi ?f)) * 2 powi ?f"
    using x y by (simp_all add: dbl_def)
  show ?thesis
  proof (cases "?e = ?f")
    case True
    have "round_half_even (x / 2 powi ?f) \<le> round_half_even (y / 2 powi ?f)"
      using assms(2) by (intro round_mono divide_right_mono) simp_all
    then show ?thesis unfolding dx dy True by (intro mult_right_mono) simp_all
  next
    case False
    with dbl_exp_mono [OF x assms(2)] have lt: "?e + 1 \<le> ?f" by linarith
    have "x / 2 powi ?e \<le> of_int (2 ^ 53)"
      using dbl_exp_upper [OF x] by (simp add: field_simps power_int_add)
    then have "dbl x \<le> 2 ^ 53 * 2 powi ?e"
      unfolding dx using round_le [of "x / 2 powi ?e" "2 ^ 53"]
      by (intro mult_right_mono) (simp_all del: of_int_power flip: of_int_le_iff)
    also have "\<dots> = 2 powi (53 + ?e)" by (simp add: power_int_add)
    also have "\<dots> \<le> 2 powi (52 + ?f)" using lt by (intro powi_mono) simp
    also have "\<dots> = 2 ^ 52 * 2 powi ?f" by (simp add: power_int_add)
    also have "\<dots> \<le> dbl y"
    proof -
      have "of_int (2 ^ 52) \<le> y / 2 powi ?f"
        using dbl_exp_lower [OF y] by (simp add: field_simps power_int_add)
      from round_ge [OF this] show ?thesis
        unfolding dy by (intro mult_right_mono) (simp_all del: of_int_power flip: of_int_le_iff)
    qed
    finally show ?thesis .
  qed
qed

text \<open>The relative error of one rounding.\<close>

definition ulp_half :: rat where "ulp_half = 1 / 2 ^ 53"

lemma dbl_error:
  assumes "0 \<le> x" shows "\<bar>dbl x - x\<bar> \<le> x * ulp_half"
proof (cases "x = 0")
  case True
  then show ?thesis by simp
next
  case False
  with assms have x: "0 < x" by simp
  let ?e = "dbl_exp x"
  have "dbl x - x = (of_int (round_half_even (x / 2 powi ?e)) - x / 2 powi ?e) * 2 powi ?e"
    using x by (simp add: dbl_def algebra_simps)
  then have "\<bar>dbl x - x\<bar> = \<bar>of_int (round_half_even (x / 2 powi ?e)) - x / 2 powi ?e\<bar> * 2 powi ?e"
    by (simp add: abs_mult)
  also have "\<dots> \<le> 1 / 2 * 2 powi ?e" by (intro mult_right_mono round_error) simp
  also have "\<dots> \<le> x * ulp_half"
    using dbl_exp_lower [OF x] by (simp add: ulp_half_def field_simps power_int_add)
  finally show ?thesis .
qed

lemma dbl_le_rel: "0 \<le> x \<Longrightarrow> dbl x \<le> x * (1 + ulp_half)"
  and dbl_ge_rel: "0 \<le> x \<Longrightarrow> x * (1 - ulp_half) \<le> dbl x"
  using dbl_error [of x] by (simp_all add: algebra_simps abs_le_iff)

lemma dbl_pos_iff [simp]: "0 < dbl x \<longleftrightarrow> 0 < x"
proof
  assume "0 < x"
  then have "0 < x * (1 - ulp_half)" by (simp add: ulp_half_def)
  with dbl_ge_rel [of x] \<open>0 < x\<close> show "0 < dbl x" by linarith
next
  assume pos: "0 < dbl x"
  show "0 < x"
  proof (rule ccontr)
    assume "\<not> 0 < x"
    then have "round_half_even (x / 2 powi dbl_exp x) \<le> 0"
      by (intro round_le) (simp add: divide_nonpos_pos)
    then have "dbl x \<le> 0" by (simp add: dbl_def mult_nonpos_nonneg)
    with pos show False by simp
  qed
qed

lemma dbl_exp_unique:
  assumes "0 < x" and "2 powi (52 + e) \<le> x" and "x < 2 powi (53 + e)" shows "dbl_exp x = e"
proof (rule ccontr)
  assume "dbl_exp x \<noteq> e"
  then consider "53 + e \<le> 52 + dbl_exp x" | "53 + dbl_exp x \<le> 52 + e" by linarith
  then show False
    using powi_mono [of "53 + e" "52 + dbl_exp x"] powi_mono [of "53 + dbl_exp x" "52 + e"]
      dbl_exp_lower [OF assms(1)] dbl_exp_upper [OF assms(1)] assms(2,3)
    by cases linarith+
qed

end
