(* ===== verification/Fees.thy ===== *)
theory Fees
  imports Numbers
begin

text \<open>
  The ETH/USD price source (\<open>relay/price-source.ts\<close>) and the fee schedules
  (\<open>relay/fee-calculator.ts\<close>).

  Prices and configured numbers are rationals, computed with in binary64; fees and gas are
  bigints. The Chainlink reader, the gas price query and the price source of the calculator are
  parameters that act on the world \<^typ>\<open>'w\<close>. A call of the calculator takes the clock reading it
  makes as an argument. \<open>getSchedule\<close> is given in the two pieces that its awaits leave atomic,
  and composed for a call that is not interleaved with another.
\<close>

section \<open>Price source\<close>

record price_reading =
  rd_price :: rat
  rd_degraded :: bool

definition static_current :: "rat \<Rightarrow> price_reading" where
  "static_current staticPrice = \<lparr>rd_price = staticPrice, rd_degraded = False\<rparr>"

record 'w aggregator =
  ag_decimals :: "'w \<Rightarrow> (exn + nat) \<times> 'w"
  ag_latestRoundData :: "'w \<Rightarrow> (exn + int \<times> int) \<times> 'w"

record price_opts =
  maxStalenessMs :: rat
  po_min :: rat
  po_max :: rat
  staticFallback :: rat

record price_state =
  feedDecimals :: "nat option"
  lastGood :: "rat option"
  degraded :: bool

definition new_price_state :: price_state where
  "new_price_state = \<lparr>feedDecimals = None, lastGood = None, degraded = True\<rparr>"

definition price_current :: "price_opts \<Rightarrow> price_state \<Rightarrow> price_reading" where
  "price_current opts ps =
     (case lastGood ps of
        Some p \<Rightarrow> \<lparr>rd_price = p, rd_degraded = degraded ps\<rparr>
      | None \<Rightarrow> \<lparr>rd_price = staticFallback opts, rd_degraded = True\<rparr>)"

text \<open>The body of the \<open>try\<close>: the accepted price, or the exception that was thrown; the decimals
  are kept once read, whatever follows.\<close>

definition read_decimals ::
    "'w aggregator \<Rightarrow> price_state \<times> 'w \<Rightarrow> (exn + nat) \<times> price_state \<times> 'w" where
  "read_decimals R s =
     (case s of (ps, w) \<Rightarrow>
      case feedDecimals ps of
        Some d \<Rightarrow> (Inr d, ps, w)
      | None \<Rightarrow>
          (case ag_decimals R w of
             (Inl e, w) \<Rightarrow> (Inl e, ps, w)
           | (Inr d, w) \<Rightarrow> (Inr d, ps\<lparr>feedDecimals := Some d\<rparr>, w)))"

definition check_reading :: "price_opts \<Rightarrow> int \<Rightarrow> nat \<Rightarrow> int \<times> int \<Rightarrow> exn + rat" where
  "check_reading opts now d r =
     (case r of (answer, updatedAt) \<Rightarrow>
      let ageMs = dbl (of_int now - dbl (dbl (of_int updatedAt) * 1000));
          price = dbl (dbl (of_int answer) / dbl (10 ^ d))
      in if maxStalenessMs opts < ageMs then Inl ''stale reading''
         else if \<not> (po_min opts \<le> price \<and> price \<le> po_max opts) then Inl ''reading outside sanity clamp''
         else Inr price)"

definition read_feed ::
    "'w aggregator \<Rightarrow> price_opts \<Rightarrow> int \<Rightarrow> price_state \<times> 'w \<Rightarrow> (exn + rat) \<times> price_state \<times> 'w" where
  "read_feed R opts now s =
     (case read_decimals R s of
        (Inl e, s) \<Rightarrow> (Inl e, s)
      | (Inr d, ps, w) \<Rightarrow>
          (case ag_latestRoundData R w of
             (Inl e, w) \<Rightarrow> (Inl e, ps, w)
           | (Inr r, w) \<Rightarrow> (check_reading opts now d r, ps, w)))"

definition price_refresh ::
    "'w aggregator \<Rightarrow> price_opts \<Rightarrow> int \<Rightarrow> price_state \<times> 'w \<Rightarrow> price_reading \<times> price_state \<times> 'w" where
  "price_refresh R opts now s =
     (case read_feed R opts now s of
        (Inr price, ps, w) \<Rightarrow>
          let ps = ps\<lparr>lastGood := Some price, degraded := False\<rparr> in (price_current opts ps, ps, w)
      | (Inl e, ps, w) \<Rightarrow>
          let ps = ps\<lparr>degraded := True\<rparr> in (price_current opts ps, ps, w))"

section \<open>Fee formula\<close>

datatype fee_key =
    Transfer | Unshield | CrossContract | CrossChainShield | CrossChainUnshield | Shield | ShieldXchain

definition GAS_ESTIMATES :: "(fee_key \<times> int) list" where
  "GAS_ESTIMATES =
     [(Transfer, 500000), (Unshield, 500000), (CrossChainShield, 500000), (CrossChainUnshield, 500000),
      (CrossContract, 2000000), (Shield, 300000), (ShieldXchain, 400000)]"

definition FEE_FLOOR_USDC_RAW :: int where "FEE_FLOOR_USDC_RAW = 10000"
definition ONE_GWEI :: int where "ONE_GWEI = 1000000000"
definition USDC_UNIT :: int where "USDC_UNIT = 1000000"
definition PRICE_SCALE :: int where "PRICE_SCALE = 1000000"

definition computeFeeUsdcRaw :: "int \<Rightarrow> int \<Rightarrow> rat \<Rightarrow> rat \<Rightarrow> exn + int" where
  "computeFeeUsdcRaw gasEstimate gasPriceWei ethUsdPrice profitMarginBps =
     (let gasCostWei = gasEstimate * gasPriceWei;
          priceScaled = math_round (dbl (ethUsdPrice * of_int PRICE_SCALE))
      in case bigint_div (gasCostWei * priceScaled * USDC_UNIT) (10 ^ 18 * PRICE_SCALE) of
           Inl e \<Rightarrow> Inl e
         | Inr gasCostUsdc \<Rightarrow>
             (case toBigInt profitMarginBps of
                Inl e \<Rightarrow> Inl e
              | Inr m \<Rightarrow>
                  (case bigint_div (gasCostUsdc * (10000 + m)) 10000 of
                     Inl e \<Rightarrow> Inl e
                   | Inr fee \<Rightarrow> Inr (if FEE_FLOOR_USDC_RAW < fee then fee else FEE_FLOOR_USDC_RAW))))"

definition grossUpForShieldFee :: "int \<Rightarrow> rat \<Rightarrow> exn + int" where
  "grossUpForShieldFee net shieldFeeBps =
     (case toBigInt shieldFeeBps of
        Inl e \<Rightarrow> Inl e
      | Inr bps \<Rightarrow>
          if bps \<le> 0 then Inr net
          else let denom = 10000 - bps in bigint_div (net * 10000 + denom - 1) denom)"

definition SHIELD_FEE_TIERS :: "fee_key list" where
  "SHIELD_FEE_TIERS = [Shield, ShieldXchain]"

section \<open>Fee calculator\<close>

record fee_schedule =
  cacheId :: string
  expiresAt :: rat
  fs_chainId :: int
  fs_broadcaster :: string
  fees :: "(fee_key \<times> string) list"

record fee_options =
  feeTtlSeconds :: rat
  feeVarianceBufferBps :: rat
  profitMarginBps :: rat
  shieldFeeBps :: rat
  broadcasterRailgunAddress :: string

record chain_schedules =
  slot_current :: "fee_schedule option"
  slot_previous :: "fee_schedule option"

definition empty_slot :: chain_schedules where
  "empty_slot = \<lparr>slot_current = None, slot_previous = None\<rparr>"

record fee_state =
  fc_counter :: nat
  byChain :: "int \<Rightarrow> chain_schedules option"

definition new_fee_state :: fee_state where
  "new_fee_state = \<lparr>fc_counter = 0, byChain = (\<lambda>_. None)\<rparr>"

text \<open>The loop over the keys of \<open>GAS_ESTIMATES\<close>.\<close>

definition quote_key :: "fee_options \<Rightarrow> int \<Rightarrow> rat \<Rightarrow> fee_key \<times> int \<Rightarrow> exn + fee_key \<times> string" where
  "quote_key opts gasPrice price kg =
     (case kg of (key, gas) \<Rightarrow>
      case computeFeeUsdcRaw gas gasPrice price (profitMarginBps opts) of
        Inl e \<Rightarrow> Inl e
      | Inr net \<Rightarrow>
          (case (if key \<in> set SHIELD_FEE_TIERS then grossUpForShieldFee net (shieldFeeBps opts) else Inr net) of
             Inl e \<Rightarrow> Inl e
           | Inr quoted \<Rightarrow> Inr (key, show_int quoted)))"

fun quote_keys ::
    "fee_options \<Rightarrow> int \<Rightarrow> rat \<Rightarrow> (fee_key \<times> int) list \<Rightarrow> exn + (fee_key \<times> string) list" where
  "quote_keys opts gasPrice price [] = Inr []"
| "quote_keys opts gasPrice price (kg # kgs) =
     (case quote_key opts gasPrice price kg of
        Inl e \<Rightarrow> Inl e
      | Inr q \<Rightarrow>
          (case quote_keys opts gasPrice price kgs of
             Inl e \<Rightarrow> Inl e
           | Inr qs \<Rightarrow> Inr (q # qs)))"

definition cache_id :: "int \<Rightarrow> int \<Rightarrow> nat \<Rightarrow> string" where
  "cache_id chainId now counter =
     ''fee-'' @ show_int chainId @ ''-'' @ show_int now @ ''-'' @ show_nat counter"

text \<open>Before the first await: the slot is created, and a current schedule that has not expired is
  the answer.\<close>

definition slot_of :: "fee_state \<Rightarrow> int \<Rightarrow> chain_schedules" where
  "slot_of st chainId = (case byChain st chainId of Some slot \<Rightarrow> slot | None \<Rightarrow> empty_slot)"

definition schedule_begin :: "int \<Rightarrow> int \<Rightarrow> fee_state \<Rightarrow> fee_schedule option \<times> fee_state" where
  "schedule_begin now chainId st =
     (let slot = slot_of st chainId;
          st = st\<lparr>byChain := (byChain st)(chainId := Some slot)\<rparr>
      in case slot_current slot of
           Some s \<Rightarrow> (if of_int now < expiresAt s then Some s else None, st)
         | None \<Rightarrow> (None, st))"

text \<open>After the last: the schedule is built for the clock reading made at the start, and the slot,
  as it is by now, shifts by one.\<close>

definition schedule_finish ::
    "fee_options \<Rightarrow> int \<Rightarrow> int \<Rightarrow> int \<Rightarrow> rat \<Rightarrow> (fee_state, fee_schedule) act" where
  "schedule_finish opts now chainId gasPrice price st =
     (let counter = fc_counter st + 1;
          st = st\<lparr>fc_counter := counter\<rparr>
      in case quote_keys opts gasPrice price GAS_ESTIMATES of
           Inl e \<Rightarrow> (Inl e, st)
         | Inr qs \<Rightarrow>
             let schedule = \<lparr>
                   cacheId = cache_id chainId now counter,
                   expiresAt = dbl (of_int now + dbl (feeTtlSeconds opts * 1000)),
                   fs_chainId = chainId,
                   fs_broadcaster = broadcasterRailgunAddress opts,
                   fees = qs\<rparr>;
                 slot = \<lparr>slot_current = Some schedule, slot_previous = slot_current (slot_of st chainId)\<rparr>
             in (Inr schedule, st\<lparr>byChain := (byChain st)(chainId := Some slot)\<rparr>))"

record 'w fee_deps =
  fd_opts :: fee_options
  fd_refresh :: "'w \<Rightarrow> (exn + unit) \<times> 'w"
  fd_gasPriceWei :: "int \<Rightarrow> 'w \<Rightarrow> (exn + int) \<times> 'w"
  fd_price :: "'w \<Rightarrow> rat"

definition getSchedule ::
    "'w fee_deps \<Rightarrow> int \<Rightarrow> int \<Rightarrow> (fee_state \<times> 'w, fee_schedule) act" where
  "getSchedule D now chainId s =
     (case s of (st, w) \<Rightarrow>
      case schedule_begin now chainId st of
        (Some schedule, st) \<Rightarrow> (Inr schedule, st, w)
      | (None, st) \<Rightarrow>
          (case fd_refresh D w of
             (Inl e, w) \<Rightarrow> (Inl e, st, w)
           | (Inr _, w) \<Rightarrow>
               (case fd_gasPriceWei D chainId w of
                  (Inl e, w) \<Rightarrow> (Inl e, st, w)
                | (Inr gasPrice, w) \<Rightarrow>
                    (case schedule_finish (fd_opts D) now chainId gasPrice (fd_price D w) st of
                       (r, st) \<Rightarrow> (r, st, w)))))"

definition bufferMs :: "fee_options \<Rightarrow> rat" where
  "bufferMs opts = dbl (dbl (dbl (feeTtlSeconds opts * 1000) * feeVarianceBufferBps opts) / 10000)"

definition accepts :: "fee_options \<Rightarrow> int \<Rightarrow> string \<Rightarrow> fee_schedule option \<Rightarrow> bool" where
  "accepts opts now cid so =
     (case so of None \<Rightarrow> False
      | Some s \<Rightarrow> cacheId s = cid \<and> of_int now < dbl (expiresAt s + bufferMs opts))"

definition resolve :: "fee_options \<Rightarrow> int \<Rightarrow> int \<Rightarrow> string \<Rightarrow> fee_state \<Rightarrow> fee_schedule option" where
  "resolve opts now chainId cid st =
     (case byChain st chainId of
        None \<Rightarrow> None
      | Some slot \<Rightarrow>
          if accepts opts now cid (slot_current slot) then slot_current slot
          else if accepts opts now cid (slot_previous slot) then slot_previous slot
          else None)"

text \<open>The minimum of the quoted fees over the keys; a key the schedule lacks makes \<open>BigInt(undefined)\<close>
  throw.\<close>

fun min_fee :: "fee_schedule \<Rightarrow> int option \<Rightarrow> fee_key list \<Rightarrow> exn + int option" where
  "min_fee s m [] = Inr m"
| "min_fee s m (k # ks) =
     (case map_of (fees s) k of
        None \<Rightarrow> Inl ''Cannot convert undefined to a BigInt''
      | Some text \<Rightarrow>
          let v = parse_int text
          in min_fee s (case m of None \<Rightarrow> Some v | Some a \<Rightarrow> Some (if v < a then v else a)) ks)"

definition advertisedFee :: "fee_schedule \<Rightarrow> fee_key list \<Rightarrow> exn + int" where
  "advertisedFee s keys =
     (case min_fee s None keys of
        Inl e \<Rightarrow> Inl e
      | Inr None \<Rightarrow> Inl ''advertisedFee requires at least one fee key''
      | Inr (Some m) \<Rightarrow> Inr m)"

text \<open>The gas price reader of \<open>main.ts\<close>: the legacy price, else the maximal fee, else one gwei.\<close>

definition gasPrice_of_feeData :: "int option \<Rightarrow> int option \<Rightarrow> int" where
  "gasPrice_of_feeData gasPrice maxFeePerGas =
     (case gasPrice of Some p \<Rightarrow> p | None \<Rightarrow> (case maxFeePerGas of Some p \<Rightarrow> p | None \<Rightarrow> 1000000000))"


section \<open>The price is guarded\<close>

lemma check_reading_in_range:
  "check_reading opts now d r = Inr p \<Longrightarrow> po_min opts \<le> p \<and> p \<le> po_max opts"
  by (auto simp: check_reading_def Let_def split: prod.splits if_splits)

lemma read_feed_in_range:
  "fst (read_feed R opts now s) = Inr p \<Longrightarrow> po_min opts \<le> p \<and> p \<le> po_max opts"
  by (auto simp: read_feed_def split: prod.splits sum.splits dest: check_reading_in_range)

lemma read_feed_lastGood: "lastGood (fst (snd (read_feed R opts now s))) = lastGood (fst s)"
  by (auto simp: read_feed_def read_decimals_def split: prod.splits sum.splits option.splits)

definition price_ok :: "price_opts \<Rightarrow> price_state \<times> 'w \<Rightarrow> bool" where
  "price_ok opts s = (case lastGood (fst s) of None \<Rightarrow> True | Some p \<Rightarrow> po_min opts \<le> p \<and> p \<le> po_max opts)"

lemma price_ok_refresh: "price_ok opts s \<Longrightarrow> price_ok opts (snd (price_refresh R opts now s))"
  using read_feed_lastGood [of R opts now s] read_feed_in_range [of R opts now s]
  by (cases "read_feed R opts now s") (auto simp: price_ok_def price_refresh_def Let_def split: sum.splits)

lemma price_ok_run:
  "price_ok opts s \<Longrightarrow> price_ok opts (fold (\<lambda>t s. snd (price_refresh R opts t s)) ts s)"
  by (induction ts arbitrary: s) (simp_all add: price_ok_refresh)

lemma reading_guarded:
  assumes "price_ok opts s"
  shows "case price_refresh R opts now s of (reading, ps, w') \<Rightarrow>
     (rd_price reading = staticFallback opts \<and> rd_degraded reading
       \<or> po_min opts \<le> rd_price reading \<and> rd_price reading \<le> po_max opts)
     \<and> (\<not> rd_degraded reading \<longleftrightarrow> fst (read_feed R opts now s) = Inr (rd_price reading))"
proof -
  obtain r ps w' where f: "read_feed R opts now s = (r, ps, w')" by (cases "read_feed R opts now s")
  have same: "lastGood ps = lastGood (fst s)" using read_feed_lastGood [of R opts now s] f by simp
  show ?thesis
  proof (cases r)
    case (Inl e)
    show ?thesis
      using assms same
      by (simp add: price_refresh_def f Inl Let_def price_current_def price_ok_def split: option.splits)
  next
    case (Inr p)
    have "po_min opts \<le> p \<and> p \<le> po_max opts" using read_feed_in_range [of R opts now s] f Inr by simp
    then show ?thesis by (simp add: price_refresh_def f Inr Let_def price_current_def)
  qed
qed

text \<open>The price is always usable. After any number of refreshes, whatever the feed answers or
  throws, a refresh returns a reading: a price inside the sanity bounds, or the static fallback marked
  degraded. The reading is undegraded exactly when this refresh accepted the feed's answer, and then
  it is that answer.\<close>

theorem price_reading_guarded:
  "case fold (\<lambda>t s. snd (price_refresh R opts t s)) ts (new_price_state, w) of s \<Rightarrow>
   case price_refresh R opts now s of (reading, ps, w') \<Rightarrow>
     (rd_price reading = staticFallback opts \<and> rd_degraded reading
       \<or> po_min opts \<le> rd_price reading \<and> rd_price reading \<le> po_max opts)
     \<and> (\<not> rd_degraded reading \<longleftrightarrow> fst (read_feed R opts now s) = Inr (rd_price reading))"
  by (rule reading_guarded, rule price_ok_run) (simp add: price_ok_def new_price_state_def)

section \<open>What is quoted\<close>

text \<open>The on-chain fee on a note of value \<open>v\<close> is \<open>\<lfloor>v \<cdot> bps / 10000\<rfloor>\<close>: the grossed-up note nets the
  target, and at most one unit more.\<close>

lemma grossUp_nets:
  assumes "0 \<le> net" and "0 \<le> bps" and "bps < 10000"
  shows "\<exists>gross. grossUpForShieldFee net (of_int bps) = Inr gross
    \<and> net \<le> gross - gross * bps div 10000 \<and> gross - gross * bps div 10000 \<le> net + 1"
proof (cases "bps = 0")
  case True
  then show ?thesis by (simp add: grossUpForShieldFee_def)
next
  case False
  define d where "d = 10000 - bps"
  define g where "g = (net * 10000 + d - 1) div d"
  have d: "0 < d" "bps = 10000 - d" using assms(3) by (simp_all add: d_def)
  have eq: "grossUpForShieldFee net (of_int bps) = Inr g"
    using False assms d(1) by (simp add: grossUpForShieldFee_def Let_def g_def d_def)
  have r: "g * d = net * 10000 + d - 1 - (net * 10000 + d - 1) mod d"
    unfolding g_def by (rule minus_mod_eq_div_mult [symmetric])
  have m: "0 \<le> (net * 10000 + d - 1) mod d" "(net * 10000 + d - 1) mod d < d" using d(1) by simp_all
  have lo: "net * 10000 \<le> g * d" and hi: "g * d < net * 10000 + d" using r m by linarith+
  have "g * bps = g * 10000 - g * d" by (simp add: d(2) algebra_simps)
  then have q: "g * bps div 10000 = g + (- (g * d)) div 10000"
    using div_mult_self1 [of 10000 "- (g * d)" g] by (simp add: algebra_simps)
  have "- (net * 10000) - 10000 < - (g * d)" using hi d assms(2) by linarith
  then have "- net - 1 \<le> (- (g * d)) div 10000" by linarith
  moreover have "(- (g * d)) div 10000 \<le> - net" using lo by linarith
  ultimately show ?thesis using eq q by (intro exI [of _ g]) linarith
qed

lemma compute_fee_floor:
  assumes "0 \<le> gas" "0 \<le> gasPrice" "0 \<le> price" "0 \<le> m"
  shows "\<exists>fee. computeFeeUsdcRaw gas gasPrice price (of_int m) = Inr fee \<and> FEE_FLOOR_USDC_RAW \<le> fee"
proof -
  have "0 \<le> dbl (price * of_int PRICE_SCALE)" using assms(3) by (intro dbl_nonneg) (simp add: PRICE_SCALE_def)
  then have "0 \<le> math_round (dbl (price * of_int PRICE_SCALE))" by (simp add: math_round_def)
  then have n: "0 \<le> gas * gasPrice * math_round (dbl (price * of_int PRICE_SCALE)) * USDC_UNIT"
    using assms by (simp add: USDC_UNIT_def)
  have p: "0 < 10 ^ 18 * PRICE_SCALE" by (simp add: PRICE_SCALE_def)
  have "0 \<le> (gas * gasPrice * math_round (dbl (price * of_int PRICE_SCALE)) * USDC_UNIT) div (10 ^ 18 * PRICE_SCALE)"
    using n p by (simp only: pos_imp_zdiv_nonneg_iff)
  then show ?thesis
    using assms(4) bigint_div_nat [OF n p] by (simp add: computeFeeUsdcRaw_def Let_def)
qed

lemma quote_key_ok:
  assumes "0 \<le> gas" "0 \<le> gasPrice" "0 \<le> price" "profitMarginBps opts = of_int m" "0 \<le> m"
    "shieldFeeBps opts = of_int bps" "0 \<le> bps" "bps < 10000"
  shows "\<exists>net quoted. computeFeeUsdcRaw gas gasPrice price (profitMarginBps opts) = Inr net
    \<and> quote_key opts gasPrice price (key, gas) = Inr (key, show_int quoted)
    \<and> FEE_FLOOR_USDC_RAW \<le> net
    \<and> (let kept = (if key \<in> set SHIELD_FEE_TIERS then quoted - quoted * bps div 10000 else quoted)
       in net \<le> kept \<and> kept \<le> net + 1)"
proof -
  obtain net where net: "computeFeeUsdcRaw gas gasPrice price (of_int m) = Inr net" "FEE_FLOOR_USDC_RAW \<le> net"
    using compute_fee_floor [OF assms(1-3,5)] by blast
  have "0 \<le> net" using net(2) by (simp add: FEE_FLOOR_USDC_RAW_def)
  then obtain g where g: "grossUpForShieldFee net (of_int bps) = Inr g"
      "net \<le> g - g * bps div 10000" "g - g * bps div 10000 \<le> net + 1"
    using grossUp_nets assms(7,8) by blast
  show ?thesis
  proof (cases "key \<in> set SHIELD_FEE_TIERS")
    case True
    with net g show ?thesis by (intro exI [of _ net] exI [of _ g]) (simp add: quote_key_def assms(4,6))
  next
    case False
    with net show ?thesis by (intro exI [of _ net]) (simp add: quote_key_def assms(4,6))
  qed
qed

lemma quote_keys_ok:
  assumes "\<And>kg. kg \<in> set kgs \<Longrightarrow> \<exists>t. quote_key opts gp p kg = Inr (fst kg, t)" and "distinct (map fst kgs)"
  shows "\<exists>qs. quote_keys opts gp p kgs = Inr qs \<and> map fst qs = map fst kgs
    \<and> (\<forall>kg. kg \<in> set kgs \<longrightarrow> quote_key opts gp p kg = Inr (fst kg, the (map_of qs (fst kg))) \<and> map_of qs (fst kg) \<noteq> None)"
  using assms
proof (induction kgs)
  case Nil
  then show ?case by simp
next
  case (Cons kg kgs)
  obtain t where t: "quote_key opts gp p kg = Inr (fst kg, t)" using Cons.prems(1) [of kg] by auto
  obtain qs where qs: "quote_keys opts gp p kgs = Inr qs" "map fst qs = map fst kgs"
      "\<forall>kg. kg \<in> set kgs \<longrightarrow> quote_key opts gp p kg = Inr (fst kg, the (map_of qs (fst kg))) \<and> map_of qs (fst kg) \<noteq> None"
    using Cons.IH Cons.prems by (metis distinct.simps(2) list.set_intros(2) list.simps(9))
  have ne: "fst kg' \<noteq> fst kg" if "kg' \<in> set kgs" for kg'
    using that Cons.prems(2) by (metis distinct.simps(2) image_eqI list.set_map list.simps(9))
  have "quote_key opts gp p kg' = Inr (fst kg', the (map_of ((fst kg, t) # qs) (fst kg')))
      \<and> map_of ((fst kg, t) # qs) (fst kg') \<noteq> None" if "kg' \<in> set (kg # kgs)" for kg'
  proof (cases "kg' = kg")
    case True
    then show ?thesis using t by simp
  next
    case False
    with that have "kg' \<in> set kgs" by simp
    from qs(3) [rule_format, OF this] ne [OF this] show ?thesis by simp
  qed
  moreover have "quote_keys opts gp p (kg # kgs) = Inr ((fst kg, t) # qs)" using t qs(1) by simp
  ultimately show ?case using qs(2) by (metis fst_conv list.simps(9))
qed

lemma distinct_gas_keys: "distinct (map fst GAS_ESTIMATES)"
  by (simp add: GAS_ESTIMATES_def)

lemma gas_nonneg: "(key, gas) \<in> set GAS_ESTIMATES \<Longrightarrow> 0 \<le> gas"
  by (auto simp: GAS_ESTIMATES_def)

lemma advertised_one:
  "advertisedFee s [k] = (case map_of (fees s) k of
     None \<Rightarrow> Inl ''Cannot convert undefined to a BigInt'' | Some t \<Rightarrow> Inr (parse_int t))"
  by (simp add: advertisedFee_def Let_def split: option.splits)

lemma schedule_total:
  assumes "0 \<le> gasPrice" "0 \<le> price" "profitMarginBps opts = of_int m" "0 \<le> m"
    "shieldFeeBps opts = of_int bps" "0 \<le> bps" "bps < 10000"
  shows "\<exists>s. fst (schedule_finish opts now chainId gasPrice price st) = Inr s
    \<and> map fst (fees s) = map fst GAS_ESTIMATES
    \<and> (\<forall>kg. kg \<in> set GAS_ESTIMATES \<longrightarrow>
         quote_key opts gasPrice price kg = Inr (fst kg, the (map_of (fees s) (fst kg)))
         \<and> map_of (fees s) (fst kg) \<noteq> None)"
proof -
  have "\<exists>t. quote_key opts gasPrice price kg = Inr (fst kg, t)" if "kg \<in> set GAS_ESTIMATES" for kg
    using quote_key_ok [OF gas_nonneg, of "fst kg" "snd kg"] that assms
    by (metis prod.collapse)
  from quote_keys_ok [OF this distinct_gas_keys] show ?thesis
    by (auto simp: schedule_finish_def Let_def)
qed



section \<open>Quotes are honoured\<close>

text \<open>The counter makes cache ids unique: it is what follows the last dash.\<close>

lemma split_at_last_dash:
  assumes "xs @ CHR ''-'' # ds = ys @ CHR ''-'' # es" "list_all is_digit ds" "list_all is_digit es"
  shows "xs = ys \<and> ds = es"
proof -
  have cut: "takeWhile is_digit (rev (zs @ CHR ''-'' # fs)) = rev fs" if "list_all is_digit fs" for zs fs
  proof -
    have "\<not> is_digit (CHR ''-'')" by (simp add: is_digit_def)
    then show ?thesis using that by (simp add: takeWhile_append list_all_iff)
  qed
  have "rev ds = rev es" using cut [OF assms(2), of xs] cut [OF assms(3), of ys] assms(1) by simp
  then show ?thesis using assms(1) by simp
qed

lemma digits_list_all: "list_all is_digit (show_nat n)"
  by (simp add: list_all_iff digits_show_nat)

lemma show_int_digits: "0 \<le> i \<Longrightarrow> list_all is_digit (show_int i)"
  by (simp add: show_int_def digits_list_all)

lemma show_nat_inject [simp]: "show_nat m = show_nat n \<longleftrightarrow> m = n"
  by (metis parse_show_nat)

lemma cache_id_inject:
  assumes "cache_id c t k = cache_id c' t' k'"
  shows "k = k'"
proof -
  have "(''fee-'' @ show_int c @ ''-'' @ show_int t) @ CHR ''-'' # show_nat k
    = (''fee-'' @ show_int c' @ ''-'' @ show_int t') @ CHR ''-'' # show_nat k'"
    using assms by (simp add: cache_id_def)
  from split_at_last_dash [OF this digits_list_all digits_list_all] show ?thesis by simp
qed

lemma cache_id_chain:
  assumes "cache_id c t k = cache_id c' t' k'" "0 \<le> c" "0 \<le> c'" "0 \<le> t" "0 \<le> t'"
  shows "c = c'"
proof -
  have eq: "(''fee-'' @ show_int c @ ''-'' @ show_int t) @ CHR ''-'' # show_nat k
    = (''fee-'' @ show_int c' @ ''-'' @ show_int t') @ CHR ''-'' # show_nat k'"
    using assms(1) by (simp add: cache_id_def)
  then have "show_int c @ CHR ''-'' # show_int t = show_int c' @ CHR ''-'' # show_int t'"
    using split_at_last_dash [OF eq digits_list_all digits_list_all] by simp
  then show ?thesis
    using split_at_last_dash [of "show_int c" "show_int t" "show_int c'" "show_int t'"] assms
    by (simp add: show_int_digits)
qed


text \<open>What holds of a quote and the slot of its chain after later calls up to the time \<open>T\<close>: the quote
  is the current schedule; or it is the previous one, and the current one is no quote of the same id and
  expires a whole period later; or a whole period has passed since it expired.\<close>

definition ttlMs :: "fee_options \<Rightarrow> int" where
  "ttlMs opts = \<lfloor>feeTtlSeconds opts\<rfloor> * 1000"

definition sane_options :: "fee_options \<Rightarrow> bool" where
  "sane_options opts \<longleftrightarrow>
     feeTtlSeconds opts = of_int \<lfloor>feeTtlSeconds opts\<rfloor> \<and> 0 < feeTtlSeconds opts \<and> feeTtlSeconds opts \<le> 10 ^ 8
     \<and> feeVarianceBufferBps opts = of_int \<lfloor>feeVarianceBufferBps opts\<rfloor>
     \<and> 0 \<le> feeVarianceBufferBps opts \<and> feeVarianceBufferBps opts \<le> 10000"

lemma sane_ttl:
  assumes "sane_options opts"
  shows "feeTtlSeconds opts * 1000 = of_int (ttlMs opts)" and "0 < ttlMs opts" and "ttlMs opts \<le> 10 ^ 11"
proof -
  let ?n = "\<lfloor>feeTtlSeconds opts\<rfloor>"
  have n: "feeTtlSeconds opts = of_int ?n" "0 < feeTtlSeconds opts" "feeTtlSeconds opts \<le> 10 ^ 8"
    using assms by (simp_all add: sane_options_def)
  show "feeTtlSeconds opts * 1000 = of_int (ttlMs opts)"
    unfolding ttlMs_def by (subst n(1)) simp
  have "(0 :: rat) < of_int ?n" "(of_int ?n :: rat) \<le> of_int (10 ^ 8)" using n by simp_all
  then have "0 < ?n" "?n \<le> 10 ^ 8" by (simp_all only: of_int_0_less_iff of_int_le_iff)
  then show "0 < ttlMs opts" "ttlMs opts \<le> 10 ^ 11" by (simp_all add: ttlMs_def)
qed

lemma expiry_exact:
  assumes "sane_options opts" "0 \<le> t" "t \<le> 2 ^ 52"
  shows "dbl (of_int t + dbl (feeTtlSeconds opts * 1000)) = of_int (t + ttlMs opts)"
proof -
  have "dbl (feeTtlSeconds opts * 1000) = of_int (ttlMs opts)"
    unfolding sane_ttl(1) [OF assms(1)] using sane_ttl(2,3) [OF assms(1)] by (intro dbl_int) simp
  then have "dbl (of_int t + dbl (feeTtlSeconds opts * 1000)) = dbl (of_int (t + ttlMs opts))" by simp
  also have "\<dots> = of_int (t + ttlMs opts)"
    using sane_ttl(2,3) [OF assms(1)] assms(2,3) by (intro dbl_int) simp
  finally show ?thesis .
qed

lemma buffer_bound:
  assumes "sane_options opts"
  shows "0 \<le> bufferMs opts" and "bufferMs opts \<le> of_int (ttlMs opts)"
proof -
  let ?b = "\<lfloor>feeVarianceBufferBps opts\<rfloor>"
  have b: "feeVarianceBufferBps opts = of_int ?b" "0 \<le> feeVarianceBufferBps opts" "feeVarianceBufferBps opts \<le> 10000"
    using assms by (simp_all add: sane_options_def)
  have "(0 :: rat) \<le> of_int ?b" "(of_int ?b :: rat) \<le> of_int 10000" using b by simp_all
  then have bi: "0 \<le> ?b" "?b \<le> 10000" by (simp_all only: of_int_0_le_iff of_int_le_iff)
  have t: "0 < ttlMs opts" "ttlMs opts \<le> 10 ^ 11" using sane_ttl(2,3) [OF assms] .
  have d1: "dbl (feeTtlSeconds opts * 1000) = of_int (ttlMs opts)"
    unfolding sane_ttl(1) [OF assms] using t by (intro dbl_int) simp
  have p: "0 \<le> ttlMs opts * ?b" "ttlMs opts * ?b \<le> ttlMs opts * 10000"
    using t bi by (simp_all add: mult_left_mono)
  have "dbl (of_int (ttlMs opts * ?b)) = of_int (ttlMs opts * ?b)"
  proof (intro dbl_int)
    have "ttlMs opts \<le> 100000000000" "(2 :: int) ^ 53 = 9007199254740992" using t(2) by simp_all
    then show "\<bar>ttlMs opts * ?b\<bar> < 2 ^ 53" using p by linarith
  qed
  then have d2: "dbl (dbl (feeTtlSeconds opts * 1000) * feeVarianceBufferBps opts) = of_int (ttlMs opts * ?b)"
    unfolding d1 by (subst b(1)) simp
  have q: "(of_int (ttlMs opts * ?b) :: rat) \<le> of_int (ttlMs opts * 10000)" "(0 :: rat) \<le> of_int (ttlMs opts * ?b)"
    using p by (simp_all only: of_int_le_iff of_int_0_le_iff)
  show "0 \<le> bufferMs opts" unfolding bufferMs_def d2 using q(2) by (intro dbl_nonneg) simp
  show "bufferMs opts \<le> of_int (ttlMs opts)"
    unfolding bufferMs_def d2 using q t by (intro dbl_le_int) simp_all
qed

lemma grace_bound:
  assumes "sane_options opts" "0 \<le> t" "t \<le> 2 ^ 52"
    and "of_int now < dbl (of_int (t + ttlMs opts) + bufferMs opts)"
  shows "now < t + 2 * ttlMs opts"
proof -
  have "dbl (of_int (t + ttlMs opts) + bufferMs opts) \<le> of_int (t + 2 * ttlMs opts)"
    using buffer_bound [OF assms(1)] sane_ttl(2,3) [OF assms(1)] assms(2,3) by (intro dbl_le_int) simp_all
  with assms(4) have "(of_int now :: rat) < of_int (t + 2 * ttlMs opts)" by linarith
  then show ?thesis by (simp only: of_int_less_iff)
qed


definition schedule_run :: "'w fee_deps \<Rightarrow> (int \<times> int) list \<Rightarrow> fee_state \<times> 'w \<Rightarrow> fee_state \<times> 'w" where
  "schedule_run D calls s = fold (\<lambda>(t, c) s. snd (getSchedule D t c s)) calls s"

definition is_newer :: "int \<Rightarrow> nat \<Rightarrow> fee_schedule \<Rightarrow> bool" where
  "is_newer c k s \<longleftrightarrow> (\<exists>t k'. cacheId s = cache_id c t k' \<and> k < k')"

definition tracked :: "fee_options \<Rightarrow> int \<Rightarrow> int \<Rightarrow> nat \<Rightarrow> fee_schedule \<Rightarrow> int \<Rightarrow> fee_state \<Rightarrow> bool" where
  "tracked opts c t0 k q T st \<longleftrightarrow> k \<le> fc_counter st \<and> (\<exists>slot. byChain st c = Some slot \<and>
     (slot_current slot = Some q
      \<or> (\<exists>a. slot_current slot = Some a \<and> slot_previous slot = Some q \<and> is_newer c k a
           \<and> of_int (t0 + 2 * ttlMs opts) \<le> expiresAt a)
      \<or> t0 + 2 * ttlMs opts \<le> T))"

text \<open>What a call leaves behind: the slots of other chains; and on its own chain the slot as it was,
  or, if the current schedule had expired, a slot shifted by a schedule of this time.\<close>

lemma slot_of_simps [simp]:
  "slot_of (st\<lparr>fc_counter := n\<rparr>) c = slot_of st c"
  "slot_of (st\<lparr>byChain := f\<rparr>) c = (case f c of Some slot \<Rightarrow> slot | None \<Rightarrow> empty_slot)"
  by (simp_all add: slot_of_def)

lemma schedule_finish_cases:
  assumes "schedule_finish opts t c gas price st = (r, st')"
  shows "(\<exists>e. r = Inl e) \<and> byChain st' = byChain st \<and> fc_counter st' = fc_counter st + 1
    \<or> (\<exists>s. r = Inr s \<and> cacheId s = cache_id c t (fc_counter st + 1) \<and> fs_chainId s = c
        \<and> expiresAt s = dbl (of_int t + dbl (feeTtlSeconds opts * 1000))
        \<and> byChain st' = (byChain st)(c := Some \<lparr>slot_current = Some s, slot_previous = slot_current (slot_of st c)\<rparr>)
        \<and> fc_counter st' = fc_counter st + 1)"
  using assms by (auto simp: schedule_finish_def Let_def split: sum.splits)

lemma schedule_begin_cases:
  assumes "schedule_begin t c st = (r, st')"
  shows "byChain st' = (byChain st)(c := Some (slot_of st c)) \<and> fc_counter st' = fc_counter st
    \<and> slot_of st' c = slot_of st c
    \<and> (case r of Some s \<Rightarrow> slot_current (slot_of st c) = Some s \<and> of_int t < expiresAt s
       | None \<Rightarrow> (\<forall>s. slot_current (slot_of st c) = Some s \<longrightarrow> expiresAt s \<le> of_int t))"
proof (cases "slot_current (slot_of st c)")
  case None
  then show ?thesis using assms by (auto simp: schedule_begin_def Let_def)
next
  case (Some s)
  then show ?thesis
    using assms by (cases "of_int t < expiresAt s") (auto simp: schedule_begin_def Let_def split: option.splits)
qed

lemma getSchedule_cases:
  assumes "getSchedule D t c (st, w) = (r, st', w')"
  obtains (kept) "byChain st' = (byChain st)(c := Some (slot_of st c))" "fc_counter st \<le> fc_counter st'"
      "\<forall>s. r = Inr s \<longrightarrow> slot_current (slot_of st c) = Some s"
    | (shifted) s where "r = Inr s" "cacheId s = cache_id c t (fc_counter st + 1)" "fs_chainId s = c"
      "expiresAt s = dbl (of_int t + dbl (feeTtlSeconds (fd_opts D) * 1000))"
      "byChain st' = (byChain st)(c := Some \<lparr>slot_current = Some s, slot_previous = slot_current (slot_of st c)\<rparr>)"
      "fc_counter st' = fc_counter st + 1"
      "\<forall>s. slot_current (slot_of st c) = Some s \<longrightarrow> expiresAt s \<le> of_int t"
proof -
  obtain o1 st1 where b: "schedule_begin t c st = (o1, st1)" by fastforce
  note bc = schedule_begin_cases [OF b]
  show thesis
  proof (cases o1)
    case (Some s)
    with assms b have "st' = st1" "r = Inr s" by (simp_all add: getSchedule_def)
    then show thesis using bc Some by (intro kept) simp_all
  next
    case None
    obtain r1 w1 where f: "fd_refresh D w = (r1, w1)" by fastforce
    obtain r2 w2 where g: "fd_gasPriceWei D c w1 = (r2, w2)" by fastforce
    show thesis
    proof (cases "(\<exists>e. r1 = Inl e) \<or> (\<exists>e. r2 = Inl e)")
      case True
      with assms b None f g have "st' = st1" "\<exists>e. r = Inl e"
        by (auto simp: getSchedule_def split: sum.splits)
      then show thesis using bc by (intro kept) auto
    next
      case False
      then obtain gas where inr: "r1 = Inr ()" "r2 = Inr gas" by (cases r1; cases r2) auto
      obtain r3 st3 where h: "schedule_finish (fd_opts D) t c gas (fd_price D w2) st1 = (r3, st3)" by fastforce
      have eq: "st' = st3" "r = r3" using assms b None f g inr h by (simp_all add: getSchedule_def)
      from schedule_finish_cases [OF h] show thesis
      proof (elim disjE conjE exE)
        fix e assume "r3 = Inl e" "byChain st3 = byChain st1" "fc_counter st3 = fc_counter st1 + 1"
        then show thesis using bc eq by (intro kept) simp_all
      next
        fix s assume "r3 = Inr s" "cacheId s = cache_id c t (fc_counter st1 + 1)" "fs_chainId s = c"
          "expiresAt s = dbl (of_int t + dbl (feeTtlSeconds (fd_opts D) * 1000))"
          "byChain st3 = (byChain st1)(c := Some \<lparr>slot_current = Some s, slot_previous = slot_current (slot_of st1 c)\<rparr>)"
          "fc_counter st3 = fc_counter st1 + 1"
        then show thesis using bc eq None by (intro shifted [of s]) simp_all
      qed
    qed
  qed
qed


lemma tracked_mono: "tracked opts c t0 k q T st \<Longrightarrow> T \<le> T' \<Longrightarrow> tracked opts c t0 k q T' st"
  unfolding tracked_def by fastforce

lemma tracked_call:
  assumes tr: "tracked (fd_opts D) c t0 k q T st" and sane: "sane_options (fd_opts D)"
    and q: "expiresAt q = of_int (t0 + ttlMs (fd_opts D))"
    and t: "0 \<le> t" "t \<le> T" "t \<le> 2 ^ 52"
  shows "tracked (fd_opts D) c t0 k q T (fst (snd (getSchedule D t c' (st, w))))"
proof -
  obtain r st' w' where call: "getSchedule D t c' (st, w) = (r, st', w')" by (metis prod_cases3)
  obtain slot where slot: "k \<le> fc_counter st" "byChain st c = Some slot" using tr by (auto simp: tracked_def)
  then have at: "slot_of st c = slot" by (simp add: slot_of_def)
  from call show ?thesis
  proof (cases rule: getSchedule_cases)
    case kept
    then have "byChain st' c = Some slot" using slot at by (cases "c' = c") simp_all
    then show ?thesis using tr slot kept(2) by (auto simp: tracked_def call)
  next
    case (shifted s)
    show ?thesis
    proof (cases "c' = c")
      case False
      then show ?thesis using tr shifted by (auto simp: tracked_def call)
    next
      case True
      let ?slot = "\<lparr>slot_current = Some s, slot_previous = slot_current slot\<rparr>"
      have new: "byChain st' c = Some ?slot" "k \<le> fc_counter st'" using shifted True at slot by simp_all
      have exp: "expiresAt s = of_int (t + ttlMs (fd_opts D))"
        using shifted(4) expiry_exact [OF sane t(1,3)] by simp
      have newer: "is_newer c k s" unfolding is_newer_def using shifted(2) True slot(1) by force
      from tr slot(2) consider "slot_current slot = Some q"
        | a where "slot_current slot = Some a" "of_int (t0 + 2 * ttlMs (fd_opts D)) \<le> expiresAt a"
        | "t0 + 2 * ttlMs (fd_opts D) \<le> T"
        by (auto simp: tracked_def)
      then show ?thesis
      proof cases
        case 1
        have "(of_int (t0 + ttlMs (fd_opts D)) :: rat) \<le> of_int t" using shifted(7) 1 at True q by simp
        then have "t0 + ttlMs (fd_opts D) \<le> t" by (simp only: of_int_le_iff)
        then have "of_int (t0 + 2 * ttlMs (fd_opts D)) \<le> expiresAt s" unfolding exp by (simp only: of_int_le_iff)
        then show ?thesis using new newer 1 by (simp add: tracked_def call)
      next
        case 2
        have "(of_int (t0 + 2 * ttlMs (fd_opts D)) :: rat) \<le> of_int t" using shifted(7) 2 at True by force
        then have "t0 + 2 * ttlMs (fd_opts D) \<le> T" using t(2) by (simp only: of_int_le_iff)
        then show ?thesis using new by (simp add: tracked_def call)
      next
        case 3
        then show ?thesis using new by (simp add: tracked_def call)
      qed
    qed
  qed
qed

lemma tracked_run:
  assumes "sane_options (fd_opts D)" "expiresAt q = of_int (t0 + ttlMs (fd_opts D))" "T \<le> 2 ^ 52"
    and "tracked (fd_opts D) c t0 k q T (fst s)" "\<forall>(t, c') \<in> set calls. 0 \<le> t \<and> t \<le> T"
  shows "tracked (fd_opts D) c t0 k q T (fst (schedule_run D calls s))"
  using assms(4,5)
proof (induction calls arbitrary: s)
  case Nil
  then show ?case by (simp add: schedule_run_def)
next
  case (Cons tc calls)
  obtain t c' where tc: "tc = (t, c')" by fastforce
  obtain st w where s: "s = (st, w)" by fastforce
  have "tracked (fd_opts D) c t0 k q T (fst (snd (getSchedule D t c' s)))"
    unfolding s using Cons.prems tc assms(3) s by (intro tracked_call [OF _ assms(1,2)]) auto
  then show ?case using Cons.IH Cons.prems(2) by (simp add: schedule_run_def tc)
qed

text \<open>C34: A quote is honoured for its whole life. Once a schedule has been generated, and however many
  calls, for whatever chains, successful or not, follow it one after another, its id resolves to exactly
  that schedule until the variance buffer after its expiry has passed, as long as the buffer is at most
  the lifetime itself.\<close>

theorem fresh_quote_honoured:
  assumes "sane_options (fd_opts D)"
    and "schedule_finish (fd_opts D) t0 c gas price st0 = (Inr q, st1)"
    and "0 \<le> t0" "t0 \<le> now" "now \<le> 2 ^ 52"
    and "\<forall>(t, c') \<in> set calls. 0 \<le> t \<and> t \<le> now"
    and "of_int now < dbl (expiresAt q + bufferMs (fd_opts D))"
  shows "resolve (fd_opts D) now c (cacheId q) (fst (schedule_run D calls (st1, w))) = Some q"
proof -
  let ?k = "fc_counter st0 + 1" and ?st = "fst (schedule_run D calls (st1, w))"
  have t0: "t0 \<le> 2 ^ 52" using assms(4,5) by simp
  have gen: "cacheId q = cache_id c t0 ?k" "expiresAt q = dbl (of_int t0 + dbl (feeTtlSeconds (fd_opts D) * 1000))"
      "byChain st1 = (byChain st0)(c := Some \<lparr>slot_current = Some q, slot_previous = slot_current (slot_of st0 c)\<rparr>)"
      "fc_counter st1 = ?k"
    using schedule_finish_cases [OF assms(2)] by auto
  have exp: "expiresAt q = of_int (t0 + ttlMs (fd_opts D))"
    using gen(2) expiry_exact [OF assms(1,3) t0] by simp
  have "tracked (fd_opts D) c t0 ?k q now st1" using gen by (simp add: tracked_def)
  then have tr: "tracked (fd_opts D) c t0 ?k q now ?st"
    using tracked_run [OF assms(1) exp assms(5), of c ?k "(st1, w)" calls] assms(6) by simp
  have early: "now < t0 + 2 * ttlMs (fd_opts D)"
    using grace_bound [OF assms(1,3) t0] assms(7) by (simp add: exp)
  have acc: "accepts (fd_opts D) now (cacheId q) (Some q)" using assms(7) by (simp add: accepts_def)
  from tr obtain slot where slot: "byChain ?st c = Some slot"
      "slot_current slot = Some q
      \<or> (\<exists>a. slot_current slot = Some a \<and> slot_previous slot = Some q \<and> is_newer c ?k a)"
    using early by (auto simp: tracked_def)
  have "cacheId a \<noteq> cacheId q" if "is_newer c ?k a" for a
    using that cache_id_inject gen(1) by (metis is_newer_def less_irrefl)
  then show ?thesis using slot acc by (auto simp: resolve_def accepts_def)
qed

definition demo_fees :: "unit fee_deps" where
  "demo_fees = \<lparr>
     fd_opts = \<lparr>feeTtlSeconds = 300, feeVarianceBufferBps = 2000, profitMarginBps = 0, shieldFeeBps = 50,
       broadcasterRailgunAddress = ''0zk''\<rparr>,
     fd_refresh = (\<lambda>w. (Inr (), w)),
     fd_gasPriceWei = (\<lambda>c w. (Inr 1000000000, w)),
     fd_price = (\<lambda>w. 2000)\<rparr>"

lemma demo_sane: "sane_options (fd_opts demo_fees)"
  by (simp add: sane_options_def demo_fees_def)

lemma demo_ttl: "ttlMs (fd_opts demo_fees) = 300000" "bufferMs (fd_opts demo_fees) = 60000"
  by (simp_all add: ttlMs_def bufferMs_def demo_fees_def)

lemma demo_quote:
  "\<exists>q st1. schedule_finish (fd_opts demo_fees) t c 1000000000 2000 st = (Inr q, st1)"
proof -
  have o: "profitMarginBps (fd_opts demo_fees) = of_int 0" "shieldFeeBps (fd_opts demo_fees) = of_int 50"
    by (simp_all add: demo_fees_def)
  obtain q where "fst (schedule_finish (fd_opts demo_fees) t c 1000000000 2000 st) = Inr q"
    using schedule_total [OF _ _ o(1) _ o(2), of 1000000000 2000 t c st] by auto
  then show ?thesis by (metis prod.collapse)
qed

theorem fresh_quote_honoured_witness:
  "\<exists>q st1. schedule_finish (fd_opts demo_fees) 1000 7 1000000000 2000 new_fee_state = (Inr q, st1)
    \<and> resolve (fd_opts demo_fees) 320000 7 (cacheId q)
        (fst (schedule_run demo_fees [(250000, 7), (310000, 7), (311000, 8)] (st1, ()))) = Some q"
proof -
  obtain q st1 where f: "schedule_finish (fd_opts demo_fees) 1000 7 1000000000 2000 new_fee_state = (Inr q, st1)"
    using demo_quote by blast
  have "expiresAt q = 301000"
    using schedule_finish_cases [OF f] expiry_exact [OF demo_sane, of 1000] demo_ttl by auto
  then have "of_int 320000 < dbl (expiresAt q + bufferMs (fd_opts demo_fees))" by (simp add: demo_ttl)
  then show ?thesis
    using fresh_quote_honoured [OF demo_sane f, of 320000 "[(250000, 7), (310000, 7), (311000, 8)]" "()"] f
    by auto
qed


text \<open>Two calls that both find the quote expired and overlap evict it. The first to finish makes it
  the previous schedule, the second drops it, although its buffer has not passed: it does not resolve
  at any time, where the same two calls one after the other would have kept it.\<close>

theorem concurrent_regeneration_evicts:
  assumes "slot_current (slot_of st c) = Some p" "cacheId p = cache_id c t k" "k \<le> fc_counter st"
    and "schedule_begin t1 c st = (None, st1)" "schedule_begin t2 c st1 = (None, st2)"
    and "schedule_finish opts t1 c gas1 price1 st2 = (Inr q1, st3)"
    and "schedule_finish opts t2 c gas2 price2 st3 = (Inr q2, st4)"
  shows "resolve opts now c (cacheId p) st4 = None"
proof -
  note f1 = schedule_finish_cases [OF assms(6)] and f2 = schedule_finish_cases [OF assms(7)]
  have "fc_counter st2 = fc_counter st"
    using schedule_begin_cases [OF assms(4)] schedule_begin_cases [OF assms(5)] by simp
  then have ids: "cacheId q1 = cache_id c t1 (fc_counter st + 1)" "cacheId q2 = cache_id c t2 (fc_counter st + 2)"
    and slot: "byChain st4 c = Some \<lparr>slot_current = Some q2, slot_previous = Some q1\<rparr>"
    using f1 f2 by (auto simp: slot_of_def)
  have "cacheId q1 \<noteq> cacheId p" "cacheId q2 \<noteq> cacheId p"
    using ids assms(2,3) cache_id_inject by fastforce+
  then show ?thesis using slot by (simp add: resolve_def accepts_def)
qed

theorem concurrent_regeneration_evicts_witness:
  "\<exists>p st st1 st2 st3 st4 q1 q2.
     schedule_finish (fd_opts demo_fees) 1000 7 1000000000 2000 new_fee_state = (Inr p, st)
     \<and> schedule_begin 301000 7 st = (None, st1) \<and> schedule_begin 301005 7 st1 = (None, st2)
     \<and> schedule_finish (fd_opts demo_fees) 301000 7 1000000000 2000 st2 = (Inr q1, st3)
     \<and> schedule_finish (fd_opts demo_fees) 301005 7 1000000000 2000 st3 = (Inr q2, st4)
     \<and> resolve (fd_opts demo_fees) 301010 7 (cacheId p) st4 = None
     \<and> of_int 301010 < dbl (expiresAt p + bufferMs (fd_opts demo_fees))"
proof -
  obtain p st where p: "schedule_finish (fd_opts demo_fees) 1000 7 1000000000 2000 new_fee_state = (Inr p, st)"
    using demo_quote by blast
  note pc = schedule_finish_cases [OF p]
  have e: "expiresAt p = 301000" using pc expiry_exact [OF demo_sane, of 1000] demo_ttl by auto
  have cur: "slot_current (slot_of st 7) = Some p" "cacheId p = cache_id 7 1000 1" "fc_counter st = 1"
    using pc by (auto simp: slot_of_def new_fee_state_def)
  obtain st1 where b1: "schedule_begin 301000 7 st = (None, st1)" "slot_of st1 7 = slot_of st 7"
    using cur(1) e by (simp add: schedule_begin_def Let_def)
  obtain st2 where b2: "schedule_begin 301005 7 st1 = (None, st2)"
    using cur(1) e b1(2) by (simp add: schedule_begin_def Let_def)
  obtain q1 st3 where q1: "schedule_finish (fd_opts demo_fees) 301000 7 1000000000 2000 st2 = (Inr q1, st3)"
    using demo_quote by blast
  obtain q2 st4 where q2: "schedule_finish (fd_opts demo_fees) 301005 7 1000000000 2000 st3 = (Inr q2, st4)"
    using demo_quote by blast
  have "of_int 301010 < dbl (expiresAt p + bufferMs (fd_opts demo_fees))" by (simp add: e demo_ttl)
  then show ?thesis
    using concurrent_regeneration_evicts [OF cur(1,2) _ b1(1) b2 q1 q2, of 301010] cur(3) p b1(1) b2 q1 q2
    by auto
qed

section \<open>Quotes do not cross chains\<close>

definition own_schedules :: "fee_state \<Rightarrow> bool" where
  "own_schedules st \<longleftrightarrow> (\<forall>c slot s. byChain st c = Some slot \<longrightarrow>
     slot_current slot = Some s \<or> slot_previous slot = Some s \<longrightarrow>
     fs_chainId s = c \<and> 0 \<le> c \<and> (\<exists>t k. cacheId s = cache_id c t k \<and> 0 \<le> t))"

lemma own_schedules_call:
  assumes "own_schedules st" "0 \<le> t" "0 \<le> c"
  shows "own_schedules (fst (snd (getSchedule D t c (st, w))))"
proof -
  obtain r st' w' where call: "getSchedule D t c (st, w) = (r, st', w')" by (metis prod_cases3)
  have old: "fs_chainId s = c \<and> 0 \<le> c \<and> (\<exists>t k. cacheId s = cache_id c t k \<and> 0 \<le> t)"
    if "slot_current (slot_of st c) = Some s \<or> slot_previous (slot_of st c) = Some s" for s
    using assms(1) that by (auto simp: own_schedules_def slot_of_def empty_slot_def split: option.splits)
  from call show ?thesis
  proof (cases rule: getSchedule_cases)
    case kept
    then show ?thesis using assms(1) old by (auto simp: call own_schedules_def)
  next
    case (shifted s)
    then show ?thesis using assms old by (auto simp: call own_schedules_def)
  qed
qed

lemma own_schedules_run:
  "own_schedules (fst s) \<Longrightarrow> \<forall>(t, c) \<in> set calls. 0 \<le> t \<and> 0 \<le> c \<Longrightarrow> own_schedules (fst (schedule_run D calls s))"
proof (induction calls arbitrary: s)
  case Nil
  then show ?case by (simp add: schedule_run_def)
next
  case (Cons tc calls)
  obtain t c where tc: "tc = (t, c)" by fastforce
  obtain st w where s: "s = (st, w)" by fastforce
  have "own_schedules (fst (snd (getSchedule D t c s)))"
    using Cons.prems own_schedules_call tc s by auto
  then show ?case using Cons.IH Cons.prems(2) by (simp add: schedule_run_def tc)
qed

text \<open>A quote is bound to its chain. In every state the calculator reaches, an id that resolves for
  one chain resolves for no other, to a schedule that carries that chain and that id and is not past its
  buffer.\<close>

theorem quotes_do_not_cross_chains:
  assumes "\<forall>(t, c) \<in> set calls. 0 \<le> t \<and> 0 \<le> c"
    and "resolve opts now c cid (fst (schedule_run D calls (new_fee_state, w))) = Some s"
  shows "fs_chainId s = c \<and> cacheId s = cid \<and> of_int now < dbl (expiresAt s + bufferMs opts)
    \<and> (\<forall>c' now'. c' \<noteq> c \<longrightarrow> resolve opts now' c' cid (fst (schedule_run D calls (new_fee_state, w))) = None)"
proof -
  let ?st = "fst (schedule_run D calls (new_fee_state, w))"
  have own: "own_schedules ?st"
    using own_schedules_run [of "(new_fee_state, w)" calls D] assms(1)
    by (simp add: own_schedules_def new_fee_state_def)
  have found: "fs_chainId s = c \<and> 0 \<le> c \<and> (\<exists>t k. cid = cache_id c t k \<and> 0 \<le> t)
      \<and> cacheId s = cid \<and> of_int now < dbl (expiresAt s + bufferMs opts)"
    if "resolve opts now c cid ?st = Some s" for c now s
    using that own by (auto simp: resolve_def accepts_def own_schedules_def split: option.splits if_splits)
  have "resolve opts now' c' cid ?st = None" if "c' \<noteq> c" for c' now'
  proof (rule ccontr)
    assume "resolve opts now' c' cid ?st \<noteq> None"
    then obtain s' where "resolve opts now' c' cid ?st = Some s'" by blast
    from found [OF this] found [OF assms(2)] show False using that cache_id_chain by metis
  qed
  then show ?thesis using found [OF assms(2)] by blast
qed

theorem quotes_do_not_cross_chains_witness:
  "\<exists>s. fst (getSchedule demo_fees 1000 7 (new_fee_state, ())) = Inr s \<and> fs_chainId s = 7
    \<and> resolve (fd_opts demo_fees) 2000 8 (cacheId s)
        (fst (schedule_run demo_fees [(1000, 7), (1500, 8)] (new_fee_state, ()))) = None"
proof -
  obtain st1 where b: "schedule_begin 1000 7 new_fee_state = (None, st1)"
    by (simp add: schedule_begin_def Let_def new_fee_state_def slot_of_def empty_slot_def)
  obtain q st2 where f: "schedule_finish (fd_opts demo_fees) 1000 7 1000000000 2000 st1 = (Inr q, st2)"
    using demo_quote by blast
  have g: "getSchedule demo_fees 1000 7 (new_fee_state, ()) = (Inr q, st2, ())"
    using b f by (simp add: getSchedule_def demo_fees_def)
  note fc = schedule_finish_cases [OF f]
  have e: "expiresAt q = 301000" using fc expiry_exact [OF demo_sane, of 1000] demo_ttl by auto
  have s2: "byChain st2 7 = Some \<lparr>slot_current = Some q, slot_previous = None\<rparr>"
    using fc schedule_begin_cases [OF b] by (auto simp: slot_of_def new_fee_state_def empty_slot_def)
  let ?last = "fst (schedule_run demo_fees [(1000, 7), (1500, 8)] (new_fee_state, ()))"
  have "?last = fst (snd (getSchedule demo_fees 1500 8 (st2, ())))" by (simp add: schedule_run_def g)
  moreover obtain r3 st3 w3 where c3: "getSchedule demo_fees 1500 8 (st2, ()) = (r3, st3, w3)" by (metis prod_cases3)
  ultimately have "?last = st3" by simp
  moreover from c3 have "byChain st3 7 = byChain st2 7" by (cases rule: getSchedule_cases) simp_all
  ultimately have "resolve (fd_opts demo_fees) 2000 7 (cacheId q) ?last = Some q"
    using s2 by (simp add: resolve_def accepts_def e demo_ttl)
  from quotes_do_not_cross_chains [OF _ this] show ?thesis using g by auto
qed

end
