(* ===== verification/Relay.thy ===== *)
theory Relay
  imports Fees Classify Wallet
begin

text \<open>
  The \<open>POST /relay\<close> pipeline: selectors (\<open>relay/selectors.ts\<close>, \<open>transact-shape.ts\<close>), the three fee
  verifiers, the duplicate cache (\<open>dedup-cache.ts\<close>) and \<open>PrivacyRelay\<close> (\<open>privacy-relay.ts\<close>), with the
  error codes of \<open>http/errors.ts\<close>.

  The ABI coder of ethers, the railgun wallet (key derivation and note decryption) and the provider are
  parameters. Selectors are what ethers derives from the ABI fragments; their values are those the
  source records beside each fragment. The long dash in two messages is written as a hyphen. A throw is a \<open>RelayError\<close> with its code or any other exception.
\<close>

section \<open>Errors\<close>

datatype relay_error_code =
    INVALID_CHAIN | INVALID_TARGET | INVALID_DATA | FEE_TOO_LOW | FEE_EXPIRED | FEE_INSUFFICIENT
  | GAS_ESTIMATION_FAILED | DUPLICATE_TX | RELAYER_BUSY | SUBMISSION_FAILED | RATE_LIMITED

fun HTTP_STATUS_OF :: "relay_error_code \<Rightarrow> int" where
  "HTTP_STATUS_OF INVALID_CHAIN = 400"
| "HTTP_STATUS_OF INVALID_TARGET = 400"
| "HTTP_STATUS_OF INVALID_DATA = 400"
| "HTTP_STATUS_OF FEE_TOO_LOW = 402"
| "HTTP_STATUS_OF FEE_EXPIRED = 402"
| "HTTP_STATUS_OF FEE_INSUFFICIENT = 402"
| "HTTP_STATUS_OF GAS_ESTIMATION_FAILED = 422"
| "HTTP_STATUS_OF DUPLICATE_TX = 409"
| "HTTP_STATUS_OF RELAYER_BUSY = 503"
| "HTTP_STATUS_OF SUBMISSION_FAILED = 502"
| "HTTP_STATUS_OF RATE_LIMITED = 429"

fun code_name :: "relay_error_code \<Rightarrow> string" where
  "code_name INVALID_CHAIN = ''INVALID_CHAIN''"
| "code_name INVALID_TARGET = ''INVALID_TARGET''"
| "code_name INVALID_DATA = ''INVALID_DATA''"
| "code_name FEE_TOO_LOW = ''FEE_TOO_LOW''"
| "code_name FEE_EXPIRED = ''FEE_EXPIRED''"
| "code_name FEE_INSUFFICIENT = ''FEE_INSUFFICIENT''"
| "code_name GAS_ESTIMATION_FAILED = ''GAS_ESTIMATION_FAILED''"
| "code_name DUPLICATE_TX = ''DUPLICATE_TX''"
| "code_name RELAYER_BUSY = ''RELAYER_BUSY''"
| "code_name SUBMISSION_FAILED = ''SUBMISSION_FAILED''"
| "code_name RATE_LIMITED = ''RATE_LIMITED''"

datatype relay_exn = RelayError relay_error_code string | Thrown exn

section \<open>Selectors\<close>

definition SELECTOR_TRANSACT :: string where "SELECTOR_TRANSACT = ''0xd8ae136a''"
definition SELECTOR_LEND_AND_SHIELD :: string where "SELECTOR_LEND_AND_SHIELD = ''0xf2987ad1''"
definition SELECTOR_REDEEM_AND_SHIELD :: string where "SELECTOR_REDEEM_AND_SHIELD = ''0x7e220759''"
definition SELECTOR_ATOMIC_XCHAIN_UNSHIELD :: string where "SELECTOR_ATOMIC_XCHAIN_UNSHIELD = ''0x2bcba06a''"
definition SELECTOR_GASLESS_SHIELD :: string where "SELECTOR_GASLESS_SHIELD = ''0x6e53fbcb''"
definition SELECTOR_GASLESS_XCHAIN_SHIELD :: string where "SELECTOR_GASLESS_XCHAIN_SHIELD = ''0xd34e1968''"

lemmas selector_defs = SELECTOR_TRANSACT_def SELECTOR_LEND_AND_SHIELD_def SELECTOR_REDEEM_AND_SHIELD_def
  SELECTOR_ATOMIC_XCHAIN_UNSHIELD_def SELECTOR_GASLESS_SHIELD_def SELECTOR_GASLESS_XCHAIN_SHIELD_def

definition PROOF_BEARING_SELECTORS :: "string list" where
  "PROOF_BEARING_SELECTORS = [SELECTOR_TRANSACT, SELECTOR_LEND_AND_SHIELD, SELECTOR_REDEEM_AND_SHIELD,
     SELECTOR_ATOMIC_XCHAIN_UNSHIELD]"

definition GASLESS_SELECTORS :: "string list" where
  "GASLESS_SELECTORS = [SELECTOR_GASLESS_SHIELD, SELECTOR_GASLESS_XCHAIN_SHIELD]"

definition ALLOWED_SELECTORS :: "string list" where
  "ALLOWED_SELECTORS = PROOF_BEARING_SELECTORS @ GASLESS_SELECTORS"

definition WRAPPER_SELECTORS :: "string list" where
  "WRAPPER_SELECTORS = [SELECTOR_LEND_AND_SHIELD, SELECTOR_ATOMIC_XCHAIN_UNSHIELD]"

definition SELECTOR_NAMES :: "(string \<times> string) list" where
  "SELECTOR_NAMES =
     [(SELECTOR_TRANSACT, ''transact''), (SELECTOR_LEND_AND_SHIELD, ''lendAndShield''),
      (SELECTOR_REDEEM_AND_SHIELD, ''redeemAndShield''),
      (SELECTOR_ATOMIC_XCHAIN_UNSHIELD, ''atomicCrossChainUnshield''),
      (SELECTOR_GASLESS_SHIELD, ''gaslessShield''),
      (SELECTOR_GASLESS_XCHAIN_SHIELD, ''gaslessCrossChainShield'')]"

text \<open>\<open>dataSlice\<close> of a string that is no even-length hex text throws.\<close>

definition selectorOf :: "ethers \<Rightarrow> string \<Rightarrow> exn + string option" where
  "selectorOf E data =
     (if \<not> prefix ''0x'' data \<or> length data < 10 then Inr None
      else case getBytes E data of
             Inl e \<Rightarrow> Inl e
           | Inr bs \<Rightarrow> Inr (Some (to_lower (dataSlice E bs 0 4))))"

definition advertisedFeeKeys :: "string \<Rightarrow> exn + fee_key list" where
  "advertisedFeeKeys selector =
     (if selector = SELECTOR_TRANSACT then Inr [Transfer, Unshield]
      else if selector = SELECTOR_LEND_AND_SHIELD \<or> selector = SELECTOR_REDEEM_AND_SHIELD then Inr [CrossContract]
      else if selector = SELECTOR_ATOMIC_XCHAIN_UNSHIELD then Inr [CrossChainUnshield]
      else if selector = SELECTOR_GASLESS_SHIELD then Inr [Shield]
      else if selector = SELECTOR_GASLESS_XCHAIN_SHIELD then Inr [ShieldXchain]
      else Inl (''No advertised-fee mapping for selector '' @ selector @ ''.''))"

section \<open>Fee verifiers\<close>

text \<open>What the decoders give of a call: the shield requests of \<open>gaslessShield\<close>, the key and value of the
  two notes of \<open>gaslessCrossChainShield\<close>, the fee key and amount of \<open>redeemAndShield\<close>, and the embedded
  transaction of the other wrappers, which is only passed on to the encoder.\<close>

record shield_request =
  sr_npk :: int
  sr_token :: "int \<times> string \<times> int"
  sr_value :: int

record abi_coder =
  decode_gaslessShield :: "string \<Rightarrow> exn + shield_request list"
  decode_gaslessCrossChainShield :: "string \<Rightarrow> exn + (int \<times> int) \<times> (int \<times> int)"
  decode_redeemAndShield :: "string \<Rightarrow> exn + int \<times> int"
  parse_wrapper :: "string \<Rightarrow> exn + string option"
  encode_transact :: "string \<Rightarrow> exn + string"

text \<open>The value of the first note addressed to the relayer.\<close>

definition extractFeeNoteValue :: "abi_coder \<Rightarrow> string \<Rightarrow> string \<Rightarrow> int \<Rightarrow> relay_exn + int option" where
  "extractFeeNoteValue A selector data expectedNpk =
     (if selector = SELECTOR_GASLESS_SHIELD then
        (case decode_gaslessShield A data of
           Inl e \<Rightarrow> Inl (RelayError INVALID_DATA (''Failed to decode gaslessShield calldata: '' @ e))
         | Inr requests \<Rightarrow>
             Inr (map_option sr_value (List.find (\<lambda>r. sr_npk r = expectedNpk) requests)))
      else if selector = SELECTOR_GASLESS_XCHAIN_SHIELD then
        (case decode_gaslessCrossChainShield A data of
           Inl e \<Rightarrow> Inl (RelayError INVALID_DATA (''Failed to decode gaslessCrossChainShield calldata: '' @ e))
         | Inr (userNote, npk, v) \<Rightarrow> Inr (if npk = expectedNpk then Some v else None))
      else Inl (RelayError INVALID_DATA
             (''Selector '' @ selector @ '' is not a supported gasless wrapper entry.'')))"

definition derive_npk :: "(string \<Rightarrow> exn + int) \<Rightarrow> string \<Rightarrow> relay_exn + int" where
  "derive_npk deriver feeShieldRandom =
     (case deriver feeShieldRandom of
        Inl e \<Rightarrow> Inl (RelayError INVALID_DATA
          (''Could not derive expected fee-note key (bad feeShieldRandom?): '' @ e))
      | Inr npk \<Rightarrow> Inr npk)"

definition verifyGaslessFee ::
    "abi_coder \<Rightarrow> (int \<Rightarrow> string option) \<Rightarrow> (string \<Rightarrow> exn + int) \<Rightarrow> int \<Rightarrow> string \<Rightarrow> string \<Rightarrow> int
      \<Rightarrow> string option \<Rightarrow> relay_exn + unit" where
  "verifyGaslessFee A wrappersByChain deriver chainId to data adv feeShieldRandom =
     (if \<not> hook_set (wrappersByChain chainId) then
        Inl (RelayError INVALID_CHAIN (''No gasless wrapper configured for chain '' @ show_int chainId @ ''.''))
      else if to_lower to \<noteq> to_lower (the (wrappersByChain chainId)) then
        Inl (RelayError INVALID_TARGET ''Gasless calls must target the configured wrapper.'')
      else if \<not> hook_set feeShieldRandom then
        Inl (RelayError INVALID_DATA ''gasless shield relay requires feeShieldRandom to verify the fee destination.'')
      else case derive_npk deriver (the feeShieldRandom) of
        Inl e \<Rightarrow> Inl e
      | Inr expectedNpk \<Rightarrow>
          (case extractFeeNoteValue A (to_lower (js_slice 0 10 data)) data expectedNpk of
             Inl e \<Rightarrow> Inl e
           | Inr None \<Rightarrow> Inl (RelayError FEE_INSUFFICIENT
               ''Gasless shield carries no fee note addressed to the relayer - refusing to relay.'')
           | Inr (Some feeValue) \<Rightarrow>
               if feeValue < adv then Inl (RelayError FEE_INSUFFICIENT
                 (''Gasless fee note '' @ show_int feeValue @ '' is below advertised fee '' @ show_int adv))
               else Inr ()))"

definition verifyRedeemFee ::
    "abi_coder \<Rightarrow> (string \<Rightarrow> exn + int) \<Rightarrow> string \<Rightarrow> int \<Rightarrow> string option \<Rightarrow> relay_exn + int" where
  "verifyRedeemFee A deriver data adv feeShieldRandom =
     (if \<not> hook_set feeShieldRandom then
        Inl (RelayError INVALID_DATA ''redeemAndShield relay requires feeShieldRandom to verify the fee destination.'')
      else case decode_redeemAndShield A data of
        Inl e \<Rightarrow> Inl (RelayError INVALID_DATA (''Failed to decode redeemAndShield calldata: '' @ e))
      | Inr (feeNpk, feeAmount) \<Rightarrow>
          if feeAmount < adv then Inl (RelayError FEE_INSUFFICIENT
            (''Redeem fee too low: fee '' @ show_int feeAmount @ '' USDC raw, advertised '' @ show_int adv @
             '' USDC raw. Re-fetch the fee quote and re-build the proof with the matching fee.''))
          else (case derive_npk deriver (the feeShieldRandom) of
             Inl e \<Rightarrow> Inl e
           | Inr expectedNpk \<Rightarrow>
               if feeNpk \<noteq> expectedNpk then Inl (RelayError FEE_INSUFFICIENT
                 ''Redeem fee note is not addressed to the relayer - refusing to relay.'')
               else Inr feeAmount))"

definition normaliseRequestToVanillaTransact ::
    "ethers \<Rightarrow> abi_coder \<Rightarrow> string \<Rightarrow> string \<Rightarrow> relay_exn + string \<times> string" where
  "normaliseRequestToVanillaTransact E A data privacyPoolAddress =
     (case selectorOf E data of
        Inl e \<Rightarrow> Inl (Thrown e)
      | Inr selector \<Rightarrow>
          if selector = Some SELECTOR_TRANSACT then Inr (privacyPoolAddress, data)
          else if \<not> (\<exists>s \<in> set WRAPPER_SELECTORS. selector = Some s) then
            Inl (RelayError INVALID_DATA (''Verifier received an unsupported selector: '' @
              (case selector of None \<Rightarrow> ''null'' | Some s \<Rightarrow> s) @ ''.''))
          else (case parse_wrapper A data of
             Inl e \<Rightarrow> Inl (Thrown e)
           | Inr None \<Rightarrow> Inl (RelayError INVALID_DATA ''Wrapper calldata did not decode.'')
           | Inr (Some tx) \<Rightarrow>
               (case encode_transact A tx of
                  Inl e \<Rightarrow> Inl (Thrown e)
                | Inr synthetic \<Rightarrow> Inr (privacyPoolAddress, synthetic))))"

text \<open>Keys of the amount map are folded to lower case; of two that then coincide the later one wins.\<close>

definition paid_amount :: "string \<Rightarrow> (string \<times> int) list \<Rightarrow> int" where
  "paid_amount usdcAddress amounts =
     (case map_of (rev (map (\<lambda>(k, v). (to_lower k, v)) amounts)) (to_lower usdcAddress) of
        None \<Rightarrow> 0 | Some v \<Rightarrow> v)"

record 'w note_ctx =
  nc_extract :: "string \<times> string \<Rightarrow> 'w \<Rightarrow> (exn + (string \<times> int) list) \<times> 'w"
  nc_pool :: string
  nc_usdc :: string

definition verifyBroadcasterFee ::
    "ethers \<Rightarrow> abi_coder \<Rightarrow> 'w note_ctx \<Rightarrow> string \<Rightarrow> int \<Rightarrow> 'w \<Rightarrow> (relay_exn + int) \<times> 'w" where
  "verifyBroadcasterFee E A ctx data adv w =
     (case normaliseRequestToVanillaTransact E A data (nc_pool ctx) of
        Inl (RelayError c m) \<Rightarrow> (Inl (RelayError c m), w)
      | Inl (Thrown e) \<Rightarrow> (Inl (RelayError INVALID_DATA ''Wrapper calldata did not decode.''), w)
      | Inr normalised \<Rightarrow>
          (case nc_extract ctx normalised w of
             (Inl e, w) \<Rightarrow>
               (Inl (RelayError FEE_INSUFFICIENT (''Broadcaster-fee verification failed: '' @ e @ ''.'')), w)
           | (Inr amounts, w) \<Rightarrow>
               let paidUsdc = paid_amount (nc_usdc ctx) amounts
               in if paidUsdc < adv then
                    (Inl (RelayError FEE_INSUFFICIENT
                      (''Broadcaster fee too low: paid '' @ show_int paidUsdc @ '' USDC raw, advertised '' @
                       show_int adv @ '' USDC raw. Re-fetch the fee quote and re-build the proof with the '' @
                       ''matching broadcaster fee.'')), w)
                  else (Inr paidUsdc, w)))"

section \<open>Duplicate cache\<close>

definition DEDUP_TTL_MS :: int where "DEDUP_TTL_MS = 10 * 60 * 1000"

record dedup_entry =
  de_txHash :: string
  de_timestamp :: int

type_synonym dedup_cache = "string \<Rightarrow> dedup_entry option"

text \<open>The key: \<open>keccak256(solidityPacked(to, data))\<close>, which throws on a malformed address, is a
  parameter.\<close>

definition dedup_key :: "(string \<Rightarrow> string \<Rightarrow> exn + string) \<Rightarrow> int \<Rightarrow> string \<Rightarrow> string \<Rightarrow> exn + string" where
  "dedup_key hash chainId to data =
     (case hash to data of Inl e \<Rightarrow> Inl e | Inr h \<Rightarrow> Inr (show_int chainId @ ''|'' @ h))"

definition dedup_lookup :: "int \<Rightarrow> int \<Rightarrow> string \<Rightarrow> dedup_cache \<Rightarrow> string option \<times> dedup_cache" where
  "dedup_lookup ttl now key entries =
     (case entries key of
        None \<Rightarrow> (None, entries)
      | Some entry \<Rightarrow>
          if ttl < now - de_timestamp entry then (None, entries(key := None))
          else (Some (de_txHash entry), entries))"

definition dedup_record :: "int \<Rightarrow> string \<Rightarrow> string \<Rightarrow> dedup_cache \<Rightarrow> dedup_cache" where
  "dedup_record now key txHash entries =
     entries(key := Some \<lparr>de_txHash = txHash, de_timestamp = now\<rparr>)"

definition dedup_sweep :: "int \<Rightarrow> int \<Rightarrow> dedup_cache \<Rightarrow> dedup_cache" where
  "dedup_sweep ttl now entries =
     (\<lambda>key. case entries key of
        None \<Rightarrow> None
      | Some entry \<Rightarrow> if de_timestamp entry < now - ttl then None else Some entry)"

section \<open>The pipeline\<close>

record relay_request =
  rq_chainId :: int
  rq_to :: string
  rq_data :: string
  feesCacheId :: string
  feeShieldRandom :: "string option"

text \<open>The dependencies, acting on the world \<^typ>\<open>'w\<close>; the lock of the submitter is synchronous.\<close>

record 'w relay_deps =
  rd_allowedTargets :: "int \<Rightarrow> string set option"
  rd_fee_opts :: fee_options
  rd_ethers :: ethers
  rd_abi :: abi_coder
  rd_wrappersByChain :: "int \<Rightarrow> string option"
  rd_deriver :: "string \<Rightarrow> exn + int"
  rd_notes :: "'w note_ctx"
  rd_hash :: "string \<Rightarrow> string \<Rightarrow> exn + string"
  rd_dedupTtl :: int
  rd_now :: "'w \<Rightarrow> int \<times> 'w"
  rd_tryAcquire :: "int \<Rightarrow> 'w \<Rightarrow> bool \<times> 'w"
  rd_release :: "int \<Rightarrow> 'w \<Rightarrow> 'w"
  rd_estimateGas :: "int \<Rightarrow> string \<Rightarrow> string \<Rightarrow> 'w \<Rightarrow> (exn + int) \<times> 'w"
  rd_submit :: "int \<Rightarrow> string \<Rightarrow> string \<Rightarrow> int \<Rightarrow> 'w \<Rightarrow> (exn + string) \<times> 'w"

text \<open>The state: the fee calculator's, the duplicate cache, the keys whose counters were incremented, the
  reported outcomes, and the world.\<close>

record 'w relay_state =
  r_fees :: fee_state
  r_dedup :: dedup_cache
  r_counters :: "string list"
  r_outcomes :: "(string \<times> bool \<times> string) list"
  r_world :: 'w

type_synonym ('w, 'a) relay_act = "'w relay_state \<Rightarrow> (relay_exn + 'a) \<times> 'w relay_state"

definition r_ext :: "('w \<Rightarrow> 'a \<times> 'w) \<Rightarrow> 'w relay_state \<Rightarrow> 'a \<times> 'w relay_state" where
  "r_ext f s = (case f (r_world s) of (r, w) \<Rightarrow> (r, s\<lparr>r_world := w\<rparr>))"

definition bump :: "string \<Rightarrow> 'w relay_state \<Rightarrow> 'w relay_state" where
  "bump key s = s\<lparr>r_counters := r_counters s @ [key]\<rparr>"

text \<open>Step 5: the verifier for the selector.\<close>

definition verify_fee :: "'w relay_deps \<Rightarrow> relay_request \<Rightarrow> string \<Rightarrow> int \<Rightarrow> ('w, unit) relay_act" where
  "verify_fee D q selector adv s =
     (if selector \<in> set GASLESS_SELECTORS then
        (verifyGaslessFee (rd_abi D) (rd_wrappersByChain D) (rd_deriver D) (rq_chainId q) (rq_to q)
           (rq_data q) adv (feeShieldRandom q), s)
      else if selector = SELECTOR_REDEEM_AND_SHIELD then
        (map_sum id (\<lambda>_. ()) (verifyRedeemFee (rd_abi D) (rd_deriver D) (rq_data q) adv (feeShieldRandom q)), s)
      else
        (case r_ext (verifyBroadcasterFee (rd_ethers D) (rd_abi D) (rd_notes D) (rq_data q) adv) s of
           (r, s) \<Rightarrow> (map_sum id (\<lambda>_. ()) r, s)))"

text \<open>Steps 1 to 5: everything before the lock. The result is the selector.\<close>

definition pipeline_checks :: "'w relay_deps \<Rightarrow> relay_request \<Rightarrow> ('w, string) relay_act" where
  "pipeline_checks D q s =
     (case rd_allowedTargets D (rq_chainId q) of
        None \<Rightarrow> (Inl (RelayError INVALID_CHAIN (''chain '' @ show_int (rq_chainId q) @ '' not configured'')), s)
      | Some allowed \<Rightarrow>
     if rq_to q = [] \<or> to_lower (rq_to q) \<notin> allowed then
       (Inl (RelayError INVALID_TARGET ''target not in per-chain allowlist''), s)
     else case r_ext (rd_now D) s of (now, s) \<Rightarrow>
     case resolve (rd_fee_opts D) now (rq_chainId q) (feesCacheId q) (r_fees s) of
       None \<Rightarrow> (Inl (RelayError FEE_EXPIRED (''Fee quote has expired or is invalid for chain '' @
                  show_int (rq_chainId q) @ ''. Please re-fetch fees.'')), s)
     | Some schedule \<Rightarrow>
     if length (rq_data q) < 10 then
       (Inl (RelayError INVALID_DATA ''Transaction data is empty or too short.''), s)
     else case selectorOf (rd_ethers D) (rq_data q) of
       Inl e \<Rightarrow> (Inl (Thrown e), s)
     | Inr None \<Rightarrow> (Inl (RelayError INVALID_DATA ''Selector null is not allowed.''), s)
     | Inr (Some selector) \<Rightarrow>
     if selector \<notin> set ALLOWED_SELECTORS then
       (Inl (RelayError INVALID_DATA (''Selector '' @ selector @ '' is not allowed.'')), s)
     else case advertisedFeeKeys selector of
       Inl e \<Rightarrow> (Inl (Thrown e), s)
     | Inr keys \<Rightarrow>
     case advertisedFee schedule keys of
       Inl e \<Rightarrow> (Inl (Thrown e), s)
     | Inr adv \<Rightarrow>
     case verify_fee D q selector adv s of
       (Inl (RelayError c m), s) \<Rightarrow>
         (Inl (RelayError c m), bump (''feeVerifierRejects.'' @ code_name c) s)
     | (Inl (Thrown e), s) \<Rightarrow> (Inl (Thrown e), s)
     | (Inr _, s) \<Rightarrow> (Inr selector, s))"

text \<open>Steps 7 and 8, under the lock.\<close>

definition selector_name :: "string \<Rightarrow> string" where
  "selector_name selector = (case map_of SELECTOR_NAMES selector of None \<Rightarrow> ''unknown'' | Some n \<Rightarrow> n)"

definition broadcast :: "'w relay_deps \<Rightarrow> relay_request \<Rightarrow> string \<Rightarrow> int \<Rightarrow> string \<Rightarrow> ('w, string) relay_act" where
  "broadcast D q selector gasEstimate key s =
     (case (case bigint_div (gasEstimate * 120) 100 of
              Inl e \<Rightarrow> (Inl e, s)
            | Inr gasLimit \<Rightarrow> r_ext (rd_submit D (rq_chainId q) (rq_to q) (rq_data q) gasLimit) s) of
        (Inl e, s) \<Rightarrow>
          (Inl (RelayError SUBMISSION_FAILED ''broadcast failed''),
           bump (''submitFail.'' @ selector_name selector @ ''.SUBMISSION_FAILED'') s)
      | (Inr txHash, s) \<Rightarrow>
          (case r_ext (rd_now D) s of (now, s) \<Rightarrow>
             (Inr txHash,
              bump (''submitSuccess.'' @ selector_name selector)
                (s\<lparr>r_dedup := dedup_record now key txHash (r_dedup s)\<rparr>))))"

definition pipeline_locked :: "'w relay_deps \<Rightarrow> relay_request \<Rightarrow> string \<Rightarrow> ('w, string) relay_act" where
  "pipeline_locked D q selector s =
     (case r_ext (rd_estimateGas D (rq_chainId q) (rq_to q) (rq_data q)) s of
        (Inl e, s) \<Rightarrow> (Inl (RelayError GAS_ESTIMATION_FAILED (''Transaction would revert: '' @ e)), s)
      | (Inr gasEstimate, s) \<Rightarrow>
     case dedup_key (rd_hash D) (rq_chainId q) (rq_to q) (rq_data q) of
       Inl e \<Rightarrow> (Inl (Thrown e), s)
     | Inr key \<Rightarrow>
     case r_ext (rd_now D) s of (now, s) \<Rightarrow>
     case dedup_lookup (rd_dedupTtl D) now key (r_dedup s) of (duplicate, entries) \<Rightarrow>
     if hook_set duplicate then
       (Inl (RelayError DUPLICATE_TX (''Duplicate transaction on chain '' @ show_int (rq_chainId q) @
          '' (already submitted as '' @ the duplicate @ '')'')),
        bump (''submitFail.'' @ selector_name selector @ ''.DUPLICATE_TX'') (s\<lparr>r_dedup := entries\<rparr>))
     else broadcast D q selector gasEstimate key (s\<lparr>r_dedup := entries\<rparr>))"

definition pipeline :: "'w relay_deps \<Rightarrow> relay_request \<Rightarrow> ('w, string) relay_act" where
  "pipeline D q s =
     (case pipeline_checks D q s of
        (Inl e, s) \<Rightarrow> (Inl e, s)
      | (Inr selector, s) \<Rightarrow>
          with_lock (r_ext (rd_tryAcquire D (rq_chainId q)))
            (\<lambda>s. s\<lparr>r_world := rd_release D (rq_chainId q) (r_world s)\<rparr>)
            (RelayError RELAYER_BUSY ''wallet busy on this chain'')
            (pipeline_locked D q selector) s)"

definition relay :: "'w relay_deps \<Rightarrow> relay_request \<Rightarrow> ('w, string) relay_act" where
  "relay D q s =
     (case selectorOf (rd_ethers D) (rq_data q) of
        Inl e \<Rightarrow> (Inl (Thrown e), s)
      | Inr so \<Rightarrow>
          let selector = (case so of None \<Rightarrow> ''unknown'' | Some x \<Rightarrow> x)
          in case pipeline D q s of
               (Inr txHash, s) \<Rightarrow> (Inr txHash, s\<lparr>r_outcomes := r_outcomes s @ [(selector, True, [])]\<rparr>)
             | (Inl err, s) \<Rightarrow>
                 let code = (case err of RelayError c m \<Rightarrow> code_name c | Thrown e \<Rightarrow> ''SUBMISSION_FAILED'')
                 in (Inl err, s\<lparr>r_outcomes := r_outcomes s @ [(selector, False, code)]\<rparr>))"

text \<open>The pipeline on the wallet: the submitter of \<open>main.ts\<close>.\<close>

definition wallet_relay ::
    "'w chain_rpc \<Rightarrow> 'w wallet_world relay_deps \<Rightarrow> 'w wallet_world relay_deps" where
  "wallet_relay R D = D\<lparr>
     rd_tryAcquire := tryAcquire,
     rd_release := release,
     rd_estimateGas := (\<lambda>chainId to data W.
       if \<not> configured R chainId then (Inl (''no provider configured for chain '' @ show_int chainId), W)
       else lift_net (rpc_estimateGas R chainId to data) W),
     rd_submit := (\<lambda>chainId to data gasLimit. wallet_submit R chainId to data (Some gasLimit))\<rparr>"

section \<open>The lock\<close>

text \<open>A lock on the world is a lock on the state of the pipeline.\<close>

locale relay_lock = chain_lock

sublocale relay_lock \<subseteq> lifted: chain_lock "\<lambda>c. r_ext (acquire c)"
    "\<lambda>c s. s\<lparr>r_world := unlock c (r_world s)\<rparr>" "\<lambda>s. held (r_world s)"
proof
  fix c :: int and s :: "'a relay_state"
  show "fst (r_ext (acquire c) s) \<and> held (r_world (snd (r_ext (acquire c) s))) = insert c (held (r_world s))"
    if "c \<notin> held (r_world s)"
    using acquire_free [OF that] by (cases "acquire c (r_world s)") (simp add: r_ext_def)
  show "r_ext (acquire c) s = (False, s)" if "c \<in> held (r_world s)"
    using acquire_busy [OF that] by (simp add: r_ext_def)
  show "held (r_world (s\<lparr>r_world := unlock c (r_world s)\<rparr>)) = held (r_world s) - {c}"
    by (simp add: unlock_held)
qed

interpretation wl: relay_lock tryAcquire release busy
  by unfold_locales

lemma fst_r_ext: "fst (r_ext f s) = fst (f (r_world s))"
  by (simp add: r_ext_def split: prod.splits)

lemma world_r_ext [simp]: "r_world (snd (r_ext f s)) = snd (f (r_world s))"
  by (simp add: r_ext_def split: prod.splits)

lemma world_bump [simp]: "r_world (bump k s) = r_world s" "r_dedup (bump k s) = r_dedup s"
  by (simp_all add: bump_def)

lemma r_ext_eq: "r_ext f s = (r, s') \<longleftrightarrow> (\<exists>w. f (r_world s) = (r, w) \<and> s' = s\<lparr>r_world := w\<rparr>)"
  by (auto simp: r_ext_def split: prod.splits)

text \<open>A quantity of the world that every dependency keeps is kept by the checks, and by the locked part.\<close>

lemma verify_fee_keeps:
  assumes "\<And>x w. h (snd (nc_extract (rd_notes D) x w)) = h w"
  shows "h (r_world (snd (verify_fee D q selector adv s))) = h (r_world s)"
proof -
  have "h (snd (verifyBroadcasterFee E A (rd_notes D) data adv w)) = h w" for E A data w
    using assms
    by (simp add: verifyBroadcasterFee_def Let_def split: sum.splits relay_exn.splits prod.splits)
      (metis snd_conv)
  then show ?thesis by (simp add: verify_fee_def split: prod.splits) (metis snd_conv world_r_ext)
qed

lemma verify_fee_dedup: "r_dedup (snd (verify_fee D q selector adv s)) = r_dedup s"
  by (auto simp: verify_fee_def r_ext_def split: prod.splits)

lemma checks_keep:
  assumes "\<And>x w. h (snd (nc_extract (rd_notes D) x w)) = h w" and "\<And>w. h (snd (rd_now D w)) = h w"
  shows "h (r_world (snd (pipeline_checks D q s))) = h (r_world s)"
proof -
  have v: "h (r_world s') = h (r_world s)"
    if "verify_fee D q selector adv (snd (r_ext (rd_now D) s)) = (r, s')" for selector adv r s'
    using verify_fee_keeps [where h = h, OF assms(1), of q selector adv "snd (r_ext (rd_now D) s)"] that assms(2) by simp
  obtain now s1 where now: "r_ext (rd_now D) s = (now, s1)" by fastforce
  have "h (r_world s1) = h (r_world s)" using assms(2) world_r_ext [of "rd_now D" s] now by simp
  with v show ?thesis
    by (auto simp: pipeline_checks_def now Let_def split: option.splits sum.splits prod.splits relay_exn.splits)
qed

lemma r_ext_keeps:
  assumes "\<And>w. h (snd (f w)) = h w" and "r_ext f s = (r, s')"
  shows "h (r_world s') = h (r_world s)"
  using assms(1) [of "r_world s"] assms(2) world_r_ext [of f s] by simp

lemma broadcast_keeps:
  assumes "\<And>w. h (snd (rd_now D w)) = h w" and "\<And>c to data g w. h (snd (rd_submit D c to data g w)) = h w"
  shows "h (r_world (snd (broadcast D q selector gas key s))) = h (r_world s)"
proof -
  obtain g where g: "bigint_div (gas * 120) 100 = Inr g" by (simp add: bigint_div_def)
  obtain r s1 where sub: "r_ext (rd_submit D (rq_chainId q) (rq_to q) (rq_data q) g) s = (r, s1)" by fastforce
  obtain now s2 where now: "r_ext (rd_now D) s1 = (now, s2)" by fastforce
  have "h (r_world s1) = h (r_world s)" "h (r_world s2) = h (r_world s1)"
    using r_ext_keeps [where h = h, OF assms(2) sub] r_ext_keeps [where h = h, OF assms(1) now] by simp_all
  then show ?thesis by (cases r) (simp_all add: broadcast_def g sub now bump_def)
qed

lemma locked_keeps:
  assumes "\<And>w. h (snd (rd_now D w)) = h w" and "\<And>c to data w. h (snd (rd_estimateGas D c to data w)) = h w"
    and "\<And>c to data g w. h (snd (rd_submit D c to data g w)) = h w"
  shows "h (r_world (snd (pipeline_locked D q selector s))) = h (r_world s)"
proof -
  obtain r s1 where est: "r_ext (rd_estimateGas D (rq_chainId q) (rq_to q) (rq_data q)) s = (r, s1)" by fastforce
  obtain now s2 where now: "r_ext (rd_now D) s1 = (now, s2)" by fastforce
  have k: "h (r_world s1) = h (r_world s)" "h (r_world s2) = h (r_world s1)"
    using r_ext_keeps [where h = h, OF assms(2) est] r_ext_keeps [where h = h, OF assms(1) now] by simp_all
  note b = broadcast_keeps [where h = h, OF assms(1,3)]
  show ?thesis
  proof (cases r)
    case (Inl e)
    then show ?thesis using k by (simp add: pipeline_locked_def est)
  next
    case (Inr gas)
    then show ?thesis
      using k b by (simp add: pipeline_locked_def est now bump_def split: sum.splits prod.splits)
  qed
qed

lemma busy_withNonce:
  assumes "\<And>n W. busy (snd (fn n W)) = busy W"
  shows "busy (snd (withNonce R c fn W)) = busy W"
proof -
  have seed: "busy W' = busy W" if "lift_net f W = (r, W')" for f r W W'
    using that by (auto simp: lift_net_def split: prod.splits)
  have fn: "busy W' = busy W" if "fn n W = (r, W')" for n r W W'
    using assms [of n W] that by simp
  show ?thesis
    by (auto simp: withNonce_def split: option.splits sum.splits prod.splits dest!: seed fn)
qed

lemma busy_lift [simp]: "busy (snd (lift_net f W)) = busy W"
  by (simp add: lift_net_def split: prod.splits)

lemma busy_submit: "busy (snd (wallet_submit R c to data g W)) = busy W"
  by (simp add: wallet_submit_def busy_withNonce)

lemma relay_eq:
  "fst (relay D q s) = (case selectorOf (rd_ethers D) (rq_data q) of
     Inl e \<Rightarrow> Inl (Thrown e) | Inr so \<Rightarrow> fst (pipeline D q s))"
  "r_world (snd (relay D q s)) = (case selectorOf (rd_ethers D) (rq_data q) of
     Inl e \<Rightarrow> r_world s | Inr so \<Rightarrow> r_world (snd (pipeline D q s)))"
  "r_dedup (snd (relay D q s)) = (case selectorOf (rd_ethers D) (rq_data q) of
     Inl e \<Rightarrow> r_dedup s | Inr so \<Rightarrow> r_dedup (snd (pipeline D q s)))"
  by (cases "pipeline D q s"; cases "fst (pipeline D q s)";
      simp add: relay_def Let_def split: sum.splits)+

text \<open>A relay depends on its dependencies through the pipeline.\<close>

lemma relay_cong:
  "rd_ethers D' = rd_ethers D \<Longrightarrow> pipeline D' q s = pipeline D q s \<Longrightarrow> relay D' q s = relay D q s"
  by (cases "selectorOf (rd_ethers D) (rq_data q)") (simp_all add: relay_def)

text \<open>What the submitter is does not matter before the lock.\<close>

lemma wallet_relay_fields:
  "rd_allowedTargets (wallet_relay R D) = rd_allowedTargets D"
  "rd_fee_opts (wallet_relay R D) = rd_fee_opts D"
  "rd_ethers (wallet_relay R D) = rd_ethers D"
  "rd_abi (wallet_relay R D) = rd_abi D"
  "rd_wrappersByChain (wallet_relay R D) = rd_wrappersByChain D"
  "rd_deriver (wallet_relay R D) = rd_deriver D"
  "rd_notes (wallet_relay R D) = rd_notes D"
  "rd_hash (wallet_relay R D) = rd_hash D"
  "rd_dedupTtl (wallet_relay R D) = rd_dedupTtl D"
  "rd_now (wallet_relay R D) = rd_now D"
  by (simp_all add: wallet_relay_def)

lemma submit_fields:
  "rd_allowedTargets (D\<lparr>rd_submit := f\<rparr>) = rd_allowedTargets D"
  "rd_fee_opts (D\<lparr>rd_submit := f\<rparr>) = rd_fee_opts D"
  "rd_ethers (D\<lparr>rd_submit := f\<rparr>) = rd_ethers D"
  "rd_abi (D\<lparr>rd_submit := f\<rparr>) = rd_abi D"
  "rd_wrappersByChain (D\<lparr>rd_submit := f\<rparr>) = rd_wrappersByChain D"
  "rd_deriver (D\<lparr>rd_submit := f\<rparr>) = rd_deriver D"
  "rd_notes (D\<lparr>rd_submit := f\<rparr>) = rd_notes D"
  "rd_hash (D\<lparr>rd_submit := f\<rparr>) = rd_hash D"
  "rd_dedupTtl (D\<lparr>rd_submit := f\<rparr>) = rd_dedupTtl D"
  "rd_now (D\<lparr>rd_submit := f\<rparr>) = rd_now D"
  "rd_tryAcquire (D\<lparr>rd_submit := f\<rparr>) = rd_tryAcquire D"
  "rd_release (D\<lparr>rd_submit := f\<rparr>) = rd_release D"
  "rd_estimateGas (D\<lparr>rd_submit := f\<rparr>) = rd_estimateGas D"
  by simp_all

lemma checks_wallet: "pipeline_checks (wallet_relay R D) q s = pipeline_checks D q s"
  unfolding pipeline_checks_def verify_fee_def wallet_relay_fields ..

lemma checks_submit: "pipeline_checks (D\<lparr>rd_submit := f\<rparr>) q s = pipeline_checks D q s"
  unfolding pipeline_checks_def verify_fee_def submit_fields ..

text \<open>C35: One relay at a time per chain, and the lock is never left behind. A request for a chain that is
  busy makes no gas query and no broadcast, and does not succeed; and after any request, whatever it
  returned or threw, the wallet's busy chains are what they were before, provided the clock and the note
  decryption do not touch the lock.\<close>

theorem lock_always_released:
  assumes "\<And>w. busy (snd (rd_now D w)) = busy w" and "\<And>x w. busy (snd (nc_extract (rd_notes D) x w)) = busy w"
  shows "busy (r_world (snd (relay (wallet_relay R D) q s))) = busy (r_world s)
    \<and> (rq_chainId q \<in> busy (r_world s) \<longrightarrow>
        (\<exists>e. fst (relay (wallet_relay R D) q s) = Inl e)
        \<and> (\<forall>R'. relay (wallet_relay R' D) q s = relay (wallet_relay R D) q s))"
proof -
  let ?D = "wallet_relay R D" and ?c = "rq_chainId q"
  have checks: "busy (r_world (snd (pipeline_checks D' q s))) = busy (r_world s)" if "D' = wallet_relay R' D" for R' D'
    using checks_keep [where h = busy and D = D'] assms that by (simp add: wallet_relay_def)
  have body: "busy (r_world (snd (pipeline_locked ?D q sel s))) = busy (r_world s)" for sel s
  proof (rule locked_keeps [where h = busy])
    show "busy (snd (rd_now ?D w)) = busy w" for w using assms(1) by (simp add: wallet_relay_def)
    show "busy (snd (rd_estimateGas ?D c to data w)) = busy w" for c to data w by (simp add: wallet_relay_def)
    show "busy (snd (rd_submit ?D c to data g w)) = busy w" for c to data g w
      by (simp add: wallet_relay_def busy_submit)
  qed
  obtain r s1 where ck: "pipeline_checks D q s = (r, s1)" by fastforce
  have b1: "busy (r_world s1) = busy (r_world s)" using checks [of ?D R] ck by (simp add: checks_wallet)
  have pl: "pipeline (wallet_relay R' D) q s = (case r of Inl e \<Rightarrow> (Inl e, s1)
      | Inr selector \<Rightarrow> with_lock (r_ext (tryAcquire ?c)) (\<lambda>s. s\<lparr>r_world := release ?c (r_world s)\<rparr>)
            (RelayError RELAYER_BUSY ''wallet busy on this chain'') (pipeline_locked (wallet_relay R' D) q selector) s1)"
    for R' using ck
    by (cases r) (simp_all add: pipeline_def checks_wallet, simp_all add: wallet_relay_def)
  have keep: "busy (r_world (snd (pipeline ?D q s))) = busy (r_world s)"
    using pl [of R] b1 wl.lifted.section_restores [of ?c, OF body] by (cases r) simp_all
  have cong: "relay (wallet_relay R' D) q s = relay ?D q s"
    if "pipeline (wallet_relay R' D) q s = pipeline ?D q s" for R'
    using that by (intro relay_cong) (simp_all add: wallet_relay_fields)
  have fails: "\<exists>e. fst (pipeline ?D q s) = Inl e"
    and alike: "pipeline (wallet_relay R' D) q s = pipeline ?D q s" if "?c \<in> busy (r_world s)" for R'
  proof -
    have "?c \<in> busy (r_world s1)" using that b1 by simp
    then show "\<exists>e. fst (pipeline ?D q s) = Inl e" "pipeline (wallet_relay R' D) q s = pipeline ?D q s"
      by (cases r; simp add: pl wl.lifted.section_busy)+
  qed
  show ?thesis
  proof (cases "selectorOf (rd_ethers ?D) (rq_data q)")
    case (Inl e)
    have "relay (wallet_relay R' D) q s = (Inl (Thrown e), s)" for R'
      using Inl by (simp add: relay_def wallet_relay_fields)
    then show ?thesis by simp
  next
    case (Inr so)
    have "fst (relay ?D q s) = fst (pipeline ?D q s)"
        "busy (r_world (snd (relay ?D q s))) = busy (r_world s)"
      using keep by (simp_all only: relay_eq Inr sum.case)
    then show ?thesis using fails cong [OF alike] by metis
  qed
qed

section \<open>Nothing is broadcast unpaid\<close>

text \<open>What step 5 must have established: a note of at least the advertised fee that is the relayer's, by
  its key on the shielded-note paths, by decryption on the others.\<close>

definition fee_paid :: "'w relay_deps \<Rightarrow> relay_request \<Rightarrow> string \<Rightarrow> int \<Rightarrow> 'w \<Rightarrow> bool" where
  "fee_paid D q selector adv w \<longleftrightarrow>
     (if selector = SELECTOR_GASLESS_SHIELD then
        (\<exists>random npk reqs r. feeShieldRandom q = Some random \<and> rd_deriver D random = Inr npk
           \<and> decode_gaslessShield (rd_abi D) (rq_data q) = Inr reqs
           \<and> r \<in> set reqs \<and> sr_npk r = npk \<and> adv \<le> sr_value r)
      else if selector = SELECTOR_GASLESS_XCHAIN_SHIELD then
        (\<exists>random npk userNote v. feeShieldRandom q = Some random \<and> rd_deriver D random = Inr npk
           \<and> decode_gaslessCrossChainShield (rd_abi D) (rq_data q) = Inr (userNote, npk, v) \<and> adv \<le> v)
      else if selector = SELECTOR_REDEEM_AND_SHIELD then
        (\<exists>random npk v. feeShieldRandom q = Some random \<and> rd_deriver D random = Inr npk
           \<and> decode_redeemAndShield (rd_abi D) (rq_data q) = Inr (npk, v) \<and> adv \<le> v)
      else (\<exists>call amounts. normaliseRequestToVanillaTransact (rd_ethers D) (rd_abi D) (rq_data q) (nc_pool (rd_notes D)) = Inr call
           \<and> fst (nc_extract (rd_notes D) call w) = Inr amounts
           \<and> adv \<le> paid_amount (nc_usdc (rd_notes D)) amounts))"

definition admitted :: "'w relay_deps \<Rightarrow> relay_request \<Rightarrow> 'w relay_state \<Rightarrow> string \<Rightarrow> bool" where
  "admitted D q s selector \<longleftrightarrow>
     (\<exists>allowed. rd_allowedTargets D (rq_chainId q) = Some allowed \<and> to_lower (rq_to q) \<in> allowed)
     \<and> selectorOf (rd_ethers D) (rq_data q) = Inr (Some selector) \<and> selector \<in> set ALLOWED_SELECTORS
     \<and> (\<exists>schedule keys adv.
          resolve (rd_fee_opts D) (fst (rd_now D (r_world s))) (rq_chainId q) (feesCacheId q) (r_fees s) = Some schedule
          \<and> advertisedFeeKeys selector = Inr keys \<and> advertisedFee schedule keys = Inr adv
          \<and> fee_paid D q selector adv (snd (rd_now D (r_world s))))"

lemma hook_set_Some: "hook_set x \<Longrightarrow> x = Some (the x)"
  by (cases x) (simp_all add: hook_set_def)

lemma gasless_paid:
  assumes "verifyGaslessFee A wrappers deriver c to data adv random = Inr u"
  shows "\<exists>r npk v. random = Some r \<and> deriver r = Inr npk
    \<and> extractFeeNoteValue A (to_lower (js_slice 0 10 data)) data npk = Inr (Some v) \<and> adv \<le> v"
  using assms
  by (auto simp: verifyGaslessFee_def derive_npk_def dest: hook_set_Some
      split: if_splits sum.splits option.splits)

lemma redeem_paid:
  assumes "verifyRedeemFee A deriver data adv random = Inr u"
  shows "\<exists>r npk v. random = Some r \<and> deriver r = Inr npk
    \<and> decode_redeemAndShield A data = Inr (npk, v) \<and> adv \<le> v"
  using assms
  by (auto simp: verifyRedeemFee_def derive_npk_def dest: hook_set_Some
      split: if_splits sum.splits prod.splits)

lemma broadcaster_paid:
  assumes "fst (verifyBroadcasterFee E A ctx data adv w) = Inr u"
  shows "\<exists>call amounts. normaliseRequestToVanillaTransact E A data (nc_pool ctx) = Inr call
    \<and> fst (nc_extract ctx call w) = Inr amounts \<and> adv \<le> paid_amount (nc_usdc ctx) amounts"
  using assms
  by (auto simp: verifyBroadcasterFee_def Let_def split: if_splits sum.splits prod.splits relay_exn.splits)

text \<open>The two readings of the selector, by bytes and by text, agree.\<close>

lemma selector_text:
  assumes "ethers_ok E" "selectorOf E data = Inr (Some s)"
  shows "s = to_lower (js_slice 0 10 data)" and "is_data_hex data"
proof -
  have hex: "is_data_hex data"
    using assms by (auto simp: selectorOf_def ethers_ok_def split: if_splits sum.splits)
  then show "is_data_hex data" .
  let ?h = "strip0x data"
  have d: "data = ''0x'' @ ?h" "list_all is_hex_char ?h" "even (length ?h)" using data_hex_strip [OF hex] by simp_all
  have len: "10 \<le> length data" using assms(2) by (simp add: selectorOf_def split: if_splits)
  then have 8: "8 \<le> length ?h" using data_hex_strip [OF hex] by linarith
  have "drop 2 data = ?h" using hex by (simp add: strip0x_def is_data_hex_def)
  then have b: "getBytes E data = Inr (hex_to_bytes ?h)" using assms(1) hex by (simp add: ethers_ok_def)
  have "dataSlice E (hex_to_bytes ?h) 0 4 = ''0x'' @ bytes_to_hex (js_slice 0 4 (hex_to_bytes ?h))"
    using assms(1) 8 by (simp add: ethers_ok_def)
  also have "\<dots> = ''0x'' @ to_lower (js_slice 0 8 ?h)"
    using d(2) 8 by (simp add: slice_hex_to_bytes bytes_to_hex_to_bytes all_hex_slice)
  finally have "s = to_lower (''0x'' @ to_lower (js_slice 0 8 ?h))"
    using assms(2) b by (simp add: selectorOf_def split: if_splits)
  also have "\<dots> = to_lower (''0x'' @ js_slice 0 8 ?h)" by (simp only: to_lower_0x to_lower_idem)
  also have "''0x'' @ js_slice 0 8 ?h = js_slice 0 10 data"
    by (subst (2) d(1)) (simp add: js_slice_def)
  finally show "s = to_lower (js_slice 0 10 data)" .
qed

lemma verify_fee_paid:
  assumes "ethers_ok (rd_ethers D)" "selectorOf (rd_ethers D) (rq_data q) = Inr (Some selector)"
    and "fst (verify_fee D q selector adv s) = Inr u"
  shows "fee_paid D q selector adv (r_world s)"
proof -
  have sel: "to_lower (js_slice 0 10 (rq_data q)) = selector" using selector_text [OF assms(1,2)] by simp
  show ?thesis
  proof (cases "selector \<in> set GASLESS_SELECTORS")
    case True
    then have "verifyGaslessFee (rd_abi D) (rd_wrappersByChain D) (rd_deriver D) (rq_chainId q) (rq_to q)
        (rq_data q) adv (feeShieldRandom q) = Inr u"
      using assms(3) by (simp add: verify_fee_def)
    from gasless_paid [OF this] obtain r npk v where
      v: "feeShieldRandom q = Some r" "rd_deriver D r = Inr npk"
        "extractFeeNoteValue (rd_abi D) selector (rq_data q) npk = Inr (Some v)" "adv \<le> v"
      by (auto simp: sel)
    have "selector = SELECTOR_GASLESS_SHIELD \<or> selector = SELECTOR_GASLESS_XCHAIN_SHIELD"
      using True by (simp add: GASLESS_SELECTORS_def)
    then show ?thesis
    proof
      assume s: "selector = SELECTOR_GASLESS_SHIELD"
      then obtain reqs n where "decode_gaslessShield (rd_abi D) (rq_data q) = Inr reqs"
          "List.find (\<lambda>r. sr_npk r = npk) reqs = Some n" "sr_value n = v"
        using v(3) by (auto simp: extractFeeNoteValue_def split: sum.splits)
      then have "decode_gaslessShield (rd_abi D) (rq_data q) = Inr reqs" "n \<in> set reqs" "sr_npk n = npk" "adv \<le> sr_value n"
        using v(4) by (auto simp: find_Some_iff)
      then show ?thesis using s v(1,2) unfolding fee_paid_def by auto
    next
      assume s: "selector = SELECTOR_GASLESS_XCHAIN_SHIELD"
      then obtain un where "decode_gaslessCrossChainShield (rd_abi D) (rq_data q) = Inr (un, npk, v)"
        using v(3) by (auto simp: extractFeeNoteValue_def selector_defs split: sum.splits if_splits)
      then show ?thesis using s v unfolding fee_paid_def by (simp add: selector_defs)
    qed
  next
    case False
    show ?thesis
    proof (cases "selector = SELECTOR_REDEEM_AND_SHIELD")
      case True
      then have "\<exists>u. verifyRedeemFee (rd_abi D) (rd_deriver D) (rq_data q) adv (feeShieldRandom q) = Inr u"
        using assms(3) False
        by (cases "verifyRedeemFee (rd_abi D) (rd_deriver D) (rq_data q) adv (feeShieldRandom q)")
          (simp_all add: verify_fee_def)
      then show ?thesis using redeem_paid True unfolding fee_paid_def by (fastforce simp: selector_defs)
    next
      case other: False
      then have "\<exists>u. fst (verifyBroadcasterFee (rd_ethers D) (rd_abi D) (rd_notes D) (rq_data q) adv (r_world s)) = Inr u"
        using assms(3) False
        by (cases "fst (verifyBroadcasterFee (rd_ethers D) (rd_abi D) (rd_notes D) (rq_data q) adv (r_world s))")
          (auto simp: verify_fee_def r_ext_def split: prod.splits)
      then show ?thesis using broadcaster_paid False other
        unfolding fee_paid_def by (fastforce simp: GASLESS_SELECTORS_def)
    qed
  qed
qed

lemma checks_passed:
  assumes "ethers_ok (rd_ethers D)" and "pipeline_checks D q s = (Inr selector, s')"
  shows "admitted D q s selector"
proof -
  obtain now s1 where now: "r_ext (rd_now D) s = (now, s1)" by fastforce
  then have n: "now = fst (rd_now D (r_world s))" "r_world s1 = snd (rd_now D (r_world s))" "r_fees s1 = r_fees s"
    by (auto simp: r_ext_def split: prod.splits)
  from assms(2) obtain allowed schedule keys adv u where
      a: "rd_allowedTargets D (rq_chainId q) = Some allowed" "to_lower (rq_to q) \<in> allowed"
      "resolve (rd_fee_opts D) now (rq_chainId q) (feesCacheId q) (r_fees s1) = Some schedule"
      "selectorOf (rd_ethers D) (rq_data q) = Inr (Some selector)" "selector \<in> set ALLOWED_SELECTORS"
      "advertisedFeeKeys selector = Inr keys" "advertisedFee schedule keys = Inr adv"
      "fst (verify_fee D q selector adv s1) = Inr u"
    by (auto simp: pipeline_checks_def now split: option.splits if_splits sum.splits prod.splits relay_exn.splits)
  have "fee_paid D q selector adv (r_world s1)" by (rule verify_fee_paid [OF assms(1) a(4,8)])
  then show ?thesis using a n by (auto simp: admitted_def)
qed

lemma checks_dedup: "pipeline_checks D q s = (r, s') \<Longrightarrow> r_dedup s' = r_dedup s"
proof -
  have v: "r_dedup s2 = r_dedup s1" if "verify_fee D q selector adv s1 = (r, s2)" for selector adv s1 r s2
    using verify_fee_dedup [of D q selector adv s1] that by simp
  obtain now s1 where now: "r_ext (rd_now D) s = (now, s1)" by fastforce
  then have "r_dedup s1 = r_dedup s" by (auto simp: r_ext_def split: prod.splits)
  then show "pipeline_checks D q s = (r, s') \<Longrightarrow> r_dedup s' = r_dedup s"
    by (auto simp: pipeline_checks_def now dest: v split: option.splits if_splits sum.splits prod.splits relay_exn.splits)
qed

text \<open>What the locked part needs before it broadcasts: a gas estimate and no live entry of the same call.\<close>

definition not_duplicate :: "'w relay_deps \<Rightarrow> relay_request \<Rightarrow> int \<Rightarrow> dedup_cache \<Rightarrow> bool" where
  "not_duplicate D q now entries \<longleftrightarrow>
     (\<exists>key. dedup_key (rd_hash D) (rq_chainId q) (rq_to q) (rq_data q) = Inr key
        \<and> (\<forall>e. entries key = Some e \<longrightarrow> de_txHash e = [] \<or> rd_dedupTtl D < now - de_timestamp e))"

lemma locked_submits:
  assumes "pipeline_locked (D\<lparr>rd_submit := f\<rparr>) q selector s \<noteq> pipeline_locked D q selector s"
  shows "\<exists>gas w. rd_estimateGas D (rq_chainId q) (rq_to q) (rq_data q) (r_world s) = (Inr gas, w)
    \<and> not_duplicate D q (fst (rd_now D w)) (r_dedup s)"
proof -
  obtain r w where est: "rd_estimateGas D (rq_chainId q) (rq_to q) (rq_data q) (r_world s) = (r, w)" by fastforce
  obtain now w' where now: "rd_now D w = (now, w')" by fastforce
  obtain k where k: "dedup_key (rd_hash D) (rq_chainId q) (rq_to q) (rq_data q) = k" by blast
  show ?thesis
  proof (cases r)
    case (Inl e)
    then show ?thesis using assms by (simp add: pipeline_locked_def r_ext_def est)
  next
    case (Inr gas)
    show ?thesis
    proof (cases k)
      case (Inl e)
      then show ?thesis using assms k Inr by (simp add: pipeline_locked_def r_ext_def est)
    next
      case key: (Inr key)
      have "\<not> hook_set (fst (dedup_lookup (rd_dedupTtl D) now key (r_dedup s)))"
      proof
        assume h: "hook_set (fst (dedup_lookup (rd_dedupTtl D) now key (r_dedup s)))"
        obtain dup entries where "dedup_lookup (rd_dedupTtl D) now key (r_dedup s) = (dup, entries)" by fastforce
        then show False using assms h k Inr key by (simp add: pipeline_locked_def r_ext_def est now)
      qed
      then show ?thesis
        using Inr est now k key
        by (auto simp: not_duplicate_def dedup_lookup_def hook_set_def split: option.splits if_splits list.splits)
    qed
  qed
qed

lemma relay_reaches_submit:
  assumes "ethers_ok (rd_ethers D)" and "relay (D\<lparr>rd_submit := f\<rparr>) q s \<noteq> relay D q s"
  shows "\<exists>selector s1 w. admitted D q s selector
    \<and> pipeline_checks D q s = (Inr selector, s1)
    \<and> rd_tryAcquire D (rq_chainId q) (r_world s1) = (True, w)
    \<and> (\<exists>gas w'. rd_estimateGas D (rq_chainId q) (rq_to q) (rq_data q) w = (Inr gas, w')
         \<and> not_duplicate D q (fst (rd_now D w')) (r_dedup s))"
proof -
  have "pipeline (D\<lparr>rd_submit := f\<rparr>) q s \<noteq> pipeline D q s"
    using assms(2) relay_cong [of "D\<lparr>rd_submit := f\<rparr>" D q s] by auto
  moreover obtain r s1 where ck: "pipeline_checks D q s = (r, s1)" by fastforce
  ultimately obtain selector where r: "r = Inr selector"
    by (cases r) (auto simp: pipeline_def checks_submit)
  obtain ok w where acq: "rd_tryAcquire D (rq_chainId q) (r_world s1) = (ok, w)" by fastforce
  have diff: "with_lock (r_ext (rd_tryAcquire D (rq_chainId q))) u e (pipeline_locked (D\<lparr>rd_submit := f\<rparr>) q selector) s1
      \<noteq> with_lock (r_ext (rd_tryAcquire D (rq_chainId q))) u e (pipeline_locked D q selector) s1"
    if "u = (\<lambda>s. s\<lparr>r_world := rd_release D (rq_chainId q) (r_world s)\<rparr>)"
      "e = RelayError RELAYER_BUSY ''wallet busy on this chain''" for u e
    using \<open>pipeline _ q s \<noteq> _\<close> that by (simp add: pipeline_def checks_submit ck r)
  then have ok and "pipeline_locked (D\<lparr>rd_submit := f\<rparr>) q selector (s1\<lparr>r_world := w\<rparr>)
      \<noteq> pipeline_locked D q selector (s1\<lparr>r_world := w\<rparr>)"
    using acq by (cases ok; auto simp: with_lock_def r_ext_def)+
  with locked_submits [OF this(2)] show ?thesis
    using checks_passed [OF assms(1)] ck r acq checks_dedup [OF ck] by auto
qed

text \<open>C12: Nothing is broadcast that was not checked and paid for. If what a request does depends on the
  submitter at all, then its target is on the chain's allowlist, its selector is allowed, its quote
  resolves for this chain at this time, it pays the advertised fee of that quote to the relayer (a
  shielded note with the relayer's key, or a decrypted broadcaster output), the chain was free, gas
  estimation succeeded, and the same call has not been broadcast within the deduplication window.\<close>

theorem broadcast_only_when_paid:
  assumes "ethers_ok (rd_ethers D)" and "relay (D\<lparr>rd_submit := f\<rparr>) q s \<noteq> relay D q s"
  shows "\<exists>selector s1 w. admitted D q s selector
    \<and> pipeline_checks D q s = (Inr selector, s1)
    \<and> rd_tryAcquire D (rq_chainId q) (r_world s1) = (True, w)
    \<and> (\<exists>gas w'. rd_estimateGas D (rq_chainId q) (rq_to q) (rq_data q) w = (Inr gas, w')
         \<and> not_duplicate D q (fst (rd_now D w')) (r_dedup s))"
  by (rule relay_reaches_submit [OF assms])

definition demo_quote_state :: fee_state where
  "demo_quote_state = \<lparr>fc_counter = 1, byChain = (\<lambda>c. if c = 7 then Some \<lparr>
     slot_current = Some \<lparr>cacheId = ''q'', expiresAt = 1000, fs_chainId = 7, fs_broadcaster = ''0zk'',
       fees = [(CrossContract, ''20000'')]\<rparr>, slot_previous = None\<rparr> else None)\<rparr>"

definition demo_relay :: "'w relay_deps" where
  "demo_relay = \<lparr>
     rd_allowedTargets = (\<lambda>c. if c = 7 then Some {''0xaa''} else None),
     rd_fee_opts = fd_opts demo_fees, rd_ethers = ref_ethers,
     rd_abi = \<lparr>decode_gaslessShield = (\<lambda>d. Inr []), decode_gaslessCrossChainShield = (\<lambda>d. Inr ((0, 0), (0, 0))),
       decode_redeemAndShield = (\<lambda>d. Inr (5, 25000)), parse_wrapper = (\<lambda>d. Inr None), encode_transact = (\<lambda>t. Inr t)\<rparr>,
     rd_wrappersByChain = (\<lambda>c. None), rd_deriver = (\<lambda>r. Inr 5),
     rd_notes = \<lparr>nc_extract = (\<lambda>c w. (Inr [], w)), nc_pool = ''0xbb'', nc_usdc = ''0xcc''\<rparr>,
     rd_hash = (\<lambda>to d. Inr (to @ d)), rd_dedupTtl = DEDUP_TTL_MS, rd_now = (\<lambda>w. (500, w)),
     rd_tryAcquire = (\<lambda>c w. (True, w)), rd_release = (\<lambda>c w. w),
     rd_estimateGas = (\<lambda>c to d w. (Inr 100000, w)), rd_submit = (\<lambda>c to d g w. (Inr ''0xdd'', w))\<rparr>"

definition demo_request :: relay_request where
  "demo_request = \<lparr>rq_chainId = 7, rq_to = ''0xAA'', rq_data = ''0x7e220759'', feesCacheId = ''q'',
     feeShieldRandom = Some ''r''\<rparr>"

definition demo_relay_state :: "unit relay_state" where
  "demo_relay_state = \<lparr>r_fees = demo_quote_state, r_dedup = (\<lambda>k. None), r_counters = [], r_outcomes = [], r_world = ()\<rparr>"

lemma demo_selector: "selectorOf ref_ethers ''0x7e220759'' = Inr (Some SELECTOR_REDEEM_AND_SHIELD)"
  by code_simp

lemma demo_quote_resolves:
  "resolve (fd_opts demo_fees) 500 7 ''q'' demo_quote_state =
    Some \<lparr>cacheId = ''q'', expiresAt = 1000, fs_chainId = 7, fs_broadcaster = ''0zk'', fees = [(CrossContract, ''20000'')]\<rparr>"
  by (simp add: resolve_def demo_quote_state_def accepts_def demo_ttl)

lemma demo_fields:
  "rd_allowedTargets demo_relay 7 = Some {''0xaa''}" "rd_fee_opts demo_relay = fd_opts demo_fees"
  "rd_ethers demo_relay = ref_ethers" "rd_dedupTtl demo_relay = DEDUP_TTL_MS"
  "rd_now demo_relay w = (500, w)" "rd_tryAcquire demo_relay c w = (True, w)" "rd_release demo_relay c w = w"
  "rd_estimateGas demo_relay c to d w = (Inr 100000, w)" "rd_submit demo_relay c to d g w = (Inr ''0xdd'', w)"
  "rd_hash demo_relay to d = Inr (to @ d)" "rd_deriver demo_relay r = Inr 5"
  "decode_redeemAndShield (rd_abi demo_relay) d = Inr (5, 25000)"
  "rq_chainId demo_request = 7" "rq_to demo_request = ''0xAA''" "rq_data demo_request = ''0x7e220759''"
  "feesCacheId demo_request = ''q''" "feeShieldRandom demo_request = Some ''r''"
  "r_fees demo_relay_state = demo_quote_state" "r_dedup demo_relay_state = (\<lambda>k. None)"
  "r_world demo_relay_state = ()"
  by (simp_all add: demo_relay_def demo_request_def demo_relay_state_def)

lemma demo_checks: "pipeline_checks demo_relay demo_request demo_relay_state = (Inr SELECTOR_REDEEM_AND_SHIELD, demo_relay_state)"
proof -
  have low: "to_lower ''0xAA'' = ''0xaa''" by code_simp
  have keys: "SELECTOR_REDEEM_AND_SHIELD \<in> set ALLOWED_SELECTORS"
      "advertisedFeeKeys SELECTOR_REDEEM_AND_SHIELD = Inr [CrossContract]"
      "SELECTOR_REDEEM_AND_SHIELD \<notin> set GASLESS_SELECTORS"
    by (code_simp+)
  have fee: "parse_int ''20000'' = 20000" by code_simp
  have ver: "verify_fee demo_relay demo_request SELECTOR_REDEEM_AND_SHIELD 20000 demo_relay_state = (Inr (), demo_relay_state)"
    by (simp add: verify_fee_def keys verifyRedeemFee_def demo_fields hook_set_def derive_npk_def)
  have clock: "r_ext (rd_now demo_relay) demo_relay_state = (500, demo_relay_state)"
    by (simp add: r_ext_def demo_fields)
  show ?thesis
    by (simp add: pipeline_checks_def clock demo_fields low demo_quote_resolves demo_selector keys advertised_one fee ver)
qed

lemma demo_locked:
  "pipeline_locked (demo_relay\<lparr>rd_submit := f\<rparr>) demo_request SELECTOR_REDEEM_AND_SHIELD demo_relay_state
    = broadcast (demo_relay\<lparr>rd_submit := f\<rparr>) demo_request SELECTOR_REDEEM_AND_SHIELD 100000
        (show_int 7 @ ''|'' @ ''0xAA'' @ ''0x7e220759'') demo_relay_state"
  by (simp add: pipeline_locked_def r_ext_def demo_fields dedup_key_def dedup_lookup_def hook_set_def,
      simp add: demo_relay_state_def)

lemma demo_pipeline:
  "pipeline (demo_relay\<lparr>rd_submit := f\<rparr>) demo_request demo_relay_state
    = broadcast (demo_relay\<lparr>rd_submit := f\<rparr>) demo_request SELECTOR_REDEEM_AND_SHIELD 100000
        (show_int 7 @ ''|'' @ ''0xAA'' @ ''0x7e220759'') demo_relay_state"
proof -
  have w: "s\<lparr>r_world := x\<rparr> = s" for s :: "unit relay_state" and x by simp
  show ?thesis
    by (simp add: pipeline_def checks_submit demo_checks with_lock_def r_ext_def demo_fields demo_locked w
        split: prod.splits)
qed

theorem broadcast_only_when_paid_witness:
  "fst (relay demo_relay demo_request demo_relay_state) = Inr ''0xdd''
    \<and> (\<exists>selector. admitted demo_relay demo_request demo_relay_state selector)"
proof -
  let ?f = "\<lambda>c to d g w. (Inl ''down'', w)"
  have same: "demo_relay\<lparr>rd_submit := rd_submit demo_relay\<rparr> = demo_relay" by simp
  have ok: "fst (relay demo_relay demo_request demo_relay_state) = Inr ''0xdd''"
    using demo_pipeline [of "rd_submit demo_relay"]
    by (simp add: relay_eq demo_fields demo_selector same broadcast_def r_ext_def bigint_div_def)
  moreover have "fst (relay (demo_relay\<lparr>rd_submit := ?f\<rparr>) demo_request demo_relay_state) \<noteq> Inr ''0xdd''"
    using demo_pipeline [of ?f]
    by (simp add: relay_eq demo_fields demo_selector broadcast_def r_ext_def bigint_div_def)
  ultimately have "relay (demo_relay\<lparr>rd_submit := ?f\<rparr>) demo_request demo_relay_state
      \<noteq> relay demo_relay demo_request demo_relay_state" by metis
  moreover have "ethers_ok (rd_ethers demo_relay)" by (simp add: demo_fields ref_ethers_ok)
  ultimately show ?thesis using ok broadcast_only_when_paid by blast
qed

theorem lock_always_released_witness:
  "\<exists>e s'. relay (wallet_relay demo_rpc demo_relay) demo_request
      \<lparr>r_fees = demo_quote_state, r_dedup = (\<lambda>k. None), r_counters = [], r_outcomes = [],
        r_world = demo_world\<lparr>busy := {7}\<rparr>\<rparr> = (Inl e, s') \<and> busy (r_world s') = {7}"
proof -
  have "busy (snd (rd_now demo_relay w)) = busy w"
    and "busy (snd (nc_extract (rd_notes demo_relay) x w)) = busy w" for x and w :: "nat wallet_world"
    by (simp_all add: demo_relay_def)
  from lock_always_released [OF this, of demo_rpc demo_request "\<lparr>r_fees = demo_quote_state,
      r_dedup = (\<lambda>k. None), r_counters = [], r_outcomes = [], r_world = demo_world\<lparr>busy := {7}\<rparr>\<rparr>"]
  show ?thesis by (simp add: demo_fields) (metis prod.collapse)
qed

section \<open>Duplicates\<close>

text \<open>Sweeping does not change what a lookup finds at a later time.\<close>

lemma sweep_invisible:
  "t1 \<le> t' \<Longrightarrow> fst (dedup_lookup ttl t' key (dedup_sweep ttl t1 entries)) = fst (dedup_lookup ttl t' key entries)"
  by (auto simp: dedup_lookup_def dedup_sweep_def split: option.splits)

lemma broadcast_records:
  assumes "broadcast D q selector gas key s = (Inr h, s')" and "\<And>w. fst (rd_now D w) = t"
  shows "r_dedup s' key = Some \<lparr>de_txHash = h, de_timestamp = t\<rparr>"
proof -
  obtain g where g: "bigint_div (gas * 120) 100 = Inr g" by (simp add: bigint_div_def)
  obtain r s1 where sub: "r_ext (rd_submit D (rq_chainId q) (rq_to q) (rq_data q) g) s = (r, s1)" by fastforce
  obtain now s2 where now: "r_ext (rd_now D) s1 = (now, s2)" by fastforce
  have "now = t" using now assms(2) [of "r_world s1"] by (auto simp: r_ext_def split: prod.splits)
  then show ?thesis
    using assms(1) by (cases r) (auto simp: broadcast_def g sub now bump_def dedup_record_def)
qed

lemma locked_records:
  assumes "pipeline_locked D q selector s = (Inr h, s')" and "\<And>w. fst (rd_now D w) = t"
    and "dedup_key (rd_hash D) (rq_chainId q) (rq_to q) (rq_data q) = Inr key"
  shows "r_dedup s' key = Some \<lparr>de_txHash = h, de_timestamp = t\<rparr>"
proof -
  obtain r s1 where est: "r_ext (rd_estimateGas D (rq_chainId q) (rq_to q) (rq_data q)) s = (r, s1)" by fastforce
  obtain now s2 where now: "r_ext (rd_now D) s1 = (now, s2)" by fastforce
  obtain dup entries where dup: "dedup_lookup (rd_dedupTtl D) now key (r_dedup s2) = (dup, entries)" by fastforce
  from assms(1) obtain gas where "broadcast D q selector gas key (s2\<lparr>r_dedup := entries\<rparr>) = (Inr h, s')"
    by (cases r) (auto simp: pipeline_locked_def est assms(3) now dup split: if_splits)
  then show ?thesis by (rule broadcast_records [OF _ assms(2)])
qed

lemma pipeline_records:
  assumes "fst (pipeline D q s) = Inr h" and "\<And>w. fst (rd_now D w) = t"
    and "dedup_key (rd_hash D) (rq_chainId q) (rq_to q) (rq_data q) = Inr key"
  shows "r_dedup (snd (pipeline D q s)) key = Some \<lparr>de_txHash = h, de_timestamp = t\<rparr>"
proof -
  obtain r s1 where ck: "pipeline_checks D q s = (r, s1)" by fastforce
  then obtain selector where r: "r = Inr selector" using assms(1) by (cases r) (auto simp: pipeline_def)
  obtain ok s2 where acq: "r_ext (rd_tryAcquire D (rq_chainId q)) s1 = (ok, s2)" by fastforce
  obtain r3 s3 where lk: "pipeline_locked D q selector s2 = (r3, s3)" by fastforce
  have "ok \<and> r3 = Inr h"
    using assms(1) by (cases ok) (simp_all add: pipeline_def ck r with_lock_def acq lk)
  then show ?thesis
    using locked_records [OF _ assms(2,3), of selector s2 h s3] lk by (simp add: pipeline_def ck r with_lock_def acq)
qed

lemma failing_submitter: "\<exists>e. fst (relay (D\<lparr>rd_submit := \<lambda>c to d g w. (Inl x, w)\<rparr>) q s) = Inl e"
proof -
  let ?D = "D\<lparr>rd_submit := \<lambda>c to d g w. (Inl x, w)\<rparr>"
  have b: "\<exists>e. fst (broadcast ?D q selector gas key s) = Inl e" for selector gas key s
    by (simp add: broadcast_def bigint_div_def r_ext_def)
  have l: "\<exists>e. fst (pipeline_locked ?D q selector s) = Inl e" for selector s
    using b by (auto simp: pipeline_locked_def split: sum.splits prod.splits)
  have "\<exists>e. fst (pipeline ?D q s) = Inl e"
  proof -
    obtain r s1 where ck: "pipeline_checks ?D q s = (r, s1)" by fastforce
    obtain ok s2 where acq: "r_ext (rd_tryAcquire ?D (rq_chainId q)) s1 = (ok, s2)" by fastforce
    show ?thesis
    proof (cases r)
      case (Inl e)
      then show ?thesis by (simp add: pipeline_def ck)
    next
      case (Inr selector)
      have acq': "r_ext (rd_tryAcquire D (rq_chainId q)) s1 = (ok, s2)" using acq by simp
      obtain r3 s3 where lk: "pipeline_locked ?D q selector s2 = (r3, s3)" by fastforce
      then have "\<exists>e. r3 = Inl e" using l [of selector s2] by simp
      then show ?thesis using Inr by (cases ok) (auto simp: pipeline_def ck with_lock_def acq' lk)
    qed
  qed
  then show ?thesis by (cases "selectorOf (rd_ethers ?D) (rq_data q)") (simp_all add: relay_eq)
qed

text \<open>C14: A call is broadcast at most once in the deduplication window. After a request has been
  broadcast at time \<open>t\<close>, the same call on the same chain, under whatever quote, is answered with an
  error without reaching the submitter at every time up to \<open>t\<close> plus the window, also when the cache has
  been swept in between.\<close>

theorem duplicate_never_rebroadcast:
  assumes "fst (relay (D\<lparr>rd_now := (\<lambda>w. (t, w))\<rparr>) q s) = Inr h" and "h \<noteq> []"
    and "s1 = snd (relay (D\<lparr>rd_now := (\<lambda>w. (t, w))\<rparr>) q s)"
    and "dedup_key (rd_hash D) (rq_chainId q) (rq_to q) (rq_data q) = Inr key"
    and "rq_chainId q' = rq_chainId q" "rq_to q' = rq_to q" "rq_data q' = rq_data q"
    and "r_dedup s2 key = dedup_sweep (rd_dedupTtl D) t1 (r_dedup s1) key" "t1 \<le> t'"
    and "t' - t \<le> rd_dedupTtl D" and "ethers_ok (rd_ethers D)"
  shows "(\<exists>e. fst (relay (D\<lparr>rd_now := (\<lambda>w. (t', w))\<rparr>) q' s2) = Inl e)
    \<and> (\<forall>f. relay (D\<lparr>rd_now := (\<lambda>w. (t', w)), rd_submit := f\<rparr>) q' s2 = relay (D\<lparr>rd_now := (\<lambda>w. (t', w))\<rparr>) q' s2)"
proof -
  let ?D = "D\<lparr>rd_now := (\<lambda>w. (t', w))\<rparr>"
  have "fst (pipeline (D\<lparr>rd_now := (\<lambda>w. (t, w))\<rparr>) q s) = Inr h"
    and "r_dedup s1 = r_dedup (snd (pipeline (D\<lparr>rd_now := (\<lambda>w. (t, w))\<rparr>) q s))"
    using assms(1,3) by (auto simp: relay_eq split: sum.splits)
  then have "r_dedup s1 key = Some \<lparr>de_txHash = h, de_timestamp = t\<rparr>"
    using pipeline_records [of "D\<lparr>rd_now := (\<lambda>w. (t, w))\<rparr>" q s h t key] assms(4) by simp
  then have live: "r_dedup s2 key = Some \<lparr>de_txHash = h, de_timestamp = t\<rparr>"
    using assms(8-10) by (simp add: dedup_sweep_def)
  have alike: "relay (?D\<lparr>rd_submit := f\<rparr>) q' s2 = relay ?D q' s2" for f
  proof (rule ccontr)
    assume "relay (?D\<lparr>rd_submit := f\<rparr>) q' s2 \<noteq> relay ?D q' s2"
    from relay_reaches_submit [OF _ this] obtain n where "not_duplicate ?D q' n (r_dedup s2)" "n = t'"
      using assms(11) by auto
    then show False using live assms(2,4-7,10) by (auto simp: not_duplicate_def)
  qed
  obtain e where "fst (relay (?D\<lparr>rd_submit := \<lambda>c to d g w. (Inl [], w)\<rparr>) q' s2) = Inl e"
    using failing_submitter [where D = ?D and x = "[]" and q = q' and s = s2] by blast
  then have "fst (relay ?D q' s2) = Inl e" by (simp only: alike)
  then show ?thesis using alike by simp
qed

theorem duplicate_never_rebroadcast_witness:
  "\<exists>s1 e. relay demo_relay demo_request demo_relay_state = (Inr ''0xdd'', s1)
    \<and> fst (relay (demo_relay\<lparr>rd_now := (\<lambda>w. (600000, w))\<rparr>) demo_request s1) = Inl e"
proof -
  have same: "demo_relay\<lparr>rd_submit := rd_submit demo_relay\<rparr> = demo_relay"
      "demo_relay\<lparr>rd_now := (\<lambda>w. (500, w))\<rparr> = demo_relay" by (simp_all add: demo_relay_def)
  have first: "fst (relay demo_relay demo_request demo_relay_state) = Inr ''0xdd''"
    using demo_pipeline [of "rd_submit demo_relay"]
    by (simp add: relay_eq demo_fields demo_selector same broadcast_def r_ext_def bigint_div_def)
  let ?s1 = "snd (relay demo_relay demo_request demo_relay_state)"
  have key: "dedup_key (rd_hash (demo_relay :: unit relay_deps)) (rq_chainId demo_request) (rq_to demo_request) (rq_data demo_request)
      = Inr (show_int 7 @ ''|0xAA0x7e220759'')"
    by (simp add: dedup_key_def demo_fields)
  let ?k = "show_int 7 @ ''|0xAA0x7e220759''"
  have sweep: "r_dedup ?s1 ?k = dedup_sweep (rd_dedupTtl demo_relay) 0 (r_dedup ?s1) ?k"
    using pipeline_records [of demo_relay demo_request demo_relay_state "''0xdd''" 500 ?k] first key
    by (simp add: relay_eq demo_fields demo_selector dedup_sweep_def DEDUP_TTL_MS_def)
  have "\<exists>e. fst (relay (demo_relay\<lparr>rd_now := (\<lambda>w. (600000, w))\<rparr>) demo_request ?s1) = Inl e"
    using duplicate_never_rebroadcast [where D = demo_relay and t = 500 and q = demo_request and s = demo_relay_state
        and h = "''0xdd''" and ?s1.0 = ?s1 and key = ?k and q' = demo_request and ?s2.0 = ?s1 and ?t1.0 = 0
        and t' = 600000, unfolded same(2), OF first _ refl key refl refl refl sweep]
    by (simp add: demo_fields DEDUP_TTL_MS_def ref_ethers_ok)
  then show ?thesis using first by (metis prod.collapse)
qed

section \<open>What the gasless verifier does not look at\<close>

text \<open>The gasless verifier never looks at the token of a fee note. Replacing the tokens of all the
  shield requests by any other changes no verdict: a fee note in a worthless token passes as one of the
  same number of USDC units.\<close>

theorem gasless_token_unchecked:
  "verifyGaslessFee (A\<lparr>decode_gaslessShield :=
       (\<lambda>d. map_sum id (map (\<lambda>r. r\<lparr>sr_token := token\<rparr>)) (decode_gaslessShield A d))\<rparr>)
     wrappers deriver chainId to data adv random
   = verifyGaslessFee A wrappers deriver chainId to data adv random"
proof -
  have find: "map_option sr_value (List.find (\<lambda>r. sr_npk r = npk) (map (\<lambda>r. r\<lparr>sr_token := token\<rparr>) rs))
      = map_option sr_value (List.find (\<lambda>r. sr_npk r = npk) rs)" for npk and rs :: "shield_request list"
    by (induction rs) simp_all
  have "extractFeeNoteValue (A\<lparr>decode_gaslessShield :=
       (\<lambda>d. map_sum id (map (\<lambda>r. r\<lparr>sr_token := token\<rparr>)) (decode_gaslessShield A d))\<rparr>) selector data npk
      = extractFeeNoteValue A selector data npk" for selector npk
    by (cases "decode_gaslessShield A data") (simp_all add: extractFeeNoteValue_def find)
  then show ?thesis
    by (cases "derive_npk deriver (the random)") (simp_all add: verifyGaslessFee_def)
qed

end
