(* ===== verification/JsValues.thy ===== *)
theory JsValues
  imports Numbers
begin

text \<open>
  Values of the language and of its standard library that cross the edges of the program: text, the
  conversion \<open>Number(text)\<close> with \<open>NaN\<close> and the infinities, the environment, parsed JSON, and small
  pieces of the \<open>String\<close> and \<open>RegExp\<close> interfaces, on ASCII text.

  A document on disk is its parsed form: a file that is absent, one \<open>JSON.parse\<close> rejects, or a JSON
  value. \<open>fallible\<close> collects the rules that say when a sequence of checks ends in a value.
\<close>

named_theorems fallible \<open>when a sequence of fallible steps ends in a value\<close>

section \<open>Sequences of checks\<close>

definition check :: "bool \<Rightarrow> 'e \<Rightarrow> 'e + unit" where
  "check ok e = (if ok then Inr () else Inl e)"

definition and_then_do :: "'e + 'a \<Rightarrow> ('a \<Rightarrow> 'e + 'b) \<Rightarrow> 'e + 'b" where
  "and_then_do r f = (case r of Inl e \<Rightarrow> Inl e | Inr a \<Rightarrow> f a)"

abbreviation check_then :: "bool \<Rightarrow> 'e \<Rightarrow> 'e + 'b \<Rightarrow> 'e + 'b" where
  "check_then ok e k \<equiv> and_then_do (check ok e) (\<lambda>_. k)"

fun map_checked :: "('a \<Rightarrow> 'e + 'b) \<Rightarrow> 'a list \<Rightarrow> 'e + 'b list" where
  "map_checked f [] = Inr []"
| "map_checked f (x # xs) =
     and_then_do (f x) (\<lambda>y. and_then_do (map_checked f xs) (\<lambda>ys. Inr (y # ys)))"

lemma check_ok [fallible]: "check ok e = Inr u \<longleftrightarrow> ok"
  by (simp add: check_def)

lemma and_then_do_ok [fallible]: "and_then_do r f = Inr b \<longleftrightarrow> (\<exists>a. r = Inr a \<and> f a = Inr b)"
  by (cases r) (simp_all add: and_then_do_def)

lemma and_then_do_simps [simp]:
  "and_then_do (Inr a) f = f a" "and_then_do (Inl e) f = Inl e"
  by (simp_all add: and_then_do_def)

lemma check_simps [simp]: "check True e = Inr ()" "check False e = Inl e"
  by (simp_all add: check_def)

lemma map_checked_ok [fallible]:
  "map_checked f xs = Inr ys \<longleftrightarrow> list_all2 (\<lambda>x y. f x = Inr y) xs ys"
  by (induction xs arbitrary: ys) (auto simp: fallible list_all2_Cons1)

lemma map_checked_member:
  "map_checked f xs = Inr ys \<Longrightarrow> y \<in> set ys \<Longrightarrow> \<exists>x \<in> set xs. f x = Inr y"
proof (induction xs arbitrary: ys)
  case Nil
  then show ?case by simp
next
  case (Cons x xs)
  then obtain y' ys' where "f x = Inr y'" "map_checked f xs = Inr ys'" "ys = y' # ys'"
    by (auto simp: and_then_do_ok)
  with Cons show ?case by auto
qed

section \<open>Text\<close>

definition is_js_space :: "char \<Rightarrow> bool" where
  "is_js_space c = (let n = of_char c :: nat in n = 32 \<or> n = 160 \<or> (9 \<le> n \<and> n \<le> 13))"

definition js_trim :: "string \<Rightarrow> string" where
  "js_trim s = rev (dropWhile is_js_space (rev (dropWhile is_js_space s)))"

text \<open>\<open>split\<close> at a character: never an empty array.\<close>

fun js_split :: "char \<Rightarrow> string \<Rightarrow> string list" where
  "js_split sep [] = [[]]"
| "js_split sep (c # cs) =
     (if c = sep then [] # js_split sep cs
      else (case js_split sep cs of [] \<Rightarrow> [[c]] | w # ws \<Rightarrow> (c # w) # ws))"

text \<open>\<open>[...new Set(xs)]\<close>: the first occurrences.\<close>

fun js_unique :: "'a list \<Rightarrow> 'a list" where
  "js_unique [] = []"
| "js_unique (x # xs) = x # filter (\<lambda>y. y \<noteq> x) (js_unique xs)"

text \<open>\<open>ADDRESS_RE\<close>: \<open>/^0x[0-9a-fA-F]{40}$/\<close>.\<close>

definition is_address :: "string \<Rightarrow> bool" where
  "is_address s \<longleftrightarrow> prefix ''0x'' s \<and> length s = 42 \<and> list_all is_hex_char (drop 2 s)"

lemma set_js_unique [simp]: "set (js_unique xs) = set xs"
  by (induction xs) auto

lemma distinct_js_unique [simp]: "distinct (js_unique xs)"
  by (induction xs) auto

lemma js_unique_distinct: "distinct xs \<Longrightarrow> js_unique xs = xs"
  by (induction xs) (auto simp: filter_id_conv)

lemma js_split_neq_Nil [simp]: "js_split sep s \<noteq> []"
  by (induction s) (auto split: list.splits)

section \<open>\<open>Number(text)\<close>\<close>

datatype jsnum = Fin rat | PosInf | NegInf | NaN

text \<open>The value of a decimal literal in binary64: subnormal below \<open>2\<^sup>-\<^sup>1\<^sup>0\<^sup>2\<^sup>2\<close>, infinite from
  \<open>2\<^sup>1\<^sup>0\<^sup>2\<^sup>4\<close> on.\<close>

definition to_binary64 :: "rat \<Rightarrow> jsnum" where
  "to_binary64 x =
     (if \<bar>x\<bar> < 1 / 2 ^ 1022 then Fin (of_int (round_half_even (x * 2 ^ 1074)) / 2 ^ 1074)
      else let y = dbl x in if 2 ^ 1024 \<le> y then PosInf else if y \<le> - (2 ^ 1024) then NegInf else Fin y)"

definition split_first :: "char list \<Rightarrow> string \<Rightarrow> string \<times> string option" where
  "split_first seps s =
     (case dropWhile (\<lambda>c. c \<notin> set seps) s of
        [] \<Rightarrow> (s, None)
      | _ # rest \<Rightarrow> (takeWhile (\<lambda>c. c \<notin> set seps) s, Some rest))"

definition unsign :: "string \<Rightarrow> int \<times> string" where
  "unsign s = (case s of
      [] \<Rightarrow> (1, [])
    | c # cs \<Rightarrow> if c = CHR ''-'' then (- 1, cs) else if c = CHR ''+'' then (1, cs) else (1, s))"

definition parse_decimal :: "string \<Rightarrow> rat option" where
  "parse_decimal s =
     (case unsign s of (sign, s) \<Rightarrow>
      case split_first ''eE'' s of (mantissa, e) \<Rightarrow>
      case split_first ''.'' mantissa of (whole, fraction) \<Rightarrow>
        let frac = (case fraction of None \<Rightarrow> [] | Some f \<Rightarrow> f);
            (esign, edigits) = (case e of None \<Rightarrow> (1, ''0'') | Some e \<Rightarrow> unsign e)
        in if list_all is_digit (whole @ frac) \<and> whole @ frac \<noteq> []
              \<and> list_all is_digit edigits \<and> edigits \<noteq> []
           then Some (of_int (sign * int (parse_dec (whole @ frac)))
                        * 10 powi (esign * int (parse_dec edigits) - int (length frac)))
           else None)"

definition radix_digits :: "nat \<Rightarrow> string \<Rightarrow> rat option" where
  "radix_digits base s =
     (if s \<noteq> [] \<and> list_all (\<lambda>c. is_hex_char c \<and> hex_digit c < base) s
      then Some (of_nat (foldl (\<lambda>a c. base * a + hex_digit c) 0 s)) else None)"

definition js_number :: "string \<Rightarrow> jsnum" where
  "js_number text =
     (let s = js_trim text; low = to_lower (take 2 s)
      in if s = [] then Fin 0
         else if s = ''Infinity'' \<or> s = ''+Infinity'' then PosInf
         else if s = ''-Infinity'' then NegInf
         else case (if low = ''0x'' then radix_digits 16 (drop 2 s)
                    else if low = ''0b'' then radix_digits 2 (drop 2 s)
                    else if low = ''0o'' then radix_digits 8 (drop 2 s)
                    else parse_decimal s) of
                None \<Rightarrow> NaN | Some x \<Rightarrow> to_binary64 x)"

text \<open>\<open>Number.isInteger\<close>, as the integer it is.\<close>

definition as_integer :: "jsnum \<Rightarrow> int option" where
  "as_integer n = (case n of Fin x \<Rightarrow> if of_int \<lfloor>x\<rfloor> = x then Some \<lfloor>x\<rfloor> else None | _ \<Rightarrow> None)"

section \<open>JSON and the environment\<close>

datatype json =
  JNull | JBool bool | JNum rat | JStr string | JArr "json list" | JObj "(string \<times> json) list"

text \<open>A property of a value: \<open>undefined\<close> is \<open>None\<close>; reading one of \<open>undefined\<close> or \<open>null\<close> throws.\<close>

fun prop_of :: "json \<Rightarrow> string \<Rightarrow> json option" where
  "prop_of (JObj kvs) k = map_of kvs k"
| "prop_of _ k = None"

definition get_prop :: "json option \<Rightarrow> string \<Rightarrow> exn + json option" where
  "get_prop v k = (case v of
      None \<Rightarrow> Inl ''Cannot read properties of undefined''
    | Some JNull \<Rightarrow> Inl ''Cannot read properties of null''
    | Some j \<Rightarrow> Inr (prop_of j k))"

text \<open>The optional chain \<open>v?.k\<close>.\<close>

definition opt_prop :: "json option \<Rightarrow> string \<Rightarrow> json option" where
  "opt_prop v k = (case v of None \<Rightarrow> None | Some JNull \<Rightarrow> None | Some j \<Rightarrow> prop_of j k)"

fun truthy :: "json option \<Rightarrow> bool" where
  "truthy None = False"
| "truthy (Some JNull) = False"
| "truthy (Some (JBool b)) = b"
| "truthy (Some (JNum x)) = (x \<noteq> 0)"
| "truthy (Some (JStr s)) = (s \<noteq> [])"
| "truthy (Some (JArr xs)) = True"
| "truthy (Some (JObj kvs)) = True"

definition as_string :: "json option \<Rightarrow> string option" where
  "as_string v = (case v of Some (JStr s) \<Rightarrow> Some s | _ \<Rightarrow> None)"

definition as_int_json :: "json option \<Rightarrow> int option" where
  "as_int_json v = (case v of Some (JNum x) \<Rightarrow> as_integer (Fin x) | _ \<Rightarrow> None)"

definition as_array :: "json option \<Rightarrow> json list option" where
  "as_array v = (case v of Some (JArr xs) \<Rightarrow> Some xs | _ \<Rightarrow> None)"

definition or_throw :: "'a option \<Rightarrow> 'e \<Rightarrow> 'e + 'a" where
  "or_throw v e = (case v of Some x \<Rightarrow> Inr x | None \<Rightarrow> Inl e)"

lemma or_throw_ok [fallible]: "or_throw v e = Inr x \<longleftrightarrow> v = Some x"
  by (cases v) (simp_all add: or_throw_def)

lemma or_throw_simps [simp]: "or_throw (Some x) e = Inr x" "or_throw None e = Inl e"
  by (simp_all add: or_throw_def)

type_synonym env = "string \<Rightarrow> string option"

text \<open>A path of the file system: absent, unparseable with the parser's message, or a document.\<close>

datatype document = Unparseable string | Document json

type_synonym files = "string \<Rightarrow> document option"

lemma as_string_iff: "as_string v = Some s \<longleftrightarrow> v = Some (JStr s)"
  by (auto simp: as_string_def split: option.splits json.splits)

lemma as_integer_iff: "as_integer n = Some i \<longleftrightarrow> n = Fin (of_int i)"
  by (auto simp: as_integer_def split: jsnum.splits)

lemma as_int_json_iff: "as_int_json v = Some i \<longleftrightarrow> v = Some (JNum (of_int i))"
  by (auto simp: as_int_json_def as_integer_iff split: option.splits json.splits)

end
