(* ===== verification/Networks.thy ===== *)
theory Networks
  imports JsValues
begin

text \<open>
  \<open>actor/src/config/networks.ts\<close>: the network topology, one hub and its clients, read from
  \<open>topology.json\<close> and narrowed by \<open>ENABLED_CLIENTS\<close>.

  The document is JSON of unknown shape; \<open>toChain\<close> is where it becomes typed. An error is its text,
  without the quoted offending value. A path is asked of the file system as it is joined.
\<close>

datatype chain_role = Hub | Client

record chain_topology =
  ct_chainId :: int
  ct_name :: string
  ct_role :: chain_role
  ct_manifestPrefix :: string
  ct_domain :: int
  ct_rpcUrlEnv :: string
  ct_defaultRpcUrl :: "json option"
  ct_pollingIntervalMs :: int
  ct_confirmations :: int
  ct_nominalBlockTimeMs :: int

record network_topology =
  nt_network :: string
  nt_irisMode :: "json option"
  nt_irisBaseUrl :: json
  nt_hub :: chain_topology
  nt_clients :: "chain_topology list"

definition TOPOLOGY_FILE :: string where "TOPOLOGY_FILE = ''topology.json''"
definition NETWORKS :: "string list" where "NETWORKS = [''local'', ''sepolia'', ''mainnet'']"

definition js_join :: "string \<Rightarrow> string \<Rightarrow> string" where
  "js_join a b = a @ ''/'' @ b"

text \<open>The operator \<open>??\<close> on an absent variable.\<close>

definition or_else :: "'a option \<Rightarrow> 'a option \<Rightarrow> 'a option" where
  "or_else a b = (case a of Some x \<Rightarrow> Some x | None \<Rightarrow> b)"

lemma or_else_simps [simp]: "or_else (Some x) b = Some x" "or_else None b = b"
  by (simp_all add: or_else_def)

definition networkName :: "env \<Rightarrow> exn + string" where
  "networkName env =
     (let network = (case or_else (env ''NETWORK'') (env ''DEPLOY_ENV'') of Some n \<Rightarrow> n | None \<Rightarrow> ''local'')
      in check_then (network \<in> set NETWORKS) ''NETWORK must be one of local|sepolia|mainnet'' (Inr network))"

definition loadTopologyFile :: "files \<Rightarrow> string \<Rightarrow> exn + json" where
  "loadTopologyFile fs deploymentsRoot =
     (let path = js_join deploymentsRoot TOPOLOGY_FILE
      in case fs path of
           None \<Rightarrow> Inl (''Missing topology file: expected '' @ path)
         | Some (Unparseable msg) \<Rightarrow> Inl (''Unparseable topology file '' @ path @ '': '' @ msg)
         | Some (Document j) \<Rightarrow> Inr j)"

text \<open>The validators \<open>int\<close> and \<open>str\<close> of \<open>toChain\<close>.\<close>

definition int_field :: "json option \<Rightarrow> string \<Rightarrow> exn + int" where
  "int_field v key =
     and_then_do (or_throw (as_int_json v) (key @ '' must be a non-negative integer'')) (\<lambda>n.
     check_then (0 \<le> n) (key @ '' must be a non-negative integer'') (Inr n))"

definition str_field :: "json option \<Rightarrow> string \<Rightarrow> exn + string" where
  "str_field v key =
     and_then_do (or_throw (as_string v) (key @ '' must be a non-empty string'')) (\<lambda>s.
     check_then (s \<noteq> []) (key @ '' must be a non-empty string'') (Inr s))"

definition toChain :: "json option \<Rightarrow> chain_role \<Rightarrow> exn + chain_topology" where
  "toChain raw role =
     and_then_do (get_prop raw ''chainId'') (\<lambda>v. and_then_do (int_field v ''chainId'') (\<lambda>chainId.
     and_then_do (get_prop raw ''name'') (\<lambda>v. and_then_do (str_field v ''name'') (\<lambda>name.
     and_then_do (get_prop raw ''manifestPrefix'') (\<lambda>v. and_then_do (str_field v ''manifestPrefix'') (\<lambda>manifestPrefix.
     and_then_do (get_prop raw ''domain'') (\<lambda>v. and_then_do (int_field v ''domain'') (\<lambda>domain.
     and_then_do (get_prop raw ''rpcUrlEnv'') (\<lambda>v. and_then_do (str_field v ''rpcUrlEnv'') (\<lambda>rpcUrlEnv.
     and_then_do (get_prop raw ''defaultRpcUrl'') (\<lambda>defaultRpcUrl.
     and_then_do (get_prop raw ''pollingIntervalMs'') (\<lambda>v. and_then_do (int_field v ''pollingIntervalMs'') (\<lambda>pollingIntervalMs.
     and_then_do (get_prop raw ''confirmations'') (\<lambda>v. and_then_do (int_field v ''confirmations'') (\<lambda>confirmations.
     and_then_do (get_prop raw ''nominalBlockTimeMs'') (\<lambda>v. and_then_do (int_field v ''nominalBlockTimeMs'') (\<lambda>nominalBlockTimeMs.
       Inr \<lparr>ct_chainId = chainId, ct_name = name, ct_role = role, ct_manifestPrefix = manifestPrefix,
            ct_domain = domain, ct_rpcUrlEnv = rpcUrlEnv, ct_defaultRpcUrl = defaultRpcUrl,
            ct_pollingIntervalMs = pollingIntervalMs, ct_confirmations = confirmations,
            ct_nominalBlockTimeMs = nominalBlockTimeMs\<rparr>)))))))))))))))))"

definition buildNetworkTopology :: "json \<Rightarrow> string \<Rightarrow> exn + network_topology" where
  "buildNetworkTopology file network =
     check_then (network \<in> set NETWORKS) ''NETWORK must be one of local|sepolia|mainnet''
     (and_then_do (get_prop (Some file) network) (\<lambda>raw.
      check_then (truthy raw) (''topology.json has no entry for NETWORK='' @ network)
     (and_then_do (get_prop raw ''hub'') (\<lambda>hub.
      check_then (truthy hub) (''topology.json '' @ network @ '' entry is missing a hub'')
     (and_then_do (get_prop raw ''clients'') (\<lambda>clients.
      and_then_do (or_throw (as_array clients) (''topology.json '' @ network @ '' clients must be an array'')) (\<lambda>cs.
      and_then_do (get_prop raw ''irisMode'') (\<lambda>irisMode.
      and_then_do (get_prop raw ''irisBaseUrl'') (\<lambda>iris.
      and_then_do (toChain hub Hub) (\<lambda>hub.
      and_then_do (map_checked (\<lambda>c. toChain (Some c) Client) cs) (\<lambda>clients.
        Inr \<lparr>nt_network = network, nt_irisMode = irisMode,
             nt_irisBaseUrl = (case iris of None \<Rightarrow> JNull | Some j \<Rightarrow> j),
             nt_hub = hub, nt_clients = clients\<rparr>)))))))))))"

definition enabledClients :: "env \<Rightarrow> string list option" where
  "enabledClients env =
     (case env ''ENABLED_CLIENTS'' of
        None \<Rightarrow> None
      | Some raw \<Rightarrow> if js_trim raw = [] then None
          else Some (js_unique (filter (\<lambda>s. s \<noteq> []) (map js_trim (js_split CHR '','' raw)))))"

text \<open>\<open>new Map(...)\<close> keeps the last client of a name.\<close>

definition selectClients :: "chain_topology list \<Rightarrow> string list option \<Rightarrow> exn + chain_topology list" where
  "selectClients clients enabled =
     (case enabled of
        None \<Rightarrow> Inr clients
      | Some names \<Rightarrow>
          let byName = map_of (rev (map (\<lambda>c. (ct_name c, c)) clients))
          in and_then_do
               (map_checked (\<lambda>name. case byName name of
                    None \<Rightarrow> Inl (''ENABLED_CLIENTS names unknown client '' @ name)
                  | Some chain \<Rightarrow> Inr chain) names)
               (\<lambda>selected. check_then (selected \<noteq> []) ''ENABLED_CLIENTS selected no clients'' (Inr selected)))"

definition getTopology :: "env \<Rightarrow> files \<Rightarrow> string \<Rightarrow> exn + network_topology" where
  "getTopology env fs deploymentsRoot =
     and_then_do (networkName env) (\<lambda>network.
     and_then_do (loadTopologyFile fs deploymentsRoot) (\<lambda>file.
     and_then_do (buildNetworkTopology file network) (\<lambda>topology.
     and_then_do (selectClients (nt_clients topology) (enabledClients env)) (\<lambda>clients.
       Inr (topology\<lparr>nt_clients := clients\<rparr>)))))"

definition allChains :: "network_topology \<Rightarrow> chain_topology list" where
  "allChains t = nt_hub t # nt_clients t"

definition assertDomainPairing :: "network_topology \<Rightarrow> exn + unit" where
  "assertDomainPairing t =
     (let domains = map ct_domain (allChains t); chainIds = map ct_chainId (allChains t)
      in check_then (length (js_unique domains) = length domains) ''duplicate CCTP domains''
        (check_then (length (js_unique chainIds) = length chainIds) ''duplicate chainIds''
        (if nt_network t \<noteq> ''local''
         then check_then (ct_domain (nt_hub t) = 0) ''hub must be CCTP domain 0''
             (check_then (nt_irisBaseUrl t \<noteq> JNull) ''requires an Iris base URL'' (Inr ()))
         else Inr ())))"

section \<open>What the checks establish\<close>

lemma length_js_unique: "length (js_unique xs) = length xs \<longleftrightarrow> distinct xs"
proof
  assume len: "length (js_unique xs) = length xs"
  have "card (set xs) = length (js_unique xs)" by (metis distinct_card distinct_js_unique set_js_unique)
  with len show "distinct xs" by (simp add: card_distinct)
qed (simp add: js_unique_distinct)

text \<open>A chain that passed the validators.\<close>

definition valid_chain :: "chain_topology \<Rightarrow> bool" where
  "valid_chain c \<longleftrightarrow> 0 \<le> ct_chainId c \<and> 0 \<le> ct_domain c \<and> ct_name c \<noteq> [] \<and> ct_rpcUrlEnv c \<noteq> []
     \<and> ct_manifestPrefix c \<noteq> [] \<and> 0 \<le> ct_pollingIntervalMs c \<and> 0 \<le> ct_confirmations c
     \<and> 0 \<le> ct_nominalBlockTimeMs c"

lemma int_field_ok [fallible]: "int_field v key = Inr n \<longleftrightarrow> as_int_json v = Some n \<and> 0 \<le> n"
  by (auto simp: int_field_def fallible)

lemma str_field_ok [fallible]: "str_field v key = Inr s \<longleftrightarrow> as_string v = Some s \<and> s \<noteq> []"
  by (auto simp: str_field_def fallible)

lemma toChain_valid:
  assumes "toChain raw role = Inr c" shows "valid_chain c \<and> ct_role c = role"
  using assms unfolding toChain_def and_then_do_ok int_field_ok str_field_ok
  by (elim exE conjE) (auto simp: valid_chain_def)

lemma toChains_valid:
  assumes "map_checked (\<lambda>c. toChain (Some c) role) cs = Inr ts"
  shows "list_all (\<lambda>c. valid_chain c \<and> ct_role c = role) ts"
  using map_checked_member [OF assms] toChain_valid by (fastforce simp: list_all_iff)

lemma buildNetworkTopology_ok:
  assumes "buildNetworkTopology file network = Inr t"
  shows "nt_network t = network \<and> network \<in> set NETWORKS \<and> ct_role (nt_hub t) = Hub \<and> valid_chain (nt_hub t)
     \<and> list_all (\<lambda>c. valid_chain c \<and> ct_role c = Client) (nt_clients t)"
  using assms unfolding buildNetworkTopology_def and_then_do_ok check_ok
  by (elim exE conjE) (auto dest!: toChain_valid toChains_valid)

lemma selectClients_ok:
  assumes "selectClients clients enabled = Inr sel"
  shows "set sel \<subseteq> set clients \<and> (enabled \<noteq> None \<longrightarrow> sel \<noteq> [] \<and> map ct_name sel = the enabled)"
proof (cases enabled)
  case None
  with assms show ?thesis by (simp add: selectClients_def)
next
  case (Some names)
  have look: "c \<in> set clients \<and> ct_name c = n"
    if "map_of (rev (map (\<lambda>c. (ct_name c, c)) clients)) n = Some c" for n c
    using map_of_SomeD [OF that] by auto
  have "list_all2 (\<lambda>n c. c \<in> set clients \<and> ct_name c = n) names sel \<and> sel \<noteq> []"
    using assms Some by (auto simp: selectClients_def fallible elim!: list_all2_mono
        split: option.splits dest: look)
  then show ?thesis using Some
    by (auto simp: list_all2_conv_all_nth in_set_conv_nth intro!: nth_equalityI)
qed

text \<open>The chains a booted network runs on.\<close>

definition sound_topology :: "network_topology \<Rightarrow> bool" where
  "sound_topology t \<longleftrightarrow>
     nt_network t \<in> set NETWORKS \<and> list_all valid_chain (allChains t)
     \<and> ct_role (nt_hub t) = Hub \<and> list_all (\<lambda>c. ct_role c = Client) (nt_clients t)
     \<and> distinct (map ct_domain (allChains t)) \<and> distinct (map ct_chainId (allChains t))
     \<and> (nt_network t \<noteq> ''local'' \<longrightarrow> ct_domain (nt_hub t) = 0 \<and> nt_irisBaseUrl t \<noteq> JNull)"

lemma topology_sound:
  assumes "getTopology env fs dir = Inr t" and "assertDomainPairing t = Inr ()"
  shows "sound_topology t"
proof -
  obtain network doc t0 sel where t0: "buildNetworkTopology doc network = Inr t0"
      "selectClients (nt_clients t0) (enabledClients env) = Inr sel" and t: "t = t0\<lparr>nt_clients := sel\<rparr>"
    using assms(1) unfolding getTopology_def by (auto simp: fallible)
  have "nt_network t = nt_network t0" "nt_hub t = nt_hub t0" "nt_clients t = sel" by (simp_all add: t)
  moreover have "distinct (map ct_domain (allChains t)) \<and> distinct (map ct_chainId (allChains t))
     \<and> (nt_network t \<noteq> ''local'' \<longrightarrow> ct_domain (nt_hub t) = 0 \<and> nt_irisBaseUrl t \<noteq> JNull)"
    using assms(2) by (auto simp: assertDomainPairing_def Let_def fallible length_js_unique split: if_splits)
  ultimately show ?thesis
    using buildNetworkTopology_ok [OF t0(1)] selectClients_ok [OF t0(2)]
    by (auto simp: sound_topology_def allChains_def list_all_iff)
qed

end
