(* ===== verification/Deployments.thy ===== *)
theory Deployments
  imports Networks
begin

text \<open>
  \<open>actor/src/config/manifests.ts\<close>: the deployment manifests of every chain, from flat files or from
  an instance of the central registry, and the addresses read from them.

  A manifest stays the JSON document it is; \<open>validateManifest\<close> is what the program knows of it. The
  entries of a JSON object are in the order \<open>Object.entries\<close> lists them.
\<close>

datatype deployment_source = Flat string | Registry string string string
  \<comment> \<open>root; root, environment, instance\<close>

record chain_deployment =
  cd_chain :: chain_topology
  cd_manifest :: json

text \<open>\<open>ADDRESS_RE.test(v)\<close> turns its argument to text first: an array of one address is one.\<close>

fun address_like :: "json \<Rightarrow> bool" where
  "address_like (JStr s) = is_address s"
| "address_like (JArr xs) = (case xs of [x] \<Rightarrow> address_like x | _ \<Rightarrow> False)"
| "address_like _ = False"

definition networkSuffix :: "string \<Rightarrow> string" where
  "networkSuffix network = (if network = ''local'' then [] else ''-'' @ network)"

definition address_field :: "json option \<Rightarrow> string \<Rightarrow> exn + unit" where
  "address_field v key =
     check (case v of None \<Rightarrow> False | Some j \<Rightarrow> truthy (Some j) \<and> address_like j) (key @ '' missing or not an address'')"

definition valid_deploy_block :: "json option \<Rightarrow> bool" where
  "valid_deploy_block v = (case v of None \<Rightarrow> True
     | Some j \<Rightarrow> (case as_int_json (Some j) of None \<Rightarrow> False | Some n \<Rightarrow> 0 \<le> n))"

definition validateManifest :: "json \<Rightarrow> chain_topology \<Rightarrow> exn + unit" where
  "validateManifest m chain =
     and_then_do (get_prop (Some m) ''chainId'') (\<lambda>chainId.
     check_then (as_int_json chainId = Some (ct_chainId chain)) ''chainId mismatch''
     (and_then_do (get_prop (Some m) ''domain'') (\<lambda>domain.
     check_then (as_int_json domain = Some (ct_domain chain)) ''domain mismatch''
     (and_then_do (get_prop (Some m) ''deployBlock'') (\<lambda>deployBlock.
     check_then (valid_deploy_block deployBlock) ''deployBlock must be a non-negative integer''
     (and_then_do (get_prop (Some m) ''contracts'') (\<lambda>contracts.
      and_then_do (address_field
         (opt_prop contracts (if ct_role chain = Hub then ''privacyPool'' else ''privacyPoolClient'')) ''contracts.pool'') (\<lambda>_.
      and_then_do (get_prop (Some m) ''cctp'') (\<lambda>cctp.
      and_then_do (address_field (opt_prop cctp ''tokenMessenger'') ''cctp.tokenMessenger'') (\<lambda>_.
      and_then_do (address_field (opt_prop cctp ''messageTransmitter'') ''cctp.messageTransmitter'') (\<lambda>_.
      and_then_do (address_field (opt_prop cctp ''usdc'') ''cctp.usdc'') (\<lambda>_.
      and_then_do (get_prop contracts ''hookRouter'') (\<lambda>hookRouter.
      check_then (\<not> truthy hookRouter \<or> address_like (the hookRouter))
        ''contracts.hookRouter is not an address'' (Inr ()))))))))))))))"

definition readManifest :: "files \<Rightarrow> string \<Rightarrow> chain_topology \<Rightarrow> exn + json" where
  "readManifest fs path chain =
     (case fs path of
        None \<Rightarrow> Inl (''Missing deployment manifest: expected '' @ path)
      | Some (Unparseable msg) \<Rightarrow> Inl (''Unparseable deployment manifest '' @ path @ '': '' @ msg)
      | Some (Document parsed) \<Rightarrow> and_then_do (validateManifest parsed chain) (\<lambda>_. Inr parsed))"

section \<open>The two providers\<close>

definition flatPoolPath :: "string \<Rightarrow> string \<Rightarrow> chain_topology \<Rightarrow> string" where
  "flatPoolPath dir network chain =
     js_join dir (''privacy-pool-'' @ ct_manifestPrefix chain @ networkSuffix network @ ''.json'')"

definition flatYieldPath :: "string \<Rightarrow> string \<Rightarrow> string" where
  "flatYieldPath dir network = js_join dir (''yield-hub'' @ networkSuffix network @ ''.json'')"

definition loadInstance :: "files \<Rightarrow> string \<Rightarrow> string \<Rightarrow> string \<Rightarrow> exn + json \<times> string" where
  "loadInstance fs dir environment inst =
     (let dir = js_join (js_join dir environment) inst; path = js_join dir ''manifest.json''
      in case fs path of
           None \<Rightarrow> Inl (''Missing deployment registry instance: expected '' @ path)
         | Some (Unparseable msg) \<Rightarrow> Inl (''Unparseable registry instance manifest '' @ path @ '': '' @ msg)
         | Some (Document manifest) \<Rightarrow> Inr (manifest, dir))"

text \<open>\<open>Object.entries\<close>: an array lists its indices; text and the other primitives list nothing with a
  chain id, and \<open>undefined\<close> and \<open>null\<close> throw.\<close>

definition object_entries :: "json option \<Rightarrow> exn + (string \<times> json) list" where
  "object_entries v = (case v of
      None \<Rightarrow> Inl ''Cannot convert undefined or null to object''
    | Some JNull \<Rightarrow> Inl ''Cannot convert undefined or null to object''
    | Some (JObj kvs) \<Rightarrow> Inr kvs
    | Some (JArr xs) \<Rightarrow> Inr (zip (map show_nat [0..<length xs]) xs)
    | Some _ \<Rightarrow> Inr [])"

fun find_entry :: "int \<Rightarrow> (string \<times> json) list \<Rightarrow> exn + (string \<times> json) option" where
  "find_entry chainId [] = Inr None"
| "find_entry chainId ((slug, c) # rest) =
     and_then_do (get_prop (Some c) ''chainId'') (\<lambda>v.
       if as_int_json v = Some chainId then Inr (Some (slug, c)) else find_entry chainId rest)"

definition role_name :: "chain_role \<Rightarrow> string" where
  "role_name r = (case r of Hub \<Rightarrow> ''hub'' | Client \<Rightarrow> ''client'')"

definition registrySlugForChain :: "json \<Rightarrow> chain_topology \<Rightarrow> exn + string" where
  "registrySlugForChain manifest chain =
     and_then_do (get_prop (Some manifest) ''chains'') (\<lambda>cs.
     and_then_do (object_entries cs) (\<lambda>entries.
     and_then_do (find_entry (ct_chainId chain) entries) (\<lambda>entry.
     and_then_do (or_throw entry ''Registry instance has no chain with that chainId'') (\<lambda>(slug, meta).
     and_then_do (get_prop (Some meta) ''role'') (\<lambda>role.
     check_then (role = Some (JStr (role_name (ct_role chain))))
       (''Registry chain '' @ slug @ '' has another role'') (Inr slug))))))"

section \<open>Loading\<close>

definition loadAllManifests ::
    "files \<Rightarrow> deployment_source \<Rightarrow> network_topology \<Rightarrow> exn + chain_deployment list" where
  "loadAllManifests fs source topology =
     (case source of
        Flat dir \<Rightarrow>
          map_checked (\<lambda>chain.
            and_then_do (readManifest fs (flatPoolPath dir (nt_network topology) chain) chain) (\<lambda>m.
              Inr \<lparr>cd_chain = chain, cd_manifest = m\<rparr>)) (allChains topology)
      | Registry dir environment inst \<Rightarrow>
          and_then_do (loadInstance fs dir environment inst) (\<lambda>(manifest, dir).
          map_checked (\<lambda>chain.
            and_then_do (registrySlugForChain manifest chain) (\<lambda>slug.
            and_then_do (readManifest fs (js_join (js_join dir slug) ''privacy-pool.json'') chain) (\<lambda>m.
              Inr \<lparr>cd_chain = chain, cd_manifest = m\<rparr>))) (allChains topology)))"

definition loadYieldManifest ::
    "files \<Rightarrow> deployment_source \<Rightarrow> network_topology \<Rightarrow> exn + json option" where
  "loadYieldManifest fs source topology =
     and_then_do
       (case source of
          Flat dir \<Rightarrow> Inr (flatYieldPath dir (nt_network topology))
        | Registry dir environment inst \<Rightarrow>
            and_then_do (loadInstance fs dir environment inst) (\<lambda>(manifest, dir).
            and_then_do (registrySlugForChain manifest (nt_hub topology)) (\<lambda>slug.
              Inr (js_join (js_join dir slug) ''yield.json''))))
       (\<lambda>path. case fs path of
            None \<Rightarrow> Inr None
          | Some (Unparseable msg) \<Rightarrow> Inl (''Unparseable yield manifest '' @ path @ '': '' @ msg)
          | Some (Document j) \<Rightarrow> Inr (Some j))"

section \<open>The addresses\<close>

text \<open>The accessors trust the declared shape, so they read through \<open>undefined\<close> without a check only
  where validation has excluded it.\<close>

definition contract_of :: "chain_deployment \<Rightarrow> string \<Rightarrow> json option" where
  "contract_of d key = opt_prop (opt_prop (Some (cd_manifest d)) ''contracts'') key"

definition cctp_of :: "chain_deployment \<Rightarrow> string \<Rightarrow> json option" where
  "cctp_of d key = opt_prop (opt_prop (Some (cd_manifest d)) ''cctp'') key"

definition poolAddress :: "chain_deployment \<Rightarrow> json option" where
  "poolAddress d = contract_of d (if ct_role (cd_chain d) = Hub then ''privacyPool'' else ''privacyPoolClient'')"

text \<open>\<open>?? null\<close>: an explicit \<open>null\<close> is absent too.\<close>

definition nullable :: "json option \<Rightarrow> json option" where
  "nullable v = (if v = Some JNull then None else v)"

definition gaslessWrapperAddress :: "chain_deployment \<Rightarrow> json option" where
  "gaslessWrapperAddress d = nullable (contract_of d
     (if ct_role (cd_chain d) = Hub then ''gaslessShieldWrapper'' else ''gaslessShieldWrapperClient''))"

section \<open>What a loaded deployment is\<close>

definition valid_deployment :: "chain_deployment \<Rightarrow> bool" where
  "valid_deployment d \<longleftrightarrow>
     as_int_json (prop_of (cd_manifest d) ''chainId'') = Some (ct_chainId (cd_chain d))
     \<and> as_int_json (prop_of (cd_manifest d) ''domain'') = Some (ct_domain (cd_chain d))
     \<and> (\<exists>pool. poolAddress d = Some pool \<and> address_like pool)
     \<and> (\<forall>key \<in> {''tokenMessenger'', ''messageTransmitter'', ''usdc''}.
          \<exists>a. cctp_of d key = Some a \<and> address_like a)
     \<and> (\<forall>a. contract_of d ''hookRouter'' = Some a \<and> truthy (Some a) \<longrightarrow> address_like a)
     \<and> valid_deploy_block (prop_of (cd_manifest d) ''deployBlock'')"

lemma address_field_ok [fallible]: "address_field v key = Inr u \<longleftrightarrow> (\<exists>a. v = Some a \<and> truthy (Some a) \<and> address_like a)"
  by (simp add: address_field_def fallible split: option.splits)

lemma get_prop_ok [fallible]: "get_prop v k = Inr p \<longleftrightarrow> (\<exists>j. v = Some j \<and> j \<noteq> JNull \<and> p = prop_of j k)"
  by (cases v) (auto simp: get_prop_def split: json.splits)

lemma opt_prop_eq: "j \<noteq> JNull \<Longrightarrow> opt_prop (Some j) k = prop_of j k"
  by (cases j) (simp_all add: opt_prop_def)

lemma validateManifest_ok:
  assumes "validateManifest m chain = Inr u"
  shows "valid_deployment \<lparr>cd_chain = chain, cd_manifest = m\<rparr>"
  using assms unfolding validateManifest_def and_then_do_ok check_ok get_prop_ok address_field_ok
  apply (elim exE conjE)
  apply (simp only: option.inject)
  apply hypsubst
  apply (unfold valid_deployment_def poolAddress_def contract_of_def cctp_of_def chain_deployment.simps)
  apply (intro conjI; (simp add: opt_prop_eq; fail)?)
  apply (simp add: opt_prop_eq, metis opt_prop_eq option.sel)
  done

lemma readManifest_ok:
  assumes "readManifest fs path chain = Inr m"
  shows "valid_deployment \<lparr>cd_chain = chain, cd_manifest = m\<rparr>"
  using assms by (auto simp: readManifest_def fallible split: option.splits document.splits
      dest: validateManifest_ok)

lemma list_all2_chains:
  assumes "list_all2 (\<lambda>c d. cd_chain d = c \<and> valid_deployment d) cs ds"
  shows "map cd_chain ds = cs \<and> list_all valid_deployment ds"
  using assms by (induction cs ds rule: list_all2_induct) simp_all

lemma loadAllManifests_ok:
  assumes "loadAllManifests fs source topology = Inr ds"
  shows "map cd_chain ds = allChains topology \<and> list_all valid_deployment ds"
proof (rule list_all2_chains)
  show "list_all2 (\<lambda>c d. cd_chain d = c \<and> valid_deployment d) (allChains topology) ds"
    using assms by (auto simp: loadAllManifests_def fallible elim!: list_all2_mono
        dest: readManifest_ok split: deployment_source.splits prod.splits)
qed

end
