(* ===== verification/Config.thy ===== *)
theory Config
  imports Deployments Fees
begin

text \<open>
  \<open>actor/src/config/env.ts\<close>: the runtime configuration, assembled from the environment, the topology
  and the manifests; every rule that stops the boot is a branch.

  A number of the configuration is what \<open>Number(raw)\<close> gave, \<open>jsnum\<close>. The environment is a map of
  the variables that are set; compose passes unset ones as empty text, which some readers skip.
\<close>

fun REGISTRY_ENVIRONMENT :: "string \<Rightarrow> string option" where
  "REGISTRY_ENVIRONMENT network =
     (if network = ''sepolia'' then Some ''testnet'' else if network = ''mainnet'' then Some ''mainnet'' else None)"

definition env_val :: "env \<Rightarrow> string \<Rightarrow> string option" where
  "env_val env key = (case env key of None \<Rightarrow> None | Some v \<Rightarrow> if v = [] then None else Some v)"

definition resolveDeploymentSource :: "env \<Rightarrow> string \<Rightarrow> string \<Rightarrow> exn + deployment_source" where
  "resolveDeploymentSource env network deploymentsRoot =
     (case env_val env ''DEPLOYMENT_INSTANCE'' of
        None \<Rightarrow> Inr (Flat deploymentsRoot)
      | Some inst \<Rightarrow>
          (case or_else (env_val env ''DEPLOYMENT_ENVIRONMENT'') (REGISTRY_ENVIRONMENT network) of
             None \<Rightarrow> Inl ''DEPLOYMENT_INSTANCE is set but no registry environment maps to NETWORK''
           | Some environment \<Rightarrow>
               let dir = (case env_val env ''DEPLOYMENT_REGISTRY_DIR'' of
                            Some d \<Rightarrow> d | None \<Rightarrow> js_join deploymentsRoot ''registry'')
               in Inr (Registry dir environment inst)))"

fun num :: "env \<Rightarrow> string list \<Rightarrow> jsnum \<Rightarrow> rat option \<Rightarrow> exn + jsnum" where
  "num env [] dflt least = Inr dflt"
| "num env (key # keys) dflt least =
     (case env_val env key of
        None \<Rightarrow> num env keys dflt least
      | Some raw \<Rightarrow>
          (case js_number raw of
             Fin n \<Rightarrow> (case least of
                 None \<Rightarrow> Inr (Fin n)
               | Some m \<Rightarrow> check_then (m \<le> n) (key @ '' is too small'') (Inr (Fin n)))
           | _ \<Rightarrow> Inl (key @ '' must be a number'')))"

text \<open>The first non-blank entry of the comma-separated list. A \<open>defaultRpcUrl\<close> that is no text throws.\<close>

definition rpc_text :: "env \<Rightarrow> chain_topology \<Rightarrow> exn + string" where
  "rpc_text env chain =
     (case env (ct_rpcUrlEnv chain) of
        Some s \<Rightarrow> Inr s
      | None \<Rightarrow> (case ct_defaultRpcUrl chain of
            None \<Rightarrow> Inr [] | Some JNull \<Rightarrow> Inr [] | Some (JStr s) \<Rightarrow> Inr s
          | Some _ \<Rightarrow> Inl ''split is not a function''))"

definition rpc_url :: "env \<Rightarrow> chain_topology \<Rightarrow> exn + int \<times> string" where
  "rpc_url env chain =
     and_then_do (rpc_text env chain) (\<lambda>text.
     and_then_do
       (or_throw (List.find (\<lambda>u. u \<noteq> []) (map js_trim (js_split CHR '','' text)))
          (''Missing RPC URL for chain '' @ show_int (ct_chainId chain)))
       (\<lambda>url. Inr (ct_chainId chain, url)))"

definition cctp_mode :: "env \<Rightarrow> string \<Rightarrow> exn + string" where
  "cctp_mode env network =
     (let mode = (case env ''CCTP_MODE'' of Some m \<Rightarrow> m
                  | None \<Rightarrow> if network = ''local'' then ''mock'' else ''real'')
      in check_then (mode = ''mock'' \<or> mode = ''real'') ''CCTP_MODE must be mock|real''
        (check_then (\<not> (network = ''mainnet'' \<and> mode = ''mock'')) ''CCTP_MODE=mock is forbidden on mainnet''
          (Inr mode)))"

definition iris_url :: "env \<Rightarrow> string \<Rightarrow> network_topology \<Rightarrow> exn + json" where
  "iris_url env mode t =
     (let url = (if mode = ''mock'' then JNull
                 else case env ''IRIS_API_URL'' of Some u \<Rightarrow> JStr u | None \<Rightarrow> nt_irisBaseUrl t)
      in check_then (\<not> (mode = ''real'' \<and> \<not> truthy (Some url))) ''CCTP_MODE=real requires an Iris API URL'' (Inr url))"

definition static_price :: "env \<Rightarrow> exn + rat" where
  "static_price env =
     and_then_do (num env [''ETH_USD_PRICE_STATIC'', ''ETH_USDC_PRICE''] NaN None) (\<lambda>p.
       case p of
         Fin x \<Rightarrow> check_then (0 < x) ''ETH_USD_PRICE_STATIC must be set (> 0)'' (Inr x)
       | _ \<Rightarrow> Inl ''ETH_USD_PRICE_STATIC must be set (> 0)'')"

text \<open>The numeric knobs, in the order they are read.\<close>

record knobs =
  k_port :: jsnum
  k_bodyLimitBytes :: jsnum
  k_feeTtlSeconds :: jsnum
  k_feeVarianceBufferBps :: jsnum
  k_profitMarginBps :: jsnum
  k_shieldFeeBps :: jsnum
  k_ethUsdMaxStalenessMs :: jsnum
  k_ethUsdMin :: jsnum
  k_ethUsdMax :: jsnum
  k_workPollIntervalMs :: jsnum
  k_stuckTxThresholdMs :: jsnum
  k_maxAttestationAgeMs :: jsnum
  k_fallbackActivateAfterMs :: jsnum
  k_fallbackChunkSize :: jsnum
  k_relayRatePerMin :: jsnum
  k_getRatePerMin :: jsnum

definition read_knobs :: "env \<Rightarrow> string \<Rightarrow> exn + knobs" where
  "read_knobs env network =
     and_then_do (num env [''RELAYER_PORT'', ''ACTOR_PORT''] (Fin 3001) None) (\<lambda>a.
     and_then_do (num env [''RELAYER_MAX_BODY_BYTES'', ''BODY_LIMIT_BYTES''] (Fin (256 * 1024)) None) (\<lambda>b.
     and_then_do (num env [''FEE_TTL_SECONDS''] (Fin 300) (Some 1)) (\<lambda>c.
     and_then_do (num env [''FEE_VARIANCE_BUFFER_BPS''] (Fin 2000) (Some 0)) (\<lambda>d.
     and_then_do (num env [''FEE_PROFIT_MARGIN_BPS''] (Fin 0) (Some 0)) (\<lambda>e.
     and_then_do (num env [''RELAYER_SHIELD_FEE_BPS''] (Fin 50) (Some 0)) (\<lambda>f.
     and_then_do (num env [''ETH_USD_MAX_STALENESS_MS''] (Fin 5400000) (Some 60000)) (\<lambda>g.
     and_then_do (num env [''ETH_USD_MIN''] (Fin 100) None) (\<lambda>h.
     and_then_do (num env [''ETH_USD_MAX''] (Fin 100000) None) (\<lambda>i.
     and_then_do (num env [''WORK_POLL_INTERVAL_MS''] (Fin (if network = ''local'' then 2000 else 5000)) (Some 100)) (\<lambda>j.
     and_then_do (num env [''RELAYER_STUCK_TX_THRESHOLD_MS'', ''STUCK_TX_THRESHOLD_MS''] (Fin 600000) (Some 60000)) (\<lambda>k.
     and_then_do (num env [''RELAYER_ATTESTATION_AGE_MS'', ''MAX_ATTESTATION_AGE_MS''] (Fin 3600000) (Some 60000)) (\<lambda>l.
     and_then_do (num env [''FALLBACK_ACTIVATE_AFTER_MS''] (Fin 120000) (Some 1000)) (\<lambda>m.
     and_then_do (num env [''FALLBACK_CHUNK_SIZE''] (Fin 2000) (Some 10)) (\<lambda>n.
     and_then_do (num env [''RELAYER_RATE_LIMIT_RELAY_PER_MIN'', ''RELAY_RATE_PER_MIN''] (Fin 10) (Some 1)) (\<lambda>p.
     and_then_do (num env [''RELAYER_RATE_LIMIT_GET_PER_MIN'', ''GET_RATE_PER_MIN''] (Fin 60) (Some 1)) (\<lambda>q.
       Inr \<lparr>k_port = a, k_bodyLimitBytes = b, k_feeTtlSeconds = c, k_feeVarianceBufferBps = d,
            k_profitMarginBps = e, k_shieldFeeBps = f, k_ethUsdMaxStalenessMs = g, k_ethUsdMin = h,
            k_ethUsdMax = i, k_workPollIntervalMs = j, k_stuckTxThresholdMs = k, k_maxAttestationAgeMs = l,
            k_fallbackActivateAfterMs = m, k_fallbackChunkSize = n, k_relayRatePerMin = p,
            k_getRatePerMin = q\<rparr>))))))))))))))))"

record actor_config =
  cfg_topology :: network_topology
  cfg_cctpMode :: string
  cfg_irisBaseUrl :: json
  cfg_deployments :: "chain_deployment list"
  cfg_yieldManifest :: "json option"
  cfg_rpcUrls :: "(int \<times> string) list"
  cfg_databaseUrl :: string
  cfg_trustProxy :: bool
  cfg_relayerPrivateKey :: "string option"
  cfg_deployerPrivateKey :: "string option"
  cfg_railgunMnemonic :: "string option"
  cfg_broadcasterRailgunAddress :: "string option"
  cfg_railgunDbPath :: string
  cfg_ethUsdPriceStatic :: rat
  cfg_ethUsdFeedAddress :: "string option"
  cfg_indexedSchema :: string
  cfg_knobs :: knobs

definition with_default :: "'a option \<Rightarrow> 'a \<Rightarrow> 'a" where
  "with_default v d = (case v of Some x \<Rightarrow> x | None \<Rightarrow> d)"

definition buildConfig :: "env \<Rightarrow> files \<Rightarrow> string \<Rightarrow> exn + actor_config" where
  "buildConfig env fs deploymentsRoot =
     and_then_do (getTopology env fs deploymentsRoot) (\<lambda>topology.
     and_then_do (assertDomainPairing topology) (\<lambda>_.
     and_then_do (cctp_mode env (nt_network topology)) (\<lambda>mode.
     and_then_do (iris_url env mode topology) (\<lambda>iris.
     and_then_do (map_checked (rpc_url env) (allChains topology)) (\<lambda>rpcUrls.
     and_then_do (or_throw (env_val env ''DATABASE_URL'') ''DATABASE_URL is required'') (\<lambda>databaseUrl.
     check_then (nt_network topology = ''local'' \<or> env_val env ''ETH_USD_FEED_ADDRESS'' \<noteq> None)
       ''ETH_USD_FEED_ADDRESS is required''
     (and_then_do (static_price env) (\<lambda>price.
      and_then_do (resolveDeploymentSource env (nt_network topology) deploymentsRoot) (\<lambda>source.
      and_then_do (loadAllManifests fs source topology) (\<lambda>deployments.
      and_then_do (loadYieldManifest fs source topology) (\<lambda>yieldManifest.
      and_then_do (read_knobs env (nt_network topology)) (\<lambda>k.
        Inr \<lparr>cfg_topology = topology, cfg_cctpMode = mode, cfg_irisBaseUrl = iris,
             cfg_deployments = deployments, cfg_yieldManifest = yieldManifest, cfg_rpcUrls = rpcUrls,
             cfg_databaseUrl = databaseUrl, cfg_trustProxy = (env ''RELAYER_TRUST_PROXY'' = Some ''true''),
             cfg_relayerPrivateKey = env ''RELAYER_PRIVATE_KEY'',
             cfg_deployerPrivateKey = env ''DEPLOYER_PRIVATE_KEY'',
             cfg_railgunMnemonic = env ''RELAYER_RAILGUN_MNEMONIC'',
             cfg_broadcasterRailgunAddress = env ''BROADCASTER_RAILGUN_ADDRESS'',
             cfg_railgunDbPath = with_default (env ''RAILGUN_DB_PATH'') ''./state/railgun-db'',
             cfg_ethUsdPriceStatic = price, cfg_ethUsdFeedAddress = env ''ETH_USD_FEED_ADDRESS'',
             cfg_indexedSchema = with_default (env ''INDEXED_SCHEMA'') ''indexed'',
             cfg_knobs = k\<rparr>))))))))))))"

section \<open>What a built configuration guarantees\<close>

definition at_least :: "rat option \<Rightarrow> jsnum \<Rightarrow> bool" where
  "at_least least v \<longleftrightarrow> (\<exists>x. v = Fin x \<and> (\<forall>m. least = Some m \<longrightarrow> m \<le> x))"

lemma at_least_simps [simp]:
  "at_least None v \<longleftrightarrow> (\<exists>x. v = Fin x)" "at_least (Some m) v \<longleftrightarrow> (\<exists>x. v = Fin x \<and> m \<le> x)"
  by (auto simp: at_least_def)

lemma num_at_least: "num env keys dflt least = Inr v \<Longrightarrow> at_least least dflt \<Longrightarrow> at_least least v"
proof (induction env keys dflt least rule: num.induct)
  case (1 env dflt least)
  then show ?case by simp
next
  case (2 env key keys dflt least)
  show ?case
  proof (cases "env_val env key")
    case None
    with 2 show ?thesis by simp
  next
    case (Some raw)
    with "2.prems" show ?thesis
      by (cases "js_number raw"; cases least; simp add: fallible; metis)
  qed
qed

lemma num_within: "num env keys (Fin d) least = Inr v \<Longrightarrow> \<forall>m. least = Some m \<longrightarrow> m \<le> d \<Longrightarrow> at_least least v"
  by (erule num_at_least) (simp add: at_least_def)

definition knobs_within :: "knobs \<Rightarrow> bool" where
  "knobs_within k \<longleftrightarrow>
     list_all (at_least None) [k_port k, k_bodyLimitBytes k, k_ethUsdMin k, k_ethUsdMax k]
     \<and> list_all (at_least (Some 0)) [k_feeVarianceBufferBps k, k_profitMarginBps k, k_shieldFeeBps k]
     \<and> list_all (at_least (Some 1)) [k_feeTtlSeconds k, k_relayRatePerMin k, k_getRatePerMin k]
     \<and> at_least (Some 10) (k_fallbackChunkSize k) \<and> at_least (Some 100) (k_workPollIntervalMs k)
     \<and> at_least (Some 1000) (k_fallbackActivateAfterMs k)
     \<and> list_all (at_least (Some 60000)) [k_ethUsdMaxStalenessMs k, k_stuckTxThresholdMs k, k_maxAttestationAgeMs k]"

lemma read_knobs_within:
  assumes "read_knobs env network = Inr k" shows "knobs_within k"
  using assms unfolding read_knobs_def and_then_do_ok
  apply (elim exE conjE)
  apply (drule num_within, simp)+
  apply (auto simp: knobs_within_def simp del: at_least_simps)
  done

definition usable_url :: "string \<Rightarrow> bool" where
  "usable_url u \<longleftrightarrow> u \<noteq> [] \<and> CHR '','' \<notin> set u"

lemma js_split_parts: "w \<in> set (js_split sep s) \<Longrightarrow> sep \<notin> set w"
  by (induction s arbitrary: w) (auto split: if_splits list.splits)

lemma set_js_trim: "set (js_trim s) \<subseteq> set s"
  by (auto simp: js_trim_def dest!: set_dropWhileD)

lemma find_member: "List.find P xs = Some x \<Longrightarrow> x \<in> set xs \<and> P x"
  by (induction xs) (auto split: if_splits)

lemma rpc_url_usable:
  assumes "rpc_url env chain = Inr p" shows "fst p = ct_chainId chain \<and> usable_url (snd p)"
proof -
  obtain raw url where "List.find (\<lambda>u. u \<noteq> []) (map js_trim (js_split CHR '','' raw)) = Some url"
      and p: "p = (ct_chainId chain, url)"
    using assms by (auto simp: rpc_url_def and_then_do_ok or_throw_ok)
  then obtain w where "w \<in> set (js_split CHR '','' raw)" "url = js_trim w" "url \<noteq> []"
    by (auto dest!: find_member)
  then show ?thesis using js_split_parts [of w] set_js_trim [of w] by (auto simp: p usable_url_def)
qed

lemma rpc_urls_usable:
  assumes "map_checked (rpc_url env) cs = Inr urls"
  shows "map fst urls = map ct_chainId cs \<and> list_all usable_url (map snd urls)"
  using assms unfolding map_checked_ok
  by (induction cs urls rule: list_all2_induct) (simp_all add: rpc_url_usable)

text \<open>The mode, and the Iris URL it needs.\<close>

lemma cctp_mode_ok:
  "cctp_mode env network = Inr mode \<Longrightarrow>
     mode \<in> {''mock'', ''real''} \<and> \<not> (network = ''mainnet'' \<and> mode = ''mock'')"
  by (auto simp: cctp_mode_def Let_def fallible)

lemma iris_url_ok:
  "iris_url env mode t = Inr url \<Longrightarrow> mode = ''real'' \<Longrightarrow> truthy (Some url)"
  by (auto simp: iris_url_def Let_def fallible)

lemma static_price_ok:
  assumes "static_price env = Inr p" shows "0 < p"
proof -
  obtain n where "(case n of Fin x \<Rightarrow> check_then (0 < x) ''ETH_USD_PRICE_STATIC must be set (> 0)'' (Inr x)
      | _ \<Rightarrow> Inl ''ETH_USD_PRICE_STATIC must be set (> 0)'') = Inr p"
    using assms unfolding static_price_def and_then_do_ok by blast
  then show ?thesis by (cases n) (auto simp: fallible)
qed

lemma buildConfig_parts:
  assumes "buildConfig env fs dir = Inr c"
  obtains source where
    "getTopology env fs dir = Inr (cfg_topology c)" "assertDomainPairing (cfg_topology c) = Inr ()"
    "cctp_mode env (nt_network (cfg_topology c)) = Inr (cfg_cctpMode c)"
    "iris_url env (cfg_cctpMode c) (cfg_topology c) = Inr (cfg_irisBaseUrl c)"
    "map_checked (rpc_url env) (allChains (cfg_topology c)) = Inr (cfg_rpcUrls c)"
    "nt_network (cfg_topology c) = ''local'' \<or> env_val env ''ETH_USD_FEED_ADDRESS'' \<noteq> None"
    "cfg_ethUsdFeedAddress c = env ''ETH_USD_FEED_ADDRESS''"
    "static_price env = Inr (cfg_ethUsdPriceStatic c)"
    "loadAllManifests fs source (cfg_topology c) = Inr (cfg_deployments c)"
    "read_knobs env (nt_network (cfg_topology c)) = Inr (cfg_knobs c)"
  using assms unfolding buildConfig_def and_then_do_ok check_ok
  apply (elim exE conjE)
  apply (simp only: sum.inject)
  apply hypsubst
  apply (rule that; simp)
  done

text \<open>C31: a configuration the boot accepts is coherent: the topology has distinct chain ids and
  domains, every chain has exactly one non-empty RPC URL and one manifest that names its chain id and
  domain and valid addresses, the mock attestation mode is never on mainnet and the real one has an
  Iris URL, and off the local network a price feed is set.\<close>

theorem built_config_sound:
  assumes "buildConfig env fs dir = Inr c"
  shows "sound_topology (cfg_topology c)
    \<and> map fst (cfg_rpcUrls c) = map ct_chainId (allChains (cfg_topology c))
    \<and> list_all usable_url (map snd (cfg_rpcUrls c))
    \<and> map cd_chain (cfg_deployments c) = allChains (cfg_topology c)
    \<and> list_all valid_deployment (cfg_deployments c)
    \<and> cfg_cctpMode c \<in> {''mock'', ''real''}
    \<and> \<not> (nt_network (cfg_topology c) = ''mainnet'' \<and> cfg_cctpMode c = ''mock'')
    \<and> (cfg_cctpMode c = ''real'' \<longrightarrow> truthy (Some (cfg_irisBaseUrl c)))
    \<and> (nt_network (cfg_topology c) \<noteq> ''local'' \<longrightarrow> cfg_ethUsdFeedAddress c \<notin> {None, Some []})"
proof -
  obtain source where parts:
    "getTopology env fs dir = Inr (cfg_topology c)" "assertDomainPairing (cfg_topology c) = Inr ()"
    "cctp_mode env (nt_network (cfg_topology c)) = Inr (cfg_cctpMode c)"
    "iris_url env (cfg_cctpMode c) (cfg_topology c) = Inr (cfg_irisBaseUrl c)"
    "map_checked (rpc_url env) (allChains (cfg_topology c)) = Inr (cfg_rpcUrls c)"
    "nt_network (cfg_topology c) = ''local'' \<or> env_val env ''ETH_USD_FEED_ADDRESS'' \<noteq> None"
    "cfg_ethUsdFeedAddress c = env ''ETH_USD_FEED_ADDRESS''"
    "loadAllManifests fs source (cfg_topology c) = Inr (cfg_deployments c)"
    using buildConfig_parts [OF assms] by metis
  have "nt_network (cfg_topology c) \<noteq> ''local'' \<longrightarrow> cfg_ethUsdFeedAddress c \<notin> {None, Some []}"
    using parts(6,7) by (auto simp: env_val_def split: option.splits if_splits)
  with topology_sound [OF parts(1,2)] rpc_urls_usable [OF parts(5)] loadAllManifests_ok [OF parts(8)]
    cctp_mode_ok [OF parts(3)] iris_url_ok [OF parts(4)]
  show ?thesis by blast
qed

text \<open>C32: every numeric knob of a built configuration is a finite number and at least its documented
  minimum, whatever text the environment holds, and the static price is positive.\<close>

theorem config_numbers_within:
  assumes "buildConfig env fs dir = Inr c"
  shows "knobs_within (cfg_knobs c) \<and> 0 < cfg_ethUsdPriceStatic c"
  by (rule buildConfig_parts [OF assms]) (blast dest: read_knobs_within static_price_ok)

text \<open>The fee options of \<open>main.ts\<close>: the knobs and the address of the railgun wallet.\<close>

fun fin_value :: "jsnum \<Rightarrow> rat" where
  "fin_value (Fin x) = x"
| "fin_value _ = 0"

definition fee_options_of :: "actor_config \<Rightarrow> string \<Rightarrow> fee_options" where
  "fee_options_of c address =
     \<lparr>feeTtlSeconds = fin_value (k_feeTtlSeconds (cfg_knobs c)),
      feeVarianceBufferBps = fin_value (k_feeVarianceBufferBps (cfg_knobs c)),
      profitMarginBps = fin_value (k_profitMarginBps (cfg_knobs c)),
      shieldFeeBps = fin_value (k_shieldFeeBps (cfg_knobs c)),
      broadcasterRailgunAddress = address\<rparr>"

section \<open>A configuration of the local network\<close>

definition demo_address :: string where "demo_address = ''0x'' @ replicate 40 (CHR ''1'')"

definition demo_raw_chain :: "string \<Rightarrow> rat \<Rightarrow> rat \<Rightarrow> json" where
  "demo_raw_chain name chainId domain = JObj [(''chainId'', JNum chainId), (''name'', JStr name),
     (''domain'', JNum domain), (''rpcUrlEnv'', JStr ''RPC''), (''defaultRpcUrl'', JStr ''http://a, http://b''),
     (''manifestPrefix'', JStr name), (''pollingIntervalMs'', JNum 1000), (''confirmations'', JNum 0),
     (''nominalBlockTimeMs'', JNum 1000)]"

definition demo_manifest :: "string \<Rightarrow> rat \<Rightarrow> rat \<Rightarrow> json" where
  "demo_manifest pool chainId domain = JObj [(''chainId'', JNum chainId), (''domain'', JNum domain),
     (''contracts'', JObj [(pool, JStr demo_address)]),
     (''cctp'', JObj [(''tokenMessenger'', JStr demo_address), (''messageTransmitter'', JStr demo_address),
                      (''usdc'', JStr demo_address)])]"

definition demo_files :: files where
  "demo_files path =
     (if path = ''d/topology.json'' then
        Some (Document (JObj [(''local'', JObj [(''irisMode'', JStr ''mock''), (''irisBaseUrl'', JNull),
          (''hub'', demo_raw_chain ''hub'' 31337 100), (''clients'', JArr [demo_raw_chain ''client'' 31338 101])])]))
      else if path = ''d/privacy-pool-hub.json'' then Some (Document (demo_manifest ''privacyPool'' 31337 100))
      else if path = ''d/privacy-pool-client.json'' then Some (Document (demo_manifest ''privacyPoolClient'' 31338 101))
      else None)"

definition demo_mnemonic :: string where "demo_mnemonic = ''a b c d e f g h i j k l''"

definition demo_env :: env where
  "demo_env key =
     (if key = ''DATABASE_URL'' then Some ''postgres://db''
      else if key = ''ETH_USD_PRICE_STATIC'' then Some ''2.5e3''
      else if key = ''RELAYER_SHIELD_FEE_BPS'' then Some ''10000''
      else if key = ''RELAYER_RAILGUN_MNEMONIC'' then Some demo_mnemonic
      else None)"

definition demo_chain :: "string \<Rightarrow> chain_role \<Rightarrow> int \<Rightarrow> int \<Rightarrow> chain_topology" where
  "demo_chain name role chainId domain =
     \<lparr>ct_chainId = chainId, ct_name = name, ct_role = role, ct_manifestPrefix = name, ct_domain = domain,
      ct_rpcUrlEnv = ''RPC'', ct_defaultRpcUrl = Some (JStr ''http://a, http://b''),
      ct_pollingIntervalMs = 1000, ct_confirmations = 0, ct_nominalBlockTimeMs = 1000\<rparr>"

definition demo_topology :: network_topology where
  "demo_topology = \<lparr>nt_network = ''local'', nt_irisMode = Some (JStr ''mock''), nt_irisBaseUrl = JNull,
     nt_hub = demo_chain ''hub'' Hub 31337 100, nt_clients = [demo_chain ''client'' Client 31338 101]\<rparr>"

lemma as_integer_numeral [simp]: "as_integer (Fin (numeral k)) = Some (numeral k)" "as_integer (Fin 0) = Some 0"
  by (simp_all add: as_integer_def)

lemma demo_toChain:
  "toChain (Some (demo_raw_chain name (numeral a) (numeral b))) role = Inr (demo_chain name role (numeral a) (numeral b))"
  if "name \<noteq> []"
  using that by (simp add: toChain_def demo_raw_chain_def demo_chain_def get_prop_def int_field_def str_field_def
      as_int_json_def as_string_def)

lemma demo_truthy: "truthy (Some (demo_raw_chain name a b))"
  by (simp add: demo_raw_chain_def)

lemma demo_getTopology: "getTopology demo_env demo_files ''d'' = Inr demo_topology"
  by (simp add: getTopology_def networkName_def loadTopologyFile_def buildNetworkTopology_def selectClients_def
      enabledClients_def NETWORKS_def TOPOLOGY_FILE_def js_join_def demo_files_def demo_env_def get_prop_def
      as_array_def demo_toChain demo_truthy demo_topology_def)

lemma demo_price: "js_number ''2.5e3'' = Fin 2500"
  by (simp add: js_number_def js_trim_def Let_def is_js_space_def to_lower_def lower_char_def parse_decimal_def
      unsign_def split_first_def is_digit_def parse_dec_def to_binary64_def)

lemma demo_bps: "js_number ''10000'' = Fin 10000"
  by (simp add: js_number_def js_trim_def Let_def is_js_space_def to_lower_def lower_char_def parse_decimal_def
      unsign_def split_first_def is_digit_def parse_dec_def to_binary64_def)

definition demo_deployment :: "string \<Rightarrow> string \<Rightarrow> chain_role \<Rightarrow> int \<Rightarrow> int \<Rightarrow> chain_deployment" where
  "demo_deployment pool name role chainId domain =
     \<lparr>cd_chain = demo_chain name role chainId domain, cd_manifest = demo_manifest pool (of_int chainId) (of_int domain)\<rparr>"

lemma demo_address_ok: "is_address demo_address" "demo_address \<noteq> []"
  by (simp_all add: demo_address_def is_address_def list_all_iff is_hex_char_def)

lemma demo_validate:
  "validateManifest (demo_manifest ''privacyPool'' (numeral a) (numeral b)) (demo_chain name Hub (numeral a) (numeral b)) = Inr ()"
  "validateManifest (demo_manifest ''privacyPoolClient'' (numeral a) (numeral b)) (demo_chain name Client (numeral a) (numeral b)) = Inr ()"
  by (simp_all add: validateManifest_def demo_manifest_def demo_chain_def get_prop_def opt_prop_def
      address_field_def valid_deploy_block_def as_int_json_def demo_address_ok)

lemma demo_loaded: "loadAllManifests demo_files (Flat ''d'') demo_topology =
    Inr [demo_deployment ''privacyPool'' ''hub'' Hub 31337 100,
         demo_deployment ''privacyPoolClient'' ''client'' Client 31338 101]"
proof -
  have paths: "flatPoolPath ''d'' ''local'' (demo_chain ''hub'' Hub 31337 100) = ''d/privacy-pool-hub.json''"
    "flatPoolPath ''d'' ''local'' (demo_chain ''client'' Client 31338 101) = ''d/privacy-pool-client.json''"
    by (simp_all add: flatPoolPath_def js_join_def networkSuffix_def demo_chain_def)
  have read: "readManifest demo_files ''d/privacy-pool-hub.json'' (demo_chain ''hub'' Hub 31337 100)
      = Inr (demo_manifest ''privacyPool'' 31337 100)"
    "readManifest demo_files ''d/privacy-pool-client.json'' (demo_chain ''client'' Client 31338 101)
      = Inr (demo_manifest ''privacyPoolClient'' 31338 101)"
    by (simp_all add: readManifest_def demo_files_def demo_validate)
  show ?thesis
    by (simp add: loadAllManifests_def allChains_def demo_topology_def paths read demo_deployment_def)
qed

lemma demo_yield: "loadYieldManifest demo_files (Flat ''d'') demo_topology = Inr None"
  by (simp add: loadYieldManifest_def flatYieldPath_def js_join_def networkSuffix_def demo_topology_def demo_files_def)

lemma demo_urls: "map_checked (rpc_url demo_env) (allChains demo_topology) = Inr [(31337, ''http://a''), (31338, ''http://a'')]"
  by (simp add: allChains_def demo_topology_def rpc_url_def rpc_text_def demo_chain_def demo_env_def js_trim_def
      is_js_space_def)

definition demo_knobs :: knobs where
  "demo_knobs = \<lparr>k_port = Fin 3001, k_bodyLimitBytes = Fin 262144, k_feeTtlSeconds = Fin 300,
     k_feeVarianceBufferBps = Fin 2000, k_profitMarginBps = Fin 0, k_shieldFeeBps = Fin 10000,
     k_ethUsdMaxStalenessMs = Fin 5400000, k_ethUsdMin = Fin 100, k_ethUsdMax = Fin 100000,
     k_workPollIntervalMs = Fin 2000, k_stuckTxThresholdMs = Fin 600000, k_maxAttestationAgeMs = Fin 3600000,
     k_fallbackActivateAfterMs = Fin 120000, k_fallbackChunkSize = Fin 2000, k_relayRatePerMin = Fin 10,
     k_getRatePerMin = Fin 60\<rparr>"

lemma demo_read_knobs: "read_knobs demo_env ''local'' = Inr demo_knobs"
  by (simp add: read_knobs_def env_val_def demo_env_def demo_bps demo_knobs_def)

definition demo_config :: actor_config where
  "demo_config = \<lparr>cfg_topology = demo_topology, cfg_cctpMode = ''mock'', cfg_irisBaseUrl = JNull,
     cfg_deployments = [demo_deployment ''privacyPool'' ''hub'' Hub 31337 100,
         demo_deployment ''privacyPoolClient'' ''client'' Client 31338 101],
     cfg_yieldManifest = None, cfg_rpcUrls = [(31337, ''http://a''), (31338, ''http://a'')],
     cfg_databaseUrl = ''postgres://db'', cfg_trustProxy = False, cfg_relayerPrivateKey = None,
     cfg_deployerPrivateKey = None, cfg_railgunMnemonic = Some demo_mnemonic, cfg_broadcasterRailgunAddress = None,
     cfg_railgunDbPath = ''./state/railgun-db'', cfg_ethUsdPriceStatic = 2500, cfg_ethUsdFeedAddress = None,
     cfg_indexedSchema = ''indexed'', cfg_knobs = demo_knobs\<rparr>"

lemma demo_built: "buildConfig demo_env demo_files ''d'' = Inr demo_config"
proof -
  have "assertDomainPairing demo_topology = Inr ()"
    by (simp add: assertDomainPairing_def demo_topology_def allChains_def demo_chain_def)
  moreover have "cctp_mode demo_env ''local'' = Inr ''mock''"
    by (simp add: cctp_mode_def demo_env_def)
  moreover have "iris_url demo_env ''mock'' demo_topology = Inr JNull"
    by (simp add: iris_url_def)
  moreover have "static_price demo_env = Inr 2500"
    by (simp add: static_price_def env_val_def demo_env_def demo_price)
  moreover have "resolveDeploymentSource demo_env ''local'' ''d'' = Inr (Flat ''d'')"
    by (simp add: resolveDeploymentSource_def env_val_def demo_env_def)
  moreover have "env_val demo_env ''DATABASE_URL'' = Some ''postgres://db''"
    by (simp add: env_val_def demo_env_def)
  moreover have "nt_network demo_topology = ''local''" by (simp add: demo_topology_def)
  ultimately show ?thesis
    by (simp add: buildConfig_def demo_getTopology demo_urls demo_loaded demo_yield demo_read_knobs
        demo_config_def with_default_def) (simp add: demo_env_def)
qed

lemma built_config_sound_witness:
  "distinct (map ct_chainId (allChains (cfg_topology demo_config)))
   \<and> list_all valid_deployment (cfg_deployments demo_config)"
  using built_config_sound [OF demo_built] by (simp add: sound_topology_def)

lemma config_numbers_within_witness: "knobs_within demo_knobs"
  using config_numbers_within [OF demo_built] by (simp add: demo_config_def)

text \<open>Nothing bounds the shield fee from above: a boot that accepts \<open>RELAYER_SHIELD_FEE_BPS=10000\<close>
  runs a fee calculator that can never produce a schedule, at any price, since the gross-up of the
  shield tiers divides by zero.\<close>

theorem accepted_shield_fee_breaks_schedules:
  assumes "buildConfig env fs dir = Inr c" and "k_shieldFeeBps (cfg_knobs c) = Fin 10000"
  shows "\<exists>e. fst (schedule_finish (fee_options_of c address) now chainId gasPrice price st) = Inl e"
proof -
  have "\<exists>e. quote_keys (fee_options_of c address) gasPrice price kgs = Inl e"
    if "\<exists>gas. (Shield, gas) \<in> set kgs" for kgs
    using that
  proof (induction kgs)
    case Nil
    then show ?case by simp
  next
    case (Cons kg kgs)
    obtain key gas where kg: "kg = (key, gas)" by fastforce
    show ?case
    proof (cases "key = Shield")
      case True
      have "grossUpForShieldFee n (shieldFeeBps (fee_options_of c address)) = Inl ''Division by zero''" for n
        using assms(2) by (simp add: grossUpForShieldFee_def fee_options_of_def bigint_div_def)
      then show ?thesis
        by (auto simp: kg True quote_key_def SHIELD_FEE_TIERS_def split: sum.splits)
    next
      case False
      with Cons show ?thesis by (auto simp: kg split: sum.splits)
    qed
  qed
  moreover have "\<exists>gas. (Shield, gas) \<in> set GAS_ESTIMATES" by (auto simp: GAS_ESTIMATES_def)
  ultimately obtain e where "quote_keys (fee_options_of c address) gasPrice price GAS_ESTIMATES = Inl e"
    by blast
  then show ?thesis by (simp add: schedule_finish_def Let_def)
qed

lemma accepted_shield_fee_breaks_schedules_witness:
  "\<exists>e. fst (schedule_finish (fee_options_of demo_config ''0zk'') 0 31337 1000000000 2500 new_fee_state) = Inl e"
  by (rule accepted_shield_fee_breaks_schedules [OF demo_built]) (simp add: demo_config_def demo_knobs_def)

end
