(* ===== verification/Limiter.thy ===== *)
theory Limiter
  imports JsValues
begin

text \<open>
  \<open>actor/src/http/rate-limiter.ts\<close>: the per-client token buckets in front of the endpoints.

  Token counts are JavaScript numbers, so refills are fractions and every operation rounds
  (\<open>dbl\<close>); the clock is the millisecond \<open>Date.now()\<close>, which may also step backwards. A limiter
  is the map of its buckets, by client key.
\<close>

record bucket =
  tokens :: rat
  lastRefillMs :: int

type_synonym limiter = "string \<Rightarrow> bucket option"

text \<open>The two halves of \<open>allow\<close>: the refill by the time elapsed, and the token taken.\<close>

definition refill :: "rat \<Rightarrow> int \<Rightarrow> bucket \<Rightarrow> bucket" where
  "refill capacity now b =
     (let elapsedSec = dbl (of_int (now - lastRefillMs b) / 1000)
      in if 0 < elapsedSec
         then \<lparr>tokens = min capacity (dbl (tokens b + dbl (elapsedSec * dbl (capacity / 60)))),
               lastRefillMs = now\<rparr>
         else b)"

definition allow :: "rat \<Rightarrow> int \<Rightarrow> string \<Rightarrow> limiter \<Rightarrow> bool \<times> limiter" where
  "allow capacity now key m =
     (let b = (case m key of Some b \<Rightarrow> b | None \<Rightarrow> \<lparr>tokens = capacity, lastRefillMs = now\<rparr>);
          b = refill capacity now b
      in if 1 \<le> tokens b then (True, m(key \<mapsto> b\<lparr>tokens := dbl (tokens b - 1)\<rparr>))
         else (False, m(key \<mapsto> b)))"

definition sweep_buckets :: "int \<Rightarrow> limiter \<Rightarrow> limiter" where
  "sweep_buckets now m =
     (\<lambda>key. case m key of
        None \<Rightarrow> None
      | Some b \<Rightarrow> if lastRefillMs b < now - 10 * 60 * 1000 then None else Some b)"

section \<open>The key of a client\<close>

text \<open>\<open>split(",")\<close> never returns an empty array; its first element is the text before the first
  comma. A repeated header arrives as an array, of which the first is read.\<close>

datatype header_value = One_header string | Many_headers "string list"

definition clientKey :: "bool \<Rightarrow> header_value option \<Rightarrow> string option \<Rightarrow> string" where
  "clientKey trustProxy xff remoteAddress =
     (let hop = (if trustProxy
        then (case xff of
                None \<Rightarrow> None
              | Some (One_header h) \<Rightarrow> Some h
              | Some (Many_headers []) \<Rightarrow> None
              | Some (Many_headers (h # _)) \<Rightarrow> Some h)
        else None)
      in case map_option (\<lambda>h. js_trim (hd (js_split CHR '','' h))) hop of
           Some (c # cs) \<Rightarrow> c # cs
         | _ \<Rightarrow> (case remoteAddress of Some a \<Rightarrow> a | None \<Rightarrow> ''unknown''))"

section \<open>A run of the limiter\<close>

text \<open>The requests in the order they reach the limiter, each with its client and the clock then.
  \<open>allowed\<close> counts those of one client that pass.\<close>

fun limiter_run :: "rat \<Rightarrow> (string \<times> int) list \<Rightarrow> limiter \<Rightarrow> bool list \<times> limiter" where
  "limiter_run capacity [] m = ([], m)"
| "limiter_run capacity ((key, now) # rs) m =
     (case allow capacity now key m of (ok, m) \<Rightarrow>
        case limiter_run capacity rs m of (oks, m) \<Rightarrow> (ok # oks, m))"

definition allowed :: "rat \<Rightarrow> string \<Rightarrow> (string \<times> int) list \<Rightarrow> limiter \<Rightarrow> nat" where
  "allowed capacity key rs m =
     length (filter (\<lambda>((k, _), ok). ok \<and> k = key) (zip rs (fst (limiter_run capacity rs m))))"

definition requests_of :: "string \<Rightarrow> (string \<times> int) list \<Rightarrow> int list" where
  "requests_of key rs = map snd (filter (\<lambda>(k, _). k = key) rs)"

lemma requests_of_simps [simp]:
  "requests_of key [] = []"
  "requests_of key ((k, now) # rs) = (if k = key then now # requests_of key rs else requests_of key rs)"
  by (simp_all add: requests_of_def)

lemma allowed_simps:
  "allowed capacity key [] m = 0"
  "allowed capacity key ((k, now) # rs) m =
     (if k = key \<and> fst (allow capacity now k m) then 1 else 0)
     + allowed capacity key rs (snd (allow capacity now k m))"
  by (auto simp: allowed_def split: prod.splits)

lemma allow_other: "k \<noteq> key \<Longrightarrow> snd (allow capacity now k m) key = m key"
  by (simp add: allow_def Let_def)

text \<open>The bucket \<open>allow\<close> works on.\<close>

definition bucket_for :: "rat \<Rightarrow> int \<Rightarrow> string \<Rightarrow> limiter \<Rightarrow> bucket" where
  "bucket_for capacity now key m =
     (case m key of Some b \<Rightarrow> b | None \<Rightarrow> \<lparr>tokens = capacity, lastRefillMs = now\<rparr>)"

lemma allow_bucket:
  "allow capacity now key m =
     (let b = refill capacity now (bucket_for capacity now key m)
      in (1 \<le> tokens b, m(key \<mapsto> (if 1 \<le> tokens b then b\<lparr>tokens := dbl (tokens b - 1)\<rparr> else b))))"
  by (simp add: allow_def bucket_for_def Let_def)

definition bucket_ok :: "rat \<Rightarrow> bucket \<Rightarrow> bool" where
  "bucket_ok capacity b \<longleftrightarrow> 0 \<le> tokens b \<and> tokens b \<le> capacity"

text \<open>What the refill adds: the exact rate, up to three roundings of the increment and one of the
  sum.\<close>

definition refill_factor :: rat where "refill_factor = (1 + ulp_half) ^ 3"

lemma ulp_half_bounds: "0 < ulp_half" "ulp_half < 1 / 16"
  by (simp_all add: ulp_half_def)

lemma increment_le:
  assumes "0 \<le> e" and "0 \<le> c"
  shows "dbl (dbl (e / 1000) * dbl (c / 60)) \<le> e * c / 60000 * refill_factor"
proof -
  have "dbl (e / 1000) * dbl (c / 60) \<le> (e / 1000 * (1 + ulp_half)) * (c / 60 * (1 + ulp_half))"
    using assms ulp_half_bounds by (intro mult_mono dbl_le_rel dbl_nonneg) simp_all
  moreover have "0 \<le> dbl (e / 1000) * dbl (c / 60)" using assms by (simp add: dbl_nonneg)
  ultimately have "dbl (dbl (e / 1000) * dbl (c / 60))
      \<le> (e / 1000 * (1 + ulp_half)) * (c / 60 * (1 + ulp_half)) * (1 + ulp_half)"
    using dbl_le_rel [of "dbl (e / 1000) * dbl (c / 60)"] ulp_half_bounds
    by (meson add_nonneg_nonneg less_imp_le mult_right_mono order_trans zero_le_one)
  then show ?thesis by (simp add: refill_factor_def power3_eq_cube mult_ac)
qed

lemma refill_cases:
  obtains "lastRefillMs b < now" "lastRefillMs (refill c now b) = now"
      "tokens (refill c now b) =
         min c (dbl (tokens b + dbl (dbl (of_int (now - lastRefillMs b) / 1000) * dbl (c / 60))))"
  | "now \<le> lastRefillMs b" "refill c now b = b"
  by (cases "lastRefillMs b < now") (simp_all add: refill_def Let_def)

lemma refill_ok:
  assumes "bucket_ok c b" and "0 \<le> c" shows "bucket_ok c (refill c now b)"
  by (rule refill_cases [of b now c])
    (use assms in \<open>simp_all add: bucket_ok_def dbl_nonneg\<close>)

lemma refill_last: "now \<le> lastRefillMs (refill c now b)"
  by (rule refill_cases [of b now c]) simp_all

text \<open>What a client may still be granted until the clock reaches \<open>M\<close>: the tokens it has and those
  the refill rate adds.\<close>

definition refill_rate :: "rat \<Rightarrow> rat" where
  "refill_rate c = c / 60000 * refill_factor"

definition credit :: "rat \<Rightarrow> int \<Rightarrow> bucket \<Rightarrow> rat" where
  "credit c M b = tokens b + of_int (max 0 (M - lastRefillMs b)) * refill_rate c"

lemma refill_credit:
  assumes ok: "bucket_ok c b" and c: "0 \<le> c" and M: "now \<le> M"
  shows "credit c M (refill c now b) \<le> credit c M b + c * ulp_half"
proof (rule refill_cases [of b now c])
  assume lt: "lastRefillMs b < now" and last: "lastRefillMs (refill c now b) = now"
    and tok: "tokens (refill c now b) =
         min c (dbl (tokens b + dbl (dbl (of_int (now - lastRefillMs b) / 1000) * dbl (c / 60))))"
  let ?d = "of_int (now - lastRefillMs b) :: rat"
  let ?i = "dbl (dbl (?d / 1000) * dbl (c / 60))"
  have d: "0 \<le> ?d" using lt by simp
  have i: "0 \<le> ?i" "?i \<le> ?d * refill_rate c"
    using increment_le [OF d c] c d by (simp_all add: refill_rate_def dbl_nonneg mult_ac)
  have "min c (dbl (tokens b + ?i)) \<le> tokens b + ?i + c * ulp_half"
  proof (cases "tokens b + ?i \<le> c")
    case True
    have "dbl (tokens b + ?i) \<le> (tokens b + ?i) * (1 + ulp_half)"
      using ok i by (intro dbl_le_rel) (simp add: bucket_ok_def)
    also have "\<dots> \<le> tokens b + ?i + c * ulp_half"
      using True ulp_half_bounds by (simp add: algebra_simps flip: distrib_left)
    finally show ?thesis by simp
  next
    case False
    have "0 \<le> c * ulp_half" using c ulp_half_bounds by simp
    with False show ?thesis by linarith
  qed
  with i have "tokens (refill c now b) \<le> tokens b + ?d * refill_rate c + c * ulp_half"
    unfolding tok by linarith
  moreover have gap: "of_int (max 0 (M - lastRefillMs b)) = ?d + (of_int (max 0 (M - now)) :: rat)"
    using lt M by (simp add: max_def)
  ultimately show ?thesis unfolding credit_def last gap by (simp only: distrib_right)
next
  assume "refill c now b = b"
  then show ?thesis using c ulp_half_bounds by simp
qed

text \<open>One request: a grant is paid for with the credit, up to two roundings.\<close>

lemma allow_credit:
  assumes ok: "bucket_ok c b" and c: "0 \<le> c" and big: "c \<le> 2 ^ 53"
    and b: "bucket_for c now key m = b"
  obtains b' where "snd (allow c now key m) key = Some b'" "bucket_ok c b'"
    "(if fst (allow c now key m) then 1 else 0) + credit c M b'
       \<le> credit c M (refill c now b) + c * ulp_half"
proof
  let ?r = "refill c now b"
  let ?b = "if 1 \<le> tokens ?r then ?r\<lparr>tokens := dbl (tokens ?r - 1)\<rparr> else ?r"
  show "snd (allow c now key m) key = Some ?b" by (simp add: allow_bucket b Let_def)
  have r: "bucket_ok c ?r" using refill_ok [OF ok c] .
  have small: "dbl (tokens ?r - 1) \<le> tokens ?r - 1 + c * ulp_half" if "1 \<le> tokens ?r"
  proof -
    have "dbl (tokens ?r - 1) \<le> (tokens ?r - 1) * (1 + ulp_half)" using that by (intro dbl_le_rel) simp
    also have "\<dots> = tokens ?r - 1 + (tokens ?r - 1) * ulp_half" by (simp add: algebra_simps)
    also have "(tokens ?r - 1) * ulp_half \<le> c * ulp_half"
      using r ulp_half_bounds by (intro mult_right_mono) (simp_all add: bucket_ok_def)
    finally show ?thesis by simp
  qed
  have "c * ulp_half \<le> 1" using big by (simp add: ulp_half_def field_simps)
  with small r have cap: "dbl (tokens ?r - 1) \<le> c" if "1 \<le> tokens ?r"
    using that by (fastforce simp: bucket_ok_def)
  show "bucket_ok c ?b" using r cap by (simp add: bucket_ok_def dbl_nonneg)
  have "0 \<le> c * ulp_half" using c ulp_half_bounds by simp
  then show "(if fst (allow c now key m) then 1 else 0) + credit c M ?b \<le> credit c M ?r + c * ulp_half"
    using small by (cases "1 \<le> tokens ?r") (simp_all add: allow_bucket b Let_def credit_def)
qed

text \<open>Every bucket of a reachable limiter is between empty and full.\<close>

definition limiter_ok :: "rat \<Rightarrow> limiter \<Rightarrow> bool" where
  "limiter_ok c m \<longleftrightarrow> (\<forall>key b. m key = Some b \<longrightarrow> bucket_ok c b)"

lemma bucket_for_ok: "limiter_ok c m \<Longrightarrow> 0 \<le> c \<Longrightarrow> bucket_ok c (bucket_for c now key m)"
  by (auto simp: limiter_ok_def bucket_for_def bucket_ok_def split: option.splits)

lemma allow_ok:
  assumes "limiter_ok c m" "0 \<le> c" "c \<le> 2 ^ 53"
  shows "limiter_ok c (snd (allow c now key m))"
  unfolding limiter_ok_def
proof (intro allI impI)
  fix k b assume b: "snd (allow c now key m) k = Some b"
  show "bucket_ok c b"
  proof (cases "k = key")
    case True
    with b show ?thesis
      using allow_credit [OF bucket_for_ok [OF assms(1,2)] assms(2,3) refl, of thesis for thesis]
      by (metis option.inject)
  next
    case False
    with b assms(1) show ?thesis by (auto simp: limiter_ok_def allow_other)
  qed
qed

lemma run_ok:
  "limiter_ok c m \<Longrightarrow> 0 \<le> c \<Longrightarrow> c \<le> 2 ^ 53 \<Longrightarrow> limiter_ok c (snd (limiter_run c rs m))"
proof (induction c rs m rule: limiter_run.induct)
  case (1 c m)
  then show ?case by simp
next
  case (2 c key now rs m)
  then show ?case using allow_ok [of c m now key] by (auto split: prod.splits)
qed

text \<open>The grants of a client that already has a bucket.\<close>

lemma allowed_credit:
  assumes "m key = Some b" "bucket_ok c b" "\<forall>t \<in> set (requests_of key rs). t \<le> M"
    and c: "0 \<le> c" "c \<le> 2 ^ 53"
  shows "of_nat (allowed c key rs m) \<le> credit c M b + 2 * of_nat (length (requests_of key rs)) * (c * ulp_half)"
  using assms(1-3)
proof (induction rs arbitrary: m b)
  case Nil
  have "0 \<le> refill_rate c" using c ulp_half_bounds by (simp add: refill_rate_def refill_factor_def)
  with Nil show ?case by (simp add: allowed_simps credit_def bucket_ok_def)
next
  case (Cons r rs)
  obtain k now where r: "r = (k, now)" by fastforce
  show ?case
  proof (cases "k = key")
    case False
    with Cons.prems r have "of_nat (allowed c key rs (snd (allow c now k m)))
        \<le> credit c M b + 2 * of_nat (length (requests_of key rs)) * (c * ulp_half)"
      by (intro Cons.IH) (simp_all add: allow_other)
    with False show ?thesis by (simp add: r allowed_simps)
  next
    case True
    have bk: "bucket_for c now key m = b" using Cons.prems(1) by (simp add: bucket_for_def)
    obtain b' where b': "snd (allow c now key m) key = Some b'" "bucket_ok c b'"
      "(if fst (allow c now key m) then 1 else 0) + credit c M b'
         \<le> credit c M (refill c now b) + c * ulp_half"
      using allow_credit [OF Cons.prems(2) c bk] by blast
    have "of_nat (allowed c key rs (snd (allow c now key m)))
        \<le> credit c M b' + 2 * of_nat (length (requests_of key rs)) * (c * ulp_half)"
      using Cons.prems(3) True r b'(1,2) by (intro Cons.IH) simp_all
    moreover have "credit c M (refill c now b) \<le> credit c M b + c * ulp_half"
      using Cons.prems(3) True r by (intro refill_credit [OF Cons.prems(2) c(1)]) simp
    ultimately show ?thesis using b'(3) True
      by (cases "fst (allow c now key m)") (simp_all add: r allowed_simps algebra_simps)
  qed
qed

lemma first_credit:
  assumes "0 \<le> c" "bucket_ok c b" "t0 \<le> lastRefillMs b" "t0 \<le> M"
  shows "credit c M b \<le> c + of_int (M - t0) * refill_rate c"
proof -
  have "0 \<le> refill_rate c" using assms(1) ulp_half_bounds by (simp add: refill_rate_def refill_factor_def)
  moreover have "of_int (max 0 (M - lastRefillMs b)) \<le> (of_int (M - t0) :: rat)"
    using assms by (simp only: of_int_le_iff)
  ultimately have "of_int (max 0 (M - lastRefillMs b)) * refill_rate c \<le> of_int (M - t0) * refill_rate c"
    by (intro mult_right_mono)
  with assms(2) show ?thesis by (simp add: credit_def bucket_ok_def)
qed

section \<open>The theorem\<close>

text \<open>C25: over any stretch of a run, from the first request \<open>t0\<close> of a client in it until the clock
  shows \<open>t1\<close>, the client is granted at most the capacity plus the capacity times the elapsed
  minutes, whatever came before, whatever the other clients do, and even when the clock steps back
  in between. Rounding adds at most a factor \<open>(1 + 2\<^sup>-\<^sup>5\<^sup>3)\<^sup>3\<close> to the rate and \<open>2\<^sup>-\<^sup>5\<^sup>2\<close> of the capacity
  per request.\<close>

theorem rate_limit_bound:
  assumes c: "0 \<le> capacity" "capacity \<le> 2 ^ 53"
    and reqs: "requests_of key rs = t0 # ts" and until: "\<forall>t \<in> set (t0 # ts). t \<le> t1"
  shows "of_nat (allowed capacity key rs (snd (limiter_run capacity before Map.empty)))
    \<le> capacity + of_int (t1 - t0) * capacity / 60000 * (1 + 1 / 2 ^ 53) ^ 3
       + of_nat (length (t0 # ts)) * capacity / 2 ^ 52"
proof -
  let ?m = "snd (limiter_run capacity before Map.empty)"
  have ok: "limiter_ok capacity ?m" using c by (intro run_ok) (simp_all add: limiter_ok_def)
  have "of_nat (allowed capacity key rs m)
      \<le> capacity + of_int (t1 - t0) * refill_rate capacity
        + 2 * of_nat (length (t0 # ts)) * (capacity * ulp_half)"
    if "limiter_ok capacity m" for m
    using that reqs
  proof (induction rs arbitrary: m)
    case Nil
    then show ?case by simp
  next
    case (Cons r rs)
    obtain k now where r: "r = (k, now)" by fastforce
    show ?case
    proof (cases "k = key")
      case False
      with Cons r allow_ok [OF Cons.prems(1) c, of now k] show ?thesis by (simp add: allowed_simps)
    next
      case True
      with Cons.prems(2) r have now: "now = t0" and rest: "requests_of key rs = ts" by simp_all
      let ?b = "bucket_for capacity t0 key m"
      have b: "bucket_ok capacity ?b" using bucket_for_ok [OF Cons.prems(1) c(1)] .
      obtain b' where b': "snd (allow capacity t0 key m) key = Some b'" "bucket_ok capacity b'"
        "(if fst (allow capacity t0 key m) then 1 else 0) + credit capacity t1 b'
           \<le> credit capacity t1 (refill capacity t0 ?b) + capacity * ulp_half"
        using allow_credit [OF b c refl] by blast
      have "of_nat (allowed capacity key rs (snd (allow capacity t0 key m)))
          \<le> credit capacity t1 b' + 2 * of_nat (length (requests_of key rs)) * (capacity * ulp_half)"
        using until rest b'(1,2) c by (intro allowed_credit) simp_all
      moreover have "credit capacity t1 (refill capacity t0 ?b)
          \<le> capacity + of_int (t1 - t0) * refill_rate capacity"
        using refill_ok [OF b c(1), of t0] refill_last [of t0 capacity ?b] until
        by (intro first_credit [OF c(1)]) simp_all
      moreover have "0 \<le> capacity * ulp_half" using c ulp_half_bounds by simp
      ultimately show ?thesis using b'(3) True now rest
        by (cases "fst (allow capacity t0 key m)") (simp_all add: r allowed_simps algebra_simps)
    qed
  qed
  moreover have "of_int (t1 - t0) * refill_rate capacity
      = of_int (t1 - t0) * capacity / 60000 * (1 + 1 / 2 ^ 53) ^ 3"
    by (simp add: refill_rate_def refill_factor_def ulp_half_def)
  moreover have "2 * of_nat (length (t0 # ts)) * (capacity * ulp_half)
      = of_nat (length (t0 # ts)) * capacity / 2 ^ 52"
    by (simp add: ulp_half_def field_simps)
  ultimately show ?thesis using ok by metis
qed

text \<open>With one token a minute, a client that has just been served is refused a second later.\<close>

lemma rate_limit_bound_witness:
  "allowed 1 ''a'' [(''a'', 0), (''b'', 5), (''a'', 1000)] (snd (limiter_run 1 [(''b'', 0)] Map.empty)) \<le> 1"
proof -
  have "of_nat (allowed 1 ''a'' [(''a'', 0), (''b'', 5), (''a'', 1000)]
        (snd (limiter_run 1 [(''b'', 0)] Map.empty)))
      \<le> 1 + of_int (1000 - 0) * 1 / 60000 * (1 + 1 / 2 ^ 53) ^ 3 + of_nat (length [0, 1000 :: int]) * 1 / (2 :: rat) ^ 52"
    by (rule rate_limit_bound) simp_all
  also have "\<dots> < of_nat 2" by (simp add: field_simps)
  finally show ?thesis unfolding of_nat_less_iff by simp
qed

end
