(* ===== verification/Idempotency.thy ===== *)
theory Idempotency
  imports Prelude
begin

text \<open>
  \<open>actor/src/db/idempotency-repo.ts\<close>: the record of the relay requests already executed, by their
  idempotency key, in Postgres and in memory.

  The two stores meet one interface, the locale \<open>idem_store\<close>: it says what a key reads after each
  operation. The guarantees a client of the endpoint relies on (the first recorded hash stays, a
  settled status stays, the two stores cannot be told apart) are proved once inside it.
\<close>

datatype idem_status = Tx_pending | Tx_confirmed | Tx_failed

record idem_record =
  i_key :: string
  i_txHash :: string
  i_status :: idem_status
  i_chainId :: int
  i_createdAt :: int
  i_updatedAt :: int

section \<open>The Postgres table\<close>

text \<open>The rows of the table in some scan order; the column names are those of the record.\<close>

type_synonym idem_table = "idem_record list"

definition pg_idem_get :: "idem_table \<Rightarrow> string \<Rightarrow> idem_record option" where
  "pg_idem_get t k = List.find (\<lambda>r. i_key r = k) t"

definition pg_idem_put :: "idem_table \<Rightarrow> idem_record \<Rightarrow> idem_table" where
  "pg_idem_put t r = (if list_ex (\<lambda>r'. i_key r' = i_key r) t then t else t @ [r])"

definition pg_updateStatus :: "idem_table \<Rightarrow> string \<Rightarrow> idem_status \<Rightarrow> int \<Rightarrow> idem_table" where
  "pg_updateStatus t k st now =
     map (\<lambda>r. if i_key r = k then r\<lparr>i_status := st, i_updatedAt := now\<rparr> else r) t"

definition pg_updateStatusByTxHash :: "idem_table \<Rightarrow> string \<Rightarrow> idem_status \<Rightarrow> int \<Rightarrow> idem_table" where
  "pg_updateStatusByTxHash t h st now =
     map (\<lambda>r. if i_txHash r = h \<and> i_status r = Tx_pending
              then r\<lparr>i_status := st, i_updatedAt := now\<rparr> else r) t"

section \<open>The in-memory map\<close>

type_synonym idem_map = "(string \<times> idem_record) list"

definition mem_idem_get :: "idem_map \<Rightarrow> string \<Rightarrow> idem_record option" where
  "mem_idem_get m k = map_of m k"

definition mem_idem_put :: "idem_map \<Rightarrow> idem_record \<Rightarrow> idem_map" where
  "mem_idem_put m r = (if map_of m (i_key r) = None then AList.update (i_key r) r m else m)"

definition mem_updateStatus :: "idem_map \<Rightarrow> string \<Rightarrow> idem_status \<Rightarrow> int \<Rightarrow> idem_map" where
  "mem_updateStatus m k st now =
     (case map_of m k of None \<Rightarrow> m
      | Some r \<Rightarrow> AList.update k (r\<lparr>i_status := st, i_updatedAt := now\<rparr>) m)"

definition mem_updateStatusByTxHash :: "idem_map \<Rightarrow> string \<Rightarrow> idem_status \<Rightarrow> int \<Rightarrow> idem_map" where
  "mem_updateStatusByTxHash m h st now =
     map (\<lambda>(k, r). (k, if i_txHash r = h \<and> i_status r = Tx_pending
                       then r\<lparr>i_status := st, i_updatedAt := now\<rparr> else r)) m"

section \<open>The interface\<close>

text \<open>What an operation does to one record.\<close>

definition with_status :: "idem_status \<Rightarrow> int \<Rightarrow> idem_record \<Rightarrow> idem_record" where
  "with_status st now r = r\<lparr>i_status := st, i_updatedAt := now\<rparr>"

definition settled_by :: "string \<Rightarrow> idem_status \<Rightarrow> int \<Rightarrow> idem_record \<Rightarrow> idem_record" where
  "settled_by h st now r = (if i_txHash r = h \<and> i_status r = Tx_pending then with_status st now r else r)"

lemma with_status_fields [simp]:
  "i_key (with_status st now r) = i_key r" "i_txHash (with_status st now r) = i_txHash r"
  "i_chainId (with_status st now r) = i_chainId r" "i_createdAt (with_status st now r) = i_createdAt r"
  "i_status (with_status st now r) = st"
  by (simp_all add: with_status_def)

lemma settled_by_fields [simp]:
  "i_key (settled_by h st now r) = i_key r" "i_txHash (settled_by h st now r) = i_txHash r"
  "i_chainId (settled_by h st now r) = i_chainId r" "i_createdAt (settled_by h st now r) = i_createdAt r"
  by (simp_all add: settled_by_def)

datatype idem_op = Put idem_record | SetStatus string idem_status int | Settle string idem_status int

definition same_request :: "idem_record \<Rightarrow> idem_record \<Rightarrow> bool" where
  "same_request r r' \<longleftrightarrow> i_key r' = i_key r \<and> i_txHash r' = i_txHash r \<and> i_chainId r' = i_chainId r
     \<and> i_createdAt r' = i_createdAt r"

lemma same_request_refl [simp]: "same_request r r"
  and same_request_with [simp]: "same_request r (with_status st now r)"
  and same_request_settled [simp]: "same_request r (settled_by h st now r)"
  and same_request_trans: "same_request r r' \<Longrightarrow> same_request r' r'' \<Longrightarrow> same_request r r''"
  by (simp_all add: same_request_def)

text \<open>The operations of the endpoint: it inserts and settles, and never overwrites a status.\<close>

fun endpoint_op :: "idem_op \<Rightarrow> bool" where
  "endpoint_op (Put r) = (i_status r = Tx_pending)"
| "endpoint_op (Settle h st now) = (st \<noteq> Tx_pending)"
| "endpoint_op (SetStatus k st now) = False"

text \<open>One operation, against a given store.\<close>

fun idem_apply ::
    "('s \<Rightarrow> idem_record \<Rightarrow> 's) \<Rightarrow> ('s \<Rightarrow> string \<Rightarrow> idem_status \<Rightarrow> int \<Rightarrow> 's)
     \<Rightarrow> ('s \<Rightarrow> string \<Rightarrow> idem_status \<Rightarrow> int \<Rightarrow> 's) \<Rightarrow> 's \<Rightarrow> idem_op \<Rightarrow> 's" where
  "idem_apply put set_status settle s (Put r) = put s r"
| "idem_apply put set_status settle s (SetStatus k st now) = set_status s k st now"
| "idem_apply put set_status settle s (Settle h st now) = settle s h st now"

locale idem_store =
  fixes lookup :: "'s \<Rightarrow> string \<Rightarrow> idem_record option"
    and put :: "'s \<Rightarrow> idem_record \<Rightarrow> 's"
    and set_status :: "'s \<Rightarrow> string \<Rightarrow> idem_status \<Rightarrow> int \<Rightarrow> 's"
    and settle :: "'s \<Rightarrow> string \<Rightarrow> idem_status \<Rightarrow> int \<Rightarrow> 's"
    and empty :: "'s"
  assumes lookup_empty: "lookup empty k = None"
    and lookup_put: "lookup (put s r) k =
       (if lookup s k = None \<and> k = i_key r then Some r else lookup s k)"
    and lookup_set_status: "lookup (set_status s k' st now) k =
       (if k = k' then map_option (with_status st now) (lookup s k) else lookup s k)"
    and lookup_settle: "lookup (settle s h st now) k = map_option (settled_by h st now) (lookup s k)"
begin

abbreviation apply_op :: "'s \<Rightarrow> idem_op \<Rightarrow> 's" where
  "apply_op \<equiv> idem_apply put set_status settle"

lemma op_keeps_request:
  assumes "lookup s k = Some r"
  shows "\<exists>r'. lookup (apply_op s x) k = Some r' \<and> same_request r r'"
  using assms by (cases x) (auto simp: lookup_put lookup_set_status lookup_settle)

lemma run_keeps_request:
  "lookup s k = Some r \<Longrightarrow> \<exists>r'. lookup (foldl apply_op s xs) k = Some r' \<and> same_request r r'"
proof (induction xs arbitrary: s r)
  case Nil
  then show ?case by simp
next
  case (Cons x xs)
  from op_keeps_request [OF Cons.prems] obtain r1
    where "lookup (apply_op s x) k = Some r1" "same_request r r1" by blast
  with Cons.IH show ?case using same_request_trans by fastforce
qed

lemma run_keeps_settled:
  "lookup s k = Some r \<Longrightarrow> i_status r \<noteq> Tx_pending \<Longrightarrow> list_all endpoint_op xs
   \<Longrightarrow> lookup (foldl apply_op s xs) k = Some r"
proof (induction xs arbitrary: s)
  case Nil
  then show ?case by simp
next
  case (Cons x xs)
  have "lookup (apply_op s x) k = Some r"
    using Cons.prems by (cases x) (simp_all add: lookup_put lookup_settle settled_by_def)
  with Cons show ?case by simp
qed

end

text \<open>Two stores that meet the interface answer every lookup alike, after the same operations.\<close>

locale two_stores = a: idem_store getA putA statusA settleA emptyA
  + b: idem_store getB putB statusB settleB emptyB
  for getA :: "'s \<Rightarrow> string \<Rightarrow> idem_record option" and putA statusA settleA emptyA
    and getB :: "'t \<Rightarrow> string \<Rightarrow> idem_record option" and putB statusB settleB emptyB
begin

lemma agree_run:
  "(\<And>k. getA s k = getB t k)
   \<Longrightarrow> getA (foldl a.apply_op s xs) k = getB (foldl b.apply_op t xs) k"
proof (induction xs arbitrary: s t)
  case Nil
  then show ?case by simp
next
  case (Cons x xs)
  have "getA (a.apply_op s x) k = getB (b.apply_op t x) k" for k
    using Cons.prems
    by (cases x) (auto simp: a.lookup_put a.lookup_set_status a.lookup_settle
      b.lookup_put b.lookup_set_status b.lookup_settle)
  then show ?case using Cons.IH [of "a.apply_op s x" "b.apply_op t x"] by simp
qed

lemma agree: "getA (foldl a.apply_op emptyA xs) k = getB (foldl b.apply_op emptyB xs) k"
  by (rule agree_run) (simp add: a.lookup_empty b.lookup_empty)

end

section \<open>Both stores meet it\<close>

lemma find_map_keys:
  assumes "\<And>r. i_key (f r) = i_key r"
  shows "List.find (\<lambda>r. i_key r = k) (map f t) = map_option f (List.find (\<lambda>r. i_key r = k) t)"
  using assms by (induction t) simp_all

lemma find_append_key:
  "List.find P (xs @ ys) = (case List.find P xs of Some x \<Rightarrow> Some x | None \<Rightarrow> List.find P ys)"
  by (induction xs) simp_all

lemma find_key_None: "List.find (\<lambda>r. i_key r = k) t = None \<longleftrightarrow> \<not> list_ex (\<lambda>r. i_key r = k) t"
  by (auto simp: find_None_iff list_ex_iff)

lemma pg_get_put: "pg_idem_get (pg_idem_put t r) k =
    (if pg_idem_get t k = None \<and> k = i_key r then Some r else pg_idem_get t k)"
proof (cases "list_ex (\<lambda>r'. i_key r' = i_key r) t")
  case True
  then have "pg_idem_get t (i_key r) \<noteq> None" by (simp add: pg_idem_get_def find_key_None)
  with True show ?thesis by (auto simp: pg_idem_put_def)
next
  case False
  then have "pg_idem_get t (i_key r) = None" by (simp add: pg_idem_get_def find_key_None)
  with False show ?thesis
    by (auto simp: pg_idem_put_def pg_idem_get_def find_append_key split: option.splits)
qed

lemma pg_get_status: "pg_idem_get (pg_updateStatus t k' st now) k =
    (if k = k' then map_option (with_status st now) (pg_idem_get t k) else pg_idem_get t k)"
  unfolding pg_idem_get_def pg_updateStatus_def
  by (induction t) (auto simp: with_status_def [abs_def])

lemma pg_get_settle:
  "pg_idem_get (pg_updateStatusByTxHash t h st now) k = map_option (settled_by h st now) (pg_idem_get t k)"
proof -
  have "pg_updateStatusByTxHash t h st now = map (settled_by h st now) t"
    by (simp add: pg_updateStatusByTxHash_def settled_by_def [abs_def] with_status_def)
  then show ?thesis by (simp add: pg_idem_get_def find_map_keys)
qed

lemma mem_get_put: "mem_idem_get (mem_idem_put m r) k =
    (if mem_idem_get m k = None \<and> k = i_key r then Some r else mem_idem_get m k)"
  by (auto simp: mem_idem_get_def mem_idem_put_def update_conv')

lemma mem_get_status: "mem_idem_get (mem_updateStatus m k' st now) k =
    (if k = k' then map_option (with_status st now) (mem_idem_get m k) else mem_idem_get m k)"
  by (cases "map_of m k'") (simp_all add: mem_idem_get_def mem_updateStatus_def update_conv with_status_def)

lemma mem_get_settle:
  "mem_idem_get (mem_updateStatusByTxHash m h st now) k = map_option (settled_by h st now) (mem_idem_get m k)"
proof -
  have "mem_updateStatusByTxHash m h st now = map (\<lambda>(k, r). (k, settled_by h st now r)) m"
    by (auto simp: mem_updateStatusByTxHash_def settled_by_def with_status_def)
  then show ?thesis by (simp add: mem_idem_get_def map_of_map)
qed

interpretation pg_idem: idem_store pg_idem_get pg_idem_put pg_updateStatus pg_updateStatusByTxHash "[]"
  by unfold_locales (simp_all add: pg_get_put pg_get_status pg_get_settle, simp add: pg_idem_get_def)

interpretation mem_idem: idem_store mem_idem_get mem_idem_put mem_updateStatus mem_updateStatusByTxHash "[]"
  by unfold_locales (simp_all add: mem_get_put mem_get_status mem_get_settle, simp add: mem_idem_get_def)

interpretation both_idem: two_stores
  pg_idem_get pg_idem_put pg_updateStatus pg_updateStatusByTxHash "[]"
  mem_idem_get mem_idem_put mem_updateStatus mem_updateStatusByTxHash "[]"
  by unfold_locales

section \<open>The theorems\<close>

text \<open>The operations of each store.\<close>

definition pg_idem_op :: "idem_table \<Rightarrow> idem_op \<Rightarrow> idem_table" where
  "pg_idem_op = idem_apply pg_idem_put pg_updateStatus pg_updateStatusByTxHash"

definition mem_idem_op :: "idem_map \<Rightarrow> idem_op \<Rightarrow> idem_map" where
  "mem_idem_op = idem_apply mem_idem_put mem_updateStatus mem_updateStatusByTxHash"

text \<open>The Postgres store and the in-memory store the tests use cannot be told apart: after the
  same operations from empty, every key reads the same record in both.\<close>

theorem idempotency_stores_agree:
  "pg_idem_get (foldl pg_idem_op [] xs) k = mem_idem_get (foldl mem_idem_op [] xs) k"
  unfolding pg_idem_op_def mem_idem_op_def by (rule both_idem.agree)

text \<open>The first execution recorded for a key is final: whatever the endpoint does later, a
  second put for the key included, the key keeps answering with the transaction hash, chain and
  creation time of the first, and once the status is settled, with that status.\<close>

theorem first_execution_is_final:
  assumes first: "pg_idem_get t k = Some r" and ops: "list_all endpoint_op xs"
  shows "\<exists>r'. pg_idem_get (foldl pg_idem_op t xs) k = Some r' \<and> i_txHash r' = i_txHash r
      \<and> i_chainId r' = i_chainId r \<and> i_createdAt r' = i_createdAt r
      \<and> (i_status r \<noteq> Tx_pending \<longrightarrow> r' = r)"
proof -
  obtain r' where r': "pg_idem_get (foldl pg_idem_op t xs) k = Some r'" "same_request r r'"
    unfolding pg_idem_op_def using pg_idem.run_keeps_request [OF first] by blast
  moreover have "r' = r" if "i_status r \<noteq> Tx_pending"
    using pg_idem.run_keeps_settled [OF first that ops] r'(1) by (simp add: pg_idem_op_def)
  ultimately show ?thesis by (auto simp: same_request_def)
qed

definition demo_idem :: "string \<Rightarrow> int \<Rightarrow> idem_record" where
  "demo_idem h now = \<lparr>i_key = ''k1'', i_txHash = h, i_status = Tx_pending, i_chainId = 31337,
     i_createdAt = now, i_updatedAt = now\<rparr>"

text \<open>The request executes, its transaction confirms, and a late duplicate tries to record another
  hash and to fail it.\<close>

lemma first_execution_is_final_witness:
  "\<exists>r'. pg_idem_get (foldl pg_idem_op (pg_updateStatusByTxHash (pg_idem_put [] (demo_idem ''0xaa'' 5)) ''0xaa'' Tx_confirmed 9)
        [Put (demo_idem ''0xbb'' 10), Settle ''0xaa'' Tx_failed 11]) ''k1'' = Some r'
      \<and> i_txHash r' = ''0xaa'' \<and> i_status r' = Tx_confirmed"
proof -
  have "pg_idem_get (pg_updateStatusByTxHash (pg_idem_put [] (demo_idem ''0xaa'' 5)) ''0xaa'' Tx_confirmed 9) ''k1''
      = Some (demo_idem ''0xaa'' 5\<lparr>i_status := Tx_confirmed, i_updatedAt := 9\<rparr>)"
    by (simp add: pg_idem_get_def pg_idem_put_def pg_updateStatusByTxHash_def demo_idem_def)
  moreover have "list_all endpoint_op [Put (demo_idem ''0xbb'' 10), Settle ''0xaa'' Tx_failed 11]"
    by (simp add: demo_idem_def)
  ultimately show ?thesis using first_execution_is_final by (fastforce simp: demo_idem_def)
qed

end
