(* ===== verification/Health.thy ===== *)
theory Health
  imports JobsRepo Networks
begin

text \<open>
  \<open>actor/src/http/health.ts\<close> and the \<open>chainHealth\<close> reader of \<open>main.ts\<close>: the freshness of each chain
  from the watcher's progress, the job counts of its domain, the worst-wins rollup and the HTTP status.

  The four statuses are ordered by \<open>SEVERITY\<close> as an instance of \<open>linorder\<close>, so that the rollup is a
  maximum. The lag is a JavaScript number: with a nominal block time of zero it is infinite or \<open>NaN\<close>.
\<close>

datatype chain_health_status = Healthy | Degraded | Stale | Unhealthy

fun SEVERITY :: "chain_health_status \<Rightarrow> nat" where
  "SEVERITY Healthy = 0"
| "SEVERITY Degraded = 1"
| "SEVERITY Stale = 2"
| "SEVERITY Unhealthy = 3"

instantiation chain_health_status :: linorder
begin

definition less_eq_chain_health_status :: "chain_health_status \<Rightarrow> chain_health_status \<Rightarrow> bool" where
  "s \<le> t \<longleftrightarrow> SEVERITY s \<le> SEVERITY t"

definition less_chain_health_status :: "chain_health_status \<Rightarrow> chain_health_status \<Rightarrow> bool" where
  "s < t \<longleftrightarrow> SEVERITY s < SEVERITY t"

instance
proof
  fix s t u :: chain_health_status
  show "s < t \<longleftrightarrow> s \<le> t \<and> \<not> t \<le> s"
    by (auto simp: less_eq_chain_health_status_def less_chain_health_status_def)
  show "s \<le> s" by (simp add: less_eq_chain_health_status_def)
  show "s \<le> t \<Longrightarrow> t \<le> u \<Longrightarrow> s \<le> u" by (simp add: less_eq_chain_health_status_def)
  show "s \<le> t \<Longrightarrow> t \<le> s \<Longrightarrow> s = t"
    by (cases s; cases t) (simp_all add: less_eq_chain_health_status_def)
  show "s \<le> t \<or> t \<le> s" by (auto simp: less_eq_chain_health_status_def)
qed

end

record chain_health_report =
  h_chainName :: string
  h_domain :: int
  h_status :: chain_health_status
  h_lastProcessedBlock :: rat
  h_chainHead :: jsnum
  h_lagBlocks :: jsnum
  h_lastScanAt :: int
  h_lastError :: "(string \<times> int) option"
  h_pendingCount :: nat
  h_deadLetterCount :: nat

record chain_health_input =
  i_chainName :: string
  i_domain :: int
  i_pollIntervalMs :: int
  i_nominalBlockTimeMs :: int
  i_progress :: "chain_progress option"
  i_lastTickErrored :: bool
  i_pendingCount :: nat
  i_deadLetterCount :: nat

text \<open>\<open>Math.max(0, Math.floor(ageMs / nominalBlockTimeMs) - 1)\<close>.\<close>

definition lag_blocks :: "int \<Rightarrow> int \<Rightarrow> jsnum" where
  "lag_blocks age nominal =
     (if nominal = 0 then (if 0 < age then PosInf else if age = 0 then NaN else Fin 0)
      else Fin (of_int (max 0 (\<lfloor>dbl (of_int age / of_int nominal)\<rfloor> - 1))))"

fun js_greater :: "jsnum \<Rightarrow> rat \<Rightarrow> bool" where
  "js_greater (Fin x) y = (y < x)"
| "js_greater PosInf y = True"
| "js_greater NegInf y = False"
| "js_greater NaN y = False"

fun js_plus :: "rat \<Rightarrow> jsnum \<Rightarrow> jsnum" where
  "js_plus x (Fin y) = Fin (dbl (x + y))"
| "js_plus x n = n"

definition classifyChain :: "int \<Rightarrow> chain_health_input \<Rightarrow> chain_health_report" where
  "classifyChain nowMs i =
     (let lastScanMs = (case i_progress i of None \<Rightarrow> None | Some p \<Rightarrow> cp_lastIndexedBlockTimestamp p);
          ageMs = map_option (\<lambda>t. nowMs - t) lastScanMs;
          lastProcessedBlock = (case i_progress i of None \<Rightarrow> 0 | Some p \<Rightarrow> dbl (of_int (cp_lastIndexedBlock p)));
          lagBlocks = (case ageMs of None \<Rightarrow> Fin 0 | Some age \<Rightarrow> lag_blocks age (i_nominalBlockTimeMs i));
          status = (case ageMs of
              None \<Rightarrow> Unhealthy
            | Some age \<Rightarrow>
                if 10 * i_pollIntervalMs i < age then Unhealthy
                else if 3 * i_pollIntervalMs i < age then Stale
                else if i_lastTickErrored i \<or> js_greater lagBlocks 100 then Degraded
                else Healthy)
      in \<lparr>h_chainName = i_chainName i, h_domain = i_domain i, h_status = status,
          h_lastProcessedBlock = lastProcessedBlock, h_chainHead = js_plus lastProcessedBlock lagBlocks,
          h_lagBlocks = lagBlocks, h_lastScanAt = (case lastScanMs of None \<Rightarrow> 0 | Some t \<Rightarrow> t),
          h_lastError = None, h_pendingCount = i_pendingCount i,
          h_deadLetterCount = i_deadLetterCount i\<rparr>)"

definition rollup :: "chain_health_report list \<Rightarrow> chain_health_status" where
  "rollup reports =
     foldl (\<lambda>worst c. if SEVERITY worst < SEVERITY (h_status c) then h_status c else worst) Healthy reports"

definition healthHttpStatus :: "chain_health_status \<Rightarrow> int" where
  "healthHttpStatus s = (if s = Healthy \<or> s = Degraded then 200 else 503)"

section \<open>Counters\<close>

type_synonym counters = "string \<Rightarrow> nat option"

definition inc :: "string \<Rightarrow> nat \<Rightarrow> counters \<Rightarrow> counters" where
  "inc key by_n m = m(key \<mapsto> (case m key of Some n \<Rightarrow> n | None \<Rightarrow> 0) + by_n)"

section \<open>The reader of \<open>main.ts\<close>\<close>

fun count_step :: "int \<Rightarrow> nat \<times> nat \<Rightarrow> (job_state \<times> int) \<times> nat \<Rightarrow> nat \<times> nat" where
  "count_step domain (pending, dead) ((st, d), n) =
     (if d \<noteq> domain then (pending, dead)
      else if st \<in> {Detected, AwaitingAttestation, Attested, Submitted} then (pending + n, dead)
      else if st = DeadLetter then (pending, dead + n)
      else (pending, dead))"

definition count_jobs :: "((job_state \<times> int) \<times> nat) list \<Rightarrow> int \<Rightarrow> nat \<times> nat" where
  "count_jobs counts domain = foldl (count_step domain) (0, 0) counts"

definition chainHealth ::
    "chain_topology list \<Rightarrow> chain_progress list \<Rightarrow> ((job_state \<times> int) \<times> nat) list \<Rightarrow> int
     \<Rightarrow> chain_health_report list" where
  "chainHealth chains_of_config progress counts nowMs =
     (let byChain = map_of (rev (map (\<lambda>p. (cp_chainId p, p)) progress))
      in map (\<lambda>c. case count_jobs counts (ct_domain c) of (pending, dead) \<Rightarrow>
           classifyChain nowMs
             \<lparr>i_chainName = ct_name c, i_domain = ct_domain c, i_pollIntervalMs = ct_pollingIntervalMs c,
              i_nominalBlockTimeMs = ct_nominalBlockTimeMs c, i_progress = byChain (ct_chainId c),
              i_lastTickErrored = False, i_pendingCount = pending, i_deadLetterCount = dead\<rparr>)
         chains_of_config)"

section \<open>The rollup is the maximum\<close>

lemma rollup_max: "rollup reports = fold max (map h_status reports) Healthy"
proof -
  have "(if SEVERITY w < SEVERITY s then s else w) = max s w" for s w
    by (cases s; cases w) (simp_all add: max_def less_eq_chain_health_status_def)
  then show ?thesis by (simp add: rollup_def foldl_conv_fold fold_map comp_def)
qed

lemma rollup_Max: "rollup reports = Max (insert Healthy (h_status ` set reports))"
  unfolding rollup_max using Max.set_eq_fold [of Healthy "map h_status reports"] by simp

lemma least_status [simp]: "Healthy \<le> s"
  by (simp add: less_eq_chain_health_status_def)

lemma rollup_le: "rollup reports \<le> s \<longleftrightarrow> list_all (\<lambda>c. h_status c \<le> s) reports"
  by (auto simp: rollup_Max list_all_iff)

lemma http_ok_iff: "healthHttpStatus s = 200 \<longleftrightarrow> s \<le> Degraded"
  by (cases s) (simp_all add: healthHttpStatus_def less_eq_chain_health_status_def)

section \<open>The job counts\<close>

definition open_state :: "job_state \<Rightarrow> bool" where
  "open_state st \<longleftrightarrow> st \<in> {Detected, AwaitingAttestation, Attested, Submitted}"

lemma count_jobs_filters:
  "count_jobs counts domain =
     (sum_list (map snd (filter (\<lambda>((st, d), _). d = domain \<and> open_state st) counts)),
      sum_list (map snd (filter (\<lambda>((st, d), _). d = domain \<and> st = DeadLetter) counts)))"
proof -
  have "foldl (count_step domain) (p, q) counts =
     (p + sum_list (map snd (filter (\<lambda>((st, d), _). d = domain \<and> open_state st) counts)),
      q + sum_list (map snd (filter (\<lambda>((st, d), _). d = domain \<and> st = DeadLetter) counts)))" for p q
    by (induction counts arbitrary: p q) (auto simp: open_state_def split: if_splits)
  then show ?thesis by (simp add: count_jobs_def)
qed

text \<open>A GROUP BY count summed over the groups that satisfy a predicate counts the rows that do.\<close>

lemma sum_indicator:
  "distinct ks \<Longrightarrow>
     sum_list (map (\<lambda>k. if x = k \<and> P k then 1 else 0) ks) = (if x \<in> set ks \<and> P x then 1 else (0 :: nat))"
  by (induction ks) auto

lemma group_counts:
  assumes "distinct ks" and "key ` set t \<subseteq> set ks"
  shows "sum_list (map snd (filter (\<lambda>(k, _). P k) (map (\<lambda>k. (k, length (filter (\<lambda>r. key r = k) t))) ks)))
    = length (filter (\<lambda>r. P (key r)) t)"
  using assms(2)
proof (induction t)
  case Nil
  show ?case by (induction ks) auto
next
  case (Cons r t)
  have "sum_list (map snd (filter (\<lambda>(k, _). P k) (map (\<lambda>k. (k, length (filter (\<lambda>r. key r = k) (r # t)))) ks)))
      = sum_list (map (\<lambda>k. if key r = k \<and> P k then 1 else 0) ks)
        + sum_list (map snd (filter (\<lambda>(k, _). P k) (map (\<lambda>k. (k, length (filter (\<lambda>r. key r = k) t))) ks)))"
    by (induction ks) auto
  also have "sum_list (map (\<lambda>k. if key r = k \<and> P k then 1 else (0 :: nat)) ks) = (if P (key r) then 1 else 0)"
    using assms(1) Cons.prems by (simp add: sum_indicator)
  finally show ?case using Cons by simp
qed

section \<open>Freshness\<close>

lemma lag_mono:
  assumes "age \<le> age'" and "0 \<le> nominal" and "js_greater (lag_blocks age nominal) 100"
  shows "js_greater (lag_blocks age' nominal) 100"
proof (cases "nominal = 0")
  case True
  with assms show ?thesis by (auto simp: lag_blocks_def split: if_splits)
next
  case False
  with assms(3) have lag: "101 < \<lfloor>dbl (of_int age / of_int nominal)\<rfloor>"
    by (simp add: lag_blocks_def max_def split: if_splits)
  have "0 \<le> age"
  proof (rule ccontr)
    assume "\<not> 0 \<le> age"
    then have "\<not> 0 < dbl (of_int age / of_int nominal)"
      using assms(2) False unfolding dbl_pos_iff by (simp add: zero_less_divide_iff)
    then have "\<lfloor>dbl (of_int age / of_int nominal)\<rfloor> \<le> \<lfloor>0 :: rat\<rfloor>" by (intro floor_mono) linarith
    with lag show False by simp
  qed
  then have "\<lfloor>dbl (of_int age / of_int nominal)\<rfloor> \<le> \<lfloor>dbl (of_int age' / of_int nominal)\<rfloor>"
    using assms by (intro floor_mono dbl_mono divide_right_mono) simp_all
  with lag have "101 < \<lfloor>dbl (of_int age' / of_int nominal)\<rfloor>" by (rule less_le_trans)
  then have "100 < max 0 (\<lfloor>dbl (of_int age' / of_int nominal)\<rfloor> - 1)" by linarith
  then have "(100 :: rat) < of_int (max 0 (\<lfloor>dbl (of_int age' / of_int nominal)\<rfloor> - 1))" by linarith
  with False show ?thesis by (simp add: lag_blocks_def)
qed

definition fresh_chain :: "chain_progress list \<Rightarrow> int \<Rightarrow> chain_topology \<Rightarrow> bool" where
  "fresh_chain progress now c \<longleftrightarrow>
     (\<exists>p t. map_of (rev (map (\<lambda>p. (cp_chainId p, p)) progress)) (ct_chainId c) = Some p
        \<and> cp_lastIndexedBlockTimestamp p = Some t \<and> now - t \<le> 3 * ct_pollingIntervalMs c)"

lemma classify_status:
  "h_status (classifyChain now i) \<le> Degraded \<longleftrightarrow>
     (\<exists>p t. i_progress i = Some p \<and> cp_lastIndexedBlockTimestamp p = Some t
        \<and> now - t \<le> 10 * i_pollIntervalMs i \<and> now - t \<le> 3 * i_pollIntervalMs i)"
  by (auto simp: classifyChain_def Let_def less_eq_chain_health_status_def split: option.splits)

lemma all_fresh:
  assumes "list_all valid_chain cs"
  shows "healthHttpStatus (rollup (chainHealth cs progress counts now)) = 200
    \<longleftrightarrow> list_all (fresh_chain progress now) cs"
proof -
  have "h_status (case count_jobs counts (ct_domain c) of (pending, dead) \<Rightarrow>
           classifyChain now
             \<lparr>i_chainName = ct_name c, i_domain = ct_domain c, i_pollIntervalMs = ct_pollingIntervalMs c,
              i_nominalBlockTimeMs = ct_nominalBlockTimeMs c,
              i_progress = map_of (rev (map (\<lambda>p. (cp_chainId p, p)) progress)) (ct_chainId c),
              i_lastTickErrored = False, i_pendingCount = pending, i_deadLetterCount = dead\<rparr>) \<le> Degraded
      \<longleftrightarrow> fresh_chain progress now c" if "c \<in> set cs" for c
  proof -
    have "0 \<le> ct_pollingIntervalMs c" using assms that by (auto simp: list_all_iff valid_chain_def)
    then show ?thesis
      by (cases "count_jobs counts (ct_domain c)") (auto simp: classify_status fresh_chain_def)
  qed
  then show ?thesis
    unfolding http_ok_iff rollup_le chainHealth_def Let_def
    by (simp add: list_all_iff)
qed

text \<open>The health endpoint answers 200 exactly when every chain of the network was indexed within
  three of its poll intervals; a chain the watcher has never reported, or one that lags, makes the whole
  answer 503.\<close>

theorem health_ok_iff_all_fresh:
  assumes "list_all valid_chain cs"
  shows "healthHttpStatus (rollup (chainHealth cs progress counts now)) = 200
    \<longleftrightarrow> list_all (fresh_chain progress now) cs"
  using assms by (rule all_fresh)

lemma status_scanned:
  assumes "i_progress i = Some p" and "cp_lastIndexedBlockTimestamp p = Some t"
  shows "h_status (classifyChain now i) =
    (if 10 * i_pollIntervalMs i < now - t then Unhealthy
     else if 3 * i_pollIntervalMs i < now - t then Stale
     else if i_lastTickErrored i \<or> js_greater (lag_blocks (now - t) (i_nominalBlockTimeMs i)) 100 then Degraded
     else Healthy)"
  using assms by (simp add: classifyChain_def Let_def)

text \<open>While the watcher reports nothing new, the status of a chain never improves with time.\<close>

theorem health_only_worsens:
  assumes "now \<le> now'" and "0 \<le> i_nominalBlockTimeMs i"
  shows "h_status (classifyChain now i) \<le> h_status (classifyChain now' i)"
proof (cases "i_progress i")
  case None
  then show ?thesis by (simp add: classifyChain_def Let_def)
next
  case (Some p)
  show ?thesis
  proof (cases "cp_lastIndexedBlockTimestamp p")
    case None
    with Some show ?thesis by (simp add: classifyChain_def Let_def)
  next
    case (Some t)
    have "js_greater (lag_blocks (now - t) (i_nominalBlockTimeMs i)) 100
        \<longrightarrow> js_greater (lag_blocks (now' - t) (i_nominalBlockTimeMs i)) 100"
      using assms by (intro impI lag_mono [of "now - t" "now' - t"]) simp_all
    then show ?thesis using assms(1)
      unfolding status_scanned [OF \<open>i_progress i = Some p\<close> Some]
      by (simp add: less_eq_chain_health_status_def)
  qed
qed

text \<open>The pending and dead-letter counts of a chain are the number of jobs in the table bound for
  its domain that are still open, or dead-lettered.\<close>

theorem health_counts_jobs:
  "map (\<lambda>r. (h_pendingCount r, h_deadLetterCount r)) (chainHealth cs progress (pg_countsByState t) now)
   = map (\<lambda>c. (length (filter (\<lambda>r. destination_domain r = ct_domain c \<and> open_state (r_state r)) t),
               length (filter (\<lambda>r. destination_domain r = ct_domain c \<and> r_state r = DeadLetter) t))) cs"
proof -
  let ?key = "\<lambda>r. (r_state r, destination_domain r)"
  have keys: "distinct (remdups (map ?key t))" "?key ` set t \<subseteq> set (remdups (map ?key t))" by auto
  have counted: "sum_list (map snd (filter (\<lambda>((st, d'), _). P st d') (pg_countsByState t)))
      = length (filter (\<lambda>r. P (r_state r) (destination_domain r)) t)" for P
  proof -
    have "(\<lambda>((st, d'), _ :: nat). P st d') = (\<lambda>(k, _). P (fst k) (snd k))" by auto
    then show ?thesis
      unfolding pg_countsByState_def
      by (simp only: group_counts [OF keys, of "\<lambda>k. P (fst k) (snd k)"] fst_conv snd_conv)
  qed
  have "count_jobs (pg_countsByState t) d =
     (length (filter (\<lambda>r. destination_domain r = d \<and> open_state (r_state r)) t),
      length (filter (\<lambda>r. destination_domain r = d \<and> r_state r = DeadLetter) t))" for d
    unfolding count_jobs_filters
    using counted [of "\<lambda>st d'. d' = d \<and> open_state st"] counted [of "\<lambda>st d'. d' = d \<and> st = DeadLetter"]
    by (simp only:)
  then show ?thesis by (simp add: chainHealth_def Let_def classifyChain_def)
qed

section \<open>Examples\<close>

definition demo_hub :: chain_topology where
  "demo_hub = \<lparr>ct_chainId = 31337, ct_name = ''hub'', ct_role = Hub, ct_manifestPrefix = ''hub'', ct_domain = 100,
     ct_rpcUrlEnv = ''RPC'', ct_defaultRpcUrl = None, ct_pollingIntervalMs = 1000, ct_confirmations = 0,
     ct_nominalBlockTimeMs = 12000\<rparr>"

definition demo_progress :: "chain_progress list" where
  "demo_progress = [\<lparr>cp_chainId = 31337, cp_lastIndexedBlock = 7, cp_lastIndexedBlockTimestamp = Some 5000,
     cp_ready = True\<rparr>]"

text \<open>Three seconds after the last indexed block the hub is fresh, a millisecond later it is not.\<close>

lemma health_ok_iff_all_fresh_witness:
  "healthHttpStatus (rollup (chainHealth [demo_hub] demo_progress [] 8000)) = 200
   \<and> healthHttpStatus (rollup (chainHealth [demo_hub] demo_progress [] 8001)) \<noteq> 200"
proof -
  have "list_all valid_chain [demo_hub]" by (simp add: demo_hub_def valid_chain_def)
  from health_ok_iff_all_fresh [OF this] show ?thesis
    by (simp add: fresh_chain_def demo_progress_def) (simp add: demo_hub_def)
qed

definition demo_input :: chain_health_input where
  "demo_input = \<lparr>i_chainName = ''hub'', i_domain = 100, i_pollIntervalMs = 1000,
      i_nominalBlockTimeMs = 12000, i_progress = Some (hd demo_progress), i_lastTickErrored = True,
      i_pendingCount = 0, i_deadLetterCount = 0\<rparr>"

lemma health_only_worsens_witness:
  "h_status (classifyChain 5000 demo_input) \<le> h_status (classifyChain 9000 demo_input)"
  by (rule health_only_worsens) (simp_all add: demo_input_def)

end
