(* ===== verification/Http.thy ===== *)
theory Http
  imports Relay Limiter Idempotency Health
begin

text \<open>
  \<open>actor/src/http/server.ts\<close>: the endpoints of the actor, each the whole handler behind its rate
  limiter. A request is what Express hands over: the parsed JSON body, and of a query parameter the
  text \<open>String(v)\<close>, which is all the handlers look at. A response is a status and a typed body. A
  handler whose promise rejects is answered 500 by Express 5.

  The state holds what the closures of \<open>createApp\<close> share: the relay pipeline's state (with the fee
  schedules and the counters), the two repositories and the two limiters. Metrics, CORS and the static
  index are left out.
\<close>

section \<open>Requests, responses, state\<close>

datatype tx_result = Tx_result idem_status "int option" "string option"

datatype http_body =
    Schedule fee_schedule
  | NoSchedule "int list"
  | Error_body string "string option"
  | Tx_body string idem_status
  | Status_body tx_result
  | Delivered_body "delivered_record list" int
  | Health_body chain_health_status "chain_health_report list" int "string list"
  | No_body

type_synonym response = "int \<times> http_body"

record 'w http_deps =
  hubChainId :: int
  configuredChainIds :: "int list"
  hd_fees :: "'w fee_deps"
  hd_relay :: "'w relay_deps"
  hd_txStatus :: "string \<Rightarrow> int option \<Rightarrow> 'w \<Rightarrow> tx_result \<times> 'w"
  hd_chains :: "chain_topology list"
  hd_progress :: "'w \<Rightarrow> exn + chain_progress list"
  relayRatePerMin :: rat
  getRatePerMin :: rat
  hd_now :: "'w \<Rightarrow> int \<times> 'w"

record 'w http_state =
  hs_relay :: "'w relay_state"
  hs_idem :: idem_table
  hs_jobs :: job_table
  relayLimiter :: limiter
  getLimiter :: limiter

type_synonym 'w handler = "'w http_state \<Rightarrow> response \<times> 'w http_state"

definition MAX_IDEMPOTENCY_KEY_LENGTH :: nat where "MAX_IDEMPOTENCY_KEY_LENGTH = 200"

definition count_event :: "string \<Rightarrow> 'w http_state \<Rightarrow> 'w http_state" where
  "count_event key s = s\<lparr>hs_relay := bump key (hs_relay s)\<rparr>"

definition clock :: "'w http_deps \<Rightarrow> 'w http_state \<Rightarrow> int \<times> 'w http_state" where
  "clock H s = (case r_ext (hd_now H) (hs_relay s) of (now, r) \<Rightarrow> (now, s\<lparr>hs_relay := r\<rparr>))"

section \<open>Rate limiting\<close>

definition too_many :: response where
  "too_many = (429, Error_body ''Too many requests - slow down.'' (Some ''RATE_LIMITED''))"

definition relay_limited :: "'w http_deps \<Rightarrow> string \<Rightarrow> 'w handler \<Rightarrow> 'w handler" where
  "relay_limited H client next_handler s =
     (case clock H s of (now, s) \<Rightarrow>
      case allow (relayRatePerMin H) now client (relayLimiter s) of
        (True, m) \<Rightarrow> next_handler (s\<lparr>relayLimiter := m\<rparr>)
      | (False, m) \<Rightarrow> (too_many, count_event ''rateLimited'' (s\<lparr>relayLimiter := m\<rparr>)))"

definition get_limited :: "'w http_deps \<Rightarrow> string \<Rightarrow> 'w handler \<Rightarrow> 'w handler" where
  "get_limited H client next_handler s =
     (case clock H s of (now, s) \<Rightarrow>
      case allow (getRatePerMin H) now client (getLimiter s) of
        (True, m) \<Rightarrow> next_handler (s\<lparr>getLimiter := m\<rparr>)
      | (False, m) \<Rightarrow> (too_many, count_event ''rateLimited'' (s\<lparr>getLimiter := m\<rparr>)))"

section \<open>\<open>GET /fees\<close>\<close>

text \<open>The chain a query names: \<open>Number(text)\<close>, an integer, configured.\<close>

definition query_chain :: "'w http_deps \<Rightarrow> string \<Rightarrow> int option" where
  "query_chain H text_of_query =
     (case as_integer (js_number text_of_query) of
        None \<Rightarrow> None
      | Some c \<Rightarrow> if c \<in> set (configuredChainIds H) then Some c else None)"

definition fees_handler :: "'w http_deps \<Rightarrow> string option \<Rightarrow> 'w handler" where
  "fees_handler H chainId s =
     (case (case chainId of
              None \<Rightarrow> if hubChainId H \<in> set (configuredChainIds H) then Some (hubChainId H) else None
            | Some t \<Rightarrow> query_chain H t) of
        None \<Rightarrow> ((404, NoSchedule (configuredChainIds H)), s)
      | Some c \<Rightarrow>
          (case clock H s of (now, s) \<Rightarrow>
           let r = hs_relay s
           in case getSchedule (hd_fees H) now c (r_fees r, r_world r) of
                (Inr schedule, (st, w)) \<Rightarrow>
                  ((200, Schedule schedule), s\<lparr>hs_relay := r\<lparr>r_fees := st, r_world := w\<rparr>\<rparr>)
              | (Inl e, (st, w)) \<Rightarrow>
                  ((500, Error_body ''Failed to calculate fees'' None),
                   s\<lparr>hs_relay := r\<lparr>r_fees := st, r_world := w\<rparr>\<rparr>)))"

section \<open>\<open>POST /relay\<close>\<close>

definition as_number :: "json option \<Rightarrow> rat option" where
  "as_number v = (case v of Some (JNum x) \<Rightarrow> Some x | _ \<Rightarrow> None)"

text \<open>The shape checks on the body; the optional key and random value are absent, or present and of
  the right shape.\<close>

record relay_body =
  b_chainId :: rat
  b_to :: string
  b_data :: string
  b_feesCacheId :: string
  b_idempotencyKey :: "string option"
  b_feeShieldRandom :: "string option"

definition read_body :: "json option \<Rightarrow> response + relay_body" where
  "read_body body =
     (case (as_number (opt_prop body ''chainId''), as_string (opt_prop body ''to''),
            as_string (opt_prop body ''data''), as_string (opt_prop body ''feesCacheId'')) of
        (Some chainId, Some to_address, Some calldata, Some cid) \<Rightarrow>
          let key = opt_prop body ''idempotencyKey''; random = opt_prop body ''feeShieldRandom''
          in if key \<noteq> None \<and> (case as_string key of None \<Rightarrow> True
                 | Some k \<Rightarrow> k = [] \<or> MAX_IDEMPOTENCY_KEY_LENGTH < length k)
             then Inl (400, Error_body ''Invalid idempotencyKey'' (Some ''INVALID_DATA''))
             else if random \<noteq> None \<and> as_string random = None
             then Inl (400, Error_body ''Invalid feeShieldRandom'' (Some ''INVALID_DATA''))
             else Inr \<lparr>b_chainId = chainId, b_to = to_address, b_data = calldata, b_feesCacheId = cid,
                       b_idempotencyKey = as_string key, b_feeShieldRandom = as_string random\<rparr>
      | _ \<Rightarrow> Inl (400, Error_body ''Missing required fields: chainId, to, data, feesCacheId'' None))"

text \<open>The pipeline on a body. A number that is no integer is the key of no allowlist.\<close>

definition run_relay :: "'w http_deps \<Rightarrow> relay_body \<Rightarrow> ('w, string) relay_act" where
  "run_relay H b =
     (let D = hd_relay H;
          q = \<lparr>rq_chainId = \<lfloor>b_chainId b\<rfloor>, rq_to = b_to b, rq_data = b_data b,
               feesCacheId = b_feesCacheId b, feeShieldRandom = b_feeShieldRandom b\<rparr>
      in case as_integer (Fin (b_chainId b)) of
           Some _ \<Rightarrow> relay D q
         | None \<Rightarrow> relay (D\<lparr>rd_allowedTargets := (\<lambda>_. None)\<rparr>) q)"

text \<open>The handler has one suspension before the pipeline, at the lookup of the key; \<open>relay_admit\<close> is
  what runs up to it, \<open>relay_execute\<close> what runs after.\<close>

definition relay_admit :: "relay_body \<Rightarrow> 'w http_state \<Rightarrow> (response option) \<times> 'w http_state" where
  "relay_admit b s =
     (case b_idempotencyKey b of
        None \<Rightarrow> (None, s)
      | Some k \<Rightarrow>
          (case pg_idem_get (hs_idem s) k of
             None \<Rightarrow> (None, s)
           | Some existing \<Rightarrow>
               (Some (200, Tx_body (i_txHash existing) (i_status existing)), count_event ''idempotentReplay'' s)))"

definition record_execution :: "'w http_deps \<Rightarrow> relay_body \<Rightarrow> string \<Rightarrow> 'w http_state \<Rightarrow> 'w http_state" where
  "record_execution H b txHash s =
     (case b_idempotencyKey b of
        None \<Rightarrow> s
      | Some k \<Rightarrow>
          (case clock H s of (created, s) \<Rightarrow>
           case clock H s of (updated, s) \<Rightarrow>
             s\<lparr>hs_idem := pg_idem_put (hs_idem s)
                 \<lparr>i_key = k, i_txHash = txHash, i_status = Tx_pending, i_chainId = \<lfloor>b_chainId b\<rfloor>,
                  i_createdAt = created, i_updatedAt = updated\<rparr>\<rparr>))"

definition relay_execute :: "'w http_deps \<Rightarrow> relay_body \<Rightarrow> 'w handler" where
  "relay_execute H b s =
     (case run_relay H b (hs_relay s) of
        (Inr txHash, r) \<Rightarrow> ((200, Tx_body txHash Tx_pending), record_execution H b txHash (s\<lparr>hs_relay := r\<rparr>))
      | (Inl (RelayError code message), r) \<Rightarrow>
          ((HTTP_STATUS_OF code, Error_body message (Some (code_name code))), s\<lparr>hs_relay := r\<rparr>)
      | (Inl (Thrown e), r) \<Rightarrow>
          ((500, Error_body ''Internal relay error'' (Some ''UNKNOWN_ERROR'')), s\<lparr>hs_relay := r\<rparr>))"

definition relay_handler :: "'w http_deps \<Rightarrow> json option \<Rightarrow> 'w handler" where
  "relay_handler H body s =
     (case read_body body of
        Inl resp \<Rightarrow> (resp, s)
      | Inr b \<Rightarrow>
          (case relay_admit b s of
             (Some resp, s) \<Rightarrow> (resp, s)
           | (None, s) \<Rightarrow> relay_execute H b s))"

section \<open>\<open>GET /status/:txHash\<close>\<close>

definition status_handler :: "'w http_deps \<Rightarrow> string \<Rightarrow> string option \<Rightarrow> 'w handler" where
  "status_handler H txHash chainId s =
     (if \<not> prefix ''0x'' txHash \<or> length txHash \<noteq> 66 then
        ((400, Error_body ''Invalid transaction hash'' None), s)
      else case (case chainId of None \<Rightarrow> Some None | Some t \<Rightarrow> map_option Some (query_chain H t)) of
        None \<Rightarrow> ((400, Error_body ''Invalid chainId'' None), s)
      | Some c \<Rightarrow>
          (case r_ext (hd_txStatus H txHash c) (hs_relay s) of
             (Tx_result st block err, r) \<Rightarrow>
               let s = s\<lparr>hs_relay := r\<rparr>;
                   s = (if st \<noteq> Tx_pending
                        then (case clock H s of (now, s) \<Rightarrow>
                                s\<lparr>hs_idem := pg_updateStatusByTxHash (hs_idem s) txHash st now\<rparr>)
                        else s)
               in ((200, Status_body (Tx_result st block err)), s)))"

section \<open>\<open>GET /cctp/delivered\<close>\<close>

text \<open>\<open>new Date(x)\<close> is invalid beyond \<open>8.64e15\<close> and drops fractions; Postgres refuses a domain that is no
  \<open>int4\<close> and a LIMIT that is no integer.\<close>

definition query_delivered :: "job_table \<Rightarrow> int \<Rightarrow> rat \<Rightarrow> rat \<Rightarrow> exn + delivered_record list" where
  "query_delivered t destinationDom sinceMs limit =
     (if 2147483647 < destinationDom then Inl ''out of range for type integer''
      else if 8640000000000000 < sinceMs then Inl ''invalid timestamp''
      else if as_integer (Fin limit) = None then Inl ''invalid input syntax for type bigint''
      else Inr (pg_delivered t destinationDom \<lfloor>sinceMs\<rfloor> (nat \<lfloor>limit\<rfloor>)))"

definition page_limit :: "string option \<Rightarrow> rat" where
  "page_limit limit =
     (case limit of
        None \<Rightarrow> 200
      | Some t \<Rightarrow> (case js_number t of
            Fin x \<Rightarrow> min (max 1 (if x = 0 then 200 else x)) 200
          | PosInf \<Rightarrow> 200
          | NegInf \<Rightarrow> 1
          | NaN \<Rightarrow> 200))"

definition delivered_handler :: "'w http_deps \<Rightarrow> string option \<Rightarrow> string option \<Rightarrow> string option \<Rightarrow> 'w handler" where
  "delivered_handler H destinationDom sinceMs limit s =
     (case (case destinationDom of None \<Rightarrow> None | Some t \<Rightarrow> as_integer (js_number t)) of
        None \<Rightarrow> ((400, Error_body ''destinationDomain is required'' (Some ''INVALID_DATA'')), s)
      | Some d \<Rightarrow>
     if d < 0 then ((400, Error_body ''destinationDomain is required'' (Some ''INVALID_DATA'')), s)
     else case (case sinceMs of None \<Rightarrow> Fin 0 | Some t \<Rightarrow> js_number t) of
       Fin since \<Rightarrow>
         if since < 0 then ((400, Error_body ''Invalid sinceMs'' (Some ''INVALID_DATA'')), s)
         else (case query_delivered (hs_jobs s) d since (page_limit limit) of
                 Inl e \<Rightarrow> ((500, No_body), s)
               | Inr records \<Rightarrow>
                   (case clock H s of (now, s) \<Rightarrow> ((200, Delivered_body records now), s)))
     | _ \<Rightarrow> ((400, Error_body ''Invalid sinceMs'' (Some ''INVALID_DATA'')), s))"

section \<open>\<open>GET /health\<close>\<close>

definition health_handler :: "'w http_deps \<Rightarrow> 'w handler" where
  "health_handler H s =
     (case hd_progress H (r_world (hs_relay s)) of
        Inr progress \<Rightarrow>
          (case clock H s of (now, s) \<Rightarrow>
           let reports = chainHealth (hd_chains H) progress (pg_countsByState (hs_jobs s)) now;
               overall = rollup reports
           in case clock H s of (generatedAt, s) \<Rightarrow>
                ((healthHttpStatus overall, Health_body overall reports generatedAt (r_counters (hs_relay s))), s))
      | Inl e \<Rightarrow>
          (case clock H s of (generatedAt, s) \<Rightarrow>
             ((503, Health_body Unhealthy [] generatedAt (r_counters (hs_relay s))), s)))"

section \<open>The routes\<close>

datatype request =
    Get_fees string "string option"
  | Post_relay string "json option"
  | Get_status string string "string option"
  | Get_delivered string "string option" "string option" "string option"
  | Get_health

fun serve :: "'w http_deps \<Rightarrow> request \<Rightarrow> 'w handler" where
  "serve H (Get_fees client chainId) s = get_limited H client (fees_handler H chainId) s"
| "serve H (Post_relay client body) s = relay_limited H client (relay_handler H body) s"
| "serve H (Get_status client txHash chainId) s = get_limited H client (status_handler H txHash chainId) s"
| "serve H (Get_delivered client d since limit) s = get_limited H client (delivered_handler H d since limit) s"
| "serve H Get_health s = health_handler H s"

section \<open>The clock and the counters touch nothing else\<close>

lemma clock_fields [simp]:
  "hs_idem (snd (clock H s)) = hs_idem s" "hs_jobs (snd (clock H s)) = hs_jobs s"
  "relayLimiter (snd (clock H s)) = relayLimiter s" "getLimiter (snd (clock H s)) = getLimiter s"
  by (simp_all add: clock_def split: prod.splits)

lemma clock_idem: "clock H s = (now, s') \<Longrightarrow> hs_idem s' = hs_idem s"
  using clock_fields(1) [of H s] by simp

lemma count_event_fields [simp]:
  "hs_idem (count_event key s) = hs_idem s" "hs_jobs (count_event key s) = hs_jobs s"
  by (simp_all add: count_event_def)

lemma HTTP_STATUS_not_ok [simp]: "HTTP_STATUS_OF code \<noteq> 200"
  by (cases code) simp_all

section \<open>Idempotency\<close>

text \<open>What recording an execution does to the store.\<close>

lemma record_execution_idem:
  "\<exists>created updated. hs_idem (record_execution H b txHash s) =
     (case b_idempotencyKey b of None \<Rightarrow> hs_idem s
      | Some k \<Rightarrow> pg_idem_put (hs_idem s)
          \<lparr>i_key = k, i_txHash = txHash, i_status = Tx_pending, i_chainId = \<lfloor>b_chainId b\<rfloor>,
           i_createdAt = created, i_updatedAt = updated\<rparr>)"
proof (cases "b_idempotencyKey b")
  case None
  then show ?thesis by (simp add: record_execution_def)
next
  case (Some k)
  obtain c s1 u s2 where "clock H s = (c, s1)" "clock H s1 = (u, s2)" by fastforce
  then have "hs_idem (record_execution H b txHash s) = pg_idem_put (hs_idem s)
      \<lparr>i_key = k, i_txHash = txHash, i_status = Tx_pending, i_chainId = \<lfloor>b_chainId b\<rfloor>,
       i_createdAt = c, i_updatedAt = u\<rparr>"
    by (simp add: record_execution_def Some clock_idem)
  with Some show ?thesis by auto
qed

lemma execute_cases:
  obtains txHash r where "run_relay H b (hs_relay s) = (Inr txHash, r)"
      "relay_execute H b s = ((200, Tx_body txHash Tx_pending), record_execution H b txHash (s\<lparr>hs_relay := r\<rparr>))"
  | "fst (fst (relay_execute H b s)) \<noteq> 200" "hs_idem (snd (relay_execute H b s)) = hs_idem s"
proof (cases "run_relay H b (hs_relay s)")
  case (Pair res r)
  show thesis
  proof (cases res)
    case (Inr txHash)
    with Pair that(1) show thesis by (simp add: relay_execute_def)
  next
    case (Inl e)
    with Pair show thesis by (cases e) (auto intro: that(2) simp: relay_execute_def)
  qed
qed

text \<open>A first execution under a fresh key leaves a record with the answered hash.\<close>

lemma execute_records:
  assumes "relay_execute H b s = ((200, Tx_body h st), s')" and "b_idempotencyKey b = Some k"
    and "pg_idem_get (hs_idem s) k = None"
  shows "st = Tx_pending \<and> (\<exists>r. pg_idem_get (hs_idem s') k = Some r \<and> i_txHash r = h)"
proof (rule execute_cases [of H b s])
  fix txHash r
  assume eq: "relay_execute H b s = ((200, Tx_body txHash Tx_pending), record_execution H b txHash (s\<lparr>hs_relay := r\<rparr>))"
  then have h: "txHash = h" "st = Tx_pending" "s' = record_execution H b txHash (s\<lparr>hs_relay := r\<rparr>)"
    using assms(1) by simp_all
  obtain created updated where "hs_idem s' = pg_idem_put (hs_idem s)
      \<lparr>i_key = k, i_txHash = h, i_status = Tx_pending, i_chainId = \<lfloor>b_chainId b\<rfloor>,
       i_createdAt = created, i_updatedAt = updated\<rparr>"
    using record_execution_idem [of H b txHash "s\<lparr>hs_relay := r\<rparr>"] assms(2) h by auto
  then show ?thesis using assms(3) h(2) by (simp add: pg_get_put)
next
  assume "fst (fst (relay_execute H b s)) \<noteq> 200"
  with assms(1) show ?thesis by simp
qed

lemma replay_admitted:
  assumes "pg_idem_get (hs_idem s) k = Some r" and "b_idempotencyKey b = Some k" and "read_body body = Inr b"
  shows "relay_handler H body s =
    ((200, Tx_body (i_txHash r) (i_status r)), count_event ''idempotentReplay'' s)"
  using assms by (simp add: relay_handler_def relay_admit_def)

text \<open>C15: idempotent replay: once a request with a fresh key was answered 200 with a hash, every later
  request with that key, whatever else its body says and whatever the endpoint did in between, is
  answered 200 with the same hash, and its handler does nothing but count the replay: no pipeline, no
  chain query, no broadcast.\<close>

theorem replay_answers_first_execution:
  assumes first: "relay_handler H body s = ((200, Tx_body h st), s1)"
    and body: "read_body body = Inr b" "b_idempotencyKey b = Some k" "pg_idem_get (hs_idem s) k = None"
    and since: "hs_idem s2 = foldl pg_idem_op (hs_idem s1) ops"
    and again: "read_body body2 = Inr b2" "b_idempotencyKey b2 = Some k"
  shows "\<exists>st. relay_handler H body2 s2 = ((200, Tx_body h st), count_event ''idempotentReplay'' s2)"
proof -
  have "relay_execute H b s = ((200, Tx_body h st), s1)"
    using first body by (simp add: relay_handler_def relay_admit_def)
  from execute_records [OF this body(2,3)] obtain r where r: "pg_idem_get (hs_idem s1) k = Some r" "i_txHash r = h"
    by blast
  obtain r' where "pg_idem_get (hs_idem s2) k = Some r'" "same_request r r'"
    unfolding since pg_idem_op_def using pg_idem.run_keeps_request [OF r(1)] by blast
  with replay_admitted [OF this(1) again(2,1)] r(2) show ?thesis by (auto simp: same_request_def)
qed

text \<open>The store only ever learns the truth: a relay request either leaves it as it was, or was
  answered 200 with a hash and added exactly one record, for its own key, with that hash. A rejected
  request can be repeated under its key.\<close>

theorem only_executions_are_recorded:
  "hs_idem (snd (relay_handler H body s)) = hs_idem s
   \<or> (\<exists>h k r. fst (relay_handler H body s) = (200, Tx_body h Tx_pending)
        \<and> i_key r = k \<and> i_txHash r = h \<and> i_status r = Tx_pending
        \<and> pg_idem_get (hs_idem s) k = None
        \<and> hs_idem (snd (relay_handler H body s)) = hs_idem s @ [r])"
proof (cases "read_body body")
  case (Inl resp)
  then show ?thesis by (simp add: relay_handler_def)
next
  case (Inr b)
  show ?thesis
  proof (cases "b_idempotencyKey b")
    case None
    then have "relay_handler H body s = relay_execute H b s"
      by (simp add: relay_handler_def Inr relay_admit_def)
    then show ?thesis
      using None record_execution_idem [of H b] by (auto intro: execute_cases [of H b s])
  next
    case (Some k)
    show ?thesis
    proof (cases "pg_idem_get (hs_idem s) k")
      case None
      then have eq: "relay_handler H body s = relay_execute H b s"
        by (simp add: relay_handler_def Inr relay_admit_def Some)
      show ?thesis
      proof (rule execute_cases [of H b s])
        assume "hs_idem (snd (relay_execute H b s)) = hs_idem s"
        then show ?thesis by (simp add: eq)
      next
        fix txHash r
        assume ex: "relay_execute H b s = ((200, Tx_body txHash Tx_pending), record_execution H b txHash (s\<lparr>hs_relay := r\<rparr>))"
        have "\<not> list_ex (\<lambda>r'. i_key r' = k) (hs_idem s)"
          using None by (simp add: pg_idem_get_def find_key_None)
        then have put: "pg_idem_put (hs_idem s) x = hs_idem s @ [x]" if "i_key x = k" for x
          using that by (simp add: pg_idem_put_def)
        obtain c u where "hs_idem (record_execution H b txHash (s\<lparr>hs_relay := r\<rparr>)) = hs_idem s @
            [\<lparr>i_key = k, i_txHash = txHash, i_status = Tx_pending, i_chainId = \<lfloor>b_chainId b\<rfloor>,
              i_createdAt = c, i_updatedAt = u\<rparr>]"
          using record_execution_idem [of H b txHash "s\<lparr>hs_relay := r\<rparr>"] Some put by auto
        then show ?thesis using None by (auto simp: eq ex)
      qed
    next
      case (Some r)
      with \<open>b_idempotencyKey b = Some k\<close> show ?thesis by (simp add: replay_admitted [OF _ _ Inr])
    qed
  qed
qed

text \<open>The lookup of the key and its recording are not atomic: when two requests with one key are
  both looked up before either is recorded and both execute, each client is told its own hash, but the
  key remembers only the first; the second broadcast can never be found under its key.\<close>

theorem concurrent_same_key_executes_twice:
  assumes admitted: "fst (relay_admit b1 s) = None" "fst (relay_admit b2 s) = None"
    and key: "b_idempotencyKey b1 = Some k" "b_idempotencyKey b2 = Some k"
    and first: "relay_execute H b1 s = ((200, Tx_body h1 st1), s1)"
    and second: "relay_execute H b2 s1 = ((200, Tx_body h2 st2), s2)"
  shows "\<exists>r. pg_idem_get (hs_idem s2) k = Some r \<and> i_txHash r = h1"
proof -
  have "pg_idem_get (hs_idem s) k = None"
    using admitted(1) key(1) by (simp add: relay_admit_def split: option.splits)
  from execute_records [OF first key(1) this] obtain r
    where r: "pg_idem_get (hs_idem s1) k = Some r" "i_txHash r = h1" by blast
  show ?thesis
  proof (rule execute_cases [of H b2 s1])
    fix txHash x
    assume "relay_execute H b2 s1 = ((200, Tx_body txHash Tx_pending), record_execution H b2 txHash (s1\<lparr>hs_relay := x\<rparr>))"
    then have "s2 = record_execution H b2 txHash (s1\<lparr>hs_relay := x\<rparr>)" using second by simp
    then have "pg_idem_get (hs_idem s2) k = Some r"
      using record_execution_idem [of H b2 txHash "s1\<lparr>hs_relay := x\<rparr>"] key(2) r(1) by (auto simp: pg_get_put)
    with r(2) show ?thesis by blast
  next
    assume "fst (fst (relay_execute H b2 s1)) \<noteq> 200"
    with second show ?thesis by simp
  qed
qed

section \<open>Status\<close>

text \<open>A status lookup that finds the transaction settled settles every pending record of that
  transaction, and only those, to the status it answers; a pending answer, and a rejected query, leave
  the store alone.\<close>

theorem status_settles_records:
  "(\<exists>st block err now. fst (status_handler H txHash chainId s) = (200, Status_body (Tx_result st block err))
      \<and> st \<noteq> Tx_pending
      \<and> hs_idem (snd (status_handler H txHash chainId s)) = map (settled_by txHash st now) (hs_idem s))
   \<or> (hs_idem (snd (status_handler H txHash chainId s)) = hs_idem s
      \<and> (fst (fst (status_handler H txHash chainId s)) = 400
         \<or> (\<exists>block err. fst (status_handler H txHash chainId s) = (200, Status_body (Tx_result Tx_pending block err)))))"
proof -
  have settle: "pg_updateStatusByTxHash t h st now = map (settled_by h st now) t" for t h st now
    by (simp add: pg_updateStatusByTxHash_def settled_by_def [abs_def] with_status_def)
  show ?thesis
  proof (cases "\<not> prefix ''0x'' txHash \<or> length txHash \<noteq> 66")
    case True
    then show ?thesis by (auto simp: status_handler_def)
  next
    case False
    show ?thesis
    proof (cases "case chainId of None \<Rightarrow> Some None | Some t \<Rightarrow> map_option Some (query_chain H t)")
      case None
      with False show ?thesis by (simp add: status_handler_def)
    next
      case (Some c)
      obtain st block err r where "r_ext (hd_txStatus H txHash c) (hs_relay s) = (Tx_result st block err, r)"
        by (metis prod.exhaust tx_result.exhaust)
      with Some False show ?thesis
        by (cases "clock H (s\<lparr>hs_relay := r\<rparr>)") (auto simp: status_handler_def Let_def settle dest!: clock_idem)
    qed
  qed
qed

section \<open>The delivered feed\<close>

lemma page_limit_bounds: "1 \<le> page_limit l \<and> page_limit l \<le> 200"
  by (auto simp: page_limit_def split: option.splits jsnum.splits)

text \<open>A LIMIT that is no integer passes the endpoint's checks and fails in the database: the query
  is answered 500 where every other bad parameter is answered 400.\<close>

theorem fractional_limit_is_internal_error:
  "fst (delivered_handler H (Some ''6'') None (Some ''1.5'') s) = (500, No_body)"
proof -
  have six: "js_number ''6'' = Fin 6"
    by (simp add: js_number_def js_trim_def Let_def is_js_space_def to_lower_def lower_char_def parse_decimal_def
        unsign_def split_first_def is_digit_def parse_dec_def to_binary64_def)
  have "(2 :: rat) powi - 52 = 1 / 2 ^ 52" by (simp add: power_int_minus field_simps)
  moreover have "dbl_exp (3 / 2) = - 52"
    by (rule dbl_exp_unique) (simp_all add: power_int_def)
  moreover have "round_half_even (of_int (3 * 2 ^ 51)) = 3 * 2 ^ 51" by (rule round_int)
  ultimately have "dbl (3 / 2) = 3 / 2" by (simp add: dbl_def)
  then have frac: "js_number ''1.5'' = Fin (3 / 2)"
    by (simp add: js_number_def js_trim_def Let_def is_js_space_def to_lower_def lower_char_def parse_decimal_def
        unsign_def split_first_def is_digit_def parse_dec_def to_binary64_def power_int_minus)
  have "\<lfloor>3 / 2 :: rat\<rfloor> = 1" by (simp add: floor_eq_iff)
  then show ?thesis
    by (simp add: delivered_handler_def six frac query_delivered_def page_limit_def max_def min_def as_integer_def)
qed

section \<open>Examples\<close>

definition demo_http :: "unit http_deps" where
  "demo_http = \<lparr>hubChainId = 7, configuredChainIds = [7], hd_fees = demo_fees, hd_relay = demo_relay,
     hd_txStatus = (\<lambda>h c w. (Tx_result Tx_pending None None, w)), hd_chains = [demo_hub],
     hd_progress = (\<lambda>w. Inr []), relayRatePerMin = 10, getRatePerMin = 60, hd_now = (\<lambda>w. (500, w))\<rparr>"

definition demo_http_state :: "unit http_state" where
  "demo_http_state = \<lparr>hs_relay = demo_relay_state, hs_idem = [], hs_jobs = [], relayLimiter = Map.empty,
     getLimiter = Map.empty\<rparr>"

definition demo_body :: "string \<Rightarrow> json" where
  "demo_body to_address = JObj [(''chainId'', JNum 7), (''to'', JStr to_address), (''data'', JStr ''0x7e220759''),
     (''feesCacheId'', JStr ''q''), (''idempotencyKey'', JStr ''k1''), (''feeShieldRandom'', JStr ''r'')]"

definition demo_read :: "string \<Rightarrow> relay_body" where
  "demo_read to_address = \<lparr>b_chainId = 7, b_to = to_address, b_data = ''0x7e220759'', b_feesCacheId = ''q'',
     b_idempotencyKey = Some ''k1'', b_feeShieldRandom = Some ''r''\<rparr>"

lemma demo_read_body: "read_body (Some (demo_body a)) = Inr (demo_read a)"
  by (simp add: read_body_def demo_body_def demo_read_def opt_prop_def as_number_def as_string_def
      MAX_IDEMPOTENCY_KEY_LENGTH_def)

text \<open>The demo pipeline broadcasts any request to its one target that is not a duplicate.\<close>

definition demo_key :: "string \<Rightarrow> string" where
  "demo_key a = show_int 7 @ ''|'' @ a @ ''0x7e220759''"

lemma demo_runs:
  fixes s :: "unit relay_state"
  assumes "r_fees s = demo_quote_state" and "to_lower a = ''0xaa''" and "r_dedup s (demo_key a) = None"
  shows "\<exists>s'. relay demo_relay (demo_request\<lparr>rq_to := a\<rparr>) s = (Inr ''0xdd'', s') \<and> r_fees s' = demo_quote_state
    \<and> r_dedup s' = dedup_record 500 (demo_key a) ''0xdd'' (r_dedup s)"
proof -
  let ?q = "demo_request\<lparr>rq_to := a\<rparr>"
  have a: "a \<noteq> []" using assms(2) by (auto simp: to_lower_def)
  have q: "rq_chainId ?q = 7" "rq_to ?q = a" "rq_data ?q = ''0x7e220759''" "feesCacheId ?q = ''q''"
      "feeShieldRandom ?q = Some ''r''"
    by (simp_all add: demo_request_def)
  have keys: "SELECTOR_REDEEM_AND_SHIELD \<in> set ALLOWED_SELECTORS"
      "advertisedFeeKeys SELECTOR_REDEEM_AND_SHIELD = Inr [CrossContract]"
      "SELECTOR_REDEEM_AND_SHIELD \<notin> set GASLESS_SELECTORS"
    by (code_simp+)
  have fee: "parse_int ''20000'' = 20000" by code_simp
  have clock: "r_ext (rd_now demo_relay) s = (500, s)" for s :: "unit relay_state"
    by (simp add: r_ext_def demo_fields)
  have ver: "verify_fee demo_relay ?q SELECTOR_REDEEM_AND_SHIELD 20000 s = (Inr (), s)"
    by (simp add: verify_fee_def keys verifyRedeemFee_def demo_fields q hook_set_def derive_npk_def)
  have checks: "pipeline_checks demo_relay ?q s = (Inr SELECTOR_REDEEM_AND_SHIELD, s)"
    by (simp add: pipeline_checks_def clock demo_fields q a assms(1,2) demo_quote_resolves demo_selector keys
        advertised_one fee ver)
  have same: "x\<lparr>r_world := ()\<rparr> = x" for x :: "unit relay_state" by simp
  have dup: "dedup_key (\<lambda>to d. Inr (to @ d)) 7 a ''0x7e220759'' = Inr (demo_key a)"
    by (simp add: dedup_key_def demo_key_def)
  have hash: "rd_hash demo_relay = (\<lambda>to d. Inr (to @ d))" by (simp add: demo_relay_def)
  show ?thesis
    using assms(1,3)
    by (simp add: relay_def Let_def demo_fields q demo_selector pipeline_def checks with_lock_def r_ext_def same
        pipeline_locked_def hash dup dedup_lookup_def hook_set_def broadcast_def bigint_div_def bump_def)
qed

lemma demo_admit: "hs_idem s = [] \<Longrightarrow> relay_admit (demo_read a) s = (None, s)"
  by (simp add: relay_admit_def demo_read_def pg_idem_get_def)

lemma demo_execute:
  assumes "r_fees (hs_relay s) = demo_quote_state" and "to_lower a = ''0xaa''"
    and "r_dedup (hs_relay s) (demo_key a) = None"
  shows "\<exists>s'. relay_execute demo_http (demo_read a) s = ((200, Tx_body ''0xdd'' Tx_pending), s')
    \<and> r_fees (hs_relay s') = demo_quote_state
    \<and> r_dedup (hs_relay s') = dedup_record 500 (demo_key a) ''0xdd'' (r_dedup (hs_relay s))"
proof -
  obtain r where r: "relay demo_relay (demo_request\<lparr>rq_to := a\<rparr>) (hs_relay s) = (Inr ''0xdd'', r)"
      "r_fees r = demo_quote_state" "r_dedup r = dedup_record 500 (demo_key a) ''0xdd'' (r_dedup (hs_relay s))"
    using demo_runs [OF assms] by blast
  have "run_relay demo_http (demo_read a) (hs_relay s) = (Inr ''0xdd'', r)"
    using r(1) by (simp add: run_relay_def demo_http_def demo_read_def demo_request_def as_integer_def)
  with r(2,3) show ?thesis
    by (auto simp: relay_execute_def record_execution_def demo_read_def clock_def r_ext_def demo_http_def)
qed

lemma replay_answers_first_execution_witness:
  "\<exists>s1 st. relay_handler demo_http (Some (demo_body ''0xAA'')) demo_http_state = ((200, Tx_body ''0xdd'' Tx_pending), s1)
    \<and> relay_handler demo_http (Some (demo_body ''0xZZ'')) s1
        = ((200, Tx_body ''0xdd'' st), count_event ''idempotentReplay'' s1)"
proof -
  have low: "to_lower ''0xAA'' = ''0xaa''" by code_simp
  obtain s1 where ex: "relay_execute demo_http (demo_read ''0xAA'') demo_http_state = ((200, Tx_body ''0xdd'' Tx_pending), s1)"
    using demo_execute [OF _ low, of demo_http_state]
    by (auto simp: demo_http_state_def demo_relay_state_def)
  have first: "relay_handler demo_http (Some (demo_body ''0xAA'')) demo_http_state = ((200, Tx_body ''0xdd'' Tx_pending), s1)"
    using ex demo_admit [of demo_http_state "''0xAA''"]
    by (simp add: relay_handler_def demo_read_body) (simp add: demo_http_state_def)
  have "\<exists>st. relay_handler demo_http (Some (demo_body ''0xZZ'')) s1
      = ((200, Tx_body ''0xdd'' st), count_event ''idempotentReplay'' s1)"
    by (rule replay_answers_first_execution [where ops = "[]" and k = "''k1''", OF first demo_read_body _ _ _ demo_read_body])
      (simp_all add: demo_read_def demo_http_state_def pg_idem_get_def)
  with first show ?thesis by blast
qed

lemma concurrent_same_key_executes_twice_witness:
  "\<exists>s1 s2 r. relay_execute demo_http (demo_read ''0xAA'') demo_http_state = ((200, Tx_body ''0xdd'' Tx_pending), s1)
    \<and> relay_execute demo_http (demo_read ''0xaA'') s1 = ((200, Tx_body ''0xdd'' Tx_pending), s2)
    \<and> pg_idem_get (hs_idem s2) ''k1'' = Some r"
proof -
  have low: "to_lower ''0xAA'' = ''0xaa''" "to_lower ''0xaA'' = ''0xaa''" by (code_simp, code_simp)
  obtain s1 where s1: "relay_execute demo_http (demo_read ''0xAA'') demo_http_state = ((200, Tx_body ''0xdd'' Tx_pending), s1)"
      "r_fees (hs_relay s1) = demo_quote_state"
      "r_dedup (hs_relay s1) = dedup_record 500 (demo_key ''0xAA'') ''0xdd'' (\<lambda>k. None)"
    using demo_execute [OF _ low(1), of demo_http_state]
    by (auto simp: demo_http_state_def demo_relay_state_def)
  have "r_dedup (hs_relay s1) (demo_key ''0xaA'') = None"
    by (simp add: s1(3) dedup_record_def demo_key_def)
  then obtain s2 where s2: "relay_execute demo_http (demo_read ''0xaA'') s1 = ((200, Tx_body ''0xdd'' Tx_pending), s2)"
    using demo_execute [OF s1(2) low(2)] by blast
  have "\<exists>r. pg_idem_get (hs_idem s2) ''k1'' = Some r \<and> i_txHash r = ''0xdd''"
    by (rule concurrent_same_key_executes_twice [OF _ _ _ _ s1(1) s2])
      (simp_all add: demo_admit demo_http_state_def, simp_all add: demo_read_def)
  with s1(1) s2 show ?thesis by blast
qed

end
