(* ===== verification/Actor.thy ===== *)
theory Actor
  imports Lifecycle Progress FallbackScanner Config Http
begin

text \<open>
  \<open>actor/src/main.ts\<close>: how the actor is put together. The allowlists and the context of discovery are
  read from the configuration; the job tick runs discovery, the state machine and the scanner in turn,
  never two ticks at a time, and swallows what they throw; the receipt lookup of the status endpoint
  fans out over the chains.

  An address in a manifest is taken to be text: an array of one address, which the validation lets
  through, fails here instead of when it is used.
\<close>

section \<open>Allowlists\<close>

definition address_text :: "json \<Rightarrow> exn + string" where
  "address_text j = or_throw (as_string (Some j)) ''toLowerCase is not a function''"

text \<open>\<open>config.yieldManifest?.contracts.armadaYieldAdapter\<close>.\<close>

definition yield_adapter :: "actor_config \<Rightarrow> exn + json option" where
  "yield_adapter c = (case nullable (cfg_yieldManifest c) of
      None \<Rightarrow> Inr None
    | Some y \<Rightarrow> and_then_do (get_prop (Some y) ''contracts'') (\<lambda>contracts. get_prop contracts ''armadaYieldAdapter''))"

definition if_truthy :: "json option \<Rightarrow> json list" where
  "if_truthy v = (if truthy v then [the v] else [])"

definition chain_targets :: "actor_config \<Rightarrow> chain_deployment \<Rightarrow> exn + int \<times> string list" where
  "chain_targets c d =
     and_then_do (or_throw (poolAddress d) ''toLowerCase of undefined'') (\<lambda>pool.
     and_then_do (if ct_role (cd_chain d) = Hub then yield_adapter c else Inr None) (\<lambda>adapter.
     and_then_do
       (map_checked address_text ([pool] @ if_truthy (gaslessWrapperAddress d) @ if_truthy adapter))
       (\<lambda>targets. Inr (ct_chainId (cd_chain d), map to_lower targets))))"

definition chain_wrapper :: "chain_deployment \<Rightarrow> (int \<times> string) list" where
  "chain_wrapper d = (case gaslessWrapperAddress d of
      Some (JStr a) \<Rightarrow> if a = [] then [] else [(ct_chainId (cd_chain d), a)]
    | _ \<Rightarrow> [])"

definition allowed_targets :: "actor_config \<Rightarrow> exn + (int \<times> string list) list" where
  "allowed_targets c = map_checked (chain_targets c) (cfg_deployments c)"

text \<open>The relay pipeline as \<open>main\<close> wires it; the railgun wallet and the chain access stay as given.\<close>

definition wire_relay :: "actor_config \<Rightarrow> string \<Rightarrow> 'w relay_deps \<Rightarrow> exn + 'w relay_deps" where
  "wire_relay c railgunAddress D =
     and_then_do (allowed_targets c) (\<lambda>targets. Inr (D\<lparr>
       rd_allowedTargets := (\<lambda>chainId. map_option set (map_of (rev targets) chainId)),
       rd_fee_opts := fee_options_of c railgunAddress,
       rd_wrappersByChain := map_of (rev (concat (map chain_wrapper (cfg_deployments c)))),
       rd_dedupTtl := DEDUP_TTL_MS\<rparr>))"

text \<open>The sets and maps of discovery.\<close>

definition hook_router :: "chain_deployment \<Rightarrow> string option" where
  "hook_router d = as_string (contract_of d ''hookRouter'')"

definition wire_discovery ::
    "actor_config \<Rightarrow> ethers \<Rightarrow> ('w \<Rightarrow> watcher_view) \<Rightarrow> ('w \<Rightarrow> int \<times> 'w) \<Rightarrow> exn + 'w discovery_ctx" where
  "wire_discovery c E view now =
     and_then_do
       (map_checked (\<lambda>d. and_then_do (or_throw (poolAddress d) ''undefined address'') (\<lambda>j.
          and_then_do (address_text j) (addressToBytes32 E))) (cfg_deployments c))
       (\<lambda>recipients. Inr \<lparr>dc_ethers = E, knownRecipients = set recipients,
          hookRouterByDomain = map_of (rev (map (\<lambda>d. (ct_domain (cd_chain d), hook_router d)) (cfg_deployments c))),
          confirmationsByChain =
            map_of (rev (map (\<lambda>t. (ct_chainId t, ct_confirmations t)) (allChains (cfg_topology c)))),
          dc_view = view, dc_now = now\<rparr>)"

definition wire_targets :: "actor_config \<Rightarrow> int \<Rightarrow> domain_target option" where
  "wire_targets c = map_of (rev (map (\<lambda>d. (ct_domain (cd_chain d),
       \<lparr>dt_chainId = ct_chainId (cd_chain d), dt_hookRouter = hook_router d,
        dt_messageTransmitter = (case cctp_of d ''messageTransmitter'' of Some (JStr a) \<Rightarrow> a | _ \<Rightarrow> [])\<rparr>))
     (cfg_deployments c)))"

section \<open>The receipt lookup\<close>

text \<open>An unreachable or unconfigured chain is skipped.\<close>

fun txStatus :: "'w chain_rpc \<Rightarrow> string \<Rightarrow> int list \<Rightarrow> 'w \<Rightarrow> tx_result \<times> 'w" where
  "txStatus R txHash [] w = (Tx_result Tx_pending None None, w)"
| "txStatus R txHash (c # cs) w =
     (if \<not> configured R c then txStatus R txHash cs w
      else case rpc_receipt R c txHash w of
        (Inr (Some (st, block)), w) \<Rightarrow>
          (if st = Some 1 then (Tx_result Tx_confirmed (Some block) None, w)
           else (Tx_result Tx_failed (Some block) (Some ''Transaction reverted on-chain''), w))
      | (_, w) \<Rightarrow> txStatus R txHash cs w)"

definition wire_txStatus :: "actor_config \<Rightarrow> 'w chain_rpc \<Rightarrow> string \<Rightarrow> int option \<Rightarrow> 'w \<Rightarrow> tx_result \<times> 'w" where
  "wire_txStatus c R txHash chainId =
     txStatus R txHash (case chainId of None \<Rightarrow> map fst (cfg_rpcUrls c) | Some i \<Rightarrow> [i])"

section \<open>The job tick\<close>

text \<open>\<open>None\<close> is a scan that never returns.\<close>

definition job_body ::
    "'w machine_deps \<Rightarrow> 'w scanner_deps \<Rightarrow> 'w scanner_state \<Rightarrow> ((exn + unit) \<times> 'w scanner_state) option" where
  "job_body d sd s =
     (case discoverWork (sd_discovery sd) (actor s) of
        (Inl e, a) \<Rightarrow> Some (Inl e, s\<lparr>actor := a\<rparr>)
      | (Inr _, a) \<Rightarrow>
          (case tick d a of
             (Inl e, a) \<Rightarrow> Some (Inl e, s\<lparr>actor := a\<rparr>)
           | (Inr _, a) \<Rightarrow> scannerTick sd (s\<lparr>actor := a\<rparr>)))"

record 'w job_loop =
  jobTickRunning :: bool
  scanner_loop :: "'w scanner_state"

definition jobTick :: "'w machine_deps \<Rightarrow> 'w scanner_deps \<Rightarrow> 'w job_loop \<Rightarrow> 'w job_loop option" where
  "jobTick d sd L =
     (if jobTickRunning L then Some L
      else case job_body d sd (scanner_loop L) of
             None \<Rightarrow> None
           | Some (_, s) \<Rightarrow> Some \<lparr>jobTickRunning = False, scanner_loop = s\<rparr>)"

section \<open>The whole loop is a run of the pipeline\<close>

text \<open>A scan only claims messages and advances the world, so it keeps whatever these two keep. Every part
  of the tick moves the actor along runs of discovery, claims and state-machine ticks, so the
  invariants of those runs hold in the loop.\<close>

definition claim_stable :: "'w discovery_ctx \<Rightarrow> ('w actor_state \<Rightarrow> bool) \<Rightarrow> bool" where
  "claim_stable ctx I \<longleftrightarrow> (\<forall>s w m. I s \<longrightarrow> I (s\<lparr>world := w\<rparr>) \<and> I (snd (claimMessage ctx m s)))"

lemma stable_world: "claim_stable ctx I \<Longrightarrow> I s \<Longrightarrow> I (s\<lparr>world := w\<rparr>)"
  unfolding claim_stable_def by blast

lemma claim_log_stable:
  assumes "claim_stable (sd_discovery sd) I" and "I s" shows "I (snd (claim_log sd chain lg s))"
proof -
  have "I (snd (claimMessage (sd_discovery sd) m s))" for m
    using assms unfolding claim_stable_def by blast
  then show ?thesis
    using assms(2) by (auto simp: claim_log_def split: sum.splits option.splits prod.splits) (metis snd_conv)+
qed

lemma set_world_actor: "actor (set_world w s) = (actor s)\<lparr>world := w\<rparr>"
  by (simp add: set_world_def)

lemma set_scan_actor: "actor (set_scan chain c s) = actor s"
  by (simp add: set_scan_def)

lemma scan_range_stable:
  assumes stable: "claim_stable (sd_discovery sd) I"
    and "scan_range sd chain cur s = Some (r, s')" and start: "I (actor s)"
  shows "I (actor s')"
proof -
  have out: "I ((actor s)\<lparr>world := w\<rparr>)" for w using stable start by (rule stable_world)
  have claims: "I (snd (for_each (claim_log sd chain) ls ((actor s)\<lparr>world := w\<rparr>)))" for ls w
    by (rule for_each_inv [where I = I]) (auto intro: claim_log_stable [OF stable] out)
  show ?thesis
    using assms(2) out claims
    by (auto simp: scan_range_def Let_def set_world_actor set_scan_actor split: prod.splits sum.splits if_splits option.splits)
      (metis snd_conv)+
qed

lemma tickChain_stable:
  assumes stable: "claim_stable (sd_discovery sd) I"
    and "tickChain sd chain p s = Some (r, s')" and "I (actor s)"
  shows "I (actor s')"
proof (cases "stays_idle sd chain p s")
  case True
  then show ?thesis using tickChain_idle [OF True] assms(2) stable_world [OF stable assms(3)] by auto
next
  case False
  show ?thesis
    using assms(2) unfolding tickChain_run [OF False]
    by (rule scan_range_stable [OF stable])
      (simp add: set_world_actor set_scan_actor stable_world [OF stable] assms(3))
qed

lemma scan_chains_stable:
  assumes stable: "claim_stable (sd_discovery sd) I"
  shows "scan_chains sd ps cs s = Some (r, s') \<Longrightarrow> I (actor s) \<Longrightarrow> I (actor s')"
proof (induction cs arbitrary: s)
  case Nil
  then show ?case by simp
next
  case (Cons c cs)
  obtain r1 s1 where one: "tickChain sd c (progress_of ps (sc_chainId c)) s = Some (r1, s1)"
    using Cons.prems(1) by (auto split: option.splits)
  have kept: "I (actor s1)" by (rule tickChain_stable [OF stable one Cons.prems(2)])
  show ?case
  proof (cases r1)
    case (Inl e)
    with one Cons.prems(1) kept show ?thesis by simp
  next
    case (Inr u)
    with one Cons.prems(1) have "scan_chains sd ps cs s1 = Some (r, s')" by simp
    then show ?thesis using kept by (rule Cons.IH)
  qed
qed

lemma run_stable: "claim_stable ctx (actor_run ctx d)"
  by (simp add: claim_stable_def actor_run.outside actor_run.claim)

lemma holding_stable: "claim_stable ctx (\<lambda>s. pg_invar (jobs s) \<and> pg_get (jobs s) k = Some j)"
  unfolding claim_stable_def using claimMessage_extends extends_keeps by fastforce

lemma scan_chains_returns:
  assumes "0 < sd_chunkSize sd" shows "pg_invar (jobs (actor s)) \<Longrightarrow> \<exists>r s'. scan_chains sd ps cs s = Some (r, s')"
proof (induction cs arbitrary: s)
  case Nil
  then show ?case by simp
next
  case (Cons c cs)
  have "\<exists>r1 s1. tickChain sd c (progress_of ps (sc_chainId c)) s = Some (r1, s1) \<and> pg_invar (jobs (actor s1))"
    using tickChain_idle [of sd c _ s] tickChain_scans [OF assms Cons.prems, of c] Cons.prems
    by (cases "stays_idle sd c (progress_of ps (sc_chainId c)) s") (fastforce simp: scanned_def)+
  then obtain r1 s1 where "tickChain sd c (progress_of ps (sc_chainId c)) s = Some (r1, s1)"
      "pg_invar (jobs (actor s1))" by blast
  then show ?case using Cons.IH [of s1] by (cases r1) auto
qed

lemma job_body_run:
  assumes "job_body d sd s = Some (r, s')" and run: "actor_run (sd_discovery sd) d (actor s)"
  shows "actor_run (sd_discovery sd) d (actor s')"
proof -
  obtain r1 a1 where disc: "discoverWork (sd_discovery sd) (actor s) = (r1, a1)" by fastforce
  have a1: "actor_run (sd_discovery sd) d a1" using actor_run.discover [OF run] disc by simp
  obtain r2 a2 where mach: "tick d a1 = (r2, a2)" by fastforce
  have a2: "actor_run (sd_discovery sd) d a2" using actor_run.machine [OF a1] mach by simp
  show ?thesis
    using assms(1) a1 a2 scan_chains_stable [OF run_stable [of _ d], where s = "s\<lparr>actor := a2\<rparr>" and sd = sd and r = r and s' = s']
    by (auto simp: job_body_def disc mach scannerTick_def split: sum.splits)
qed

lemma run_invar: "actor_run ctx d s \<Longrightarrow> pg_invar (jobs s)"
  using run_invariant [of ctx d s] by (simp add: table_all_def)

lemma job_body_returns:
  assumes "0 < sd_chunkSize sd" and run: "actor_run (sd_discovery sd) d (actor s)"
  shows "\<exists>r s'. job_body d sd s = Some (r, s')"
proof -
  obtain r1 a1 where disc: "discoverWork (sd_discovery sd) (actor s) = (r1, a1)" by fastforce
  obtain r2 a2 where mach: "tick d a1 = (r2, a2)" by fastforce
  have "actor_run (sd_discovery sd) d a2"
    using actor_run.machine [OF actor_run.discover [OF run]] disc mach by simp
  then have "pg_invar (jobs a2)" by (rule run_invar)
  then show ?thesis
    using scan_chains_returns [OF assms(1), of "s\<lparr>actor := a2\<rparr>"]
    by (auto simp: job_body_def disc mach scannerTick_def split: sum.splits)
qed

section \<open>Properties\<close>

text \<open>The states of the loop: ticks, a restart that keeps the table and loses the scanner's memory, and
  any change of the world.\<close>

inductive loop_run :: "'w machine_deps \<Rightarrow> 'w scanner_deps \<Rightarrow> 'w job_loop \<Rightarrow> bool" for d sd where
  boot: "jobs (actor s) = [] \<Longrightarrow> loop_run d sd \<lparr>jobTickRunning = False, scanner_loop = s\<rparr>"
| world_change: "loop_run d sd L \<Longrightarrow> loop_run d sd (L\<lparr>scanner_loop := set_world w (scanner_loop L)\<rparr>)"
| restart: "loop_run d sd L \<Longrightarrow>
    loop_run d sd \<lparr>jobTickRunning = False, scanner_loop = (scanner_loop L)\<lparr>scans := (\<lambda>_. None)\<rparr>\<rparr>"
| fire: "loop_run d sd L \<Longrightarrow> jobTick d sd L = Some L' \<Longrightarrow> loop_run d sd L'"

lemma loop_run_ok:
  assumes "loop_run d sd L"
  shows "\<not> jobTickRunning L \<and> actor_run (sd_discovery sd) d (actor (scanner_loop L))"
  using assms
proof induction
  case (boot s)
  then show ?case by (simp add: actor_run.start)
next
  case (world_change L w)
  then show ?case by (simp add: set_world_actor actor_run.outside)
next
  case (restart L)
  then show ?case by simp
next
  case (fire L L')
  then show ?case by (auto simp: jobTick_def dest: job_body_run split: option.splits)
qed

text \<open>What the machine leaves in the table is there when the job tick returns: the scan that follows only adds jobs.\<close>

lemma job_tick_keeps:
  assumes "loop_run d sd L" and "0 < sd_chunkSize sd"
    and disc: "discoverWork (sd_discovery sd) (actor (scanner_loop L)) = (Inr n, a)"
    and job: "pg_get (jobs (snd (tick d a))) k = Some j"
  shows "\<exists>L'. jobTick d sd L = Some L' \<and> pg_get (jobs (actor (scanner_loop L'))) k = Some j"
proof -
  have L: "\<not> jobTickRunning L" "actor_run (sd_discovery sd) d (actor (scanner_loop L))"
    using loop_run_ok [OF assms(1)] by simp_all
  obtain r s' where body: "job_body d sd (scanner_loop L) = Some (r, s')"
    using job_body_returns [OF assms(2) L(2)] by blast
  obtain r2 a2 where mach: "tick d a = (r2, a2)" by fastforce
  have "actor_run (sd_discovery sd) d a2"
    using actor_run.machine [OF actor_run.discover [OF L(2)]] disc mach by simp
  then have "pg_invar (jobs a2) \<and> pg_get (jobs a2) k = Some j"
    using run_invar job mach by simp
  then have "pg_get (jobs (actor s')) k = Some j"
    using body scan_chains_stable [OF holding_stable [of _ k j], where s = "(scanner_loop L)\<lparr>actor := a2\<rparr>" and sd = sd and r = r and s' = s']
    by (auto simp: job_body_def disc mach scannerTick_def split: sum.splits)
  with L(1) body show ?thesis by (simp add: jobTick_def)
qed

text \<open>C26: the production loop: in every run of job ticks, restarts and changes of the outside world, the
  next tick returns, whatever its parts throw, with the flag down, so the loop never locks itself out;
  and every job in its table is well formed for its state and was classified when it was claimed.\<close>

theorem job_loop_keeps_running:
  assumes "loop_run d sd L" and "0 < sd_chunkSize sd"
  shows "\<exists>L'. jobTick d sd L = Some L' \<and> \<not> jobTickRunning L'
    \<and> table_all (\<lambda>j. job_wf d j \<and> classified (sd_discovery sd) j) (jobs (actor (scanner_loop L')))"
proof -
  have L: "\<not> jobTickRunning L" "actor_run (sd_discovery sd) d (actor (scanner_loop L))"
    using loop_run_ok [OF assms(1)] by simp_all
  obtain r s' where body: "job_body d sd (scanner_loop L) = Some (r, s')"
    using job_body_returns [OF assms(2) L(2)] by blast
  have "table_all (stored_ok (sd_discovery sd) d) (jobs (actor s'))"
    by (rule run_invariant [OF job_body_run [OF body L(2)]])
  with L(1) body show ?thesis by (simp add: jobTick_def stored_ok_def [abs_def])
qed

text \<open>The addresses of a deployment the relayer may call.\<close>

definition callable :: "actor_config \<Rightarrow> chain_deployment \<Rightarrow> string \<Rightarrow> bool" where
  "callable c d a \<longleftrightarrow> poolAddress d = Some (JStr a) \<or> gaslessWrapperAddress d = Some (JStr a)
     \<or> ct_role (cd_chain d) = Hub \<and> yield_adapter c = Inr (Some (JStr a))"

lemma address_texts:
  "map_checked address_text js = Inr ts \<Longrightarrow> a \<in> set ts \<Longrightarrow> JStr a \<in> set js"
  by (drule (1) map_checked_member) (auto simp: address_text_def or_throw_ok as_string_iff)

lemma chain_targets_callable:
  assumes "chain_targets c d = Inr (i, ts)" and "t \<in> set ts"
  shows "i = ct_chainId (cd_chain d) \<and> (\<exists>a. t = to_lower a \<and> callable c d a)"
proof -
  obtain pool adapter texts where p: "poolAddress d = Some pool"
      "(if ct_role (cd_chain d) = Hub then yield_adapter c else Inr None) = Inr adapter"
      "map_checked address_text ([pool] @ if_truthy (gaslessWrapperAddress d) @ if_truthy adapter) = Inr texts"
      "i = ct_chainId (cd_chain d)" "ts = map to_lower texts"
    using assms(1) unfolding chain_targets_def and_then_do_ok or_throw_ok by auto
  from assms(2) p(5) obtain a where a: "t = to_lower a" "a \<in> set texts" by auto
  from address_texts [OF p(3) a(2)] have "callable c d a"
    using p(1,2) by (auto simp: callable_def if_truthy_def split: if_splits)
      (metis option.collapse truthy.simps(1))+
  with a(1) p(4) show ?thesis by blast
qed

text \<open>On the configuration the actor booted with, a request that passes the checks of the pipeline
  names a chain of the topology and calls, up to letter case, an address of that chain's own manifest:
  the pool, the gasless wrapper, or on the hub the yield adapter.\<close>

theorem relay_calls_manifest_addresses:
  assumes "buildConfig env fs dir = Inr c" and "wire_relay c address D0 = Inr D"
    and "pipeline_checks D q s = (Inr selector, s')"
  shows "\<exists>d a. d \<in> set (cfg_deployments c) \<and> cd_chain d \<in> set (allChains (cfg_topology c))
    \<and> ct_chainId (cd_chain d) = rq_chainId q \<and> valid_deployment d
    \<and> callable c d a \<and> to_lower (rq_to q) = to_lower a"
proof -
  obtain targets where targets: "allowed_targets c = Inr targets"
      "rd_allowedTargets D = (\<lambda>chainId. map_option set (map_of (rev targets) chainId))"
    using assms(2) by (auto simp: wire_relay_def and_then_do_ok)
  obtain allowed where "rd_allowedTargets D (rq_chainId q) = Some allowed" "to_lower (rq_to q) \<in> allowed"
    using assms(3) by (auto simp: pipeline_checks_def split: option.splits if_splits)
  then obtain ts where "map_of (rev targets) (rq_chainId q) = Some ts" "to_lower (rq_to q) \<in> set ts"
    unfolding targets(2) by auto
  then have ts: "(rq_chainId q, ts) \<in> set targets" "to_lower (rq_to q) \<in> set ts"
    by (auto dest: map_of_SomeD)
  then obtain d where d: "d \<in> set (cfg_deployments c)" "chain_targets c d = Inr (rq_chainId q, ts)"
    using map_checked_member [OF targets(1) [unfolded allowed_targets_def] ts(1)] by blast
  have "map cd_chain (cfg_deployments c) = allChains (cfg_topology c)"
      "list_all valid_deployment (cfg_deployments c)"
    using buildConfig_parts [OF assms(1)] loadAllManifests_ok by metis+
  with d chain_targets_callable [OF d(2) ts(2)] show ?thesis
    by (metis (no_types, lifting) image_eqI list.set_map list_all_iff)
qed

section \<open>Examples\<close>

text \<open>A redeem through the hub's pool, on the local configuration.\<close>

definition demo_hub_quotes :: fee_state where
  "demo_hub_quotes = \<lparr>fc_counter = 1, byChain = (\<lambda>c. if c = 31337 then Some \<lparr>
     slot_current = Some \<lparr>cacheId = ''q'', expiresAt = 1000, fs_chainId = 31337, fs_broadcaster = ''0zk'',
       fees = [(CrossContract, ''20000'')]\<rparr>, slot_previous = None\<rparr> else None)\<rparr>"

definition demo_hub_request :: relay_request where
  "demo_hub_request = \<lparr>rq_chainId = 31337, rq_to = demo_address, rq_data = ''0x7e220759'', feesCacheId = ''q'',
     feeShieldRandom = Some ''r''\<rparr>"

definition demo_wired :: "unit relay_deps" where
  "demo_wired = demo_relay\<lparr>
       rd_allowedTargets := (\<lambda>chainId. map_option set
         (map_of (rev [(31337, [to_lower demo_address]), (31338, [to_lower demo_address])]) chainId)),
       rd_fee_opts := fee_options_of demo_config ''0zk'',
       rd_wrappersByChain := map_of [],
       rd_dedupTtl := DEDUP_TTL_MS\<rparr>"

lemma demo_wire: "wire_relay demo_config ''0zk'' demo_relay = Inr demo_wired"
  by (simp add: wire_relay_def allowed_targets_def demo_config_def chain_targets_def demo_deployment_def
      demo_chain_def demo_manifest_def poolAddress_def gaslessWrapperAddress_def contract_of_def opt_prop_def
      nullable_def yield_adapter_def if_truthy_def address_text_def as_string_def chain_wrapper_def demo_wired_def)

lemma demo_wired_checks:
  "\<exists>s'. pipeline_checks demo_wired demo_hub_request (demo_relay_state\<lparr>r_fees := demo_hub_quotes\<rparr>)
     = (Inr SELECTOR_REDEEM_AND_SHIELD, s')"
proof -
  let ?s = "demo_relay_state\<lparr>r_fees := demo_hub_quotes\<rparr>"
  have keys: "SELECTOR_REDEEM_AND_SHIELD \<in> set ALLOWED_SELECTORS"
      "advertisedFeeKeys SELECTOR_REDEEM_AND_SHIELD = Inr [CrossContract]"
      "SELECTOR_REDEEM_AND_SHIELD \<notin> set GASLESS_SELECTORS"
    by (code_simp+)
  have fee: "parse_int ''20000'' = 20000" by code_simp
  have D: "rd_now demo_wired w = (500, w)" "rd_fee_opts demo_wired = fee_options_of demo_config ''0zk''"
      "rd_ethers demo_wired = ref_ethers" "rd_deriver demo_wired r = Inr 5"
      "decode_redeemAndShield (rd_abi demo_wired) d = Inr (5, 25000)"
      "rd_allowedTargets demo_wired 31337 = Some {to_lower demo_address}" for w r d
    by (simp_all add: demo_wired_def demo_relay_def)
  have q: "rq_chainId demo_hub_request = 31337" "rq_to demo_hub_request = demo_address"
      "rq_data demo_hub_request = ''0x7e220759''" "feesCacheId demo_hub_request = ''q''"
      "feeShieldRandom demo_hub_request = Some ''r''"
    by (simp_all add: demo_hub_request_def)
  have buffer: "bufferMs (fee_options_of demo_config ''0zk'') = 60000"
    by (simp add: bufferMs_def fee_options_of_def demo_config_def demo_knobs_def)
  have quote: "resolve (fee_options_of demo_config ''0zk'') 500 31337 ''q'' demo_hub_quotes =
    Some \<lparr>cacheId = ''q'', expiresAt = 1000, fs_chainId = 31337, fs_broadcaster = ''0zk'',
       fees = [(CrossContract, ''20000'')]\<rparr>"
    by (simp add: resolve_def demo_hub_quotes_def accepts_def buffer)
  have clock: "r_ext (rd_now demo_wired) ?s = (500, ?s)" by (simp add: r_ext_def D)
  have ver: "verify_fee demo_wired demo_hub_request SELECTOR_REDEEM_AND_SHIELD 20000 ?s = (Inr (), ?s)"
    by (simp add: verify_fee_def keys verifyRedeemFee_def D q hook_set_def derive_npk_def)
  show ?thesis
    by (simp add: pipeline_checks_def clock D q demo_address_ok quote demo_selector keys advertised_one fee ver)
qed

lemma relay_calls_manifest_addresses_witness:
  "\<exists>d a. d \<in> set (cfg_deployments demo_config) \<and> ct_chainId (cd_chain d) = 31337 \<and> callable demo_config d a
     \<and> to_lower demo_address = to_lower a"
proof -
  obtain s' where "pipeline_checks demo_wired demo_hub_request (demo_relay_state\<lparr>r_fees := demo_hub_quotes\<rparr>)
     = (Inr SELECTOR_REDEEM_AND_SHIELD, s')" using demo_wired_checks by blast
  from relay_calls_manifest_addresses [OF demo_built demo_wire this] show ?thesis
    by (auto simp: demo_hub_request_def)
qed

text \<open>The loop at work on the example scanner, after one tick and a restart.\<close>

lemma job_loop_keeps_running_witness:
  "\<exists>L1 L2. jobTick (demo_deps Mock) demo_scanner \<lparr>jobTickRunning = False, scanner_loop = gap_state\<rparr> = Some L1
    \<and> jobTick (demo_deps Mock) demo_scanner
        \<lparr>jobTickRunning = False, scanner_loop = (scanner_loop L1)\<lparr>scans := (\<lambda>_. None)\<rparr>\<rparr> = Some L2
    \<and> \<not> jobTickRunning L2"
proof -
  have chunk: "0 < sd_chunkSize demo_scanner" by (rule gap_setup(1))
  have run: "loop_run (demo_deps Mock) demo_scanner \<lparr>jobTickRunning = False, scanner_loop = gap_state\<rparr>"
    by (rule loop_run.boot) (simp add: gap_state_def)
  obtain L1 where L1: "jobTick (demo_deps Mock) demo_scanner \<lparr>jobTickRunning = False, scanner_loop = gap_state\<rparr> = Some L1"
    using job_loop_keeps_running [OF run chunk] by blast
  show ?thesis
    using L1 job_loop_keeps_running [OF loop_run.restart [OF loop_run.fire [OF run L1]] chunk] by blast
qed

end
