(* ===== verification/Footprint.thy ===== *)
theory Footprint
  imports Actor
begin

text \<open>
  What the parts of the actor do to the world they act on. A predicate on the world that every call of
  an interface keeps is kept by the job tick and by the HTTP server, which reach the world through
  their interfaces only. Of a submission the keeping is asked for allowed targets only.
\<close>

definition keeps :: "('w \<Rightarrow> bool) \<Rightarrow> ('w \<Rightarrow> 'a \<times> 'w) \<Rightarrow> bool" where
  "keeps I f \<longleftrightarrow> (\<forall>w. I w \<longrightarrow> I (snd (f w)))"

lemma keepsI: "(\<And>w r w'. I w \<Longrightarrow> f w = (r, w') \<Longrightarrow> I w') \<Longrightarrow> keeps I f"
  unfolding keeps_def by (metis prod.collapse)

lemma keepsD: "keeps I f \<Longrightarrow> f w = (r, w') \<Longrightarrow> I w \<Longrightarrow> I w'"
  unfolding keeps_def by (metis snd_conv)

lemma keeps_for_each: "(\<And>x. x \<in> set xs \<Longrightarrow> keeps J (f x)) \<Longrightarrow> keeps J (for_each f xs)"
  unfolding keeps_def by (blast intro: for_each_inv)

lemma keeps_all_settled: "(\<And>x. x \<in> set xs \<Longrightarrow> keeps J (f x)) \<Longrightarrow> keeps J (all_settled f xs)"
  unfolding keeps_def by (blast intro: all_settled_inv)

lemma keeps_and_then: "keeps J f \<Longrightarrow> keeps J g \<Longrightarrow> keeps J (and_then f g)"
  by (rule keepsI) (auto simp: and_then_def dest: keepsD split: prod.splits sum.splits)

lemma keeps_bind:
  "keeps J f \<Longrightarrow> J s \<Longrightarrow> (\<And>r s'. J s' \<Longrightarrow> J (snd (g r s'))) \<Longrightarrow> J (snd (case f s of (r, s') \<Rightarrow> g r s'))"
  unfolding keeps_def by (simp add: case_prod_beta)

lemma keeps_apply: "keeps J f \<Longrightarrow> J s \<Longrightarrow> J (snd (f s))"
  by (simp add: keeps_def)

lemma keeps_applyI: "(\<And>s. J s \<Longrightarrow> J (snd (f s))) \<Longrightarrow> keeps J f"
  by (simp add: keeps_def)

named_theorems keeping \<open>what keeps a predicate on the world\<close>

section \<open>The state machine\<close>

definition on_world :: "('w \<Rightarrow> bool) \<Rightarrow> 'w actor_state \<Rightarrow> bool" where
  "on_world I s \<longleftrightarrow> I (world s)"

lemmas world_bind = keeps_bind [where J = "on_world I" for I]

lemma ext_keeps [keeping]: "keeps I f \<Longrightarrow> keeps (on_world I) (ext f)"
  by (auto simp: keeps_def on_world_def ext_def split: prod.splits)

lemma world_repo: "world (snd (repo_transition k st p now s)) = world s"
  by (simp add: repo_transition_def split: prod.splits)

lemma world_transitioned: "world (transitioned ok st st' s) = world s"
  by (simp add: transitioned_def)

lemma world_move: "world (snd (move k st st' p now s)) = world s"
  using world_repo [of k st _ now s]
  by (auto simp: move_def repo_transition_def world_transitioned split: prod.splits)

lemma on_world_moves [simp]:
  "on_world I (snd (repo_transition k st p now s)) = on_world I s"
  "on_world I (snd (move k st st' p now s)) = on_world I s"
  by (simp_all add: on_world_def world_repo world_move)

lemma move_keeps [keeping]: "keeps (on_world I) (move k st st' p now)"
  by (simp add: keeps_def)

definition machine_keeps :: "('w \<Rightarrow> bool) \<Rightarrow> 'w machine_deps \<Rightarrow> bool" where
  "machine_keeps I d \<longleftrightarrow> keeps I (now_dep d) \<and> (\<forall>q. keeps I (att_fetch d q))
     \<and> (\<forall>n m a. keeps I (submitRelayWithHook d n m a)) \<and> (\<forall>n h. keeps I (getReceipt d n h))
     \<and> (\<forall>n h. keeps I (isInMempool d n h)) \<and> (\<forall>n. keeps I (resetNonce d n))"

lemma machine_keeping [keeping]:
  assumes "machine_keeps I d"
  shows "keeps I (now_dep d)" "keeps I (att_fetch d q)" "keeps I (submitRelayWithHook d n m a)"
    "keeps I (getReceipt d n h)" "keeps I (isInMempool d n h)" "keeps I (resetNonce d n)"
  using assms by (simp_all add: machine_keeps_def)

lemma record_poll_keeps [simp]: "on_world I (record_poll j r now s) = on_world I s"
  by (simp add: record_poll_def split: attestation_result.splits)

lemma pollOne_keeps [keeping]: "machine_keeps I d \<Longrightarrow> keeps (on_world I) (pollOne d j)"
  unfolding keeps_def pollOne_def by (auto intro!: world_bind keeping split: sum.splits)

lemma failure_keeps [keeping]: "machine_keeps I d \<Longrightarrow> keeps (on_world I) (recordSubmissionFailure d j)"
  unfolding keeps_def recordSubmissionFailure_def Let_def by (auto intro!: world_bind keeping)

lemma submit_one_keeps [keeping]: "machine_keeps I d \<Longrightarrow> keeps (on_world I) (submit_one d now j)"
  unfolding keeps_def submit_one_def
  by (auto intro!: world_bind keeping keeps_apply [OF failure_keeps] split: sum.splits option.splits)

lemma settle_receipt_keeps [keeping]: "machine_keeps I d \<Longrightarrow> keeps (on_world I) (settle_receipt d j h r)"
  unfolding keeps_def settle_receipt_def
  by (auto intro!: world_bind keeping keeps_apply [OF failure_keeps] split: option.splits)

lemma settle_one_keeps [keeping]: "machine_keeps I d \<Longrightarrow> keeps (on_world I) (settle_one d j)"
  unfolding keeps_def settle_one_def
  by (auto intro!: world_bind keeping keeps_apply [OF settle_receipt_keeps] split: sum.splits option.splits bool.splits)

lemma tick_keeps:
  assumes "machine_keeps I d" shows "keeps (on_world I) (tick d)"
proof -
  have steps: "keeps (on_world I) (for_each (detect_one d now) js)" "keeps (on_world I) (for_each (expire_one now) js)"
      "keeps (on_world I) (for_each (submit_one d now) js)" "keeps (on_world I) (all_settled (pollOne d) js)"
      "keeps (on_world I) (for_each (settle_one d) js)" for now js
    using assms
    by (auto intro!: keeps_for_each keeps_all_settled submit_one_keeps pollOne_keeps settle_one_keeps)
      (simp_all add: keeps_def detect_one_def expire_one_def)
  note clock = ext_keeps [OF machine_keeping(1) [OF assms]]
  have "keeps (on_world I) (tickDetected d)" "keeps (on_world I) (tickAttested d)" "keeps (on_world I) (tickSubmitted d)"
    unfolding keeps_def tickDetected_def tickAttested_def tickSubmitted_def Let_def
    by (auto intro!: world_bind clock steps [THEN keeps_apply])
  moreover have "keeps (on_world I) (tickAwaitingAttestation d)"
    unfolding keeps_def tickAwaitingAttestation_def Let_def
    by (auto intro!: world_bind clock steps steps [THEN keeps_apply] split: sum.splits)
  ultimately show ?thesis unfolding tick_def by (intro keeps_and_then)
qed

section \<open>Discovery and the scanner\<close>

lemma claimMessage_keeps [keeping]: "keeps I (dc_now ctx) \<Longrightarrow> keeps (on_world I) (claimMessage ctx m)"
  by (rule keepsI) (auto simp: claimMessage_def on_world_def Let_def dest: keepsD split: prod.splits sum.splits bool.splits)

lemma claim_loop_keeps:
  assumes "keeps I (dc_now ctx)" shows "on_world I s \<Longrightarrow> on_world I (snd (claim_loop ctx n ms s))"
proof (induction ms arbitrary: n s)
  case (Cons m ms)
  obtain r s' where c: "claimMessage ctx m s = (r, s')" by fastforce
  then have "on_world I s'" by (rule keepsD [OF claimMessage_keeps [OF assms]]) (rule Cons.prems)
  then show ?case using c Cons.IH by (auto split: sum.splits option.splits)
qed simp

lemma discoverWork_keeps [keeping]: "keeps I (dc_now ctx) \<Longrightarrow> keeps (on_world I) (discoverWork ctx)"
  by (simp add: keeps_def discoverWork_def Let_def claim_loop_keeps)

definition scanner_keeps :: "('w \<Rightarrow> bool) \<Rightarrow> 'w scanner_deps \<Rightarrow> bool" where
  "scanner_keeps I d \<longleftrightarrow> keeps I (sd_now d) \<and> keeps I (dc_now (sd_discovery d))
     \<and> (\<forall>c \<in> set (sd_chains d). keeps I (getBlockNumber (sc_provider c))
          \<and> (\<forall>a m n. keeps I (getLogs (sc_provider c) a m n)))"

lemma bisect_keeps:
  assumes "\<And>a m n. keeps I (getLogs P a m n)"
  shows "I w \<Longrightarrow> I (snd (bisectingGetLogs P a m n w))"
proof (induction "nat (n - m)" arbitrary: m n w rule: less_induct)
  case less
  obtain q v where q: "getLogs P a m n w = (q, v)" by fastforce
  have v: "I v" by (rule keepsD [OF assms q less.prems])
  show ?case
  proof (cases "isl q \<and> m < n")
    case True
    let ?mid = "(m + n) div 2"
    obtain r1 v1 r2 v2 where halves: "bisectingGetLogs P a m ?mid v = (r1, v1)"
        "bisectingGetLogs P a (?mid + 1) n v1 = (r2, v2)" by fastforce
    have "nat (?mid - m) < nat (n - m)" "nat (n - (?mid + 1)) < nat (n - m)" using True by auto
    then have "I v1" "I v2" using less.hyps v halves by (metis snd_conv)+
    then show ?thesis using True
      by (subst bisectingGetLogs.simps) (auto simp: q Let_def halves isl_def split: sum.splits)
  next
    case False
    then show ?thesis using v by (subst bisectingGetLogs.simps) (auto simp: q split: sum.splits)
  qed
qed

lemma chunk_loop_keeps:
  assumes "chunk_loop P a t c out m w = Some y" and "\<And>a m n. keeps I (getLogs P a m n)" and "I w"
  shows "I (snd y)"
proof -
  let ?Q = "\<lambda>((((((P, a :: string), t :: int), c :: int), out :: chain_log list), m :: int), w) y.
    (\<forall>a m n. keeps I (getLogs P a m n)) \<longrightarrow> I w \<longrightarrow> I (snd y)"
  have "?Q ((((((P, a), t), c), out), m), w) y"
    using assms(1)
  proof (rule chunk_loop.raw_induct [where Pa = ?Q, rotated])
    fix loop :: "'a scan_provider \<Rightarrow> string \<Rightarrow> int \<Rightarrow> int \<Rightarrow> chain_log list \<Rightarrow> int \<Rightarrow> 'a
      \<Rightarrow> ((exn + chain_log list) \<times> 'a) option" and P a t c out m w y
    assume IH: "\<And>P a t c out m w y. loop P a t c out m w = Some y \<Longrightarrow> ?Q ((((((P, a), t), c), out), m), w) y"
      and run: "(if t < m then Some (Inr out, w)
        else let end = min (m + c - 1) t
          in case bisectingGetLogs P a m end w of (Inl e, w) \<Rightarrow> Some (Inl e, w)
            | (Inr ls, w) \<Rightarrow> loop P a t c (out @ ls) (end + 1) w) = Some y"
    obtain q v where q: "bisectingGetLogs P a m (min (m + c - 1) t) w = (q, v)" by fastforce
    have "I v" if "\<forall>a m n. keeps I (getLogs P a m n)" "I w"
      using q bisect_keeps [of I P w a m "min (m + c - 1) t"] that by simp
    then show "?Q ((((((P, a), t), c), out), m), w) y"
      using run q IH by (cases q) (auto simp: Let_def split: if_splits, metis snd_conv)
  qed
  then show ?thesis using assms(2,3) by simp
qed

lemma claim_log_keeps [keeping]: "keeps I (dc_now (sd_discovery d)) \<Longrightarrow> keeps (on_world I) (claim_log d c l)"
  by (rule keeps_applyI)
    (auto simp: claim_log_def intro!: world_bind claimMessage_keeps split: sum.splits option.splits)

lemma scan_range_keeps:
  assumes keeps: "keeps I (getBlockNumber (sc_provider c))" "\<And>a m n. keeps I (getLogs (sc_provider c) a m n)"
      "keeps I (dc_now (sd_discovery d))"
    and run: "scan_range d c cur s = Some (r, s')" and "I (world (actor s))"
  shows "I (world (actor s'))"
proof -
  obtain h w where head: "getBlockNumber (sc_provider c) (world (actor s)) = (h, w)" by fastforce
  have w: "I w" by (rule keepsD [OF keeps(1) head assms(5)])
  have logs: "I w'" if "getLogsChunked (sc_provider c) a m n k w = Some (r, w')" for a m n k r w'
    using chunk_loop_keeps [OF that [unfolded getLogsChunked_def] keeps(2) w] by simp
  have "keeps (on_world I) (for_each (claim_log d c) ls)" for ls
    by (rule keeps_for_each) (rule claim_log_keeps [OF keeps(3)])
  then have claims: "I (world a')" if "for_each (claim_log d c) ls a = (r, a')" "I (world a)" for ls a r a'
    using that keepsD unfolding on_world_def by metis
  show ?thesis using run w
    by (auto simp: scan_range_def head Let_def split: sum.splits option.splits prod.splits if_splits
        dest!: logs claims)
qed

lemma tickChain_keeps:
  assumes "scanner_keeps I d" and c: "c \<in> set (sd_chains d)"
    and run: "tickChain d c p s = Some (r, s')" and I: "I (world (actor s))"
  shows "I (world (actor s'))"
proof -
  have keeps: "keeps I (sd_now d)" "keeps I (getBlockNumber (sc_provider c))"
      "\<And>a m n. keeps I (getLogs (sc_provider c) a m n)" "keeps I (dc_now (sd_discovery d))"
    using assms(1) c by (auto simp: scanner_keeps_def)
  obtain now w where clock: "sd_now d (world (actor s)) = (now, w)" by fastforce
  have w: "I w" by (rule keepsD [OF keeps(1) clock I])
  show ?thesis
  proof (cases "stays_idle d c p s")
    case True
    then show ?thesis using tickChain_idle [OF True] run clock w by auto
  next
    case False
    then show ?thesis
      using run clock w by (auto simp: tickChain_run intro: scan_range_keeps [OF keeps(2-4)])
  qed
qed

lemma scan_chains_keeps:
  assumes "scanner_keeps I d"
  shows "scan_chains d ps cs s = Some (r, s') \<Longrightarrow> set cs \<subseteq> set (sd_chains d) \<Longrightarrow> I (world (actor s))
    \<Longrightarrow> I (world (actor s'))"
proof (induction cs arbitrary: s)
  case (Cons c cs)
  obtain r1 s1 where one: "tickChain d c (progress_of ps (sc_chainId c)) s = Some (r1, s1)"
    using Cons.prems(1) by (auto split: option.splits)
  have "I (world (actor s1))" by (rule tickChain_keeps [OF assms _ one]) (use Cons.prems in simp_all)
  then show ?case using one Cons by (cases r1) auto
qed simp

lemma job_body_keeps:
  assumes "machine_keeps I d" and "scanner_keeps I sd"
    and "job_body d sd s = Some (r, s')" and "I (world (actor s))"
  shows "I (world (actor s'))"
proof -
  obtain r1 a1 where disc: "discoverWork (sd_discovery sd) (actor s) = (r1, a1)" by fastforce
  have a1: "on_world I a1"
    by (rule keepsD [OF discoverWork_keeps disc]) (use assms in \<open>auto simp: scanner_keeps_def on_world_def\<close>)
  obtain r2 a2 where mach: "tick d a1 = (r2, a2)" by fastforce
  have a2: "on_world I a2" by (rule keepsD [OF tick_keeps [OF assms(1)] mach a1])
  show ?thesis
    using assms(3) a1 a2 scan_chains_keeps [OF assms(2), of _ _ "s\<lparr>actor := a2\<rparr>" r s']
    by (auto simp: job_body_def disc mach scannerTick_def on_world_def split: sum.splits)
qed

lemma jobTick_keeps:
  assumes "machine_keeps I d" and "scanner_keeps I sd"
    and "jobTick d sd L = Some L'" and "I (world (actor (scanner_loop L)))"
  shows "I (world (actor (scanner_loop L')))"
  using assms(3,4) by (auto simp: jobTick_def dest: job_body_keeps [OF assms(1,2)] split: if_splits option.splits)

section \<open>The relay pipeline\<close>

definition on_relay :: "('w \<Rightarrow> bool) \<Rightarrow> 'w relay_state \<Rightarrow> bool" where
  "on_relay I s \<longleftrightarrow> I (r_world s)"

lemma on_relay_simps [simp]:
  "on_relay I (bump k s) = on_relay I s" "on_relay I (s\<lparr>r_dedup := t\<rparr>) = on_relay I s"
  "on_relay I (s\<lparr>r_outcomes := z\<rparr>) = on_relay I s"
  by (simp_all add: on_relay_def)

lemmas relay_bind = keeps_bind [where J = "on_relay I" for I]

lemma r_ext_keeping [keeping]: "keeps I f \<Longrightarrow> keeps (on_relay I) (r_ext f)"
  by (auto simp: keeps_def on_relay_def)

text \<open>The submitter has to keep the predicate for the targets and functions the pipeline lets through.\<close>

definition lets_through :: "'w relay_deps \<Rightarrow> int \<Rightarrow> string \<Rightarrow> string \<Rightarrow> bool" where
  "lets_through D chainId to data \<longleftrightarrow>
     (\<exists>ok. rd_allowedTargets D chainId = Some ok \<and> to_lower to \<in> ok)
     \<and> (\<exists>sel \<in> set ALLOWED_SELECTORS. selectorOf (rd_ethers D) data = Inr (Some sel))"

definition relay_keeps :: "('w \<Rightarrow> bool) \<Rightarrow> 'w relay_deps \<Rightarrow> bool" where
  "relay_keeps I D \<longleftrightarrow> keeps I (rd_now D) \<and> (\<forall>x. keeps I (nc_extract (rd_notes D) x))
     \<and> (\<forall>c. keeps I (rd_tryAcquire D c)) \<and> (\<forall>c w. I w \<longrightarrow> I (rd_release D c w))
     \<and> (\<forall>c to data. keeps I (rd_estimateGas D c to data))
     \<and> (\<forall>c to data g. lets_through D c to data \<longrightarrow> keeps I (rd_submit D c to data g))"

lemma verify_fee_keeping [keeping]:
  assumes "relay_keeps I D" shows "keeps (on_relay I) (verify_fee D q selector adv)"
proof -
  have "keeps I (verifyBroadcasterFee E A (rd_notes D) data adv)" for E A data
    using assms
    by (auto simp: keeps_def relay_keeps_def verifyBroadcasterFee_def Let_def split: sum.splits relay_exn.splits prod.splits)
      (metis snd_conv)+
  then show ?thesis
    by (intro keeps_applyI) (auto simp: verify_fee_def intro!: relay_bind r_ext_keeping)
qed

lemma checks_keeping [keeping]:
  assumes "relay_keeps I D" shows "keeps (on_relay I) (pipeline_checks D q)"
proof -
  have "keeps I (rd_now D)" using assms by (simp add: relay_keeps_def)
  then show ?thesis
    by (intro keeps_applyI) (auto simp: pipeline_checks_def
        intro!: relay_bind r_ext_keeping verify_fee_keeping [OF assms] split: option.splits sum.splits relay_exn.splits)
qed

lemma checks_let_through:
  assumes "pipeline_checks D q s = (Inr selector, s')"
  shows "lets_through D (rq_chainId q) (rq_to q) (rq_data q)"
  using assms by (auto simp: pipeline_checks_def lets_through_def split: option.splits if_splits sum.splits prod.splits)

lemma locked_keeping:
  assumes "relay_keeps I D" and "lets_through D (rq_chainId q) (rq_to q) (rq_data q)"
  shows "keeps (on_relay I) (pipeline_locked D q selector)"
proof -
  have k: "keeps I (rd_now D)" "keeps I (rd_estimateGas D (rq_chainId q) (rq_to q) (rq_data q))"
      "keeps I (rd_submit D (rq_chainId q) (rq_to q) (rq_data q) g)" for g
    using assms by (auto simp: relay_keeps_def)
  note steps = k [THEN r_ext_keeping, THEN keepsD]
  have b: "keeps (on_relay I) (broadcast D q selector g key)" for g key
    by (rule keepsI) (auto simp: broadcast_def dest: steps split: sum.splits prod.splits)
  show ?thesis
    by (rule keeps_applyI)
      ((auto simp: pipeline_locked_def intro!: relay_bind r_ext_keeping k split: sum.splits)[1];
        auto intro!: keeps_apply [OF b] split: prod.splits)
qed

lemma relay_keeping [keeping]:
  assumes "relay_keeps I D" shows "keeps (on_relay I) (relay D q)"
proof -
  have locked: "keeps (on_relay I) (with_lock (r_ext (rd_tryAcquire D (rq_chainId q)))
      (\<lambda>s. s\<lparr>r_world := rd_release D (rq_chainId q) (r_world s)\<rparr>) e body)"
    if "keeps (on_relay I) body" for e and body :: "('a, string) relay_act"
    unfolding keeps_def with_lock_def using assms that
    by (auto intro!: relay_bind r_ext_keeping split: bool.splits) (simp_all add: relay_keeps_def on_relay_def)
  have "keeps (on_relay I) (pipeline D q)"
  proof (rule keepsI)
    fix s r s' assume s: "on_relay I s" and run: "pipeline D q s = (r, s')"
    obtain k s1 where ck: "pipeline_checks D q s = (k, s1)" by fastforce
    have s1: "on_relay I s1" by (rule keepsD [OF checks_keeping [OF assms] ck s])
    show "on_relay I s'"
    proof (cases k)
      case (Inl e)
      with run ck s1 show ?thesis by (simp add: pipeline_def)
    next
      case (Inr selector)
      have "lets_through D (rq_chainId q) (rq_to q) (rq_data q)"
        by (rule checks_let_through [OF ck [unfolded Inr]])
      from locked [OF locked_keeping [OF assms this]] run ck s1 Inr show ?thesis
        by (simp add: pipeline_def) (rule keepsD)
    qed
  qed
  then show ?thesis
    unfolding keeps_def [of _ "relay D q"] relay_def Let_def by (auto intro!: relay_bind split: sum.splits)
qed

section \<open>The HTTP server\<close>

definition on_http :: "('w \<Rightarrow> bool) \<Rightarrow> 'w http_state \<Rightarrow> bool" where
  "on_http I s \<longleftrightarrow> I (r_world (hs_relay s))"

lemma on_http_simps [simp]:
  "on_http I (count_event k s) = on_http I s" "on_http I (s\<lparr>hs_idem := i\<rparr>) = on_http I s"
  "on_http I (s\<lparr>relayLimiter := m\<rparr>) = on_http I s" "on_http I (s\<lparr>getLimiter := m\<rparr>) = on_http I s"
  "on_http I (s\<lparr>hs_relay := r\<rparr>) = on_relay I r" "on_relay I (hs_relay s) = on_http I s"
  by (simp_all add: on_http_def on_relay_def count_event_def bump_def)

lemmas http_bind = keeps_bind [where J = "on_http I" for I]

definition http_keeps :: "('w \<Rightarrow> bool) \<Rightarrow> 'w http_deps \<Rightarrow> bool" where
  "http_keeps I H \<longleftrightarrow> keeps I (hd_now H) \<and> (\<forall>h c. keeps I (hd_txStatus H h c))
     \<and> keeps I (fd_refresh (hd_fees H)) \<and> (\<forall>c. keeps I (fd_gasPriceWei (hd_fees H) c)) \<and> relay_keeps I (hd_relay H)"

text \<open>The lemmas below take the keeping of the interface, \<open>http_keeps\<close>, as their first premise.\<close>

lemma clock_keeping: assumes "http_keeps I H" shows "keeps (on_http I) (clock H)"
  by (rule keepsI)
    (use assms in \<open>auto simp: clock_def http_keeps_def dest: keepsD [OF r_ext_keeping] split: prod.splits\<close>)

lemma schedule_keeping:
  assumes "http_keeps I H"
  shows "getSchedule (hd_fees H) now c (st, w) = (r, st', w') \<Longrightarrow> I w \<Longrightarrow> I w'"
proof -
  have k: "keeps I (fd_refresh (hd_fees H))" "keeps I (fd_gasPriceWei (hd_fees H) now)" for now
    using assms by (simp_all add: http_keeps_def)
  show "getSchedule (hd_fees H) now c (st, w) = (r, st', w') \<Longrightarrow> I w \<Longrightarrow> I w'"
    by (auto simp: getSchedule_def dest: k [THEN keepsD] split: prod.splits sum.splits option.splits)
qed

lemma fees_keeping: assumes "http_keeps I H" shows "keeps (on_http I) (fees_handler H c)"
  by (rule keepsI)
    (auto simp: fees_handler_def on_http_def on_relay_def Let_def dest!: schedule_keeping [OF assms]
      dest: keepsD [OF clock_keeping [OF assms], unfolded on_http_def] split: prod.splits sum.splits option.splits if_splits)

lemma none_allowed: "relay_keeps I D \<Longrightarrow> relay_keeps I (D\<lparr>rd_allowedTargets := \<lambda>_. None\<rparr>)"
  by (simp add: relay_keeps_def lets_through_def)

lemma run_relay_keeping: "http_keeps I H \<Longrightarrow> keeps (on_relay I) (run_relay H b)"
  by (auto simp: run_relay_def Let_def http_keeps_def intro: relay_keeping none_allowed split: option.splits)

lemma record_keeping: assumes "http_keeps I H" shows "on_http I s \<Longrightarrow> on_http I (record_execution H b h s)"
  by (auto simp: record_execution_def dest: keepsD [OF clock_keeping [OF assms]] split: option.splits prod.splits)

lemma relay_handler_keeping: assumes "http_keeps I H" shows "keeps (on_http I) (relay_handler H body)"
  by (rule keepsI)
    (auto simp: relay_handler_def relay_admit_def relay_execute_def intro!: record_keeping [OF assms]
      dest: keepsD [OF run_relay_keeping [OF assms]] split: sum.splits option.splits prod.splits relay_exn.splits)

lemma status_keeping: assumes "http_keeps I H" shows "keeps (on_http I) (status_handler H h c)"
proof -
  have tx: "keeps (on_relay I) (r_ext (hd_txStatus H h c))" for h c
    using assms by (auto simp: http_keeps_def intro: r_ext_keeping)
  show ?thesis
    by (rule keepsI)
      (auto simp: status_handler_def Let_def dest!: keepsD [OF tx] dest: keepsD [OF clock_keeping [OF assms]]
        split: if_splits option.splits prod.splits tx_result.splits)
qed

lemma delivered_keeping: assumes "http_keeps I H" shows "keeps (on_http I) (delivered_handler H a b c)"
  by (rule keepsI)
    (auto simp: delivered_handler_def dest: keepsD [OF clock_keeping [OF assms]]
      split: if_splits option.splits prod.splits sum.splits jsnum.splits)

lemma health_keeping: assumes "http_keeps I H" shows "keeps (on_http I) (health_handler H)"
  by (rule keepsI)
    (auto simp: health_handler_def Let_def dest: keepsD [OF clock_keeping [OF assms]] split: prod.splits sum.splits)

lemma limited_keeping:
  assumes "http_keeps I H" and "keeps (on_http I) f"
  shows "keeps (on_http I) (get_limited H client f)" "keeps (on_http I) (relay_limited H client f)"
  unfolding get_limited_def relay_limited_def
  by (rule keeps_applyI, rule http_bind [OF clock_keeping [OF assms(1)]], assumption,
      auto intro: keeps_apply [OF assms(2)] split: prod.splits bool.splits)+

lemma serve_keeping: "http_keeps I H \<Longrightarrow> keeps (on_http I) (serve H q)"
  by (rule keeps_applyI, cases q)
    (auto intro: limited_keeping [THEN keeps_apply] fees_keeping relay_handler_keeping status_keeping
      delivered_keeping keeps_apply [OF health_keeping])

end
