(* ===== verification/Railgun.thy ===== *)
theory Railgun
  imports Config Classify
begin

text \<open>
  \<open>actor/src/wallet/railgun-wallet.ts\<close>: the boot of the wallet that receives the shielded fees. The
  engine, its store and its models are packages the repository only calls: they are the fields of
  \<open>railgun_sdk\<close>, whose calls may fail. Modelled are the check of the mnemonic, the circuit files and
  their cache, the order of the boot, the check of the address against the configured one, and the two
  services the fee verifiers use. The engine's debugger and the log line are left out.
\<close>

section \<open>The mnemonic\<close>

text \<open>\<open>split(/\s+/)\<close>: the maximal pieces without white space, the empty ones at either end included.\<close>

function split_spaces :: "string \<Rightarrow> string list" where
  "split_spaces s =
     (case dropWhile (\<lambda>c. \<not> is_js_space c) s of
        [] \<Rightarrow> [s]
      | c # rest \<Rightarrow> takeWhile (\<lambda>c. \<not> is_js_space c) s # split_spaces (dropWhile is_js_space rest))"
  by pat_completeness auto

termination
proof (relation "measure length")
  fix s c rest assume "dropWhile (\<lambda>c. \<not> is_js_space c) s = c # rest"
  then have "length (c # rest) \<le> length s" by (metis length_dropWhile_le)
  moreover have "length (dropWhile is_js_space rest) \<le> length rest" by (rule length_dropWhile_le)
  ultimately show "(dropWhile is_js_space rest, s) \<in> measure length" by simp
qed simp

declare split_spaces.simps [simp del]

text \<open>An unset mnemonic and empty text are refused alike.\<close>

definition assertValidMnemonic :: "string option \<Rightarrow> exn + string" where
  "assertValidMnemonic mnemonic =
     (if \<not> hook_set mnemonic then
        Inl ''RELAYER_RAILGUN_MNEMONIC is required - the actor boot-fails without the 0zk wallet''
      else let count = length (split_spaces (js_trim (the mnemonic)))
        in check_then (count = 12 \<or> count = 24)
             (''RELAYER_RAILGUN_MNEMONIC must be 12 or 24 words, got '' @ show_nat count)
             (Inr (the mnemonic)))"

section \<open>Circuit files\<close>

record artifact =
  ar_wasm :: string
  ar_zkey :: string
  ar_vkey :: string

type_synonym artifact_cache = "(string \<times> artifact) list"

definition artifact_key :: "nat \<Rightarrow> nat \<Rightarrow> string" where
  "artifact_key inputs outputs = show_nat inputs @ ''x'' @ show_nat outputs"

definition getArtifacts ::
    "(nat \<Rightarrow> nat \<Rightarrow> exn + artifact) \<Rightarrow> nat \<Rightarrow> nat \<Rightarrow> (artifact_cache, artifact) act" where
  "getArtifacts getArtifact inputs outputs cache =
     (let key = artifact_key inputs outputs
      in case map_of cache key of
           Some cached \<Rightarrow> (Inr cached, cache)
         | None \<Rightarrow>
             (case getArtifact inputs outputs of
                Inr a \<Rightarrow> (Inr a, (key, a) # cache)
              | Inl e \<Rightarrow>
                  (Inl (''Failed to load artifacts for '' @ key @
                     ''. Available circuits: 1x2, 2x2, 2x3, 8x4. Error: '' @ e), cache)))"

section \<open>The boot\<close>

definition ENGINE_WALLET_SOURCE :: string where "ENGINE_WALLET_SOURCE = ''armadarelay''"

definition DEFAULT_ENCRYPTION_KEY :: string where "DEFAULT_ENCRYPTION_KEY = concat (replicate 32 ''01'')"

record 'w railgun_wallet =
  wallet_id :: string
  wallet_address :: string
  masterPublicKey :: int
  wallet_extract :: "int \<Rightarrow> string \<times> string \<Rightarrow> string \<Rightarrow> 'w \<Rightarrow> (exn + (string \<times> int) list) \<times> 'w"

text \<open>\<open>sdk_open\<close> makes the directory, opens the store at the path and starts the engine under a source
  name; \<open>sdk_wallet\<close> is \<open>createWalletFromMnemonic\<close>.\<close>

record 'w railgun_sdk =
  sdk_import :: "exn + unit"
  sdk_open :: "string \<Rightarrow> string \<Rightarrow> exn + unit"
  sdk_wallet :: "string \<Rightarrow> string \<Rightarrow> nat \<Rightarrow> exn + 'w railgun_wallet"
  sdk_notePublicKey :: "int \<Rightarrow> string \<Rightarrow> exn + int"

record 'w railgun_service =
  walletId :: string
  railgunAddress :: string
  deriveFeeNoteNpk :: "string \<Rightarrow> exn + int"
  extractFirstNoteERC20AmountMap :: "string \<times> string \<Rightarrow> 'w \<Rightarrow> (exn + (string \<times> int) list) \<times> 'w"

definition assertBroadcasterAddress :: "string option \<Rightarrow> string \<Rightarrow> exn + unit" where
  "assertBroadcasterAddress configured_address derived =
     (if \<not> hook_set configured_address then Inr ()
      else check_then (prefix ''0zk'' (the configured_address)) ''BROADCASTER_RAILGUN_ADDRESS must be a 0zk address''
        (check_then (derived = the configured_address) ''BROADCASTER_RAILGUN_ADDRESS assertion failed'' (Inr ())))"

definition bootRailgunWallet :: "'w railgun_sdk \<Rightarrow> actor_config \<Rightarrow> exn + 'w railgun_service" where
  "bootRailgunWallet sdk c =
     and_then_do (assertValidMnemonic (cfg_railgunMnemonic c)) (\<lambda>mnemonic.
     and_then_do (map_sum (\<lambda>e. ''Railgun SDK not loadable: '' @ e) id (sdk_import sdk)) (\<lambda>_.
     and_then_do (sdk_open sdk ENGINE_WALLET_SOURCE (cfg_railgunDbPath c)) (\<lambda>_.
     and_then_do (sdk_wallet sdk DEFAULT_ENCRYPTION_KEY mnemonic 0) (\<lambda>wallet.
     and_then_do (assertBroadcasterAddress (cfg_broadcasterRailgunAddress c) (wallet_address wallet)) (\<lambda>_.
       Inr \<lparr>walletId = wallet_id wallet, railgunAddress = wallet_address wallet,
            deriveFeeNoteNpk = sdk_notePublicKey sdk (masterPublicKey wallet),
            extractFirstNoteERC20AmountMap =
              (\<lambda>tx. wallet_extract wallet (ct_chainId (nt_hub (cfg_topology c))) tx (fst tx))\<rparr>)))))"

section \<open>The cache is transparent\<close>

definition cache_ok :: "(nat \<Rightarrow> nat \<Rightarrow> exn + artifact) \<Rightarrow> artifact_cache \<Rightarrow> bool" where
  "cache_ok getArtifact cache \<longleftrightarrow>
     (\<forall>key a. map_of cache key = Some a \<longrightarrow> (\<exists>m n. key = artifact_key m n \<and> getArtifact m n = Inr a))"

lemma artifact_key_eq: "artifact_key a b = artifact_key m n \<longleftrightarrow> a = m \<and> b = n"
proof
  assume same: "artifact_key a b = artifact_key m n"
  have "c \<noteq> CHR ''x''" if "c \<in> set (show_nat i)" for c i
    using digits_show_nat [OF that] by (auto simp: is_digit_def)
  then have digits: "takeWhile (\<lambda>c. c \<noteq> CHR ''x'') (show_nat i @ ''x'' @ t) = show_nat i"
      "dropWhile (\<lambda>c. c \<noteq> CHR ''x'') (show_nat i @ ''x'' @ t) = ''x'' @ t" for i t
    by (simp_all add: takeWhile_append2 dropWhile_append2)
  note parts = arg_cong [OF same [unfolded artifact_key_def]]
  have "show_nat a = show_nat m" by (rule parts [of "takeWhile (\<lambda>c. c \<noteq> CHR ''x'')", unfolded digits])
  moreover have "show_nat b = show_nat n"
    using parts [of "dropWhile (\<lambda>c. c \<noteq> CHR ''x'')", unfolded digits] by simp
  ultimately show "a = m \<and> b = n" by (metis parse_show_nat)
qed simp

text \<open>Whatever has been cached, a request answers what loading the circuit afresh would.\<close>

lemma getArtifacts_transparent:
  assumes "cache_ok getArtifact cache"
  shows "(case fst (getArtifacts getArtifact m n cache) of
      Inr a \<Rightarrow> getArtifact m n = Inr a | Inl e \<Rightarrow> \<exists>e. getArtifact m n = Inl e)
    \<and> cache_ok getArtifact (snd (getArtifacts getArtifact m n cache))"
proof (cases "map_of cache (artifact_key m n)")
  case (Some a)
  then have "getArtifact m n = Inr a" using assms by (fastforce simp: cache_ok_def artifact_key_eq)
  with Some assms show ?thesis by (simp add: getArtifacts_def)
next
  case None
  then show ?thesis using assms
    by (cases "getArtifact m n") (auto simp: getArtifacts_def cache_ok_def)
qed

section \<open>What a booted wallet is\<close>

lemma railgun_booted:
  assumes "bootRailgunWallet sdk c = Inr r"
  obtains mnemonic wallet where "cfg_railgunMnemonic c = Some mnemonic"
    "length (split_spaces (js_trim mnemonic)) \<in> {12, 24}"
    "sdk_wallet sdk DEFAULT_ENCRYPTION_KEY mnemonic 0 = Inr wallet"
    "railgunAddress r = wallet_address wallet"
    "deriveFeeNoteNpk r = sdk_notePublicKey sdk (masterPublicKey wallet)"
    "extractFirstNoteERC20AmountMap r
      = (\<lambda>tx. wallet_extract wallet (ct_chainId (nt_hub (cfg_topology c))) tx (fst tx))"
    "hook_set (cfg_broadcasterRailgunAddress c) \<Longrightarrow> cfg_broadcasterRailgunAddress c = Some (railgunAddress r)"
  using assms unfolding bootRailgunWallet_def and_then_do_ok
  apply (elim exE conjE)
  apply (rule that)
  apply (auto simp: assertValidMnemonic_def assertBroadcasterAddress_def hook_set_def Let_def fallible
      split: if_splits option.splits)
  done

end
