(* ===== verification/Boot.thy ===== *)
theory Boot
  imports Footprint Railgun
begin

text \<open>
  \<open>actor/src/main.ts\<close> as a whole: the boot from the environment to the wired job loop and HTTP server,
  and the running process. What the process reaches is the record \<open>outside\<close>: the providers, the clock,
  the price feed, Iris, the watcher's schema, the railgun SDK and the pure functions of ethers. The
  memory the parts share is the wallet, the price source, and a journal, kept for the proofs only, of
  every transaction handed to \<open>sendTransaction\<close>.

  Job ticks, requests, sweeps of the duplicate cache and changes outside come in any order, each whole.
  The numeric settings that the job part compares with times in milliseconds and with block numbers
  are taken as integers. Addresses in a manifest are taken to be text, as in \<open>Actor\<close>. Metrics, the
  wallet-balance gauge, timers, the port and the shutdown are left out.
\<close>

section \<open>Inside and outside\<close>

record 'x outside =
  os_rpc :: "'x chain_rpc"
  os_now :: "'x \<Rightarrow> int \<times> 'x"
  os_feeData :: "int \<Rightarrow> 'x \<Rightarrow> (exn + int option \<times> int option) \<times> 'x"
  os_feed :: "string \<Rightarrow> 'x aggregator"
  os_scan :: "int \<Rightarrow> 'x scan_provider"
  os_iris :: "string \<Rightarrow> attestation_query \<Rightarrow> 'x \<Rightarrow> http_outcome \<times> 'x"
  os_view :: "string \<Rightarrow> 'x \<Rightarrow> watcher_view"
  os_migrate :: "string \<Rightarrow> exn + unit"
  os_signer :: "string \<Rightarrow> exn + unit"
  os_sdk :: "'x railgun_sdk"
  os_ethers :: ethers
  os_abi :: abi_coder
  os_encoders :: call_encoders
  os_hash :: "string \<Rightarrow> string \<Rightarrow> exn + string"
  os_parseMessageSent :: "chain_log \<Rightarrow> exn + string"

record 'x memory =
  price :: price_state
  journal :: "(int \<times> string \<times> string) list"
  rest :: 'x

type_synonym 'x host = "'x memory wallet_world"

definition outer :: "('x \<Rightarrow> 'a \<times> 'x) \<Rightarrow> 'x memory \<Rightarrow> 'a \<times> 'x memory" where
  "outer f M = (case f (rest M) of (r, x) \<Rightarrow> (r, M\<lparr>rest := x\<rparr>))"

definition calling :: "('x \<Rightarrow> 'a \<times> 'x) \<Rightarrow> 'x host \<Rightarrow> 'a \<times> 'x host" where
  "calling f = lift_net (outer f)"

text \<open>The providers and signers of \<open>WalletManager\<close>: one for each RPC URL of the configuration.\<close>

definition wallet_rpc :: "actor_config \<Rightarrow> 'x chain_rpc \<Rightarrow> 'x memory chain_rpc" where
  "wallet_rpc c R = \<lparr>
     configured = (\<lambda>chainId. chainId \<in> set (map fst (cfg_rpcUrls c))),
     rpc_transactionCount = (\<lambda>chainId. outer (rpc_transactionCount R chainId)),
     rpc_estimateGas = (\<lambda>chainId to data. outer (rpc_estimateGas R chainId to data)),
     rpc_sendTransaction = (\<lambda>chainId to data gasLimit n M.
       outer (rpc_sendTransaction R chainId to data gasLimit n) (M\<lparr>journal := journal M @ [(chainId, to, data)]\<rparr>)),
     rpc_receipt = (\<lambda>chainId h. outer (rpc_receipt R chainId h)),
     rpc_hasTransaction = (\<lambda>chainId h. outer (rpc_hasTransaction R chainId h))\<rparr>"

section \<open>The parts\<close>

definition is_local :: "actor_config \<Rightarrow> bool" where
  "is_local c \<longleftrightarrow> nt_network (cfg_topology c) = ''local''"

definition price_opts_of :: "actor_config \<Rightarrow> price_opts" where
  "price_opts_of c = \<lparr>maxStalenessMs = fin_value (k_ethUsdMaxStalenessMs (cfg_knobs c)),
     po_min = fin_value (k_ethUsdMin (cfg_knobs c)), po_max = fin_value (k_ethUsdMax (cfg_knobs c)),
     staticFallback = cfg_ethUsdPriceStatic c\<rparr>"

definition refresh_price :: "actor_config \<Rightarrow> 'x outside \<Rightarrow> 'x memory \<Rightarrow> (exn + unit) \<times> 'x memory" where
  "refresh_price c X M =
     (if is_local c then (Inr (), M)
      else case os_now X (rest M) of (now, x) \<Rightarrow>
        (case price_refresh (os_feed X (the (cfg_ethUsdFeedAddress c))) (price_opts_of c) now (price M, x) of
           (reading, ps, x) \<Rightarrow> (Inr (), M\<lparr>price := ps, rest := x\<rparr>)))"

definition current_price :: "actor_config \<Rightarrow> price_state \<Rightarrow> rat" where
  "current_price c ps =
     rd_price (if is_local c then static_current (cfg_ethUsdPriceStatic c) else price_current (price_opts_of c) ps)"

definition wire_fees :: "actor_config \<Rightarrow> 'x outside \<Rightarrow> string \<Rightarrow> 'x host fee_deps" where
  "wire_fees c X address = \<lparr>
     fd_opts = fee_options_of c address,
     fd_refresh = lift_net (refresh_price c X),
     fd_gasPriceWei = (\<lambda>chainId W.
       if chainId \<notin> set (map fst (cfg_rpcUrls c)) then (Inl ''no provider configured'', W)
       else case calling (os_feeData X chainId) W of
              (Inl e, W) \<Rightarrow> (Inl e, W)
            | (Inr (gasPrice, maxFeePerGas), W) \<Rightarrow> (Inr (gasPrice_of_feeData gasPrice maxFeePerGas), W)),
     fd_price = (\<lambda>W. current_price c (price (net W)))\<rparr>"

definition hub_text :: "actor_config \<Rightarrow> (chain_deployment \<Rightarrow> json option) \<Rightarrow> exn + string" where
  "hub_text c field =
     and_then_do (or_throw (List.find (\<lambda>d. ct_role (cd_chain d) = Hub) (cfg_deployments c)) ''no hub deployment'') (\<lambda>d.
     and_then_do (or_throw (field d) ''undefined address'') address_text)"

definition wire_pipeline ::
    "actor_config \<Rightarrow> 'x outside \<Rightarrow> 'x railgun_service \<Rightarrow> exn + 'x host relay_deps" where
  "wire_pipeline c X railgun =
     and_then_do (hub_text c (\<lambda>d. contract_of d ''privacyPool'')) (\<lambda>pool.
     and_then_do (hub_text c (\<lambda>d. cctp_of d ''usdc'')) (\<lambda>usdc.
       wire_relay c (railgunAddress railgun) (wallet_relay (wallet_rpc c (os_rpc X)) \<lparr>
         rd_allowedTargets = (\<lambda>_. None), rd_fee_opts = fee_options_of c (railgunAddress railgun),
         rd_ethers = os_ethers X, rd_abi = os_abi X, rd_wrappersByChain = (\<lambda>_. None),
         rd_deriver = deriveFeeNoteNpk railgun,
         rd_notes = \<lparr>nc_extract = (\<lambda>tx. calling (extractFirstNoteERC20AmountMap railgun tx)),
                     nc_pool = pool, nc_usdc = usdc\<rparr>,
         rd_hash = os_hash X, rd_dedupTtl = DEDUP_TTL_MS, rd_now = calling (os_now X),
         rd_tryAcquire = tryAcquire, rd_release = release,
         rd_estimateGas = (\<lambda>_ _ _ W. (Inl [], W)), rd_submit = (\<lambda>_ _ _ _ W. (Inl [], W))\<rparr>)))"

definition DEFAULT_IRIS_FETCH_TIMEOUT_MS :: nat where "DEFAULT_IRIS_FETCH_TIMEOUT_MS = 10000"

text \<open>The attestation client: the mock, or the Iris client on the configured URL.\<close>

definition attestations ::
    "actor_config \<Rightarrow> 'x outside \<Rightarrow> attestation_query \<Rightarrow> 'x host \<Rightarrow> (exn + attestation_result) \<times> 'x host" where
  "attestations c X query W =
     (if cfg_cctpMode c = ''mock'' then (mockFetch query, W)
      else case calling (os_iris X (case cfg_irisBaseUrl c of JStr url \<Rightarrow> url | _ \<Rightarrow> []) query) W of
        (outcome, W) \<Rightarrow> (irisFetch DEFAULT_IRIS_FETCH_TIMEOUT_MS query outcome, W))"

definition wire_machine :: "actor_config \<Rightarrow> 'x outside \<Rightarrow> 'x host machine_deps" where
  "wire_machine c X =
     createDestinationSubmitter (wallet_rpc c (os_rpc X)) (os_encoders X) (wire_targets c) \<lparr>
       irisMode = (if cfg_cctpMode c = ''mock'' then Mock else Iris),
       stuckTxThresholdMs = \<lfloor>fin_value (k_stuckTxThresholdMs (cfg_knobs c))\<rfloor>,
       maxAttestationAgeMs = \<lfloor>fin_value (k_maxAttestationAgeMs (cfg_knobs c))\<rfloor>,
       now_dep = calling (os_now X), att_fetch = attestations c X,
       submitRelayWithHook = (\<lambda>_ _ _ W. (Inl [], W)), getReceipt = (\<lambda>_ _ W. (Inl [], W)),
       isInMempool = (\<lambda>_ _ W. (Inl [], W)), resetNonce = (\<lambda>_ W. (Inl [], W))\<rparr>"

definition scanner_chain_of :: "'x outside \<Rightarrow> chain_deployment \<Rightarrow> exn + 'x host scanner_chain" where
  "scanner_chain_of X d =
     and_then_do (and_then_do (or_throw (cctp_of d ''messageTransmitter'') ''undefined address'') address_text) (\<lambda>transmitter.
     Inr \<lparr>sc_chainId = ct_chainId (cd_chain d), sc_domain = ct_domain (cd_chain d),
          sc_messageTransmitter = transmitter,
          sc_deployBlock = (case as_int_json (prop_of (cd_manifest d) ''deployBlock'') of None \<Rightarrow> 0 | Some b \<Rightarrow> b),
          sc_confirmations = ct_confirmations (cd_chain d),
          sc_provider = (let P = os_scan X (ct_chainId (cd_chain d))
            in \<lparr>getBlockNumber = calling (getBlockNumber P), getLogs = (\<lambda>a m n. calling (getLogs P a m n))\<rparr>)\<rparr>)"

definition wire_scanner ::
    "actor_config \<Rightarrow> 'x outside \<Rightarrow> 'x host discovery_ctx \<Rightarrow> exn + 'x host scanner_deps" where
  "wire_scanner c X ctx =
     and_then_do (map_checked (scanner_chain_of X) (cfg_deployments c)) (\<lambda>chain_list.
     Inr \<lparr>sd_chains = chain_list, sd_discovery = ctx,
          sd_activateAfterMs = \<lfloor>fin_value (k_fallbackActivateAfterMs (cfg_knobs c))\<rfloor>,
          sd_chunkSize = \<lfloor>fin_value (k_fallbackChunkSize (cfg_knobs c))\<rfloor>,
          sd_now = calling (os_now X), sd_parseMessageSent = os_parseMessageSent X\<rparr>)"

definition wire_http ::
    "actor_config \<Rightarrow> 'x outside \<Rightarrow> string \<Rightarrow> 'x host relay_deps \<Rightarrow> 'x host http_deps" where
  "wire_http c X address D = \<lparr>
     hubChainId = ct_chainId (nt_hub (cfg_topology c)),
     configuredChainIds = map fst (cfg_rpcUrls c),
     hd_fees = wire_fees c X address,
     hd_relay = D,
     hd_txStatus = (\<lambda>txHash chainId. lift_net (wire_txStatus c (wallet_rpc c (os_rpc X)) txHash chainId)),
     hd_chains = allChains (cfg_topology c),
     hd_progress = (\<lambda>W. Inr (pg_watcherProgress (os_view X (cfg_indexedSchema c) (rest (net W))))),
     relayRatePerMin = fin_value (k_relayRatePerMin (cfg_knobs c)),
     getRatePerMin = fin_value (k_getRatePerMin (cfg_knobs c)),
     hd_now = calling (os_now X)\<rparr>"

section \<open>The boot\<close>

record 'x booted =
  bt_config :: actor_config
  bt_railgun :: "'x railgun_service"
  bt_machine :: "'x host machine_deps"
  bt_scanner :: "'x host scanner_deps"
  bt_http :: "'x host http_deps"

definition boot :: "env \<Rightarrow> files \<Rightarrow> string \<Rightarrow> 'x outside \<Rightarrow> exn + 'x booted" where
  "boot env fs root_dir X =
     and_then_do (buildConfig env fs (with_default (env ''DEPLOYMENTS_DIR'') root_dir)) (\<lambda>c.
     and_then_do (os_migrate X (cfg_databaseUrl c)) (\<lambda>_.
     and_then_do (resolvePrivateKey (cfg_relayerPrivateKey c) (cfg_deployerPrivateKey c)
       (nt_network (cfg_topology c))) (\<lambda>key.
     and_then_do (os_signer X key) (\<lambda>_.
     and_then_do (bootRailgunWallet (os_sdk X) c) (\<lambda>railgun.
     and_then_do (wire_pipeline c X railgun) (\<lambda>D.
     and_then_do (wire_discovery c (os_ethers X) (\<lambda>W. os_view X (cfg_indexedSchema c) (rest (net W)))
       (calling (os_now X))) (\<lambda>ctx.
     and_then_do (wire_scanner c X ctx) (\<lambda>scanner.
       Inr \<lparr>bt_config = c, bt_railgun = railgun, bt_machine = wire_machine c X, bt_scanner = scanner,
            bt_http = wire_http c X (railgunAddress railgun) D\<rparr>))))))))"

section \<open>The process\<close>

record 'x process =
  job_part :: "'x host job_loop"
  http_part :: "'x host http_state"

definition start_process :: "job_table \<Rightarrow> idem_table \<Rightarrow> 'x \<Rightarrow> 'x process" where
  "start_process t idem x =
     (let W = \<lparr>nonces = (\<lambda>_. None), busy = {}, net = \<lparr>price = new_price_state, journal = [], rest = x\<rparr>\<rparr>
      in \<lparr>job_part = \<lparr>jobTickRunning = False, scanner_loop =
            \<lparr>scans = (\<lambda>_. None), actor = \<lparr>jobs = t, world = W, transitions = []\<rparr>\<rparr>\<rparr>,
          http_part = \<lparr>hs_relay = \<lparr>r_fees = new_fee_state, r_dedup = (\<lambda>_. None), r_counters = [],
              r_outcomes = [], r_world = W\<rparr>,
            hs_idem = idem, hs_jobs = t, relayLimiter = (\<lambda>_. None), getLimiter = (\<lambda>_. None)\<rparr>\<rparr>)"

definition process_world :: "'x process \<Rightarrow> 'x host" where
  "process_world p = world (actor (scanner_loop (job_part p)))"

definition put_world :: "'x host \<Rightarrow> 'x process \<Rightarrow> 'x process" where
  "put_world W p = p\<lparr>job_part := (job_part p)\<lparr>scanner_loop := set_world W (scanner_loop (job_part p))\<rparr>\<rparr>"

text \<open>A request sees the tables and the world as the job part left them.\<close>

definition http_view :: "'x process \<Rightarrow> 'x host http_state" where
  "http_view p = (let h = http_part p in
     h\<lparr>hs_jobs := jobs (actor (scanner_loop (job_part p))), hs_relay := (hs_relay h)\<lparr>r_world := process_world p\<rparr>\<rparr>)"

definition handle :: "'x booted \<Rightarrow> request \<Rightarrow> 'x process \<Rightarrow> response \<times> 'x process" where
  "handle B q p =
     (case serve (bt_http B) q (http_view p) of
        (resp, h) \<Rightarrow> (resp, put_world (r_world (hs_relay h)) (p\<lparr>http_part := h\<rparr>)))"

definition run_jobs :: "'x booted \<Rightarrow> 'x process \<Rightarrow> 'x process option" where
  "run_jobs B p = map_option (\<lambda>L. p\<lparr>job_part := L\<rparr>) (jobTick (bt_machine B) (bt_scanner B) (job_part p))"

definition sweep :: "'x booted \<Rightarrow> 'x process \<Rightarrow> 'x process" where
  "sweep B p =
     (let D = hd_relay (bt_http B); h = http_view p
      in case r_ext (rd_now D) (hs_relay h) of
        (now, r) \<Rightarrow> put_world (r_world r) (p\<lparr>http_part := h\<lparr>hs_relay :=
          r\<lparr>r_dedup := dedup_sweep (rd_dedupTtl D) now (r_dedup r)\<rparr>\<rparr>\<rparr>))"

inductive process_run :: "'x booted \<Rightarrow> 'x process \<Rightarrow> bool" for B where
  start: "process_run B (start_process t idem x)"
| request: "process_run B p \<Longrightarrow> process_run B (snd (handle B q p))"
| job_tick: "process_run B p \<Longrightarrow> run_jobs B p = Some p' \<Longrightarrow> process_run B p'"
| sweep: "process_run B p \<Longrightarrow> process_run B (sweep B p)"
| outside: "process_run B p \<Longrightarrow> process_run B
    (put_world ((process_world p)\<lparr>net := (net (process_world p))\<lparr>rest := x\<rparr>\<rparr>) p)"

section \<open>What the wallet signs\<close>

text \<open>A delivery: the router's or the transmitter's call, with the message and attestation encoded. A
  relayed call: an allowed function of a callable address.\<close>

definition delivers :: "call_encoders \<Rightarrow> chain_deployment \<Rightarrow> string \<Rightarrow> string \<Rightarrow> bool" where
  "delivers enc d to data \<longleftrightarrow> (\<exists>msg att.
     if hook_set (hook_router d) then hook_router d = Some to \<and> enc_relayWithHook enc msg att = Inr data
     else cctp_of d ''messageTransmitter'' = Some (JStr to) \<and> enc_receiveMessage enc msg att = Inr data)"

definition relays :: "actor_config \<Rightarrow> ethers \<Rightarrow> chain_deployment \<Rightarrow> string \<Rightarrow> string \<Rightarrow> bool" where
  "relays c E d to data \<longleftrightarrow> (\<exists>a. callable c d a \<and> to_lower to = to_lower a)
     \<and> (\<exists>sel \<in> set ALLOWED_SELECTORS. selectorOf E data = Inr (Some sel))"

fun accounted :: "actor_config \<Rightarrow> 'x outside \<Rightarrow> int \<times> string \<times> string \<Rightarrow> bool" where
  "accounted c X (chainId, to, data) \<longleftrightarrow> (\<exists>d \<in> set (cfg_deployments c). ct_chainId (cd_chain d) = chainId
     \<and> (delivers (os_encoders X) d to data \<or> relays c (os_ethers X) d to data))"

definition books_ok :: "actor_config \<Rightarrow> 'x outside \<Rightarrow> 'x host \<Rightarrow> bool" where
  "books_ok c X W \<longleftrightarrow> list_all (accounted c X) (journal (net W))"

lemma books_ok_simps [simp]:
  "books_ok c X (W\<lparr>nonces := n\<rparr>) = books_ok c X W" "books_ok c X (W\<lparr>busy := b\<rparr>) = books_ok c X W"
  "books_ok c X (W\<lparr>net := (net W)\<lparr>rest := x\<rparr>\<rparr>) = books_ok c X W"
  by (simp_all add: books_ok_def)

lemmas books_bind = keeps_bind [where J = "books_ok c X" for c X]

lemma keeps_journal:
  assumes "\<And>M. journal (snd (f M)) = journal M"
  shows "keeps (\<lambda>W. Q (journal (net W))) (lift_net f)"
  by (rule keeps_applyI) (simp add: lift_net_def assms case_prod_beta)

lemma keeps_net:
  assumes "\<And>M. journal (snd (f M)) = journal M"
  shows "keeps (books_ok c X) (lift_net f)"
  unfolding books_ok_def [abs_def] by (rule keeps_journal [OF assms])

lemma outer_journal [simp]: "journal (snd (outer f M)) = journal M"
  by (simp add: outer_def split: prod.splits)

lemma keeps_calling_journal: "keeps (\<lambda>W. Q (journal (net W))) (calling f)"
  unfolding calling_def by (rule keeps_journal) simp

lemma keeps_calling: "keeps (books_ok c X) (calling f)"
  unfolding calling_def by (rule keeps_net) simp

lemma txStatus_journal [simp]: "journal (snd (txStatus (wallet_rpc c R) h cs M)) = journal M"
proof (induction cs arbitrary: M)
  case (Cons i cs)
  obtain r M' where "rpc_receipt (wallet_rpc c R) i h M = (r, M')" by fastforce
  moreover from this have "journal M' = journal M"
    using outer_journal [of "rpc_receipt R i h" M] by (simp add: wallet_rpc_def)
  ultimately show ?case using Cons by (simp split: sum.splits option.splits prod.splits)
qed simp

lemma refresh_journal [simp]: "journal (snd (refresh_price c X M)) = journal M"
  by (simp add: refresh_price_def split: prod.splits)

text \<open>A submission is one entry of the journal.\<close>

lemma keeps_submit:
  assumes "accounted c X (chainId, to, data)"
  shows "keeps (books_ok c X) (wallet_submit (wallet_rpc c R) chainId to data g)"
proof -
  have seed: "keeps (books_ok c X) (lift_net (rpc_transactionCount (wallet_rpc c R) i))" for i
    by (rule keeps_net) (simp add: wallet_rpc_def)
  have send: "keeps (books_ok c X) (lift_net (rpc_sendTransaction (wallet_rpc c R) chainId to data g n))" for n
    by (rule keeps_applyI)
      (use assms in \<open>auto simp: books_ok_def lift_net_def wallet_rpc_def outer_def split: prod.splits\<close>)
  let ?seeded = "\<lambda>W. case lift_net (rpc_transactionCount (wallet_rpc c R) chainId) W of
      (Inl e, W) \<Rightarrow> (Inl e, W) | (Inr n, W) \<Rightarrow> (Inr n, W\<lparr>nonces := (nonces W)(chainId := Some n)\<rparr>)"
  have seeded: "keeps (books_ok c X) ?seeded"
    by (rule keeps_applyI) (auto intro!: books_bind seed split: sum.splits)
  show ?thesis
  proof (rule keeps_applyI)
    fix W :: "'a host" assume W: "books_ok c X W"
    then show "books_ok c X (snd (wallet_submit (wallet_rpc c R) chainId to data g W))"
      by (cases "nonces W chainId")
        (auto simp: wallet_submit_def withNonce_def intro!: books_bind seeded send split: sum.splits)
  qed
qed

lemma wire_targets_deployment:
  assumes "wire_targets c domain = Some t"
  obtains d where "d \<in> set (cfg_deployments c)" "dt_chainId t = ct_chainId (cd_chain d)"
    "dt_hookRouter t = hook_router d"
    "dt_messageTransmitter t = (case cctp_of d ''messageTransmitter'' of Some (JStr a) \<Rightarrow> a | _ \<Rightarrow> [])"
  using assms by (auto simp: wire_targets_def dest!: map_of_SomeD)

lemma keeps_delivery:
  assumes texts: "\<And>d. d \<in> set (cfg_deployments c) \<Longrightarrow> \<exists>a. cctp_of d ''messageTransmitter'' = Some (JStr a)"
  shows "keeps (books_ok c X) (ds_submit (wallet_rpc c R) (os_encoders X) (wire_targets c) domain msg att)"
proof (cases "wire_targets c domain")
  case None
  then show ?thesis by (simp add: keeps_def ds_submit_def chainOf_def)
next
  case (Some t)
  then obtain d where d: "d \<in> set (cfg_deployments c)" "dt_chainId t = ct_chainId (cd_chain d)"
      "dt_hookRouter t = hook_router d"
      "dt_messageTransmitter t = (case cctp_of d ''messageTransmitter'' of Some (JStr a) \<Rightarrow> a | _ \<Rightarrow> [])"
    by (rule wire_targets_deployment)
  have entry: "accounted c X (dt_chainId t, to, data)" if "delivers (os_encoders X) d to data" for to data
    using that d(1,2) by auto
  have hook: "accounted c X (dt_chainId t, to, data)"
    if "hook_set (dt_hookRouter t)" "to = the (dt_hookRouter t)" "enc_relayWithHook (os_encoders X) msg att = Inr data" for to data
    by (rule entry) (use that d(3) in \<open>auto simp: delivers_def hook_set_def split: option.splits\<close>)
  have plain: "accounted c X (dt_chainId t, to, data)"
    if "\<not> hook_set (dt_hookRouter t)" "to = dt_messageTransmitter t" "enc_receiveMessage (os_encoders X) msg att = Inr data" for to data
    by (rule entry) (use that d(3,4) texts [OF d(1)] in \<open>auto simp: delivers_def\<close>)
  show ?thesis
  proof (rule keeps_applyI)
    fix W :: "'a host" assume W: "books_ok c X W"
    then show "books_ok c X (snd (ds_submit (wallet_rpc c R) (os_encoders X) (wire_targets c) domain msg att W))"
      using hook plain
      by (cases "hook_set (dt_hookRouter t)")
        (auto simp: ds_submit_def chainOf_def Some simp del: accounted.simps
          intro!: keeps_apply [OF keeps_submit] split: sum.splits)
  qed
qed

lemma boot_parts:
  assumes "boot env fs root_dir X = Inr B"
  obtains D ctx where
    "buildConfig env fs (with_default (env ''DEPLOYMENTS_DIR'') root_dir) = Inr (bt_config B)"
    "bootRailgunWallet (os_sdk X) (bt_config B) = Inr (bt_railgun B)"
    "wire_pipeline (bt_config B) X (bt_railgun B) = Inr D"
    "wire_discovery (bt_config B) (os_ethers X) (\<lambda>W. os_view X (cfg_indexedSchema (bt_config B)) (rest (net W)))
       (calling (os_now X)) = Inr ctx"
    "wire_scanner (bt_config B) X ctx = Inr (bt_scanner B)"
    "bt_machine B = wire_machine (bt_config B) X"
    "bt_http B = wire_http (bt_config B) X (railgunAddress (bt_railgun B)) D"
  using assms unfolding boot_def and_then_do_ok
  apply (elim exE conjE)
  apply (simp only: sum.inject)
  apply hypsubst
  apply (rule that; simp)
  done

lemma wired_pipeline:
  assumes "wire_pipeline c X railgun = Inr D"
  obtains targets where "allowed_targets c = Inr targets"
    "rd_allowedTargets D = (\<lambda>chainId. map_option set (map_of (rev targets) chainId))"
    "rd_ethers D = os_ethers X" "rd_now D = calling (os_now X)" "rd_tryAcquire D = tryAcquire" "rd_release D = release"
    "nc_extract (rd_notes D) = (\<lambda>tx. calling (extractFirstNoteERC20AmountMap railgun tx))"
    "rd_deriver D = deriveFeeNoteNpk railgun" "rd_fee_opts D = fee_options_of c (railgunAddress railgun)"
    "rd_submit D = (\<lambda>chainId to data g. wallet_submit (wallet_rpc c (os_rpc X)) chainId to data (Some g))"
    "rd_estimateGas D = (\<lambda>i to data W. if \<not> configured (wallet_rpc c (os_rpc X)) i
       then (Inl (''no provider configured for chain '' @ show_int i), W)
       else lift_net (rpc_estimateGas (wallet_rpc c (os_rpc X)) i to data) W)"
  using assms unfolding wire_pipeline_def wire_relay_def and_then_do_ok
  apply (elim exE conjE)
  apply (simp only: sum.inject)
  apply hypsubst
  apply (rule that; simp add: wallet_relay_def)
  done

lemma scanner_texts:
  assumes "wire_scanner c X ctx = Inr sd" and "d \<in> set (cfg_deployments c)"
  shows "\<exists>a. cctp_of d ''messageTransmitter'' = Some (JStr a)"
proof -
  obtain cs where "map_checked (scanner_chain_of X) (cfg_deployments c) = Inr cs"
    using assms(1) by (auto simp: wire_scanner_def and_then_do_ok)
  then obtain ch where "scanner_chain_of X d = Inr ch"
    using assms(2) by (auto simp: map_checked_ok list_all2_conv_all_nth in_set_conv_nth) 
  then show ?thesis
    by (auto simp: scanner_chain_of_def and_then_do_ok or_throw_ok address_text_def as_string_iff)
qed

text \<open>Every part of a booted actor keeps the books.\<close>

lemma wired_machine_keeps:
  assumes "\<And>d. d \<in> set (cfg_deployments c) \<Longrightarrow> \<exists>a. cctp_of d ''messageTransmitter'' = Some (JStr a)"
  shows "machine_keeps (books_ok c X) (wire_machine c X)"
proof -
  have reads: "keeps (books_ok c X) (lift_net (rpc_receipt (wallet_rpc c (os_rpc X)) i h))"
      "keeps (books_ok c X) (lift_net (rpc_hasTransaction (wallet_rpc c (os_rpc X)) i h))" for i h
    by (rule keeps_net; simp add: wallet_rpc_def)+
  have "keeps (books_ok c X) (ds_receipt (wallet_rpc c (os_rpc X)) (wire_targets c) n h)"
      "keeps (books_ok c X) (ds_inMempool (wallet_rpc c (os_rpc X)) (wire_targets c) n h)"
      "keeps (books_ok c X) (ds_resetNonce (wire_targets c) n)" for n h
    by (rule keepsI, auto simp: ds_receipt_def ds_inMempool_def ds_resetNonce_def resetStream_def
        dest: keepsD [OF reads(1)] keepsD [OF reads(2)] split: sum.splits if_splits prod.splits option.splits)+
  moreover have "keeps (books_ok c X) (attestations c X q)" for q
    by (rule keepsI) (auto simp: attestations_def dest: keepsD [OF keeps_calling] split: if_splits prod.splits)
  moreover have "keeps (books_ok c X) (ds_submit (wallet_rpc c (os_rpc X)) (os_encoders X) (wire_targets c) n m a)" for n m a
    by (rule keeps_delivery) (rule assms)
  ultimately show ?thesis
    by (simp add: machine_keeps_def wire_machine_def createDestinationSubmitter_def keeps_calling)
qed

lemma wired_scanner_keeps:
  assumes "wire_scanner c X ctx = Inr sd" and "dc_now ctx = calling (os_now X)"
  shows "scanner_keeps (\<lambda>W. Q (journal (net W))) sd"
proof -
  obtain cs where cs: "map_checked (scanner_chain_of X) (cfg_deployments c) = Inr cs"
      "sd_chains sd = cs" "sd_discovery sd = ctx" "sd_now sd = calling (os_now X)"
    using assms(1) by (auto simp: wire_scanner_def and_then_do_ok)
  have "keeps (\<lambda>W. Q (journal (net W))) (getBlockNumber (sc_provider ch))
      \<and> (\<forall>a m n. keeps (\<lambda>W. Q (journal (net W))) (getLogs (sc_provider ch) a m n))" if "ch \<in> set cs" for ch
    using map_checked_member [OF cs(1) that]
    by (auto simp: scanner_chain_of_def and_then_do_ok Let_def keeps_calling_journal)
  then show ?thesis using assms(2) cs(2-4) by (auto simp: scanner_keeps_def keeps_calling_journal)
qed

lemma pipeline_accounts:
  assumes D: "wire_pipeline c X railgun = Inr D" and "lets_through D chainId to data"
  shows "accounted c X (chainId, to, data)"
proof -
  obtain targets where t: "allowed_targets c = Inr targets"
      "rd_allowedTargets D = (\<lambda>chainId. map_option set (map_of (rev targets) chainId))"
      "rd_ethers D = os_ethers X"
    by (rule wired_pipeline [OF D])
  obtain ok where "rd_allowedTargets D chainId = Some ok" "to_lower to \<in> ok"
      and sel: "\<exists>sel \<in> set ALLOWED_SELECTORS. selectorOf (os_ethers X) data = Inr (Some sel)"
    using assms(2) t(3) by (auto simp: lets_through_def)
  then obtain ts where "map_of (rev targets) chainId = Some ts" "to_lower to \<in> set ts" unfolding t(2) by auto
  then obtain d where d: "d \<in> set (cfg_deployments c)" "chain_targets c d = Inr (chainId, ts)"
    using map_checked_member [OF t(1) [unfolded allowed_targets_def]] by (metis map_of_SomeD set_rev)
  from chain_targets_callable [OF d(2) \<open>to_lower to \<in> set ts\<close>] sel have "relays c (os_ethers X) d to data"
    and "ct_chainId (cd_chain d) = chainId" by (auto simp: relays_def)
  with d(1) show ?thesis by auto
qed

lemma wired_http_keeps:
  assumes D: "wire_pipeline c X railgun = Inr D"
  shows "http_keeps (books_ok c X) (wire_http c X address D)"
proof -
  let ?R = "wallet_rpc c (os_rpc X)"
  have gas: "keeps (books_ok c X) (lift_net (rpc_estimateGas ?R i to data))" for i to data
    by (rule keeps_net) (simp add: wallet_rpc_def)
  have estimate: "keeps (books_ok c X) (\<lambda>W. if \<not> configured ?R i then (Inl e, W) else lift_net (rpc_estimateGas ?R i to data) W)"
    for i e to data by (rule keeps_applyI) (simp add: keeps_apply [OF gas])
  have lock: "keeps (books_ok c X) (tryAcquire i)" "books_ok c X (release i W) = books_ok c X W" for i W
    by (auto simp: keeps_def tryAcquire_def release_def)
  have "relay_keeps (books_ok c X) D"
  proof (rule wired_pipeline [OF D])
    assume "rd_now D = calling (os_now X)" "rd_tryAcquire D = tryAcquire" "rd_release D = release"
      "nc_extract (rd_notes D) = (\<lambda>tx. calling (extractFirstNoteERC20AmountMap railgun tx))"
      "rd_submit D = (\<lambda>chainId to data g. wallet_submit ?R chainId to data (Some g))"
      "rd_estimateGas D = (\<lambda>i to data W. if \<not> configured ?R i
         then (Inl (''no provider configured for chain '' @ show_int i), W)
         else lift_net (rpc_estimateGas ?R i to data) W)"
    with estimate lock keeps_submit [OF pipeline_accounts [OF D]] show ?thesis
      by (simp add: relay_keeps_def keeps_calling)
  qed
  moreover have "keeps (books_ok c X) (lift_net (wire_txStatus c ?R h i))" for h i
    by (rule keeps_net) (simp add: wire_txStatus_def)
  moreover have "keeps (books_ok c X) (lift_net (refresh_price c X))"
    by (rule keeps_net) simp
  moreover have "keeps (books_ok c X) (fd_gasPriceWei (wire_fees c X address) i)" for i
    by (rule keepsI) (auto simp: wire_fees_def dest: keepsD [OF keeps_calling] split: if_splits prod.splits sum.splits)
  ultimately show ?thesis
    by (simp add: http_keeps_def wire_http_def keeps_calling) (simp add: wire_fees_def)
qed

lemma booted_keeps:
  assumes "boot env fs root_dir X = Inr B"
  shows "machine_keeps (books_ok (bt_config B) X) (bt_machine B)"
    and "scanner_keeps (books_ok (bt_config B) X) (bt_scanner B)"
    and "http_keeps (books_ok (bt_config B) X) (bt_http B)"
proof -
  obtain D ctx where parts: "wire_pipeline (bt_config B) X (bt_railgun B) = Inr D"
      "wire_discovery (bt_config B) (os_ethers X) (\<lambda>W. os_view X (cfg_indexedSchema (bt_config B)) (rest (net W)))
         (calling (os_now X)) = Inr ctx"
      "wire_scanner (bt_config B) X ctx = Inr (bt_scanner B)" "bt_machine B = wire_machine (bt_config B) X"
      "bt_http B = wire_http (bt_config B) X (railgunAddress (bt_railgun B)) D"
    by (rule boot_parts [OF assms])
  have "dc_now ctx = calling (os_now X)" using parts(2) by (auto simp: wire_discovery_def and_then_do_ok)
  then show "scanner_keeps (books_ok (bt_config B) X) (bt_scanner B)"
    unfolding books_ok_def [abs_def] by (rule wired_scanner_keeps [OF parts(3)])
  show "machine_keeps (books_ok (bt_config B) X) (bt_machine B)"
    unfolding parts(4) by (rule wired_machine_keeps) (rule scanner_texts [OF parts(3)])
  show "http_keeps (books_ok (bt_config B) X) (bt_http B)"
    unfolding parts(5) by (rule wired_http_keeps [OF parts(1)])
qed

lemma process_world_put [simp]: "process_world (put_world W p) = W"
  by (simp add: process_world_def put_world_def set_world_def)

lemma process_world_http [simp]: "process_world (p\<lparr>http_part := h\<rparr>) = process_world p"
  by (simp add: process_world_def)

lemma process_keeps_books:
  assumes "boot env fs root_dir X = Inr B" and "process_run B p"
  shows "books_ok (bt_config B) X (process_world p)"
  using assms(2)
proof (induction rule: process_run.induct)
  case (start t idem x)
  then show ?case by (simp add: start_process_def process_world_def books_ok_def Let_def)
next
  case (request p q)
  have "on_http (books_ok (bt_config B) X) (snd (serve (bt_http B) q (http_view p)))"
    by (rule keeps_apply [OF serve_keeping [OF booted_keeps(3) [OF assms(1)]]])
      (simp add: on_http_def http_view_def Let_def request.IH)
  then show ?case by (cases "serve (bt_http B) q (http_view p)") (simp add: handle_def on_http_def)
next
  case (job_tick p p')
  then obtain L where "jobTick (bt_machine B) (bt_scanner B) (job_part p) = Some L" "p' = p\<lparr>job_part := L\<rparr>"
    by (auto simp: run_jobs_def)
  with job_tick.IH jobTick_keeps [OF booted_keeps(1,2) [OF assms(1)], of "job_part p" L] show ?case
    by (simp add: process_world_def)
next
  case (sweep p)
  have "relay_keeps (books_ok (bt_config B) X) (hd_relay (bt_http B))"
    using booted_keeps(3) [OF assms(1)] by (simp add: http_keeps_def)
  then have clock: "keeps (on_relay (books_ok (bt_config B) X)) (r_ext (rd_now (hd_relay (bt_http B))))"
    by (simp add: relay_keeps_def r_ext_keeping)
  obtain now r where r: "r_ext (rd_now (hd_relay (bt_http B))) (hs_relay (http_view p)) = (now, r)" by fastforce
  have "on_relay (books_ok (bt_config B) X) r"
    by (rule keepsD [OF clock r]) (simp add: on_relay_def http_view_def Let_def sweep.IH)
  then show ?case by (simp add: sweep_def r Let_def on_relay_def)
next
  case (outside p x)
  then show ?case by simp
qed

section \<open>Properties\<close>

text \<open>C11: every transaction a running actor has ever handed to a signer is accounted for by the
  documents it booted with. Its chain is a chain of the topology, and it is either the delivery of some
  message with its attestation to that chain's own hook router, or to the message transmitter if the
  manifest names no router; or an allowed function of the chain's own pool, gasless wrapper or, on the
  hub, yield adapter. This holds whatever clients send, whatever the watcher, Iris, the providers and
  the price feed answer, whatever the tables held at the start, and in any order of requests, job
  ticks and sweeps.\<close>

theorem every_transaction_accounted:
  assumes boot: "boot env fs root_dir X = Inr B" and run: "process_run B p"
    and sent: "(chainId, to, data) \<in> set (journal (net (process_world p)))"
  shows "\<exists>d \<in> set (cfg_deployments (bt_config B)).
    cd_chain d \<in> set (allChains (cfg_topology (bt_config B))) \<and> ct_chainId (cd_chain d) = chainId \<and> valid_deployment d
    \<and> (delivers (os_encoders X) d to data \<or> relays (bt_config B) (os_ethers X) d to data)"
proof -
  have config: "buildConfig env fs (with_default (env ''DEPLOYMENTS_DIR'') root_dir) = Inr (bt_config B)"
    by (rule boot_parts [OF boot])
  have "map cd_chain (cfg_deployments (bt_config B)) = allChains (cfg_topology (bt_config B))"
      "list_all valid_deployment (cfg_deployments (bt_config B))"
    using buildConfig_parts [OF config] loadAllManifests_ok by metis+
  then have parts: "cd_chain d \<in> set (allChains (cfg_topology (bt_config B))) \<and> valid_deployment d"
    if "d \<in> set (cfg_deployments (bt_config B))" for d
    using that by (metis image_eqI list.set_map list_all_iff)
  have "accounted (bt_config B) X (chainId, to, data)"
    using process_keeps_books [OF boot run] sent by (auto simp: books_ok_def list_all_iff)
  then show ?thesis using parts by auto
qed

text \<open>C23: The address the actor advertises in its quotes, the key its redeem and gasless verifiers
  reconstruct notes with and the notes its broadcaster verifier decrypts are of one wallet, made from
  the configured mnemonic; and if an address is configured, it is that wallet's.\<close>

theorem one_fee_identity:
  assumes "boot env fs root_dir X = Inr B"
  shows "\<exists>mnemonic wallet. cfg_railgunMnemonic (bt_config B) = Some mnemonic
    \<and> sdk_wallet (os_sdk X) DEFAULT_ENCRYPTION_KEY mnemonic 0 = Inr wallet
    \<and> broadcasterRailgunAddress (fd_opts (hd_fees (bt_http B))) = wallet_address wallet
    \<and> broadcasterRailgunAddress (rd_fee_opts (hd_relay (bt_http B))) = wallet_address wallet
    \<and> rd_deriver (hd_relay (bt_http B)) = sdk_notePublicKey (os_sdk X) (masterPublicKey wallet)
    \<and> (\<forall>tx. nc_extract (rd_notes (hd_relay (bt_http B))) tx
         = calling (wallet_extract wallet (hubChainId (bt_http B)) tx (fst tx)))
    \<and> (hook_set (cfg_broadcasterRailgunAddress (bt_config B)) \<longrightarrow>
         cfg_broadcasterRailgunAddress (bt_config B) = Some (wallet_address wallet))"
proof -
  obtain D ctx where parts: "bootRailgunWallet (os_sdk X) (bt_config B) = Inr (bt_railgun B)"
      "wire_pipeline (bt_config B) X (bt_railgun B) = Inr D"
      "bt_http B = wire_http (bt_config B) X (railgunAddress (bt_railgun B)) D"
    by (rule boot_parts [OF assms])
  note D = wired_pipeline [OF parts(2)]
  show ?thesis
    by (rule railgun_booted [OF parts(1)], rule D)
      (auto simp: parts(3) wire_http_def wire_fees_def fee_options_of_def)
qed

section \<open>A booted actor\<close>

text \<open>The demonstration deployment, with one job in the table that waits to be submitted.\<close>

definition demo_outside :: "nat outside" where
  "demo_outside = \<lparr>
     os_rpc = \<lparr>configured = (\<lambda>_. True), rpc_transactionCount = (\<lambda>i x. (Inr 12, x)),
       rpc_estimateGas = (\<lambda>i to data x. (Inr 21000, x)), rpc_sendTransaction = (\<lambda>i to data g n x. (Inr ''0xcc'', x)),
       rpc_receipt = (\<lambda>i h x. (Inr None, x)), rpc_hasTransaction = (\<lambda>i h x. (Inr True, x))\<rparr>,
     os_now = (\<lambda>x. (5000, x)), os_feeData = (\<lambda>i x. (Inr (None, None), x)),
     os_feed = (\<lambda>a. \<lparr>ag_decimals = (\<lambda>x. (Inr 8, x)), ag_latestRoundData = (\<lambda>x. (Inr (0, 0), x))\<rparr>),
     os_scan = (\<lambda>i. \<lparr>getBlockNumber = (\<lambda>x. (Inr 0, x)), getLogs = (\<lambda>a m n x. (Inr [], x))\<rparr>),
     os_iris = (\<lambda>u q x. (FetchThrows ''AbortError'' [], x)),
     os_view = (\<lambda>schema x. \<lparr>sent_rows = [], received_rows = [], checkpoint_rows = None\<rparr>),
     os_migrate = (\<lambda>url. Inr ()), os_signer = (\<lambda>key. Inr ()),
     os_sdk = \<lparr>sdk_import = Inr (), sdk_open = (\<lambda>a b. Inr ()),
       sdk_wallet = (\<lambda>k m i. Inr \<lparr>wallet_id = ''w'', wallet_address = ''0zk'', masterPublicKey = 5,
         wallet_extract = (\<lambda>i tx a x. (Inr [], x))\<rparr>),
       sdk_notePublicKey = (\<lambda>k r. Inr k)\<rparr>,
     os_ethers = ref_ethers, os_abi = rd_abi (demo_relay :: unit relay_deps), os_encoders = demo_encoders,
     os_hash = (\<lambda>to d. Inr (to @ d)), os_parseMessageSent = (\<lambda>lg. Inl ''no event'')\<rparr>"

definition attested_job :: cctp_job where
  "attested_job = demo_job\<lparr>state := Attested, destinationDomain := 101, attestation := Some ''0x'',
     relayMessage := Some ''0x00''\<rparr>"

lemma demo_words: "length (split_spaces (js_trim demo_mnemonic)) = 12"
  by code_simp

lemma demo_railgun:
  "\<exists>r. bootRailgunWallet (os_sdk demo_outside) demo_config = Inr r"
  by (simp add: bootRailgunWallet_def demo_config_def assertValidMnemonic_def demo_words hook_set_def
      assertBroadcasterAddress_def demo_outside_def) (simp add: demo_mnemonic_def)

lemma demo_boots: "\<exists>B. boot demo_env demo_files ''d'' demo_outside = Inr B \<and> bt_config B = demo_config"
proof -
  obtain r where r: "bootRailgunWallet (os_sdk demo_outside) demo_config = Inr r" using demo_railgun by blast
  have pool: "addressToBytes32 ref_ethers demo_address = Inr (''0x'' @ replicate 24 CHR ''0'' @ replicate 40 CHR ''1'')"
    by code_simp
  note shape = demo_config_def demo_deployment_def demo_chain_def demo_manifest_def contract_of_def cctp_of_def opt_prop_def
  have "\<exists>D. wire_pipeline demo_config demo_outside r = Inr D"
    by (simp add: wire_pipeline_def wire_relay_def hub_text_def address_text_def as_string_def allowed_targets_def
        chain_targets_def poolAddress_def gaslessWrapperAddress_def nullable_def yield_adapter_def if_truthy_def
        or_throw_def shape)
  then obtain D where D: "wire_pipeline demo_config demo_outside r = Inr D" by blast
  have "\<exists>ctx. wire_discovery demo_config (os_ethers demo_outside) view now = Inr ctx" for view :: "nat host \<Rightarrow> _" and now
    by (simp add: wire_discovery_def poolAddress_def or_throw_def address_text_def as_string_def demo_outside_def pool shape)
  then obtain ctx where ctx: "wire_discovery demo_config (os_ethers demo_outside)
      (\<lambda>W. os_view demo_outside (cfg_indexedSchema demo_config) (rest (net W))) (calling (os_now demo_outside)) = Inr ctx"
    by blast
  have "\<exists>sd. wire_scanner demo_config demo_outside ctx = Inr sd"
    by (simp add: wire_scanner_def scanner_chain_of_def or_throw_def address_text_def as_string_def shape)
  then obtain sd where sd: "wire_scanner demo_config demo_outside ctx = Inr sd" by blast
  have built: "buildConfig demo_env demo_files (with_default (demo_env ''DEPLOYMENTS_DIR'') ''d'') = Inr demo_config"
    using demo_built by (simp add: demo_env_def with_default_def)
  have key: "\<exists>k. resolvePrivateKey (cfg_relayerPrivateKey demo_config) (cfg_deployerPrivateKey demo_config)
      (nt_network (cfg_topology demo_config)) = Inr k"
    by (simp add: demo_config_def demo_topology_def resolvePrivateKey_def LOCAL_DEPLOYER_KEY_def)
  have "os_migrate demo_outside u = Inr ()" "os_signer demo_outside k = Inr ()" for u k
    by (simp_all add: demo_outside_def)
  with key show ?thesis by (auto simp: boot_def built r D ctx sd)
qed

lemma demo_machine:
  "irisMode (wire_machine demo_config demo_outside) = Mock"
  "now_dep (wire_machine demo_config demo_outside) W = (5000, W)"
  "getReceipt (wire_machine demo_config demo_outside) 101 h W = (Inr None, W)"
  "stuckTxThresholdMs (wire_machine demo_config demo_outside) = 600000"
  "nonces W 31338 = None \<Longrightarrow>
     submitRelayWithHook (wire_machine demo_config demo_outside) 101 ''0x00'' ''0x'' W
       = (Inr ''0xcc'', W\<lparr>nonces := (nonces W)(31338 := Some 13),
            net := (net W)\<lparr>journal := journal (net W) @ [(31338, demo_address, ''recv0x00'')]\<rparr>\<rparr>)"
proof -
  have t: "wire_targets demo_config 101
      = Some \<lparr>dt_chainId = 31338, dt_hookRouter = None, dt_messageTransmitter = demo_address\<rparr>"
    by (simp add: wire_targets_def demo_config_def demo_deployment_def demo_chain_def hook_router_def contract_of_def
        cctp_of_def demo_manifest_def opt_prop_def as_string_def)
  note defs = wire_machine_def createDestinationSubmitter_def demo_outside_def calling_def lift_net_def outer_def
    ds_receipt_def ds_submit_def chainOf_def t wallet_rpc_def hook_set_def demo_encoders_def
    wallet_submit_def withNonce_def
  have c: "cfg_cctpMode demo_config = ''mock''" "k_stuckTxThresholdMs (cfg_knobs demo_config) = Fin 600000"
      "fst ` set (cfg_rpcUrls demo_config) = {31337, 31338}"
    by (simp_all add: demo_config_def demo_knobs_def)
  show "irisMode (wire_machine demo_config demo_outside) = Mock"
    "now_dep (wire_machine demo_config demo_outside) W = (5000, W)"
    "getReceipt (wire_machine demo_config demo_outside) 101 h W = (Inr None, W)"
    "stuckTxThresholdMs (wire_machine demo_config demo_outside) = 600000"
    by (simp_all add: defs c)
  show "submitRelayWithHook (wire_machine demo_config demo_outside) 101 ''0x00'' ''0x'' W
       = (Inr ''0xcc'', W\<lparr>nonces := (nonces W)(31338 := Some 13),
            net := (net W)\<lparr>journal := journal (net W) @ [(31338, demo_address, ''recv0x00'')]\<rparr>\<rparr>)"
    if "nonces W 31338 = None"
    using that by (simp add: defs c)
qed

lemma demo_tick:
  assumes "nonces W 31338 = None"
  shows "\<exists>s'. tick (wire_machine demo_config demo_outside) \<lparr>jobs = [jobToRow attested_job], world = W, transitions = []\<rparr>
      = (Inr (), s') \<and> journal (net (world s')) = journal (net W) @ [(31338, demo_address, ''recv0x00'')]
    \<and> map r_state (jobs s') = [Submitted]"
  using assms
  by (simp add: tick_def and_then_def tickDetected_def tickAwaitingAttestation_def tickAttested_def tickSubmitted_def
      pg_listByState_def Let_def ext_def demo_machine jobToRow_def rowToJob_def attested_job_def demo_job_def
      submit_one_def retry_later_def move_def repo_transition_def transitioned_def pg_transition_def setColumns_def
      no_patch_def set_if_def TICK_BATCH_def settle_one_def)

lemma wired_scanner_fields:
  "wire_scanner c X ctx = Inr sd \<Longrightarrow> sd_discovery sd = ctx \<and>
     sd_chunkSize sd = \<lfloor>fin_value (k_fallbackChunkSize (cfg_knobs c))\<rfloor>"
  by (auto simp: wire_scanner_def and_then_do_ok)

text \<open>One job tick of the demonstration actor submits the waiting job, and nothing else.\<close>

lemma demo_run_jobs:
  assumes "boot demo_env demo_files ''d'' demo_outside = Inr B" and c: "bt_config B = demo_config"
  shows "\<exists>p. run_jobs B (start_process [jobToRow attested_job] [] 0) = Some p
    \<and> journal (net (process_world p)) = [(31338, demo_address, ''recv0x00'')]"
proof -
  obtain ctx where parts: "wire_discovery demo_config (os_ethers demo_outside)
      (\<lambda>W. os_view demo_outside (cfg_indexedSchema demo_config) (rest (net W))) (calling (os_now demo_outside)) = Inr ctx"
      "wire_scanner demo_config demo_outside ctx = Inr (bt_scanner B)" "bt_machine B = wire_machine demo_config demo_outside"
    by (rule boot_parts [OF assms(1), unfolded c])
  have ctx: "dc_now ctx = calling (os_now demo_outside)" "pg_watcherProgress (dc_view ctx W) = []" for W
    using parts(1) by (auto simp: wire_discovery_def and_then_do_ok demo_outside_def pg_watcherProgress_def)
  have sd: "sd_discovery (bt_scanner B) = ctx" "0 < sd_chunkSize (bt_scanner B)"
    using wired_scanner_fields [OF parts(2)] by (simp_all add: demo_config_def demo_knobs_def)
  let ?s = "scanner_loop (job_part (start_process [jobToRow attested_job] [] 0))"
  obtain a where a: "tick (bt_machine B) (actor ?s) = (Inr (), a)"
      "journal (net (world a)) = [(31338, demo_address, ''recv0x00'')]" "map r_state (jobs a) = [Submitted]"
    using demo_tick [of "world (actor ?s)"] by (auto simp: parts(3) start_process_def Let_def)
  have "pg_invar (jobs a)" using a(3) by (auto simp: pg_invar_def)
  then obtain r s' where scan: "scan_chains (bt_scanner B) [] (sd_chains (bt_scanner B)) (?s\<lparr>actor := a\<rparr>) = Some (r, s')"
    using scan_chains_returns [OF sd(2), of "?s\<lparr>actor := a\<rparr>" "[]" "sd_chains (bt_scanner B)"] by auto
  have "journal (net (world (actor s'))) = [(31338, demo_address, ''recv0x00'')]"
    by (rule scan_chains_keeps [OF wired_scanner_keeps [OF parts(2) ctx(1)] scan]) (simp_all add: a(2))
  moreover have "discoverWork ctx (actor ?s) = (Inr 0, actor ?s)" by (simp add: discoverWork_def ctx(2))
  ultimately show ?thesis
    by (simp add: run_jobs_def jobTick_def job_body_def sd(1) a(1) scannerTick_def ctx(2) scan process_world_def)
      (simp add: start_process_def Let_def)
qed

theorem every_transaction_accounted_witness:
  "\<exists>B p. boot demo_env demo_files ''d'' demo_outside = Inr B \<and> process_run B p
    \<and> (31338, demo_address, ''recv0x00'') \<in> set (journal (net (process_world p)))
    \<and> (\<exists>d \<in> set (cfg_deployments demo_config). ct_chainId (cd_chain d) = 31338
         \<and> (delivers demo_encoders d demo_address ''recv0x00'' \<or> relays demo_config ref_ethers d demo_address ''recv0x00''))"
proof -
  obtain B where B: "boot demo_env demo_files ''d'' demo_outside = Inr B" "bt_config B = demo_config"
    using demo_boots by blast
  obtain p where p: "run_jobs B (start_process [jobToRow attested_job] [] 0) = Some p"
      "journal (net (process_world p)) = [(31338, demo_address, ''recv0x00'')]"
    using demo_run_jobs [OF B] by blast
  have run: "process_run B p" by (rule process_run.job_tick [OF process_run.start p(1)])
  have sent: "(31338, demo_address, ''recv0x00'') \<in> set (journal (net (process_world p)))" by (simp add: p(2))
  have "os_encoders demo_outside = demo_encoders" "os_ethers demo_outside = ref_ethers"
    by (simp_all add: demo_outside_def)
  with every_transaction_accounted [OF B(1) run sent] B run sent show ?thesis by auto
qed

theorem one_fee_identity_witness:
  "\<exists>B. boot demo_env demo_files ''d'' demo_outside = Inr B
    \<and> broadcasterRailgunAddress (fd_opts (hd_fees (bt_http B))) = ''0zk''
    \<and> (\<forall>r. rd_deriver (hd_relay (bt_http B)) r = Inr 5)"
proof -
  obtain B where B: "boot demo_env demo_files ''d'' demo_outside = Inr B" using demo_boots by blast
  from one_fee_identity [OF this] B show ?thesis by (auto simp: demo_outside_def)
qed

end
