(* ===== verification/Topics.thy ===== *)
theory Topics
  imports Classify
begin

text \<open>
  The text form of a log's topics: \<open>serializeTopics\<close> of \<open>watcher/src/lib/decode.ts\<close>, stored in the
  raw log and commitment tables, and the \<open>JSON.parse\<close> the read API applies to it. \<open>parse_topics\<close>
  is \<open>JSON.parse\<close> on arrays of strings without white space, which is what \<open>JSON.stringify\<close> writes;
  any other text, which no stored row holds, is \<open>None\<close>. Characters are 8-bit.
\<close>

section \<open>Writing\<close>

text \<open>\<open>JSON.stringify\<close> of an array of strings.\<close>

definition json_escape :: "char \<Rightarrow> string" where
  "json_escape c =
     (if c = CHR 0x22 then [CHR 0x5C, CHR 0x22]
      else if c = CHR 0x5C then [CHR 0x5C, CHR 0x5C]
      else if c = CHR 0x08 then [CHR 0x5C, CHR ''b'']
      else if c = CHR 0x0C then [CHR 0x5C, CHR ''f'']
      else if c = CHR 0x0A then [CHR 0x5C, CHR ''n'']
      else if c = CHR 0x0D then [CHR 0x5C, CHR ''r'']
      else if c = CHR 0x09 then [CHR 0x5C, CHR ''t'']
      else if of_char c < (32 :: nat)
      then [CHR 0x5C] @ ''u00'' @ [hex_char (of_char c div 16), hex_char (of_char c mod 16)]
      else [c])"

definition json_quote :: "string \<Rightarrow> string" where
  "json_quote s = [CHR 0x22] @ concat (map json_escape s) @ [CHR 0x22]"

fun json_elements :: "string list \<Rightarrow> string" where
  "json_elements [] = []"
| "json_elements [s] = json_quote s"
| "json_elements (s # t # ss) = json_quote s @ '','' @ json_elements (t # ss)"

definition serializeTopics :: "string list \<Rightarrow> string" where
  "serializeTopics topics = ''['' @ json_elements topics @ '']''"

section \<open>Reading\<close>

definition simple_escape :: "char \<Rightarrow> char option" where
  "simple_escape d =
     (if d \<in> {CHR 0x22, CHR 0x5C, CHR ''/''} then Some d
      else map_of [(CHR ''b'', CHR 0x08), (CHR ''f'', CHR 0x0C), (CHR ''n'', CHR 0x0A),
        (CHR ''r'', CHR 0x0D), (CHR ''t'', CHR 0x09)] d)"

fun json_string :: "string \<Rightarrow> (string \<times> string) option" where
  "json_string [] = None"
| "json_string (c # cs) =
     (if c = CHR 0x22 then Some ([], cs)
      else if c = CHR 0x5C then
        (case cs of
           [] \<Rightarrow> None
         | d # ds \<Rightarrow>
             if d = CHR ''u'' then
               (case ds of
                  h1 # h2 # h3 # h4 # rest \<Rightarrow>
                    if list_all is_hex_char [h1, h2, h3, h4] \<and> parse_hex [h1, h2, h3, h4] < 256
                    then map_option (apfst ((#) (char_of (parse_hex [h1, h2, h3, h4])))) (json_string rest)
                    else None
                | _ \<Rightarrow> None)
             else (case simple_escape d of
                  None \<Rightarrow> None
                | Some x \<Rightarrow> map_option (apfst ((#) x)) (json_string ds)))
      else if of_char c < (32 :: nat) then None
      else map_option (apfst ((#) c)) (json_string cs))"

lemma json_string_shorter: "json_string s = Some (x, r) \<Longrightarrow> length r < length s"
proof (induction "length s" arbitrary: s x r rule: less_induct)
  case less
  show ?case
  proof (cases s)
    case Nil
    with less.prems show ?thesis by simp
  next
    case (Cons c cs)
    have "length r < length s'" if "json_string s' = Some (y, r)" "length s' < length s" for y s'
      using less.hyps [OF that(2,1)] .
    then have shorter: "json_string s' = Some (y, r) \<Longrightarrow> length s' < length s \<Longrightarrow> length r < length s" for y s'
      using less_trans by blast
    show ?thesis
      using less.prems
      by (auto simp: Cons split: if_splits list.splits option.splits)
        (drule shorter, simp add: Cons, simp add: Cons)+
  qed
qed

function json_rest :: "string \<Rightarrow> string list option" where
  "json_rest s =
     (case s of
        c # q # cs \<Rightarrow>
          if c = CHR '','' \<and> q = CHR 0x22
          then (case json_string cs of None \<Rightarrow> None | Some (x, r) \<Rightarrow> map_option ((#) x) (json_rest r))
          else None
      | [c] \<Rightarrow> (if c = CHR '']'' then Some [] else None)
      | [] \<Rightarrow> None)"
  by pat_completeness auto

termination
  by (relation "measure length") (auto dest!: json_string_shorter)

declare json_rest.simps [simp del]

definition parse_topics :: "string \<Rightarrow> string list option" where
  "parse_topics s =
     (if s = ''[]'' then Some []
      else case s of
        b # cs \<Rightarrow> (if b = CHR ''['' then json_rest (CHR '','' # cs) else None)
      | [] \<Rightarrow> None)"

section \<open>Round trip\<close>

lemma json_string_escape:
  "json_string (json_escape c @ s) = map_option (apfst ((#) c)) (json_string s)"
proof -
  have hex: "is_hex_char (hex_char n)" if "n < 16" for n
    using that by (auto simp: hex_char_def is_hex_char_def)
  have val: "parse_hex [CHR ''0'', CHR ''0'', hex_char (n div 16), hex_char (n mod 16)] = n"
    if "n < 32" for n
    using that by (simp add: parse_hex_Cons) (simp add: hex_digit_def)
  have zero: "is_hex_char (CHR ''0'')" by (simp add: is_hex_char_def)
  show ?thesis
    by (auto simp: json_escape_def simple_escape_def hex zero val)
qed

lemma json_string_quoted: "json_string (concat (map json_escape s) @ CHR 0x22 # r) = Some (s, r)"
  by (induction s) (simp_all add: json_string_escape del: json_string.simps(2),
    simp_all)

lemma json_rest_elements:
  "ts \<noteq> [] \<Longrightarrow> json_rest (CHR '','' # json_elements ts @ '']'') = Some ts"
proof (induction ts rule: json_elements.induct)
  case (2 s)
  show ?case
    by (simp add: json_quote_def json_rest.simps [of "CHR '','' # _"] json_rest.simps [of "'']''"]
        json_string_quoted del: json_string.simps)
next
  case (3 s t ss)
  then show ?case
    by (simp add: json_quote_def json_rest.simps [of "CHR '','' # _"] json_string_quoted
        del: json_string.simps)
qed simp

lemma json_elements_quote: "ts \<noteq> [] \<Longrightarrow> \<exists>cs. json_elements ts = CHR 0x22 # cs"
  by (cases ts rule: json_elements.cases) (simp_all add: json_quote_def)

lemma topics_read_back: "parse_topics (serializeTopics ts) = Some ts"
proof (cases "ts = []")
  case True
  then show ?thesis by (simp add: parse_topics_def serializeTopics_def)
next
  case False
  then show ?thesis
    using json_rest_elements [OF False] json_elements_quote [OF False]
    by (auto simp: parse_topics_def serializeTopics_def)
qed


end
