(* ===== verification/Indexing.thy ===== *)
theory Indexing
  imports IndexedReader Numbers Topics
begin

text \<open>
  The watcher's indexing functions: \<open>watcher/src/index.ts\<close> with the tables of
  \<open>watcher/ponder.schema.ts\<close> and the row identifiers of \<open>watcher/src/lib/decode.ts\<close>.

  A log arrives decoded: the event is a constructor of \<open>contract_event\<close> with the arguments of the
  ABIs (\<open>watcher/abis\<close>) the handlers and the read API use; a \<open>bigint\<close> argument is an \<open>int\<close>. A
  table is the list of its rows in insertion order. \<open>context.db.insert(..).onConflictDoNothing()\<close>
  keeps a table whose primary key is taken; a value outside the 32-bit \<open>integer\<close> column it is
  written to is refused by the database and the insertion throws (Ponder may report the refusal
  when it flushes its buffer; here it is reported at the insertion). Columns of type \<open>bigint\<close> and
  \<open>numeric\<close> hold every value the code writes. \<open>keccak256\<close> of viem is a parameter.
\<close>

section \<open>Events\<close>

record token_data =
  tokenType :: int
  tokenAddress :: string
  tokenSubID :: int

record commitment_preimage =
  npk :: string
  token :: token_data
  preimage_value :: int

record shield_ciphertext =
  encryptedBundle :: "string \<times> string \<times> string"
  shieldKey :: string

record commitment_ciphertext =
  ct_ciphertext :: "string list"
  blindedSenderViewingKey :: string
  blindedReceiverViewingKey :: string
  annotationData :: string
  memo :: string

datatype contract_event =
    Shield int int "commitment_preimage list" "shield_ciphertext list" "int list"
  | Transact int int "string list" "commitment_ciphertext list"
  | Nullified int "string list"
  | Unshield string token_data int int
  | CrossChainUnshieldInitiated int int int
  | CrossChainShieldInitiated int int
  | UnshieldReceived string int
  | MessageSent string
  | MessageReceived int string string

text \<open>A log with its block, its transaction and the chain of the indexing context.\<close>

record index_log =
  ev_chain :: int
  ev_address :: string
  ev_block :: int
  ev_timestamp :: int
  ev_tx :: string
  ev_logIndex :: int
  ev_data :: string
  ev_topics :: "string list"
  ev_args :: contract_event

section \<open>Identifiers\<close>

definition logRowId :: "int \<Rightarrow> string \<Rightarrow> int \<Rightarrow> string" where
  "logRowId chainId txHash logIndex = show_int chainId @ '':'' @ txHash @ '':'' @ show_int logIndex"

definition dedup_key_of :: "string \<Rightarrow> int \<Rightarrow> string" where
  "dedup_key_of txHash logIndex = txHash @ '':'' @ show_int logIndex"

section \<open>Tables\<close>

record commitment_row =
  cb_id :: string
  cb_kind :: string
  cb_treeNumber :: int
  cb_startPosition :: int
  cb_commitmentCount :: int
  cb_blockNumber :: int
  cb_txHash :: string
  cb_logIndex :: int
  cb_rawData :: string
  cb_rawTopics :: string

record nullifier_row =
  nu_id :: string
  nu_treeNumber :: int
  nu_hash :: string
  nu_blockNumber :: int
  nu_txHash :: string
  nu_logIndex :: int

record unshield_row =
  un_id :: string
  un_toAddress :: string
  un_tokenAddress :: string
  un_amount :: string
  un_fee :: string
  un_blockNumber :: int
  un_txHash :: string

record received_row =
  re_id :: string
  re_chainId :: int
  re_sourceDomain :: int
  re_nonce :: string
  re_caller :: string
  re_destinationTxHash :: string
  re_blockNumber :: int

record xchain_row =
  xc_id :: string
  xc_chainId :: int
  xc_kind :: string
  xc_domain :: int
  xc_amount :: string
  xc_nonce :: string
  xc_txHash :: string
  xc_blockNumber :: int

record unshield_received_row =
  ur_id :: string
  ur_chainId :: int
  ur_recipient :: string
  ur_amount :: string
  ur_txHash :: string
  ur_blockNumber :: int

record raw_row =
  raw_id :: string
  raw_chainId :: int
  raw_address :: string
  raw_blockNumber :: int
  raw_txHash :: string
  raw_logIndex :: int
  raw_data :: string
  raw_topics :: string

text \<open>A row of \<open>cctp_message_sent\<close> is the \<^typ>\<open>indexed_message\<close> the actor reads from it.\<close>

record index_db =
  commitment_batch :: "commitment_row list"
  nullifier_table :: "nullifier_row list"
  unshield_table :: "unshield_row list"
  cctp_message_sent :: "indexed_message list"
  cctp_message_received :: "received_row list"
  xchain_initiated :: "xchain_row list"
  unshield_received :: "unshield_received_row list"
  raw_event_log :: "raw_row list"

definition empty_index :: index_db where
  "empty_index = \<lparr>commitment_batch = [], nullifier_table = [], unshield_table = [],
     cctp_message_sent = [], cctp_message_received = [], xchain_initiated = [],
     unshield_received = [], raw_event_log = []\<rparr>"

text \<open>The \<open>integer\<close> columns of a row, and the insertion of a row into its table.\<close>

datatype table_row =
    CommitmentRow commitment_row
  | NullifierRow nullifier_row
  | UnshieldRow unshield_row
  | SentRow indexed_message
  | ReceivedRow received_row
  | XchainRow xchain_row
  | UnshieldReceivedRow unshield_received_row
  | RawRow raw_row

definition fits_int4 :: "int \<Rightarrow> bool" where
  "fits_int4 n \<longleftrightarrow> - int4_max - 1 \<le> n \<and> n \<le> int4_max"

fun integer_columns :: "table_row \<Rightarrow> int list" where
  "integer_columns (CommitmentRow r) =
     [cb_treeNumber r, cb_startPosition r, cb_commitmentCount r, cb_logIndex r]"
| "integer_columns (NullifierRow r) = [nu_treeNumber r, nu_logIndex r]"
| "integer_columns (UnshieldRow r) = []"
| "integer_columns (SentRow r) =
     [m_chainId r, m_sourceDomain r, m_destinationDomain r, m_logIndex r]"
| "integer_columns (ReceivedRow r) = [re_chainId r, re_sourceDomain r]"
| "integer_columns (XchainRow r) = [xc_chainId r, xc_domain r]"
| "integer_columns (UnshieldReceivedRow r) = [ur_chainId r]"
| "integer_columns (RawRow r) = [raw_chainId r, raw_logIndex r]"

definition insert_new :: "('r \<Rightarrow> string) \<Rightarrow> 'r \<Rightarrow> 'r list \<Rightarrow> 'r list" where
  "insert_new key r t = (if list_ex (\<lambda>x. key x = key r) t then t else t @ [r])"

fun put_row :: "table_row \<Rightarrow> index_db \<Rightarrow> index_db" where
  "put_row (CommitmentRow r) db = db\<lparr>commitment_batch := insert_new cb_id r (commitment_batch db)\<rparr>"
| "put_row (NullifierRow r) db = db\<lparr>nullifier_table := insert_new nu_id r (nullifier_table db)\<rparr>"
| "put_row (UnshieldRow r) db = db\<lparr>unshield_table := insert_new un_id r (unshield_table db)\<rparr>"
| "put_row (SentRow r) db = db\<lparr>cctp_message_sent := insert_new m_id r (cctp_message_sent db)\<rparr>"
| "put_row (ReceivedRow r) db =
     db\<lparr>cctp_message_received := insert_new re_id r (cctp_message_received db)\<rparr>"
| "put_row (XchainRow r) db = db\<lparr>xchain_initiated := insert_new xc_id r (xchain_initiated db)\<rparr>"
| "put_row (UnshieldReceivedRow r) db =
     db\<lparr>unshield_received := insert_new ur_id r (unshield_received db)\<rparr>"
| "put_row (RawRow r) db = db\<lparr>raw_event_log := insert_new raw_id r (raw_event_log db)\<rparr>"

definition insert_row :: "table_row \<Rightarrow> (index_db, unit) act" where
  "insert_row r db =
     (if list_all fits_int4 (integer_columns r) then (Inr (), put_row r db)
      else (Inl ''integer out of range'', db))"

section \<open>Handlers\<close>

text \<open>\<open>Number(n)\<close> of a \<open>bigint\<close>: the nearest binary64 number, itself an integer.\<close>

definition number_of_bigint :: "int \<Rightarrow> int" where
  "number_of_bigint n = \<lfloor>dbl (rat_of_int n)\<rfloor>"

definition row_id :: "index_log \<Rightarrow> string" where
  "row_id e = logRowId (ev_chain e) (ev_tx e) (ev_logIndex e)"

definition raw_row_of :: "index_log \<Rightarrow> raw_row" where
  "raw_row_of e = \<lparr>raw_id = row_id e, raw_chainId = ev_chain e,
     raw_address = to_lower (ev_address e), raw_blockNumber = ev_block e, raw_txHash = ev_tx e,
     raw_logIndex = ev_logIndex e, raw_data = ev_data e,
     raw_topics = serializeTopics (ev_topics e)\<rparr>"

definition recordRawLog :: "index_log \<Rightarrow> (index_db, unit) act" where
  "recordRawLog e = insert_row (RawRow (raw_row_of e))"

text \<open>Two awaited statements one after the other.\<close>

definition followed_by :: "(index_db, unit) act \<Rightarrow> (index_db, unit) act \<Rightarrow> (index_db, unit) act" where
  "followed_by f g db = (case f db of (Inl e, db') \<Rightarrow> (Inl e, db') | (Inr _, db') \<Rightarrow> g db')"

record watcher_env =
  poolIndexing :: bool
  HUB_DOMAIN :: int
  viem_keccak256 :: "string \<Rightarrow> string"

definition commitment_row_of :: "string \<Rightarrow> index_log \<Rightarrow> int \<Rightarrow> int \<Rightarrow> nat \<Rightarrow> commitment_row" where
  "commitment_row_of kind e tree start count = \<lparr>cb_id = row_id e, cb_kind = kind,
     cb_treeNumber = number_of_bigint tree, cb_startPosition = number_of_bigint start,
     cb_commitmentCount = int count, cb_blockNumber = ev_block e, cb_txHash = ev_tx e,
     cb_logIndex = ev_logIndex e, cb_rawData = ev_data e,
     cb_rawTopics = serializeTopics (ev_topics e)\<rparr>"

definition on_Shield :: "index_log \<Rightarrow> int \<Rightarrow> int \<Rightarrow> commitment_preimage list \<Rightarrow> (index_db, unit) act" where
  "on_Shield e tree start commitments =
     followed_by (insert_row (CommitmentRow
       (commitment_row_of ''shield'' e tree start (length commitments)))) (recordRawLog e)"

definition on_Transact :: "index_log \<Rightarrow> int \<Rightarrow> int \<Rightarrow> string list \<Rightarrow> (index_db, unit) act" where
  "on_Transact e tree start hashes =
     followed_by (insert_row (CommitmentRow
       (commitment_row_of ''transact'' e tree start (length hashes)))) (recordRawLog e)"

definition nullifier_row_of :: "index_log \<Rightarrow> int \<Rightarrow> nat \<times> string \<Rightarrow> nullifier_row" where
  "nullifier_row_of e tree = (\<lambda>(i, n). \<lparr>nu_id = row_id e @ '':'' @ show_nat i,
     nu_treeNumber = number_of_bigint tree, nu_hash = n, nu_blockNumber = ev_block e,
     nu_txHash = ev_tx e, nu_logIndex = ev_logIndex e\<rparr>)"

definition on_Nullified :: "index_log \<Rightarrow> int \<Rightarrow> string list \<Rightarrow> (index_db, unit) act" where
  "on_Nullified e tree hashes =
     followed_by (for_each (\<lambda>x. insert_row (NullifierRow (nullifier_row_of e tree x)))
       (enumerate 0 hashes)) (recordRawLog e)"

definition unshield_row_of :: "index_log \<Rightarrow> string \<Rightarrow> token_data \<Rightarrow> int \<Rightarrow> int \<Rightarrow> unshield_row" where
  "unshield_row_of e to tok amount fee = \<lparr>un_id = row_id e, un_toAddress = to,
     un_tokenAddress = tokenAddress tok, un_amount = show_int amount, un_fee = show_int fee,
     un_blockNumber = ev_block e, un_txHash = ev_tx e\<rparr>"

definition on_Unshield :: "index_log \<Rightarrow> string \<Rightarrow> token_data \<Rightarrow> int \<Rightarrow> int \<Rightarrow> (index_db, unit) act" where
  "on_Unshield e to tok amount fee =
     followed_by (insert_row (UnshieldRow (unshield_row_of e to tok amount fee))) (recordRawLog e)"

definition xchain_row_of :: "string \<Rightarrow> int \<Rightarrow> index_log \<Rightarrow> int \<Rightarrow> int \<Rightarrow> xchain_row" where
  "xchain_row_of kind domain e amount n = \<lparr>xc_id = row_id e, xc_chainId = ev_chain e,
     xc_kind = kind, xc_domain = domain, xc_amount = show_int amount, xc_nonce = show_int n,
     xc_txHash = ev_tx e, xc_blockNumber = ev_block e\<rparr>"

definition on_CrossChainUnshieldInitiated :: "index_log \<Rightarrow> int \<Rightarrow> int \<Rightarrow> int \<Rightarrow> (index_db, unit) act" where
  "on_CrossChainUnshieldInitiated e destDomain amount n =
     followed_by (insert_row (XchainRow (xchain_row_of ''unshield'' destDomain e amount n)))
       (recordRawLog e)"

definition on_CrossChainShieldInitiated ::
    "watcher_env \<Rightarrow> index_log \<Rightarrow> int \<Rightarrow> int \<Rightarrow> (index_db, unit) act" where
  "on_CrossChainShieldInitiated W e amount n =
     followed_by (insert_row (XchainRow (xchain_row_of ''shield'' (HUB_DOMAIN W) e amount n)))
       (recordRawLog e)"

definition unshield_received_row_of :: "index_log \<Rightarrow> string \<Rightarrow> int \<Rightarrow> unshield_received_row" where
  "unshield_received_row_of e recipient amount = \<lparr>ur_id = row_id e, ur_chainId = ev_chain e,
     ur_recipient = recipient, ur_amount = show_int amount, ur_txHash = ev_tx e,
     ur_blockNumber = ev_block e\<rparr>"

definition on_UnshieldReceived :: "index_log \<Rightarrow> string \<Rightarrow> int \<Rightarrow> (index_db, unit) act" where
  "on_UnshieldReceived e recipient amount =
     followed_by (insert_row (UnshieldReceivedRow (unshield_received_row_of e recipient amount)))
       (recordRawLog e)"

definition sent_row_of :: "watcher_env \<Rightarrow> index_log \<Rightarrow> string \<Rightarrow> message_header \<Rightarrow> indexed_message" where
  "sent_row_of W e msg header = \<lparr>m_id = dedup_key_of (ev_tx e) (ev_logIndex e),
     m_chainId = ev_chain e, m_sourceDomain = hd_sourceDomain header,
     m_destinationDomain = hd_destinationDomain header, m_messageBytes = msg,
     m_messageHash = viem_keccak256 W msg, m_sourceTxHash = ev_tx e,
     m_logIndex = ev_logIndex e, m_blockNumber = ev_block e, m_blockTimestamp = ev_timestamp e\<rparr>"

definition on_MessageSent :: "watcher_env \<Rightarrow> index_log \<Rightarrow> string \<Rightarrow> (index_db, unit) act" where
  "on_MessageSent W e msg =
     (case decodeCctpHeader msg of
        Inl _ \<Rightarrow> (\<lambda>db. (Inr (), db))
      | Inr header \<Rightarrow> followed_by (insert_row (SentRow (sent_row_of W e msg header))) (recordRawLog e))"

definition received_row_of :: "index_log \<Rightarrow> int \<Rightarrow> string \<Rightarrow> string \<Rightarrow> received_row" where
  "received_row_of e srcDomain n caller_address = \<lparr>re_id = row_id e, re_chainId = ev_chain e,
     re_sourceDomain = srcDomain, re_nonce = n, re_caller = caller_address,
     re_destinationTxHash = ev_tx e, re_blockNumber = ev_block e\<rparr>"

definition on_MessageReceived :: "index_log \<Rightarrow> int \<Rightarrow> string \<Rightarrow> string \<Rightarrow> (index_db, unit) act" where
  "on_MessageReceived e srcDomain n caller_address =
     followed_by (insert_row (ReceivedRow (received_row_of e srcDomain n caller_address)))
       (recordRawLog e)"

text \<open>The registrations: pool events have a handler only in \<open>full\<close> mode. An event without a
  handler changes nothing.\<close>

definition when_pool :: "watcher_env \<Rightarrow> (index_db, unit) act \<Rightarrow> (index_db, unit) act" where
  "when_pool W h db = (if poolIndexing W then h db else (Inr (), db))"

definition index_event :: "watcher_env \<Rightarrow> index_log \<Rightarrow> (index_db, unit) act" where
  "index_event W e =
     (case ev_args e of
        Shield tree start commitments _ _ \<Rightarrow> when_pool W (on_Shield e tree start commitments)
      | Transact tree start hashes _ \<Rightarrow> when_pool W (on_Transact e tree start hashes)
      | Nullified tree hashes \<Rightarrow> when_pool W (on_Nullified e tree hashes)
      | Unshield to tok amount fee \<Rightarrow> when_pool W (on_Unshield e to tok amount fee)
      | CrossChainUnshieldInitiated destDomain amount n \<Rightarrow>
          when_pool W (on_CrossChainUnshieldInitiated e destDomain amount n)
      | CrossChainShieldInitiated amount n \<Rightarrow> when_pool W (on_CrossChainShieldInitiated W e amount n)
      | UnshieldReceived recipient amount \<Rightarrow> when_pool W (on_UnshieldReceived e recipient amount)
      | MessageSent msg \<Rightarrow> on_MessageSent W e msg
      | MessageReceived srcDomain n caller_address \<Rightarrow> on_MessageReceived e srcDomain n caller_address)"

text \<open>What the actor reads of the tables, with Ponder's own progress table beside them.\<close>

definition published :: "index_db \<Rightarrow> ponder_row list option \<Rightarrow> watcher_view" where
  "published db progress = \<lparr>sent_rows = cctp_message_sent db,
     received_rows = map (\<lambda>r. (re_sourceDomain r, re_nonce r)) (cctp_message_received db),
     checkpoint_rows = progress\<rparr>"



section \<open>The handlers as lists of insertions\<close>

lemmas handler_defs =
  on_Shield_def on_Transact_def on_Nullified_def on_Unshield_def on_CrossChainUnshieldInitiated_def
  on_CrossChainShieldInitiated_def on_UnshieldReceived_def on_MessageReceived_def recordRawLog_def

fun sent_part :: "table_row \<Rightarrow> indexed_message list" where
  "sent_part (SentRow m) = [m]"
| "sent_part _ = []"

fun raw_part :: "table_row \<Rightarrow> raw_row list" where
  "raw_part (RawRow r) = [r]"
| "raw_part _ = []"

text \<open>The rows an event stands for in the message view and in the raw log.\<close>

definition sent_of :: "watcher_env \<Rightarrow> index_log \<Rightarrow> indexed_message list" where
  "sent_of W e =
     (case ev_args e of
        MessageSent m \<Rightarrow> (case decodeCctpHeader m of Inl _ \<Rightarrow> [] | Inr h \<Rightarrow> [sent_row_of W e m h])
      | _ \<Rightarrow> [])"

definition has_handler :: "watcher_env \<Rightarrow> index_log \<Rightarrow> bool" where
  "has_handler W e =
     (case ev_args e of
        MessageSent m \<Rightarrow> (case decodeCctpHeader m of Inl _ \<Rightarrow> False | Inr _ \<Rightarrow> True)
      | MessageReceived _ _ _ \<Rightarrow> True
      | _ \<Rightarrow> poolIndexing W)"

definition raw_of :: "watcher_env \<Rightarrow> index_log \<Rightarrow> raw_row list" where
  "raw_of W e = (if has_handler W e then [raw_row_of e] else [])"

lemma followed_by_rows:
  "followed_by (insert_row r) (insert_row s) db = for_each insert_row [r, s] db"
  by (simp add: followed_by_def split: prod.splits sum.splits)

lemma for_each_append:
  "for_each f (xs @ ys) s
     = (case for_each f xs s of (Inl e, s') \<Rightarrow> (Inl e, s') | (Inr _, s') \<Rightarrow> for_each f ys s')"
  by (induction xs arbitrary: s) (auto split: prod.splits sum.splits)

lemma for_each_map: "for_each f (map g xs) s = for_each (\<lambda>x. f (g x)) xs s"
  by (induction xs arbitrary: s) (auto split: prod.splits sum.splits)

lemma nullified_rows:
  "on_Nullified e tree hs db = for_each insert_row
     (map (\<lambda>x. NullifierRow (nullifier_row_of e tree x)) (enumerate 0 hs) @ [RawRow (raw_row_of e)]) db"
  by (auto simp: on_Nullified_def followed_by_def recordRawLog_def for_each_append for_each_map
      split: prod.splits sum.splits)

lemma concat_map_Nil: "(\<And>x. x \<in> set xs \<Longrightarrow> f x = []) \<Longrightarrow> concat (map f xs) = []"
  by simp

lemma handler_rows:
  "\<exists>rs. (\<forall>db. index_event W e db = for_each insert_row rs db)
     \<and> concat (map sent_part rs) = sent_of W e \<and> concat (map raw_part rs) = raw_of W e"
proof (cases "has_handler W e")
  case False
  then have "index_event W e db = for_each insert_row [] db" for db
    by (auto simp: has_handler_def index_event_def when_pool_def on_MessageSent_def
        split: contract_event.splits sum.splits)
  with False show ?thesis
    by (intro exI [of _ "[]"])
      (auto simp: raw_of_def sent_of_def has_handler_def split: contract_event.splits sum.splits)
next
  case True
  have two: "\<exists>rs. (\<forall>db. index_event W e db = for_each insert_row rs db)
      \<and> concat (map sent_part rs) = sent_of W e \<and> concat (map raw_part rs) = raw_of W e"
    if "\<And>db. index_event W e db = followed_by (insert_row r) (recordRawLog e) db"
      and "sent_part r = sent_of W e" and "raw_part r = []" for r
    using that True
    by (intro exI [of _ "[r, RawRow (raw_row_of e)]"])
      (simp only: recordRawLog_def followed_by_rows, simp add: raw_of_def)
  note simps = index_event_def when_pool_def has_handler_def handler_defs sent_of_def
  show ?thesis
  proof (cases "ev_args e")
    case (Shield tree start cs sc fs)
    with True show ?thesis
      by (intro two [of "CommitmentRow (commitment_row_of ''shield'' e tree start (length cs))"])
        (simp_all add: simps)
  next
    case (Transact tree start hs cs)
    with True show ?thesis
      by (intro two [of "CommitmentRow (commitment_row_of ''transact'' e tree start (length hs))"])
        (simp_all add: simps)
  next
    case (Nullified tree hs)
    with True show ?thesis
      by (intro exI [of _ "map (\<lambda>x. NullifierRow (nullifier_row_of e tree x)) (enumerate 0 hs)
            @ [RawRow (raw_row_of e)]"])
        (simp add: index_event_def when_pool_def has_handler_def nullified_rows sent_of_def raw_of_def)
  next
    case (Unshield to tok a f)
    with True show ?thesis
      by (intro two [of "UnshieldRow (unshield_row_of e to tok a f)"]) (simp_all add: simps)
  next
    case (CrossChainUnshieldInitiated d a n)
    with True show ?thesis
      by (intro two [of "XchainRow (xchain_row_of ''unshield'' d e a n)"]) (simp_all add: simps)
  next
    case (CrossChainShieldInitiated a n)
    with True show ?thesis
      by (intro two [of "XchainRow (xchain_row_of ''shield'' (HUB_DOMAIN W) e a n)"])
        (simp_all add: simps)
  next
    case (UnshieldReceived r a)
    with True show ?thesis
      by (intro two [of "UnshieldReceivedRow (unshield_received_row_of e r a)"])
        (simp_all add: simps)
  next
    case (MessageSent m)
    with True obtain h where "decodeCctpHeader m = Inr h"
      by (auto simp: has_handler_def split: sum.splits)
    with MessageSent show ?thesis
      by (intro two [of "SentRow (sent_row_of W e m h)"])
        (simp_all add: index_event_def on_MessageSent_def sent_of_def)
  next
    case (MessageReceived d n c)
    with True show ?thesis
      by (intro two [of "ReceivedRow (received_row_of e d n c)"]) (simp_all add: simps)
  qed
qed

section \<open>Insertions\<close>

text \<open>A row is settled when inserting it again succeeds and changes nothing.\<close>

definition settled :: "index_db \<Rightarrow> table_row \<Rightarrow> bool" where
  "settled db r \<longleftrightarrow> insert_row r db = (Inr (), db)"

lemma insert_new_again [simp]: "insert_new key r (insert_new key r t) = insert_new key r t"
  by (auto simp: insert_new_def list_ex_iff)

lemma insert_new_keeps:
  "insert_new key r t = t \<Longrightarrow> insert_new key r (insert_new key s t) = insert_new key s t"
  by (auto simp: insert_new_def list_ex_iff split: if_splits)

lemma put_row_again [simp]: "put_row r (put_row r db) = put_row r db"
  by (cases r) simp_all

lemma put_row_keeps: "put_row r db = db \<Longrightarrow> put_row r (put_row s db) = put_row s db"
  by (cases r; cases s; cases db) (simp_all add: insert_new_keeps)

lemma settled_iff: "settled db r \<longleftrightarrow> list_all fits_int4 (integer_columns r) \<and> put_row r db = db"
  by (auto simp: settled_def insert_row_def)

lemma insert_row_settles: "insert_row r db = (Inr u, db') \<Longrightarrow> settled db' r"
  by (auto simp: settled_iff insert_row_def split: if_splits)

lemma insert_row_keeps: "settled db r \<Longrightarrow> settled (snd (insert_row s db)) r"
  by (simp add: settled_iff insert_row_def put_row_keeps)

lemma rows_keep: "settled db r \<Longrightarrow> settled (snd (for_each insert_row rs db)) r"
  using for_each_inv [of rs "\<lambda>db. settled db r" insert_row db] insert_row_keeps by blast

lemma rows_settle:
  "for_each insert_row rs db = (Inr u, db') \<Longrightarrow> r \<in> set rs \<Longrightarrow> settled db' r"
proof (induction rs arbitrary: db)
  case (Cons x rs)
  then obtain v db1 where x: "insert_row x db = (Inr v, db1)"
    and rs: "for_each insert_row rs db1 = (Inr u, db')"
    by (auto split: prod.splits sum.splits)
  show ?case
  proof (cases "r \<in> set rs")
    case True
    then show ?thesis using Cons.IH [OF rs] by blast
  next
    case False
    then have "settled db1 r" using Cons.prems(2) insert_row_settles [OF x] by simp
    then show ?thesis using rows_keep [of db1 r rs] rs by simp
  qed
qed simp

lemma settled_rows:
  "(\<And>r. r \<in> set rs \<Longrightarrow> settled db r) \<Longrightarrow> for_each insert_row rs db = (Inr (), db)"
  by (induction rs) (auto simp: settled_def)

section \<open>Running an event again\<close>

definition event_settled :: "watcher_env \<Rightarrow> index_log \<Rightarrow> index_db \<Rightarrow> bool" where
  "event_settled W e db \<longleftrightarrow> index_event W e db = (Inr (), db)"

lemma event_rows:
  obtains rs where "\<And>db. index_event W e db = for_each insert_row rs db"
    "concat (map sent_part rs) = sent_of W e" "concat (map raw_part rs) = raw_of W e"
  using handler_rows [of W e] by blast

lemma event_settles: "index_event W e db = (Inr u, db') \<Longrightarrow> event_settled W e db'"
  by (rule event_rows [of W e]) (metis event_settled_def rows_settle settled_rows)

lemma event_keeps_rows: "settled db r \<Longrightarrow> settled (snd (index_event W e db)) r"
  by (rule event_rows [of W e]) (metis rows_keep)

lemma event_settled_rows:
  assumes "\<And>db. index_event W e db = for_each insert_row rs db"
  shows "event_settled W e db \<longleftrightarrow> (\<forall>r \<in> set rs. settled db r)"
  using assms rows_settle settled_rows unfolding event_settled_def by metis

lemma event_keeps_settled: "event_settled W e db \<Longrightarrow> event_settled W e (snd (index_event W f db))"
  by (rule event_rows [of W e]) (metis event_settled_rows event_keeps_rows)

lemma index_run_keeps:
  "event_settled W e db \<Longrightarrow> event_settled W e (snd (for_each (index_event W) fs db))"
  using for_each_inv [of fs "event_settled W e" "index_event W" db] event_keeps_settled by blast

lemma run_settles:
  "for_each (index_event W) es db = (Inr u, db') \<Longrightarrow> e \<in> set es \<Longrightarrow> event_settled W e db'"
proof (induction es arbitrary: db)
  case (Cons x es)
  then obtain v db1 where x: "index_event W x db = (Inr v, db1)"
    and es: "for_each (index_event W) es db1 = (Inr u, db')"
    by (auto split: prod.splits sum.splits)
  show ?case
  proof (cases "e \<in> set es")
    case True
    then show ?thesis using Cons.IH [OF es] by blast
  next
    case False
    then have "event_settled W e db1" using Cons.prems(2) event_settles [OF x] by simp
    then show ?thesis using index_run_keeps [of W e db1 es] es by simp
  qed
qed simp

lemma settled_run:
  "(\<And>e. e \<in> set es \<Longrightarrow> event_settled W e db) \<Longrightarrow> for_each (index_event W) es db = (Inr (), db)"
  by (induction es) (auto simp: event_settled_def)

text \<open>C18: Indexing is idempotent: once a run of the handlers went through, running any of its events
  again, in any order and any number of times, succeeds and changes no table, also after further
  events were indexed or failed in between (as reorg reconciliation and Ponder's retries do).\<close>

theorem reindexing_changes_nothing:
  assumes "for_each (index_event W) es db = (Inr (), db')" and "set fs \<subseteq> set es"
  shows "for_each (index_event W) fs (snd (for_each (index_event W) gs db'))
    = (Inr (), snd (for_each (index_event W) gs db'))"
  by (intro settled_run index_run_keeps run_settles [OF assms(1)]) (use assms(2) in blast)

section \<open>The contents of the tables\<close>

lemma insert_row_parts:
  assumes "insert_row r db = (Inr u, db')"
  shows "cctp_message_sent db' = fold (insert_new m_id) (sent_part r) (cctp_message_sent db)"
    and "raw_event_log db' = fold (insert_new raw_id) (raw_part r) (raw_event_log db)"
  using assms by (cases r; auto simp: insert_row_def split: if_splits)+

lemma rows_parts:
  assumes "for_each insert_row rs db = (Inr u, db')"
  shows "cctp_message_sent db'
      = fold (insert_new m_id) (concat (map sent_part rs)) (cctp_message_sent db)
    \<and> raw_event_log db' = fold (insert_new raw_id) (concat (map raw_part rs)) (raw_event_log db)"
  using assms
proof (induction rs arbitrary: db)
  case (Cons r rs)
  then obtain v db1 where r: "insert_row r db = (Inr v, db1)"
    and rs: "for_each insert_row rs db1 = (Inr u, db')"
    by (auto split: prod.splits sum.splits)
  show ?case using Cons.IH [OF rs] insert_row_parts [OF r] by simp
qed simp

lemma run_parts:
  assumes "for_each (index_event W) es db = (Inr u, db')"
  shows "cctp_message_sent db'
      = fold (insert_new m_id) (concat (map (sent_of W) es)) (cctp_message_sent db)
    \<and> raw_event_log db' = fold (insert_new raw_id) (concat (map (raw_of W) es)) (raw_event_log db)"
  using assms
proof (induction es arbitrary: db)
  case (Cons e es)
  then obtain v db1 where e: "index_event W e db = (Inr v, db1)"
    and es: "for_each (index_event W) es db1 = (Inr u, db')"
    by (auto split: prod.splits sum.splits)
  obtain rs where rs: "\<And>db. index_event W e db = for_each insert_row rs db"
    "concat (map sent_part rs) = sent_of W e" "concat (map raw_part rs) = raw_of W e"
    by (rule event_rows) blast
  show ?case using Cons.IH [OF es] rows_parts [of rs db v db1] e rs by simp
qed simp

lemma set_insert_new:
  assumes "\<And>x. x \<in> set t \<Longrightarrow> key x = key r \<Longrightarrow> x = r"
  shows "set (insert_new key r t) = insert r (set t)"
  using assms by (auto simp: insert_new_def list_ex_iff)

lemma distinct_insert_new:
  "distinct (map key t) \<Longrightarrow> distinct (map key (insert_new key r t))"
  by (auto simp: insert_new_def list_ex_iff)

lemma fold_insert_new:
  assumes "inj_on key (set rs \<union> set t)"
  shows "set (fold (insert_new key) rs t) = set rs \<union> set t"
  using assms
proof (induction rs arbitrary: t)
  case (Cons r rs)
  have s: "set (insert_new key r t) = insert r (set t)"
    using Cons.prems by (intro set_insert_new) (auto simp: inj_on_def)
  show ?case using Cons.IH [of "insert_new key r t"] Cons.prems by (auto simp: s insert_commute)
qed simp

lemma distinct_fold_insert_new:
  "distinct (map key t) \<Longrightarrow> distinct (map key (fold (insert_new key) rs t))"
  by (induction rs arbitrary: t) (simp_all add: distinct_insert_new)

text \<open>Identifiers: no part of them holds a colon, so a text determines its parts.\<close>

lemma split_at_colon:
  assumes "CHR '':'' \<notin> set a" "CHR '':'' \<notin> set b"
  shows "a @ CHR '':'' # x = b @ CHR '':'' # y \<longleftrightarrow> a = b \<and> x = y"
  using assms
proof (induction a arbitrary: b)
  case Nil
  then show ?case by (cases b) auto
next
  case (Cons c a)
  then show ?case by (cases b) auto
qed

lemma no_colon_show_nat: "CHR '':'' \<notin> set (show_nat n)"
  using digits_show_nat [of "CHR '':''" n] by (auto simp: is_digit_def)

lemma no_colon_show_int: "CHR '':'' \<notin> set (show_int n)"
  using no_colon_show_nat by (auto simp: show_int_def)

definition plain_tx :: "index_log \<Rightarrow> bool" where
  "plain_tx e \<longleftrightarrow> CHR '':'' \<notin> set (ev_tx e)"

lemma dedup_key_inject:
  assumes "CHR '':'' \<notin> set tx" "CHR '':'' \<notin> set tx'"
  shows "dedup_key_of tx i = dedup_key_of tx' i' \<longleftrightarrow> tx = tx' \<and> i = i'"
  using assms by (simp add: dedup_key_of_def split_at_colon)

lemma logRowId_inject:
  assumes "CHR '':'' \<notin> set tx" "CHR '':'' \<notin> set tx'"
  shows "logRowId c tx i = logRowId c' tx' i' \<longleftrightarrow> c = c' \<and> tx = tx' \<and> i = i'"
  using assms by (simp add: logRowId_def split_at_colon no_colon_show_int)

lemma sent_of_id: "m \<in> set (sent_of W e) \<Longrightarrow> m_id m = dedup_key_of (ev_tx e) (ev_logIndex e)"
  by (auto simp: sent_of_def sent_row_of_def split: contract_event.splits sum.splits)

lemma sent_of_unique: "m \<in> set (sent_of W e) \<Longrightarrow> n \<in> set (sent_of W e) \<Longrightarrow> m = n"
  by (cases "ev_args e") (auto simp: sent_of_def split: sum.splits, metis sum.inject(2))

lemma indexed_tables:
  assumes run: "for_each (index_event W) es empty_index = (Inr (), db)"
    and plain: "list_all plain_tx es"
    and one_log: "\<And>e f. e \<in> set es \<Longrightarrow> f \<in> set es \<Longrightarrow> ev_tx e = ev_tx f
      \<Longrightarrow> ev_logIndex e = ev_logIndex f \<Longrightarrow> e = f"
  shows "set (cctp_message_sent db) = (\<Union>e \<in> set es. set (sent_of W e))
    \<and> distinct (map m_id (cctp_message_sent db))
    \<and> set (raw_event_log db) = raw_row_of ` {e \<in> set es. has_handler W e}
    \<and> distinct (map raw_id (raw_event_log db))"
proof -
  have p: "CHR '':'' \<notin> set (ev_tx e)" if "e \<in> set es" for e
    using plain that by (simp add: list_all_iff plain_tx_def)
  have "inj_on m_id (set (concat (map (sent_of W) es)))"
  proof (rule inj_onI)
    fix m n assume "m \<in> set (concat (map (sent_of W) es))" "n \<in> set (concat (map (sent_of W) es))"
      and eq: "m_id m = m_id n"
    then obtain e f where e: "e \<in> set es" "m \<in> set (sent_of W e)" and f: "f \<in> set es" "n \<in> set (sent_of W f)"
      by auto
    then have "e = f"
      using eq one_log [of e f] by (simp add: sent_of_id dedup_key_inject p)
    then show "m = n" using e f sent_of_unique by blast
  qed
  moreover have "inj_on raw_id (set (concat (map (raw_of W) es)))"
    using one_log p
    by (auto simp: inj_on_def raw_of_def raw_row_of_def row_id_def logRowId_inject split: if_splits)
  moreover have "set (concat (map (raw_of W) es)) = raw_row_of ` {e \<in> set es. has_handler W e}"
    by (auto simp: raw_of_def)
  ultimately show ?thesis
    using run_parts [OF run]
    by (auto simp: fold_insert_new empty_index_def distinct_fold_insert_new)
qed

text \<open>C17: Exact indexing: after a successful run from empty tables, in whatever order and with
  whatever repetitions the logs were delivered, the message view holds one row per
  \<open>MessageSent\<close> log whose header decodes, with the fields of that log, and the raw log one row
  per log that has a handler; no two rows of a table share an identifier. Transaction hashes hold
  no colon, and a transaction hash with a log index names one log.\<close>

theorem indexed_exactly:
  assumes run: "for_each (index_event W) es empty_index = (Inr (), db)"
    and plain: "list_all plain_tx es"
    and one_log: "\<And>e f. e \<in> set es \<Longrightarrow> f \<in> set es \<Longrightarrow> ev_tx e = ev_tx f
      \<Longrightarrow> ev_logIndex e = ev_logIndex f \<Longrightarrow> e = f"
  shows "set (cctp_message_sent db) = (\<Union>e \<in> set es. set (sent_of W e))
    \<and> distinct (map m_id (cctp_message_sent db))
    \<and> set (raw_event_log db) = raw_row_of ` {e \<in> set es. has_handler W e}
    \<and> distinct (map raw_id (raw_event_log db))"
  using assms by (rule indexed_tables)

text \<open>A \<open>MessageSent\<close> log whose header names a domain above \<open>2^31 - 1\<close> is never indexed: its
  handler throws in every state, so no run of the handlers that contains it ends, and everything
  behind it in the stream stays unindexed.\<close>

theorem wide_domain_stops_indexing:
  assumes "ev_args e = MessageSent m" and "decodeCctpHeader m = Inr h"
    and "int4_max < hd_sourceDomain h \<or> int4_max < hd_destinationDomain h"
    and "e \<in> set es"
  shows "\<exists>x. fst (for_each (index_event W) es db) = Inl x"
proof -
  have "\<not> event_settled W e db'" for db'
    using assms(1,2,3)
    by (auto simp: event_settled_def index_event_def on_MessageSent_def followed_by_def
        insert_row_def sent_row_of_def fits_int4_def split: prod.splits sum.splits)
  then have "fst (for_each (index_event W) es db) \<noteq> Inr ()"
    using run_settles [of W es db "()" "snd (for_each (index_event W) es db)" e] assms(4)
    by (cases "for_each (index_event W) es db") auto
  then show ?thesis by (cases "fst (for_each (index_event W) es db)") auto
qed

section \<open>Witnesses\<close>

definition demo_env :: watcher_env where
  "demo_env = \<lparr>poolIndexing = True, HUB_DOMAIN = 0, viem_keccak256 = (\<lambda>m. ''0xab'')\<rparr>"

definition demo_event :: "int \<Rightarrow> contract_event \<Rightarrow> index_log" where
  "demo_event i x = \<lparr>ev_chain = 1, ev_address = ''0xPool'', ev_block = 100, ev_timestamp = 1000,
     ev_tx = ''0xt'', ev_logIndex = i, ev_data = ''0x'', ev_topics = [''0xaa''], ev_args = x\<rparr>"

definition demo_events :: "index_log list" where
  "demo_events = [demo_event 1 (Nullified 0 [''0x01'', ''0x02'']), demo_event 2 (MessageSent demo_message)]"

lemma demo_decoded: "\<exists>h. decodeCctpHeader demo_message = Inr h
    \<and> fits_int4 (hd_sourceDomain h) \<and> fits_int4 (hd_destinationDomain h)"
proof -
  have "drop 2 demo_message = replicate 15 (CHR ''0'') @ ''6'' @ replicate 287 (CHR ''0'') @ ''1''
     @ replicate 64 (CHR ''0'') @ demo_recipient @ replicate 320 (CHR ''0'')"
    by (simp add: demo_message_def)
  then have "js_slice 8 16 (drop 2 demo_message) = ''00000006''"
    "js_slice 16 24 (drop 2 demo_message) = ''00000000''"
    by (simp_all add: js_slice_def eval_nat_numeral)
  then show ?thesis
    using demo_message_hex(2)
    by (simp add: decodeCctpHeader_def Let_def parse_hex_Cons hex_digit_def fits_int4_def int4_max_def)
qed

lemma demo_run: "\<exists>db. for_each (index_event demo_env) demo_events empty_index = (Inr (), db)"
proof -
  obtain h where h: "decodeCctpHeader demo_message = Inr h" "fits_int4 (hd_sourceDomain h)"
    "fits_int4 (hd_destinationDomain h)"
    using demo_decoded by blast
  have small: "number_of_bigint 0 = 0" "fits_int4 0" "fits_int4 1" "fits_int4 2"
    by (simp_all add: number_of_bigint_def fits_int4_def int4_max_def)
  show ?thesis
    by (simp add: demo_events_def demo_event_def demo_env_def index_event_def when_pool_def
        on_Nullified_def on_MessageSent_def followed_by_def recordRawLog_def insert_row_def
        raw_row_of_def nullifier_row_of_def sent_row_of_def h small)
qed

theorem reindexing_changes_nothing_witness:
  "\<exists>db. for_each (index_event demo_env) (rev demo_events) db = (Inr (), db)
    \<and> db \<noteq> empty_index"
proof -
  obtain db where db: "for_each (index_event demo_env) demo_events empty_index = (Inr (), db)"
    using demo_run by blast
  have "raw_event_log db \<noteq> []"
    using run_parts [OF db] by (auto simp: demo_events_def demo_event_def raw_of_def has_handler_def
        demo_env_def insert_new_def split: sum.splits)
  then show ?thesis
    using reindexing_changes_nothing [OF db, of "rev demo_events" "[]"]
    by (auto simp: empty_index_def)
qed

theorem indexed_exactly_witness:
  "\<exists>db h. for_each (index_event demo_env) demo_events empty_index = (Inr (), db)
    \<and> decodeCctpHeader demo_message = Inr h
    \<and> set (cctp_message_sent db) = {sent_row_of demo_env (demo_event 2 (MessageSent demo_message)) demo_message h}
    \<and> set (raw_event_log db) = raw_row_of ` set demo_events"
proof -
  obtain db where db: "for_each (index_event demo_env) demo_events empty_index = (Inr (), db)"
    using demo_run by blast
  obtain h where h: "decodeCctpHeader demo_message = Inr h"
    using demo_decoded by blast
  have all: "{e \<in> set demo_events. has_handler demo_env e} = set demo_events"
    using h by (auto simp: demo_events_def demo_event_def has_handler_def demo_env_def)
  have sent: "(\<Union>e \<in> set demo_events. set (sent_of demo_env e))
      = {sent_row_of demo_env (demo_event 2 (MessageSent demo_message)) demo_message h}"
    using h by (simp add: demo_events_def demo_event_def sent_of_def)
  have "list_all plain_tx demo_events"
    by (simp add: demo_events_def demo_event_def plain_tx_def)
  moreover have "e = f" if "e \<in> set demo_events" "f \<in> set demo_events"
      "ev_logIndex e = ev_logIndex f" for e f
    using that by (auto simp: demo_events_def demo_event_def)
  ultimately show ?thesis
    using indexed_exactly [OF db] db h all sent by auto
qed

theorem wide_domain_stops_indexing_witness:
  "\<exists>x. fst (for_each (index_event demo_env)
      [demo_event 1 (MessageSent (''0x'' @ replicate 16 (CHR ''0'') @ ''ffffffff'' @ replicate 64 (CHR ''0''))),
       demo_event 2 (MessageSent demo_message)] empty_index) = Inl x"
proof -
  obtain h where "decodeCctpHeader (''0x'' @ replicate 16 (CHR ''0'') @ ''ffffffff''
      @ replicate 64 (CHR ''0'')) = Inr h" "int4_max < hd_destinationDomain h"
    using header_domain_exceeds_int4 by blast
  then show ?thesis
    by (intro wide_domain_stops_indexing [of "demo_event 1 (MessageSent
        (''0x'' @ replicate 16 (CHR ''0'') @ ''ffffffff'' @ replicate 64 (CHR ''0'')))" _ h])
      (simp_all add: demo_event_def)
qed

end
