(* ===== verification/QuickSync.thy ===== *)
theory QuickSync
  imports Indexing JsValues
begin

text \<open>
  The quick-sync serializers of the read API: \<open>watcher/src/api/lib/quick-sync-decode.ts\<close> with the
  types of \<open>quick-sync.ts\<close> (the engine's shapes, served under \<open>/v1\<close>), \<open>quick-sync-native.ts\<close> (the
  SDK's shapes, served under \<open>/v2\<close>) and \<open>poseidon.ts\<close>.

  The ABI decoder of viem and the Poseidon function of the WASM module are parameters, the fields
  of \<open>pool_codec\<close>. Fixed-size arrays of the ABI (\<open>bytes32[3]\<close>) are tuples. Fields of the wire
  shapes that are always \<open>undefined\<close> (\<open>timestamp\<close>, \<open>railgunTxid\<close>, \<open>from\<close>, \<open>poisPerList\<close>) are left
  out: JSON drops them.
\<close>

section \<open>Stored rows and the external functions\<close>

record raw_log_row =
  rl_blockNumber :: int
  rl_txHash :: string
  rl_logIndex :: int
  rl_data :: string
  rl_topics :: "string list"

record pool_codec =
  decodeEventLog :: "raw_log_row \<Rightarrow> exn + contract_event"
  poseidon :: "int list \<Rightarrow> int"

text \<open>\<open>ready\<close> is the flag of the Poseidon module; loading the WASM file may fail.\<close>

definition initPoseidonWasm :: "(exn + unit) \<Rightarrow> bool \<Rightarrow> exn + bool" where
  "initPoseidonWasm load ready =
     (if ready then Inr True else case load of Inl e \<Rightarrow> Inl e | Inr _ \<Rightarrow> Inr True)"

definition poseidonHash :: "bool \<Rightarrow> pool_codec \<Rightarrow> int list \<Rightarrow> exn + int" where
  "poseidonHash ready K inputs =
     (if \<not> ready then Inl ''poseidon WASM not initialized - call initPoseidonWasm() at startup''
      else Inr (poseidon K inputs))"

section \<open>Formatters\<close>

definition pad_left :: "nat \<Rightarrow> string \<Rightarrow> string" where
  "pad_left n s = replicate (n - length s) (CHR ''0'') @ s"

definition formatUint256 :: "string \<Rightarrow> string" where
  "formatUint256 hex =
     (let body = to_lower (strip0x hex)
      in if 64 < length body then drop (length body - 64) body else pad_left 64 body)"

fun hex_of_nat :: "nat \<Rightarrow> string" where
  "hex_of_nat n = (if n < 16 then [hex_char n] else hex_of_nat (n div 16) @ [hex_char (n mod 16)])"

declare hex_of_nat.simps [simp del]

definition to_string16 :: "int \<Rightarrow> string" where
  "to_string16 n = (if n < 0 then ''-'' @ hex_of_nat (nat (- n)) else hex_of_nat (nat n))"

text \<open>\<open>BigInt(text)\<close> of a text with the prefix \<open>0x\<close>, added where it is missing.\<close>

definition bi :: "string \<Rightarrow> exn + int" where
  "bi hex =
     (let digits = drop 2 (js_trim (if prefix ''0x'' hex then hex else ''0x'' @ hex))
      in if digits \<noteq> [] \<and> list_all is_hex_char digits then Inr (int (parse_hex digits))
         else Inl (''Cannot convert '' @ hex @ '' to a BigInt''))"

definition nToHex256 :: "int \<Rightarrow> string" where
  "nToHex256 n = pad_left 64 (to_string16 n)"

definition serializeTokenAddress :: "string \<Rightarrow> string" where
  "serializeTokenAddress addr = ''0x'' @ pad_left 40 (to_lower (strip0x addr))"

definition serializeTokenSubID :: "int \<Rightarrow> string" where
  "serializeTokenSubID subID = ''0x'' @ pad_left 64 (to_string16 subID)"

definition formatValue128 :: "int \<Rightarrow> string" where
  "formatValue128 v = pad_left 32 (to_string16 v)"

text \<open>An array access whose result the code uses as a string or object: past the end it is
  \<open>undefined\<close> and the use throws.\<close>

definition element :: "'a list \<Rightarrow> nat \<Rightarrow> exn + 'a" where
  "element xs i = (if i < length xs then Inr (xs ! i) else Inl ''TypeError: undefined'')"

text \<open>A loop that pushes the items of every row, and the check of the token type.\<close>

definition collect :: "('r \<Rightarrow> exn + 'a list) \<Rightarrow> 'r list \<Rightarrow> exn + 'a list" where
  "collect f rows = and_then_do (map_checked f rows) (\<lambda>xss. Inr (concat xss))"

definition unsupported_token :: "int \<Rightarrow> exn" where
  "unsupported_token tt = ''quick-sync: unsupported shield tokenType '' @ show_int tt
     @ '' (only ERC20 tokenHash is implemented)''"

section \<open>The engine's shapes\<close>

record qs_nullifier =
  qn_nullifier :: string
  qn_treeNumber :: int
  qn_txid :: string
  qn_blockNumber :: int

record qs_transact =
  qt_hash :: string
  qt_txid :: string
  qt_blockNumber :: int
  qt_utxoTree :: int
  qt_utxoIndex :: int
  qt_iv :: string
  qt_tag :: string
  qt_data :: "string list"
  qt_blindedSenderViewingKey :: string
  qt_blindedReceiverViewingKey :: string
  qt_annotationData :: string
  qt_memo :: string

record qs_shield =
  qs_hash :: string
  qs_txid :: string
  qs_blockNumber :: int
  qs_utxoTree :: int
  qs_utxoIndex :: int
  qs_npk :: string
  qs_tokenType :: int
  qs_tokenAddress :: string
  qs_tokenSubID :: string
  qs_value :: string
  qs_encryptedBundle :: "string \<times> string \<times> string"
  qs_shieldKey :: string
  qs_fee :: "string option"

datatype qs_commitment = TransactCommitmentV2 qs_transact | ShieldCommitment qs_shield

record qs_commitment_event =
  qc_txid :: string
  qc_treeNumber :: int
  qc_startPosition :: int
  qc_commitments :: "qs_commitment list"
  qc_blockNumber :: int

record qs_unshield =
  qu_txid :: string
  qu_toAddress :: string
  qu_tokenType :: int
  qu_tokenAddress :: string
  qu_tokenSubID :: string
  qu_amount :: string
  qu_fee :: string
  qu_blockNumber :: int
  qu_eventLogIndex :: int

record qs_response =
  commitmentEvents :: "qs_commitment_event list"
  unshieldEvents :: "qs_unshield list"
  nullifierEvents :: "qs_nullifier list"

definition emptyQuickSync :: qs_response where
  "emptyQuickSync = \<lparr>commitmentEvents = [], unshieldEvents = [], nullifierEvents = []\<rparr>"

definition nullifier_row_items :: "pool_codec \<Rightarrow> raw_log_row \<Rightarrow> exn + qs_nullifier list" where
  "nullifier_row_items K row = and_then_do (decodeEventLog K row) (\<lambda>ev.
     case ev of
       Nullified tree hs \<Rightarrow> Inr (map (\<lambda>n. \<lparr>qn_nullifier = formatUint256 n,
         qn_treeNumber = number_of_bigint tree, qn_txid = formatUint256 (rl_txHash row),
         qn_blockNumber = number_of_bigint (rl_blockNumber row)\<rparr>) hs)
     | _ \<Rightarrow> Inr [])"

definition decodeNullifiers :: "pool_codec \<Rightarrow> raw_log_row list \<Rightarrow> exn + qs_nullifier list" where
  "decodeNullifiers K = collect (nullifier_row_items K)"

definition transact_commitment ::
    "raw_log_row \<Rightarrow> int \<Rightarrow> int \<Rightarrow> string list \<Rightarrow> nat \<times> commitment_ciphertext \<Rightarrow> exn + qs_commitment" where
  "transact_commitment row utxoTree startPosition hashes = (\<lambda>(i, cc).
     let ct = map formatUint256 (ct_ciphertext cc)
     in and_then_do (element hashes i) (\<lambda>h.
        and_then_do (element ct 0) (\<lambda>ivTag. Inr (TransactCommitmentV2
          \<lparr>qt_hash = formatUint256 h, qt_txid = formatUint256 (rl_txHash row),
           qt_blockNumber = number_of_bigint (rl_blockNumber row), qt_utxoTree = utxoTree,
           qt_utxoIndex = number_of_bigint (startPosition + int i),
           qt_iv = js_slice 0 32 ivTag, qt_tag = drop 32 ivTag, qt_data = drop 1 ct,
           qt_blindedSenderViewingKey = formatUint256 (blindedSenderViewingKey cc),
           qt_blindedReceiverViewingKey = formatUint256 (blindedReceiverViewingKey cc),
           qt_annotationData = annotationData cc, qt_memo = memo cc\<rparr>))))"

definition transactEventOf ::
    "raw_log_row \<Rightarrow> int \<Rightarrow> int \<Rightarrow> string list \<Rightarrow> commitment_ciphertext list \<Rightarrow> exn + qs_commitment_event" where
  "transactEventOf row tree start hashes ciphertexts =
     (let utxoTree = number_of_bigint tree; startPosition = number_of_bigint start
      in and_then_do (map_checked (transact_commitment row utxoTree startPosition hashes)
           (enumerate 0 ciphertexts)) (\<lambda>commitments.
         Inr \<lparr>qc_txid = formatUint256 (rl_txHash row), qc_treeNumber = utxoTree,
              qc_startPosition = startPosition, qc_commitments = commitments,
              qc_blockNumber = number_of_bigint (rl_blockNumber row)\<rparr>))"

definition shield_commitment ::
    "bool \<Rightarrow> pool_codec \<Rightarrow> raw_log_row \<Rightarrow> int \<Rightarrow> int \<Rightarrow> shield_ciphertext list \<Rightarrow> int list
      \<Rightarrow> nat \<times> commitment_preimage \<Rightarrow> exn + qs_commitment" where
  "shield_commitment ready K row utxoTree startPosition ciphertexts feeList = (\<lambda>(i, pre).
     let tt = number_of_bigint (tokenType (token pre))
     in check_then (tt = 0) (unsupported_token tt)
       (and_then_do (bi (tokenAddress (token pre))) (\<lambda>tokenHash.
        and_then_do (bi (npk pre)) (\<lambda>key.
        and_then_do (poseidonHash ready K [key, tokenHash, preimage_value pre]) (\<lambda>noteHash.
        and_then_do (element ciphertexts i) (\<lambda>sc. Inr (ShieldCommitment
          \<lparr>qs_hash = nToHex256 noteHash, qs_txid = formatUint256 (rl_txHash row),
           qs_blockNumber = number_of_bigint (rl_blockNumber row), qs_utxoTree = utxoTree,
           qs_utxoIndex = number_of_bigint (startPosition + int i),
           qs_npk = formatUint256 (npk pre), qs_tokenType = tt,
           qs_tokenAddress = serializeTokenAddress (tokenAddress (token pre)),
           qs_tokenSubID = serializeTokenSubID (tokenSubID (token pre)),
           qs_value = formatValue128 (preimage_value pre),
           qs_encryptedBundle = encryptedBundle sc, qs_shieldKey = shieldKey sc,
           qs_fee = (if i < length feeList \<and> feeList ! i \<noteq> 0
             then Some (show_int (feeList ! i)) else None)\<rparr>)))))))"

definition shieldEventOf ::
    "bool \<Rightarrow> pool_codec \<Rightarrow> raw_log_row \<Rightarrow> int \<Rightarrow> int \<Rightarrow> commitment_preimage list
      \<Rightarrow> shield_ciphertext list \<Rightarrow> int list \<Rightarrow> exn + qs_commitment_event" where
  "shieldEventOf ready K row tree start commitments ciphertexts feeList =
     (let utxoTree = number_of_bigint tree; startPosition = number_of_bigint start
      in and_then_do (map_checked
           (shield_commitment ready K row utxoTree startPosition ciphertexts feeList)
           (enumerate 0 commitments)) (\<lambda>items.
         Inr \<lparr>qc_txid = formatUint256 (rl_txHash row), qc_treeNumber = utxoTree,
              qc_startPosition = startPosition, qc_commitments = items,
              qc_blockNumber = number_of_bigint (rl_blockNumber row)\<rparr>))"

definition commitment_row ::
    "bool \<Rightarrow> pool_codec \<Rightarrow> raw_log_row \<Rightarrow> exn + qs_commitment_event list" where
  "commitment_row ready K row = and_then_do (decodeEventLog K row) (\<lambda>ev.
     case ev of
       Shield tree start cs scs fs \<Rightarrow>
         and_then_do (shieldEventOf ready K row tree start cs scs fs) (\<lambda>e. Inr [e])
     | Transact tree start hs ccs \<Rightarrow>
         and_then_do (transactEventOf row tree start hs ccs) (\<lambda>e. Inr [e])
     | _ \<Rightarrow> Inr [])"

definition decodeCommitmentEvents ::
    "bool \<Rightarrow> pool_codec \<Rightarrow> raw_log_row list \<Rightarrow> exn + qs_commitment_event list" where
  "decodeCommitmentEvents ready K = collect (commitment_row ready K)"

definition unshield_row_items :: "pool_codec \<Rightarrow> raw_log_row \<Rightarrow> exn + qs_unshield list" where
  "unshield_row_items K row = and_then_do (decodeEventLog K row) (\<lambda>ev.
     case ev of
       Unshield to tok a f \<Rightarrow> Inr [\<lparr>qu_txid = formatUint256 (rl_txHash row), qu_toAddress = to,
         qu_tokenType = number_of_bigint (tokenType tok), qu_tokenAddress = tokenAddress tok,
         qu_tokenSubID = show_int (tokenSubID tok), qu_amount = show_int a, qu_fee = show_int f,
         qu_blockNumber = number_of_bigint (rl_blockNumber row), qu_eventLogIndex = rl_logIndex row\<rparr>]
     | _ \<Rightarrow> Inr [])"

definition decodeUnshields :: "pool_codec \<Rightarrow> raw_log_row list \<Rightarrow> exn + qs_unshield list" where
  "decodeUnshields K = collect (unshield_row_items K)"

definition decodeTransactCommitments ::
    "pool_codec \<Rightarrow> raw_log_row list \<Rightarrow> exn + qs_commitment_event list" where
  "decodeTransactCommitments K = collect (\<lambda>row. and_then_do (decodeEventLog K row) (\<lambda>ev.
     case ev of
       Transact tree start hs ccs \<Rightarrow>
         and_then_do (transactEventOf row tree start hs ccs) (\<lambda>e. Inr [e])
     | _ \<Rightarrow> Inr []))"

definition decodeShieldCommitments ::
    "bool \<Rightarrow> pool_codec \<Rightarrow> raw_log_row list \<Rightarrow> exn + qs_commitment_event list" where
  "decodeShieldCommitments ready K = collect (\<lambda>row. and_then_do (decodeEventLog K row) (\<lambda>ev.
     case ev of
       Shield tree start cs scs fs \<Rightarrow>
         and_then_do (shieldEventOf ready K row tree start cs scs fs) (\<lambda>e. Inr [e])
     | _ \<Rightarrow> Inr []))"

section \<open>The SDK's shapes\<close>

definition NATIVE_QUICK_SYNC_SCHEMA_VERSION :: int where
  "NATIVE_QUICK_SYNC_SCHEMA_VERSION = 1"

record native_token =
  nt_tokenType :: int
  nt_tokenAddress :: string
  nt_tokenSubID :: string

record native_shield =
  ns_tree :: int
  ns_position :: int
  ns_blockNumber :: int
  ns_txid :: string
  ns_hash :: string
  ns_npk :: string
  ns_tokenData :: native_token
  ns_value :: string
  ns_encryptedBundle :: "string \<times> string \<times> string"
  ns_shieldKey :: string
  ns_fee :: "string option"

record native_transact =
  nx_tree :: int
  nx_position :: int
  nx_blockNumber :: int
  nx_txid :: string
  nx_hash :: string
  nx_ciphertext :: "string list"
  nx_blindedSenderViewingKey :: string
  nx_blindedReceiverViewingKey :: string
  nx_memo :: string
  nx_annotationData :: string

record native_nullifier =
  nn_tree :: int
  nn_nullifier :: string
  nn_blockNumber :: int
  nn_txid :: string

record native_unshield =
  nu_to :: string
  nu_tokenData :: native_token
  nu_amount :: string
  nu_fee :: string
  nu_block :: int
  nu_txid :: string

record native_response =
  schemaVersion :: int
  syncedThroughBlock :: int
  shields :: "native_shield list"
  transacts :: "native_transact list"
  nullifiers :: "native_nullifier list"
  unshields :: "native_unshield list"

definition bare_hex :: "string \<Rightarrow> string" where
  "bare_hex hex = to_lower (strip0x hex)"

definition bare_bundle :: "string \<times> string \<times> string \<Rightarrow> string \<times> string \<times> string" where
  "bare_bundle = (\<lambda>(a, b, c). (bare_hex a, bare_hex b, bare_hex c))"

definition native_shield_item ::
    "bool \<Rightarrow> pool_codec \<Rightarrow> raw_log_row \<Rightarrow> int \<Rightarrow> int \<Rightarrow> shield_ciphertext list \<Rightarrow> int list
      \<Rightarrow> nat \<times> commitment_preimage \<Rightarrow> exn + native_shield" where
  "native_shield_item ready K row tree start scs fs = (\<lambda>(i, pre).
     let tt = number_of_bigint (tokenType (token pre));
         addr = to_lower (tokenAddress (token pre))
     in check_then (tt = 0) (unsupported_token tt)
       (and_then_do (bi (npk pre)) (\<lambda>key.
        and_then_do (bi addr) (\<lambda>tokenHash.
        and_then_do (poseidonHash ready K [key, tokenHash, preimage_value pre]) (\<lambda>noteHash.
        and_then_do (element scs i) (\<lambda>sc. Inr
          \<lparr>ns_tree = tree, ns_position = number_of_bigint (start + int i),
           ns_blockNumber = number_of_bigint (rl_blockNumber row),
           ns_txid = to_lower (rl_txHash row), ns_hash = nToHex256 noteHash,
           ns_npk = bare_hex (npk pre),
           ns_tokenData = \<lparr>nt_tokenType = tt, nt_tokenAddress = addr,
             nt_tokenSubID = show_int (tokenSubID (token pre))\<rparr>,
           ns_value = show_int (preimage_value pre),
           ns_encryptedBundle = bare_bundle (encryptedBundle sc),
           ns_shieldKey = bare_hex (shieldKey sc),
           ns_fee = (if i < length fs then Some (show_int (fs ! i)) else None)\<rparr>))))))"

definition native_shield_row :: "bool \<Rightarrow> pool_codec \<Rightarrow> raw_log_row \<Rightarrow> exn + native_shield list" where
  "native_shield_row ready K row = and_then_do (decodeEventLog K row) (\<lambda>ev.
     case ev of
       Shield tree start cs scs fs \<Rightarrow>
         map_checked (native_shield_item ready K row (number_of_bigint tree)
           (number_of_bigint start) scs fs) (enumerate 0 cs)
     | _ \<Rightarrow> Inr [])"

definition nativeShields :: "bool \<Rightarrow> pool_codec \<Rightarrow> raw_log_row list \<Rightarrow> exn + native_shield list" where
  "nativeShields ready K = collect (native_shield_row ready K)"

definition native_transact_item ::
    "raw_log_row \<Rightarrow> int \<Rightarrow> int \<Rightarrow> string list \<Rightarrow> nat \<times> commitment_ciphertext \<Rightarrow> exn + native_transact" where
  "native_transact_item row tree start hs = (\<lambda>(i, cc).
     and_then_do (element hs i) (\<lambda>h. Inr
       \<lparr>nx_tree = tree, nx_position = number_of_bigint (start + int i),
        nx_blockNumber = number_of_bigint (rl_blockNumber row),
        nx_txid = to_lower (rl_txHash row), nx_hash = bare_hex h,
        nx_ciphertext = map bare_hex (ct_ciphertext cc),
        nx_blindedSenderViewingKey = bare_hex (blindedSenderViewingKey cc),
        nx_blindedReceiverViewingKey = bare_hex (blindedReceiverViewingKey cc),
        nx_memo = memo cc, nx_annotationData = annotationData cc\<rparr>))"

definition native_transact_row :: "pool_codec \<Rightarrow> raw_log_row \<Rightarrow> exn + native_transact list" where
  "native_transact_row K row = and_then_do (decodeEventLog K row) (\<lambda>ev.
     case ev of
       Transact tree start hs ccs \<Rightarrow>
         map_checked (native_transact_item row (number_of_bigint tree) (number_of_bigint start) hs)
           (enumerate 0 ccs)
     | _ \<Rightarrow> Inr [])"

definition nativeTransacts :: "pool_codec \<Rightarrow> raw_log_row list \<Rightarrow> exn + native_transact list" where
  "nativeTransacts K = collect (native_transact_row K)"

definition native_nullifier_row :: "pool_codec \<Rightarrow> raw_log_row \<Rightarrow> exn + native_nullifier list" where
  "native_nullifier_row K row = and_then_do (decodeEventLog K row) (\<lambda>ev.
     case ev of
       Nullified tree hs \<Rightarrow> map_checked (\<lambda>n. and_then_do (bi n) (\<lambda>v. Inr
         \<lparr>nn_tree = number_of_bigint tree, nn_nullifier = show_int v,
          nn_blockNumber = number_of_bigint (rl_blockNumber row),
          nn_txid = to_lower (rl_txHash row)\<rparr>)) hs
     | _ \<Rightarrow> Inr [])"

definition nativeNullifiers :: "pool_codec \<Rightarrow> raw_log_row list \<Rightarrow> exn + native_nullifier list" where
  "nativeNullifiers K = collect (native_nullifier_row K)"

definition native_unshield_row :: "pool_codec \<Rightarrow> raw_log_row \<Rightarrow> exn + native_unshield list" where
  "native_unshield_row K row = and_then_do (decodeEventLog K row) (\<lambda>ev.
     case ev of
       Unshield to tok a f \<Rightarrow> Inr [\<lparr>nu_to = to,
         nu_tokenData = \<lparr>nt_tokenType = number_of_bigint (tokenType tok),
           nt_tokenAddress = to_lower (tokenAddress tok), nt_tokenSubID = show_int (tokenSubID tok)\<rparr>,
         nu_amount = show_int a, nu_fee = show_int f,
         nu_block = number_of_bigint (rl_blockNumber row), nu_txid = to_lower (rl_txHash row)\<rparr>]
     | _ \<Rightarrow> Inr [])"

definition nativeUnshields :: "pool_codec \<Rightarrow> raw_log_row list \<Rightarrow> exn + native_unshield list" where
  "nativeUnshields K = collect (native_unshield_row K)"

definition serializeNativeQuickSync ::
    "bool \<Rightarrow> pool_codec \<Rightarrow> raw_log_row list \<Rightarrow> int \<Rightarrow> exn + native_response" where
  "serializeNativeQuickSync ready K rows synced =
     and_then_do (nativeShields ready K rows) (\<lambda>ss.
     and_then_do (nativeTransacts K rows) (\<lambda>ts.
     and_then_do (nativeNullifiers K rows) (\<lambda>ns.
     and_then_do (nativeUnshields K rows) (\<lambda>us. Inr
       \<lparr>schemaVersion = NATIVE_QUICK_SYNC_SCHEMA_VERSION, syncedThroughBlock = synced,
        shields = ss, transacts = ts, nullifiers = ns, unshields = us\<rparr>))))"

text \<open>The three streams of the \<open>/v1\<close> answer.\<close>

definition engineQuickSync :: "bool \<Rightarrow> pool_codec \<Rightarrow> raw_log_row list \<Rightarrow> exn + qs_response" where
  "engineQuickSync ready K rows =
     and_then_do (decodeCommitmentEvents ready K rows) (\<lambda>cs.
     and_then_do (decodeNullifiers K rows) (\<lambda>ns.
     and_then_do (decodeUnshields K rows) (\<lambda>us. Inr
       \<lparr>commitmentEvents = cs, unshieldEvents = us, nullifierEvents = ns\<rparr>)))"

section \<open>Lemmas on the formatters\<close>

lemma length_pad_left [simp]: "length (pad_left n s) = max n (length s)"
  by (simp add: pad_left_def)

lemma parse_hex_pad_left [simp]: "parse_hex (pad_left n s) = parse_hex s"
  by (simp add: pad_left_def parse_hex_append)

lemma hex_pad_left: "list_all is_hex_char (pad_left n s) = list_all is_hex_char s"
  by (auto simp: pad_left_def list_all_iff is_hex_char_def)

lemma lower_pad_left: "to_lower (pad_left n s) = pad_left n (to_lower s)"
  by (simp add: pad_left_def) (simp add: to_lower_def lower_char_def)

lemma parse_hex_of_nat [simp]: "parse_hex (hex_of_nat n) = n"
proof (induction n rule: hex_of_nat.induct)
  case (1 n)
  show ?case
  proof (cases "n < 16")
    case True
    then show ?thesis by (simp add: hex_of_nat.simps [of n] parse_hex_Cons)
  next
    case False
    then show ?thesis
      using 1 by (simp add: hex_of_nat.simps [of n] parse_hex_append parse_hex_Cons)
  qed
qed

lemma length_hex_of_nat: "n < 16 ^ k \<Longrightarrow> 0 < k \<Longrightarrow> length (hex_of_nat n) \<le> k"
proof (induction n arbitrary: k rule: hex_of_nat.induct)
  case (1 n)
  show ?case
  proof (cases "n < 16")
    case True
    then show ?thesis using 1 by (simp add: hex_of_nat.simps [of n])
  next
    case False
    then obtain j where k: "k = Suc j" "0 < j"
      using 1 by (cases k; cases "k - 1") (auto simp: not_less)
    then have "n div 16 < 16 ^ j" using "1.prems" by (simp add: less_mult_imp_div_less)
    then show ?thesis using 1 False k by (simp add: hex_of_nat.simps [of n])
  qed
qed

lemma hex_hex_char: "n < 16 \<Longrightarrow> is_hex_char (hex_char n)"
  by (auto simp: hex_char_def is_hex_char_def)

lemma lower_hex_char: "n < 16 \<Longrightarrow> lower_char (hex_char n) = hex_char n"
  by (auto simp: hex_char_def lower_char_def)

lemma hex_digits_of_nat: "list_all is_hex_char (hex_of_nat n) \<and> to_lower (hex_of_nat n) = hex_of_nat n"
proof (induction n rule: hex_of_nat.induct)
  case (1 n)
  then show ?case
    by (simp add: hex_of_nat.simps [of n] hex_hex_char) (simp add: to_lower_def lower_hex_char)
qed

definition is_bytes32 :: "string \<Rightarrow> bool" where
  "is_bytes32 s \<longleftrightarrow> prefix ''0x'' s \<and> length s = 66 \<and> list_all is_hex_char (drop 2 s)"

lemma nToHex256_parts:
  assumes "0 \<le> n" and "n < 2 ^ 256"
  shows "length (nToHex256 n) = 64" and "int (parse_hex (nToHex256 n)) = n"
    and "list_all is_hex_char (nToHex256 n)" and "to_lower (nToHex256 n) = nToHex256 n"
proof -
  have "nat n < 2 ^ 256" using assms by (simp add: nat_less_iff)
  then have "length (hex_of_nat (nat n)) \<le> 64" by (intro length_hex_of_nat) simp_all
  then show "length (nToHex256 n) = 64" "int (parse_hex (nToHex256 n)) = n"
      "list_all is_hex_char (nToHex256 n)" "to_lower (nToHex256 n) = nToHex256 n"
    using assms(1) hex_digits_of_nat [of "nat n"]
    by (simp_all add: nToHex256_def to_string16_def hex_pad_left lower_pad_left)
qed

lemma uint256_parts:
  assumes "is_bytes32 s"
  shows "length (formatUint256 s) = 64" and "list_all is_hex_char (formatUint256 s)"
    and "parse_hex (formatUint256 s) = parse_hex (strip0x s)"
    and "formatUint256 (formatUint256 s) = formatUint256 s"
proof -
  have strip: "strip0x s = drop 2 s" "length (strip0x s) = 64" "list_all is_hex_char (strip0x s)"
    using assms by (simp_all add: is_bytes32_def strip0x_def)
  then have f: "formatUint256 s = to_lower (strip0x s)"
    by (simp add: formatUint256_def pad_left_def)
  have hx: "list_all is_hex_char (to_lower (strip0x s))"
    using strip(3) by (simp add: to_lower_def list_all_iff)
  then have "\<not> prefix ''0x'' (to_lower (strip0x s))"
    using strip(2) by (auto simp: prefix_def is_hex_char_def)
  then have "formatUint256 (to_lower (strip0x s)) = to_lower (strip0x s)"
    using strip(2) by (simp add: formatUint256_def strip0x_def [of "to_lower _"] pad_left_def)
  then show "length (formatUint256 s) = 64" and "list_all is_hex_char (formatUint256 s)"
    and "parse_hex (formatUint256 s) = parse_hex (strip0x s)"
    and "formatUint256 (formatUint256 s) = formatUint256 s"
    using f strip hx by simp_all
qed

text \<open>Hashes are written as 64 hex digits: the text of a field element or \<open>uint256\<close> has exactly 64
  lower-case hex digits and denotes the number; and reformatting a \<open>bytes32\<close> text keeps the value
  it denotes and gives the same 64 digits.\<close>

theorem uint256_text:
  assumes "0 \<le> n" and "n < 2 ^ 256" and "is_bytes32 s"
  shows "length (nToHex256 n) = 64 \<and> list_all is_hex_char (nToHex256 n)
    \<and> to_lower (nToHex256 n) = nToHex256 n \<and> int (parse_hex (nToHex256 n)) = n
    \<and> length (formatUint256 s) = 64 \<and> list_all is_hex_char (formatUint256 s)
    \<and> parse_hex (formatUint256 s) = parse_hex (strip0x s)
    \<and> formatUint256 (formatUint256 s) = formatUint256 s"
  using nToHex256_parts [OF assms(1,2)] uint256_parts [OF assms(3)] by simp

section \<open>Pages\<close>

lemma map_checked_append:
  "map_checked f (xs @ ys) = and_then_do (map_checked f xs) (\<lambda>a.
     and_then_do (map_checked f ys) (\<lambda>b. Inr (a @ b)))"
proof (induction xs)
  case Nil
  then show ?case by (cases "map_checked f ys") simp_all
next
  case (Cons x xs)
  then show ?case
    by (cases "f x"; cases "map_checked f xs"; cases "map_checked f ys") simp_all
qed

lemma collect_append:
  "collect f (xs @ ys) = and_then_do (collect f xs) (\<lambda>a. and_then_do (collect f ys) (\<lambda>b. Inr (a @ b)))"
  by (cases "map_checked f xs"; cases "map_checked f ys") (simp_all add: collect_def map_checked_append)

lemma map_checked_all:
  "(\<exists>ys. map_checked f xs = Inr ys) \<longleftrightarrow> (\<forall>x \<in> set xs. \<exists>y. f x = Inr y)"
  by (induction xs) (auto simp: fallible)

lemma collect_total: "(\<exists>ys. collect f rows = Inr ys) \<longleftrightarrow> (\<forall>row \<in> set rows. \<exists>y. f row = Inr y)"
  using map_checked_all [of f rows] by (auto simp: collect_def fallible)

lemma collect_Cons:
  "collect f (row # rows) = Inr ys \<longleftrightarrow> (\<exists>a b. f row = Inr a \<and> collect f rows = Inr b \<and> ys = a @ b)"
  by (cases "f row"; cases "map_checked f rows") (auto simp: collect_def)

text \<open>Two collecting loops over the same rows whose items correspond row by row.\<close>

lemma collect_corresponds:
  assumes "collect f rows = Inr as" and "collect g rows = Inr bs"
    and "\<And>row a b. f row = Inr a \<Longrightarrow> g row = Inr b \<Longrightarrow> map h a = map k b"
  shows "map h as = map k bs"
  using assms(1,2)
proof (induction rows arbitrary: as bs)
  case Nil
  then show ?case by (simp add: collect_def)
next
  case (Cons row rows)
  then obtain a b as' bs' where "f row = Inr a" "g row = Inr b" "collect f rows = Inr as'"
    "collect g rows = Inr bs'" "as = a @ as'" "bs = b @ bs'"
    by (auto simp: collect_Cons)
  with Cons.IH [of as' bs'] assms(3) [of row a b] show ?case by simp
qed

text \<open>Two loops over the same items whose results correspond item by item.\<close>

lemma map_checked_corresponds:
  assumes "map_checked f xs = Inr as" and "map_checked g xs = Inr bs"
    and "\<And>x a b. x \<in> set xs \<Longrightarrow> f x = Inr a \<Longrightarrow> g x = Inr b \<Longrightarrow> h a = k b"
  shows "map h as = map k bs"
  using assms
proof (induction xs arbitrary: as bs)
  case (Cons x xs)
  then obtain a b as' bs' where *: "f x = Inr a" "g x = Inr b" "map_checked f xs = Inr as'"
    "map_checked g xs = Inr bs'" "as = a # as'" "bs = b # bs'"
    by (auto simp: and_then_do_ok)
  have "map h as' = map k bs'"
    by (rule Cons.IH [OF *(3,4)], rule Cons.prems(3), rule list.set_intros(2))
  moreover have "h a = k b"
    using *(1,2) by (intro Cons.prems(3) [of x]) simp_all
  ultimately show ?case using *(5,6) by simp
qed simp

section \<open>What the decoder delivers\<close>

text \<open>An event as the ABI types it and the pool emits it: hashes and keys are \<open>bytes32\<close>, token
  addresses are addresses, the token type is a \<open>uint8\<close>, the arrays of an event are aligned, and a
  ciphertext has its four words.\<close>

definition preimage_ok :: "commitment_preimage \<Rightarrow> bool" where
  "preimage_ok p \<longleftrightarrow> is_bytes32 (npk p) \<and> is_address (tokenAddress (token p))
     \<and> 0 \<le> tokenType (token p) \<and> tokenType (token p) < 256"

fun pool_event_ok :: "contract_event \<Rightarrow> bool" where
  "pool_event_ok (Shield tree start cs scs fs) \<longleftrightarrow> list_all preimage_ok cs \<and> length scs = length cs"
| "pool_event_ok (Transact tree start hs ccs) \<longleftrightarrow> length hs = length ccs \<and> list_all is_bytes32 hs
     \<and> list_all (\<lambda>cc. length (ct_ciphertext cc) = 4) ccs"
| "pool_event_ok (Nullified tree hs) \<longleftrightarrow> list_all is_bytes32 hs"
| "pool_event_ok _ \<longleftrightarrow> True"

fun erc20_only :: "contract_event \<Rightarrow> bool" where
  "erc20_only (Shield tree start cs scs fs) \<longleftrightarrow> list_all (\<lambda>p. tokenType (token p) = 0) cs"
| "erc20_only _ \<longleftrightarrow> True"

definition decodes_pool :: "pool_codec \<Rightarrow> bool" where
  "decodes_pool K \<longleftrightarrow> (\<forall>row ev. decodeEventLog K row = Inr ev \<longrightarrow> pool_event_ok ev)"

lemma number_small: "\<bar>n\<bar> < 2 ^ 53 \<Longrightarrow> number_of_bigint n = n"
  by (simp add: number_of_bigint_def)

lemma hex_not_space: "is_hex_char c \<Longrightarrow> \<not> is_js_space c"
  by (auto simp: is_hex_char_def is_js_space_def Let_def)

lemma dropWhile_hex: "list_all is_hex_char s \<Longrightarrow> dropWhile is_js_space s = s"
  by (cases s) (simp_all add: hex_not_space)

lemma trim_hex:
  assumes "list_all is_hex_char s" "s \<noteq> []"
  shows "js_trim (CHR ''0'' # CHR ''x'' # s) = CHR ''0'' # CHR ''x'' # s"
proof -
  have "list_all is_hex_char (rev s)" "rev s \<noteq> []" using assms by simp_all
  then obtain c cs where c: "rev s = c # cs" "is_hex_char c" by (cases "rev s") simp_all
  have "\<not> is_js_space (CHR ''0'')" by (simp add: is_js_space_def)
  then show ?thesis
    using c arg_cong [OF c(1), of rev] by (simp add: js_trim_def hex_not_space)
qed

lemma bi_hex:
  assumes "prefix ''0x'' s" "2 < length s" "list_all is_hex_char (drop 2 s)"
  shows "bi s = Inr (int (parse_hex (drop 2 s)))"
proof -
  obtain r where s: "s = CHR ''0'' # CHR ''x'' # r" using assms(1) by (auto simp: prefix_def)
  then show ?thesis using assms trim_hex [of r] by (auto simp: bi_def)
qed

lemma bi_bytes32: "is_bytes32 s \<Longrightarrow> bi s = Inr (int (parse_hex (drop 2 s)))"
  by (rule bi_hex) (simp_all add: is_bytes32_def)

lemma bi_address: "is_address s \<Longrightarrow> bi s = Inr (int (parse_hex (drop 2 s)))"
  by (rule bi_hex) (simp_all add: is_address_def)

lemma lower_address: "is_address s \<Longrightarrow> is_address (to_lower s) \<and> drop 2 (to_lower s) = to_lower (drop 2 s)"
proof -
  have "lower_char (CHR ''0'') = CHR ''0''" "lower_char (CHR ''x'') = CHR ''x''"
    by (simp_all add: lower_char_def)
  then show "is_address s \<Longrightarrow> ?thesis"
    by (auto simp: is_address_def prefix_def to_lower_def list_all_iff drop_map)
qed

lemma bi_lower_address:
  "is_address s \<Longrightarrow> bi (to_lower s) = Inr (int (parse_hex (drop 2 s)))"
  using lower_address [of s] by (simp add: bi_address)

section \<open>When a page is served\<close>

lemma element_some: "(\<exists>y. element xs i = Inr y) \<longleftrightarrow> i < length xs"
  by (simp add: element_def)

lemma fst_enumerate: "x \<in> set (enumerate 0 xs) \<Longrightarrow> fst x < length xs \<and> snd x = xs ! fst x"
  by (auto simp: in_set_enumerate_eq)

lemma tokenType_number: "preimage_ok p \<Longrightarrow> number_of_bigint (tokenType (token p)) = tokenType (token p)"
  by (intro number_small) (simp add: preimage_ok_def)

lemma enumerate_all: "(\<forall>x \<in> set (enumerate n xs). P (snd x)) \<longleftrightarrow> list_all P xs"
  by (induction xs arbitrary: n) simp_all

text \<open>The item a preimage is turned into exists exactly for an ERC20 token.\<close>

lemma shield_event_served:
  assumes "pool_event_ok (Shield tree start cs scs fs)"
  shows "(\<exists>e. shieldEventOf True K row tree start cs scs fs = Inr e)
      \<longleftrightarrow> erc20_only (Shield tree start cs scs fs)"
proof -
  have "(\<exists>e. shieldEventOf True K row tree start cs scs fs = Inr e)
      \<longleftrightarrow> (\<forall>x \<in> set (enumerate 0 cs). tokenType (token (snd x)) = 0)"
  proof -
    have "x \<in> set (enumerate 0 cs) \<Longrightarrow> preimage_ok (snd x) \<and> fst x < length scs" for x
      using assms fst_enumerate [of x cs] by (auto simp: list_all_length)
    then show ?thesis
      by (simp add: shieldEventOf_def shield_commitment_def Let_def and_then_do_ok map_checked_all
          split_beta)
        (auto simp: fallible element_def tokenType_number poseidonHash_def
          preimage_ok_def bi_address bi_bytes32)
  qed
  then show ?thesis by (simp add: enumerate_all [of 0 cs "\<lambda>p. tokenType (token p) = 0"])
qed

lemma native_shields_served:
  assumes "pool_event_ok (Shield tree start cs scs fs)"
    and "decodeEventLog K row = Inr (Shield tree start cs scs fs)"
  shows "(\<exists>ys. nativeShields True K [row] = Inr ys) \<longleftrightarrow> erc20_only (Shield tree start cs scs fs)"
proof -
  have "x \<in> set (enumerate 0 cs) \<Longrightarrow> preimage_ok (snd x) \<and> fst x < length scs" for x
    using assms(1) fst_enumerate [of x cs] by (auto simp: list_all_length)
  then have "(\<exists>ys. nativeShields True K [row] = Inr ys)
      \<longleftrightarrow> (\<forall>x \<in> set (enumerate 0 cs). tokenType (token (snd x)) = 0)"
    unfolding nativeShields_def native_shield_row_def collect_total
    by (simp add: assms(2) native_shield_item_def Let_def map_checked_all split_beta)
      (auto simp: fallible element_def tokenType_number poseidonHash_def
          preimage_ok_def bi_lower_address bi_bytes32)
  then show ?thesis by (simp add: enumerate_all [of 0 cs "\<lambda>p. tokenType (token p) = 0"])
qed

lemma transact_served:
  assumes "pool_event_ok (Transact tree start hs ccs)"
  shows "\<exists>e. transactEventOf row tree start hs ccs = Inr e"
proof -
  have "fst x < length hs \<and> length (ct_ciphertext (snd x)) = 4" if "x \<in> set (enumerate 0 ccs)" for x
    using assms fst_enumerate [OF that] by (auto simp: list_all_length)
  then show ?thesis
    by (simp add: transactEventOf_def transact_commitment_def Let_def and_then_do_ok
        map_checked_all split_beta)
      (auto simp: fallible element_def)
qed

lemma native_transact_served:
  assumes "pool_event_ok (Transact tree start hs ccs)"
    and "decodeEventLog K row = Inr (Transact tree start hs ccs)"
  shows "\<exists>ys. nativeTransacts K [row] = Inr ys"
proof -
  have "fst x < length hs" if "x \<in> set (enumerate 0 ccs)" for x
    using assms(1) fst_enumerate [OF that] by simp
  then show ?thesis
    unfolding nativeTransacts_def native_transact_row_def collect_total
    by (simp add: assms(2) native_transact_item_def map_checked_all split_beta)
      (auto simp: fallible element_def)
qed

lemma native_nullified_served:
  assumes "pool_event_ok (Nullified tree hs)"
    and "decodeEventLog K row = Inr (Nullified tree hs)"
  shows "\<exists>ys. nativeNullifiers K [row] = Inr ys"
  using assms unfolding nativeNullifiers_def native_nullifier_row_def collect_total
  by (simp add: map_checked_all) (auto simp: fallible list_all_iff bi_bytes32)

text \<open>A collecting loop succeeds on a page exactly when it succeeds on every row.\<close>

lemma collect_rows: "(\<exists>ys. collect f rows = Inr ys) \<longleftrightarrow> (\<forall>row \<in> set rows. \<exists>ys. collect f [row] = Inr ys)"
  by (simp add: collect_total)

lemmas serializer_defs =
  decodeCommitmentEvents_def decodeNullifiers_def decodeUnshields_def
  nativeShields_def nativeTransacts_def nativeNullifiers_def nativeUnshields_def

definition row_served :: "pool_codec \<Rightarrow> raw_log_row \<Rightarrow> bool" where
  "row_served K row \<longleftrightarrow> (\<exists>ev. decodeEventLog K row = Inr ev \<and> erc20_only ev)"

lemma engine_row:
  assumes "decodes_pool K"
  shows "(\<exists>ys. decodeCommitmentEvents True K [row] = Inr ys) \<longleftrightarrow> row_served K row"
proof (cases "decodeEventLog K row")
  case (Inl e)
  then show ?thesis by (simp add: decodeCommitmentEvents_def commitment_row_def collect_total row_served_def)
next
  case (Inr ev)
  then have ok: "pool_event_ok ev" using assms by (simp add: decodes_pool_def)
  show ?thesis
  proof (cases ev)
    case (Shield tree start cs scs fs)
    then show ?thesis
      using shield_event_served [of tree start cs scs fs K row] ok Inr
      unfolding decodeCommitmentEvents_def commitment_row_def collect_total by (simp add: row_served_def and_then_do_ok)
  next
    case (Transact tree start hs ccs)
    then show ?thesis
      using transact_served [of tree start hs ccs row] ok Inr
      unfolding decodeCommitmentEvents_def commitment_row_def collect_total by (simp add: row_served_def and_then_do_ok)
  qed (simp_all add: decodeCommitmentEvents_def commitment_row_def collect_total row_served_def Inr)
qed

lemma other_rows:
  assumes "decodes_pool K" and "row_served K row"
  shows "\<exists>ys. decodeNullifiers K [row] = Inr ys" and "\<exists>ys. decodeUnshields K [row] = Inr ys"
    and "\<exists>ys. nativeTransacts K [row] = Inr ys" and "\<exists>ys. nativeNullifiers K [row] = Inr ys"
    and "\<exists>ys. nativeUnshields K [row] = Inr ys"
proof -
  obtain ev where ev: "decodeEventLog K row = Inr ev" "pool_event_ok ev"
    using assms by (auto simp: row_served_def decodes_pool_def)
  show "\<exists>ys. nativeTransacts K [row] = Inr ys"
    using ev native_transact_served
    by (cases ev) (auto simp: nativeTransacts_def native_transact_row_def collect_total simp del: pool_event_ok.simps)
  show "\<exists>ys. nativeNullifiers K [row] = Inr ys"
    using ev native_nullified_served
    by (cases ev) (auto simp: nativeNullifiers_def native_nullifier_row_def collect_total simp del: pool_event_ok.simps)
qed (use assms in \<open>auto simp: decodeNullifiers_def decodeUnshields_def nativeUnshields_def
    nullifier_row_items_def unshield_row_items_def native_unshield_row_def collect_total row_served_def split: contract_event.splits\<close>)

lemma native_row:
  assumes "decodes_pool K"
  shows "(\<exists>ys. nativeShields True K [row] = Inr ys) \<longleftrightarrow> row_served K row"
proof (cases "decodeEventLog K row")
  case (Inl e)
  then show ?thesis by (simp add: nativeShields_def native_shield_row_def collect_total row_served_def)
next
  case (Inr ev)
  then have ok: "pool_event_ok ev" using assms by (simp add: decodes_pool_def)
  show ?thesis
  proof (cases ev)
    case (Shield tree start cs scs fs)
    then show ?thesis
      using native_shields_served [of tree start cs scs fs K row] ok Inr by (simp add: row_served_def)
  qed (simp_all add: nativeShields_def native_shield_row_def collect_total row_served_def Inr)
qed

lemma collect_iff:
  assumes "\<And>row. (\<exists>ys. collect f [row] = Inr ys) \<longleftrightarrow> P row"
  shows "(\<exists>ys. collect f rows = Inr ys) \<longleftrightarrow> list_all P rows"
  by (simp add: collect_rows [of f rows] assms list_all_iff)

lemma collect_all:
  assumes "\<And>row. row \<in> set rows \<Longrightarrow> \<exists>ys. collect f [row] = Inr ys"
  shows "\<exists>ys. collect f rows = Inr ys"
  unfolding collect_rows [of f rows] using assms by blast

lemma served_rows:
  assumes "decodes_pool K"
  shows "(\<exists>r. engineQuickSync True K rows = Inr r) \<longleftrightarrow> list_all (row_served K) rows"
    and "(\<exists>r. serializeNativeQuickSync True K rows n = Inr r) \<longleftrightarrow> list_all (row_served K) rows"
proof -
  have commitments: "(\<exists>ys. decodeCommitmentEvents True K rows = Inr ys) \<longleftrightarrow> list_all (row_served K) rows"
    unfolding decodeCommitmentEvents_def
    by (rule collect_iff) (rule engine_row [OF assms, unfolded decodeCommitmentEvents_def])
  have natives: "(\<exists>ys. nativeShields True K rows = Inr ys) \<longleftrightarrow> list_all (row_served K) rows"
    unfolding nativeShields_def
    by (rule collect_iff) (rule native_row [OF assms, unfolded nativeShields_def])
  have rest: "(\<exists>ys. decodeNullifiers K rows = Inr ys) \<and> (\<exists>ys. decodeUnshields K rows = Inr ys)
      \<and> (\<exists>ys. nativeTransacts K rows = Inr ys) \<and> (\<exists>ys. nativeNullifiers K rows = Inr ys)
      \<and> (\<exists>ys. nativeUnshields K rows = Inr ys)" if "list_all (row_served K) rows"
  proof (intro conjI)
    have served: "row_served K row" if "row \<in> set rows" for row
      using \<open>list_all (row_served K) rows\<close> that by (simp add: list_all_iff)
    note row = other_rows [OF assms served]
    show "\<exists>ys. decodeNullifiers K rows = Inr ys" unfolding decodeNullifiers_def
      by (rule collect_all) (rule row(1) [unfolded decodeNullifiers_def])
    show "\<exists>ys. decodeUnshields K rows = Inr ys" unfolding decodeUnshields_def
      by (rule collect_all) (rule row(2) [unfolded decodeUnshields_def])
    show "\<exists>ys. nativeTransacts K rows = Inr ys" unfolding nativeTransacts_def
      by (rule collect_all) (rule row(3) [unfolded nativeTransacts_def])
    show "\<exists>ys. nativeNullifiers K rows = Inr ys" unfolding nativeNullifiers_def
      by (rule collect_all) (rule row(4) [unfolded nativeNullifiers_def])
    show "\<exists>ys. nativeUnshields K rows = Inr ys" unfolding nativeUnshields_def
      by (rule collect_all) (rule row(5) [unfolded nativeUnshields_def])
  qed
  show "(\<exists>r. engineQuickSync True K rows = Inr r) \<longleftrightarrow> list_all (row_served K) rows"
    using commitments rest by (auto simp: engineQuickSync_def and_then_do_ok)
  show "(\<exists>r. serializeNativeQuickSync True K rows n = Inr r) \<longleftrightarrow> list_all (row_served K) rows"
    using natives rest by (auto simp: serializeNativeQuickSync_def and_then_do_ok)
qed

text \<open>A page is answered by both serializers or refused by both: with an ABI decoder that delivers
  events of the pool, each of them succeeds exactly when every stored log of the page decodes and
  no shield carries a token type other than ERC20. So one shield of another type, or one log the
  ABI does not know, makes every page that covers its block fail, in both API versions.\<close>

theorem quick_sync_served_iff:
  assumes "decodes_pool K"
  shows "((\<exists>r. engineQuickSync True K rows = Inr r) \<longleftrightarrow> list_all (row_served K) rows)
    \<and> ((\<exists>r. serializeNativeQuickSync True K rows n = Inr r) \<longleftrightarrow> list_all (row_served K) rows)"
  using served_rows [OF assms] by blast

section \<open>The two shapes hold the same data\<close>

fun shield_leaf :: "qs_commitment \<Rightarrow> (int \<times> int \<times> string \<times> int) list" where
  "shield_leaf (ShieldCommitment s) = [(qs_utxoTree s, qs_utxoIndex s, qs_hash s, qs_blockNumber s)]"
| "shield_leaf (TransactCommitmentV2 t) = []"

fun transact_leaf :: "qs_commitment \<Rightarrow> (int \<times> int \<times> string \<times> int) list" where
  "transact_leaf (TransactCommitmentV2 t) = [(qt_utxoTree t, qt_utxoIndex t, qt_hash t, qt_blockNumber t)]"
| "transact_leaf (ShieldCommitment s) = []"

definition native_shield_leaf :: "native_shield \<Rightarrow> int \<times> int \<times> string \<times> int" where
  "native_shield_leaf s = (ns_tree s, ns_position s, ns_hash s, ns_blockNumber s)"

definition native_transact_leaf :: "native_transact \<Rightarrow> int \<times> int \<times> string \<times> int" where
  "native_transact_leaf t = (nx_tree t, nx_position t, nx_hash t, nx_blockNumber t)"

lemma bare_bytes32: "is_bytes32 h \<Longrightarrow> bare_hex h = formatUint256 h"
  by (simp add: bare_hex_def formatUint256_def is_bytes32_def strip0x_def pad_left_def)

lemma concat_singletons: "concat (map (\<lambda>x. [h x]) xs) = map h xs"
  by (induction xs) simp_all

lemma leaves_of_items:
  assumes "map_checked f xs = Inr as" and "map_checked g xs = Inr bs"
    and "\<And>x a b. x \<in> set xs \<Longrightarrow> f x = Inr a \<Longrightarrow> g x = Inr b \<Longrightarrow> h a = [k b]"
  shows "concat (map h as) = map k bs"
proof -
  have "map h as = map (\<lambda>b. [k b]) bs"
    by (rule map_checked_corresponds [OF assms(1,2)]) (rule assms(3))
  then show ?thesis by (simp add: concat_singletons)
qed

lemma shield_row_leaves:
  assumes "pool_event_ok (Shield tree start cs scs fs)"
    and ev: "decodeEventLog K row = Inr (Shield tree start cs scs fs)"
    and es: "commitment_row ready K row = Inr es" and ys: "native_shield_row ready K row = Inr ys"
  shows "\<exists>e. es = [e] \<and> concat (map shield_leaf (qc_commitments e)) = map native_shield_leaf ys
    \<and> concat (map transact_leaf (qc_commitments e)) = []"
proof -
  let ?item = "shield_commitment ready K row (number_of_bigint tree) (number_of_bigint start) scs fs"
  have ok: "preimage_ok (snd x)" if "x \<in> set (enumerate 0 cs)" for x
    using assms(1) fst_enumerate [OF that] by (auto simp: list_all_length)
  obtain e where e: "es = [e]" and item: "shieldEventOf ready K row tree start cs scs fs = Inr e"
    using es by (auto simp: commitment_row_def ev and_then_do_ok)
  have as: "map_checked ?item (enumerate 0 cs) = Inr (qc_commitments e)"
    using item by (auto simp: shieldEventOf_def Let_def and_then_do_ok)
  have native: "map_checked (native_shield_item ready K row (number_of_bigint tree)
      (number_of_bigint start) scs fs) (enumerate 0 cs) = Inr ys"
    using ys by (simp add: native_shield_row_def ev)
  have "concat (map shield_leaf (qc_commitments e)) = map native_shield_leaf ys"
    by (rule leaves_of_items [OF as native])
      (use ok in \<open>auto simp: shield_commitment_def native_shield_item_def native_shield_leaf_def
          Let_def and_then_do_ok preimage_ok_def bi_lower_address bi_address\<close>)
  moreover have "concat (map transact_leaf (qc_commitments e)) = []"
    using map_checked_member [OF as] by (fastforce simp: shield_commitment_def Let_def and_then_do_ok)
  ultimately show ?thesis using e by simp
qed

lemma transact_row_leaves:
  assumes "pool_event_ok (Transact tree start hs ccs)"
    and ev: "decodeEventLog K row = Inr (Transact tree start hs ccs)"
    and es: "commitment_row ready K row = Inr es" and ys: "native_transact_row K row = Inr ys"
  shows "\<exists>e. es = [e] \<and> concat (map transact_leaf (qc_commitments e)) = map native_transact_leaf ys
    \<and> concat (map shield_leaf (qc_commitments e)) = []"
proof -
  let ?item = "transact_commitment row (number_of_bigint tree) (number_of_bigint start) hs"
  have ok: "is_bytes32 (hs ! fst x)" if "x \<in> set (enumerate 0 ccs)" for x
    using assms(1) fst_enumerate [OF that] by (auto simp: list_all_length)
  obtain e where e: "es = [e]" and item: "transactEventOf row tree start hs ccs = Inr e"
    using es by (auto simp: commitment_row_def ev and_then_do_ok)
  have as: "map_checked ?item (enumerate 0 ccs) = Inr (qc_commitments e)"
    using item by (auto simp: transactEventOf_def Let_def and_then_do_ok)
  have native: "map_checked (native_transact_item row (number_of_bigint tree) (number_of_bigint start) hs)
      (enumerate 0 ccs) = Inr ys"
    using ys by (simp add: native_transact_row_def ev)
  have "concat (map transact_leaf (qc_commitments e)) = map native_transact_leaf ys"
    by (rule leaves_of_items [OF as native])
      (use ok in \<open>auto simp: transact_commitment_def native_transact_item_def
          native_transact_leaf_def Let_def and_then_do_ok element_def bare_bytes32 split: if_splits\<close>)
  moreover have "concat (map shield_leaf (qc_commitments e)) = []"
    using map_checked_member [OF as] by (fastforce simp: transact_commitment_def Let_def and_then_do_ok)
  ultimately show ?thesis using e by simp
qed

definition event_shields :: "qs_commitment_event \<Rightarrow> (int \<times> int \<times> string \<times> int) list" where
  "event_shields e = concat (map shield_leaf (qc_commitments e))"

definition event_transacts :: "qs_commitment_event \<Rightarrow> (int \<times> int \<times> string \<times> int) list" where
  "event_transacts e = concat (map transact_leaf (qc_commitments e))"

lemma row_leaves:
  assumes "decodes_pool K" and es: "commitment_row ready K row = Inr es"
    and ss: "native_shield_row ready K row = Inr ss" and ts: "native_transact_row K row = Inr ts"
  shows "concat (map event_shields es) = map native_shield_leaf ss"
    and "concat (map event_transacts es) = map native_transact_leaf ts"
proof -
  obtain ev where ev: "decodeEventLog K row = Inr ev" and ok: "pool_event_ok ev"
    using es assms(1) by (auto simp: commitment_row_def and_then_do_ok decodes_pool_def)
  have "concat (map event_shields es) = map native_shield_leaf ss
      \<and> concat (map event_transacts es) = map native_transact_leaf ts"
  proof (cases ev)
    case (Shield tree start cs scs fs)
    then show ?thesis
      using shield_row_leaves [OF ok [unfolded Shield] ev [unfolded Shield] es ss] ts ev
      by (auto simp: event_shields_def event_transacts_def native_transact_row_def)
  next
    case (Transact tree start hs ccs)
    then show ?thesis
      using transact_row_leaves [OF ok [unfolded Transact] ev [unfolded Transact] es ts] ss ev
      by (auto simp: event_shields_def event_transacts_def native_shield_row_def)
  qed (use es ss ts ev in \<open>auto simp: commitment_row_def native_shield_row_def native_transact_row_def\<close>)
  then show "concat (map event_shields es) = map native_shield_leaf ss"
    and "concat (map event_transacts es) = map native_transact_leaf ts" by blast+
qed

lemma page_leaves:
  assumes "decodes_pool K" and "decodeCommitmentEvents ready K rows = Inr es"
    and "nativeShields ready K rows = Inr ss" and "nativeTransacts K rows = Inr ts"
  shows "concat (map event_shields es) = map native_shield_leaf ss
    \<and> concat (map event_transacts es) = map native_transact_leaf ts"
  using assms(2-)
proof (induction rows arbitrary: es ss ts)
  case Nil
  then show ?case by (simp add: decodeCommitmentEvents_def nativeShields_def nativeTransacts_def collect_def)
next
  case (Cons row rows)
  from Cons.prems obtain a b c es' ss' ts' where *: "commitment_row ready K row = Inr a"
    "native_shield_row ready K row = Inr b" "native_transact_row K row = Inr c"
    "es = a @ es'" "ss = b @ ss'" "ts = c @ ts'"
    and rest: "decodeCommitmentEvents ready K rows = Inr es'" "nativeShields ready K rows = Inr ss'"
    "nativeTransacts K rows = Inr ts'"
    by (auto simp: decodeCommitmentEvents_def nativeShields_def nativeTransacts_def collect_Cons)
  show ?case using Cons.IH [OF rest] row_leaves [OF assms(1) *(1-3)] *(4-6) by simp
qed

definition engine_nullifier :: "qs_nullifier \<Rightarrow> int \<times> string \<times> int" where
  "engine_nullifier n =
     (qn_treeNumber n, show_int (int (parse_hex (qn_nullifier n))), qn_blockNumber n)"

definition native_nullifier_parts :: "native_nullifier \<Rightarrow> int \<times> string \<times> int" where
  "native_nullifier_parts m = (nn_tree m, nn_nullifier m, nn_blockNumber m)"

lemma nullifiers_correspond:
  assumes "decodeNullifiers K rows = Inr ns" and "nativeNullifiers K rows = Inr ms"
    and "decodes_pool K"
  shows "map engine_nullifier ns = map native_nullifier_parts ms"
proof (rule collect_corresponds [OF assms(1) [unfolded decodeNullifiers_def]
      assms(2) [unfolded nativeNullifiers_def]])
  fix row a b
  assume a: "nullifier_row_items K row = Inr a" and b: "native_nullifier_row K row = Inr b"
  have val: "bi h = Inr (int (parse_hex (formatUint256 h)))" if "is_bytes32 h" for h
    using that uint256_parts(3) [OF that] by (simp add: bi_bytes32 strip0x_def is_bytes32_def)
  have items: "map (\<lambda>n. engine_nullifier \<lparr>qn_nullifier = formatUint256 n, qn_treeNumber = tree,
        qn_txid = y, qn_blockNumber = c\<rparr>) hs = map native_nullifier_parts ys"
    if "map_checked (\<lambda>n. and_then_do (bi n) (\<lambda>v. Inr \<lparr>nn_tree = tree, nn_nullifier = show_int v,
        nn_blockNumber = c, nn_txid = x\<rparr>)) hs = Inr ys" "list_all is_bytes32 hs" for hs ys tree c x y
    using that
    by (induction hs arbitrary: ys)
      (auto simp: and_then_do_ok val engine_nullifier_def native_nullifier_parts_def)
  obtain ev where ev: "decodeEventLog K row = Inr ev" "pool_event_ok ev"
    using a assms(3) by (auto simp: nullifier_row_items_def and_then_do_ok decodes_pool_def)
  show "map engine_nullifier a = map native_nullifier_parts b"
  proof (cases ev)
    case (Nullified tree hs)
    then show ?thesis
      using a b ev items by (auto simp: nullifier_row_items_def native_nullifier_row_def comp_def)
  qed (use a b ev in \<open>auto simp: nullifier_row_items_def native_nullifier_row_def\<close>)
qed

definition engine_unshield :: "qs_unshield \<Rightarrow> string \<times> native_token \<times> string \<times> string \<times> int" where
  "engine_unshield u = (qu_toAddress u, \<lparr>nt_tokenType = qu_tokenType u,
     nt_tokenAddress = to_lower (qu_tokenAddress u), nt_tokenSubID = qu_tokenSubID u\<rparr>,
     qu_amount u, qu_fee u, qu_blockNumber u)"

definition native_unshield_parts :: "native_unshield \<Rightarrow> string \<times> native_token \<times> string \<times> string \<times> int" where
  "native_unshield_parts u = (nu_to u, nu_tokenData u, nu_amount u, nu_fee u, nu_block u)"

lemma unshields_correspond:
  assumes "decodeUnshields K rows = Inr us" and "nativeUnshields K rows = Inr vs"
  shows "map engine_unshield us = map native_unshield_parts vs"
proof (rule collect_corresponds [OF assms(1) [unfolded decodeUnshields_def]
      assms(2) [unfolded nativeUnshields_def]])
  fix row a b
  assume a: "unshield_row_items K row = Inr a" and b: "native_unshield_row K row = Inr b"
  obtain ev where "decodeEventLog K row = Inr ev"
    using a by (auto simp: unshield_row_items_def and_then_do_ok)
  with a b show "map engine_unshield a = map native_unshield_parts b"
    by (cases ev) (auto simp: unshield_row_items_def native_unshield_row_def engine_unshield_def
        native_unshield_parts_def)
qed


section \<open>Pages one after the other\<close>

definition join_pages :: "qs_response \<Rightarrow> qs_response \<Rightarrow> qs_response" where
  "join_pages a b = \<lparr>commitmentEvents = commitmentEvents a @ commitmentEvents b,
     unshieldEvents = unshieldEvents a @ unshieldEvents b,
     nullifierEvents = nullifierEvents a @ nullifierEvents b\<rparr>"

lemma engine_append:
  assumes "engineQuickSync ready K xs = Inr a" and "engineQuickSync ready K ys = Inr b"
  shows "engineQuickSync ready K (xs @ ys) = Inr (join_pages a b)"
  using assms
  by (auto simp: engineQuickSync_def and_then_do_ok decodeCommitmentEvents_def decodeNullifiers_def
      decodeUnshields_def collect_append join_pages_def)

lemma engine_empty: "engineQuickSync ready K [] = Inr emptyQuickSync"
  by (simp add: engineQuickSync_def decodeCommitmentEvents_def decodeNullifiers_def
      decodeUnshields_def collect_def emptyQuickSync_def)

lemma engine_split:
  assumes "engineQuickSync ready K (xs @ ys) = Inr r"
  obtains a b where "engineQuickSync ready K xs = Inr a" "engineQuickSync ready K ys = Inr b"
    "r = join_pages a b"
  using assms
  by (auto simp: engineQuickSync_def and_then_do_ok decodeCommitmentEvents_def decodeNullifiers_def
      decodeUnshields_def collect_append join_pages_def)

section \<open>Witnesses\<close>

definition demo_hash :: string where
  "demo_hash = ''0x'' @ replicate 64 (CHR ''a'')"

definition demo_preimage :: "int \<Rightarrow> commitment_preimage" where
  "demo_preimage tt = \<lparr>npk = demo_hash, token = \<lparr>tokenType = tt,
     tokenAddress = ''0x'' @ replicate 40 (CHR ''B''), tokenSubID = 0\<rparr>, preimage_value = 5\<rparr>"

definition demo_pool_event :: "int \<Rightarrow> contract_event" where
  "demo_pool_event i =
     (if i = 0 then Shield 0 7 [demo_preimage 0] [\<lparr>encryptedBundle = (demo_hash, demo_hash, demo_hash),
        shieldKey = demo_hash\<rparr>] [0]
      else if i = 1 then Transact 0 8 [demo_hash] [\<lparr>ct_ciphertext = replicate 4 demo_hash,
        blindedSenderViewingKey = demo_hash, blindedReceiverViewingKey = demo_hash,
        annotationData = ''0x'', memo = ''0x''\<rparr>]
      else if i = 2 then Nullified 0 [demo_hash]
      else if i = 3 then Unshield ''0xto'' (token (demo_preimage 0)) 3 1
      else Shield 0 9 [demo_preimage 1] [\<lparr>encryptedBundle = (demo_hash, demo_hash, demo_hash),
        shieldKey = demo_hash\<rparr>] [])"

definition demo_codec :: pool_codec where
  "demo_codec = \<lparr>decodeEventLog = (\<lambda>row. Inr (demo_pool_event (rl_logIndex row))), poseidon = (\<lambda>xs. 11)\<rparr>"

definition demo_row :: "int \<Rightarrow> raw_log_row" where
  "demo_row i = \<lparr>rl_blockNumber = 100 + i, rl_txHash = demo_hash, rl_logIndex = i, rl_data = ''0x'', rl_topics = []\<rparr>"

lemma demo_hash_ok [simp]: "is_bytes32 demo_hash"
  by (simp add: demo_hash_def is_bytes32_def is_hex_char_def list_all_iff)

lemma demo_codec_ok: "decodes_pool demo_codec"
  by (auto simp: decodes_pool_def demo_codec_def demo_pool_event_def demo_preimage_def preimage_ok_def
      is_address_def is_hex_char_def list_all_iff)

lemma demo_served: "list_all (row_served demo_codec) [demo_row 0, demo_row 1, demo_row 2, demo_row 3]"
  by (simp add: row_served_def demo_codec_def demo_row_def demo_pool_event_def demo_preimage_def)

theorem uint256_text_witness:
  "length (nToHex256 11) = 64 \<and> int (parse_hex (nToHex256 11)) = 11 \<and> length (formatUint256 demo_hash) = 64"
  using uint256_text [of 11 demo_hash] by simp

theorem quick_sync_served_iff_witness:
  "(\<exists>r. engineQuickSync True demo_codec [demo_row 0, demo_row 1, demo_row 2, demo_row 3] = Inr r)
    \<and> \<not> (\<exists>r. serializeNativeQuickSync True demo_codec [demo_row 0, demo_row 4] 9 = Inr r)"
  using quick_sync_served_iff [OF demo_codec_ok, of "[demo_row 0, demo_row 1, demo_row 2, demo_row 3]" 0]
    quick_sync_served_iff [OF demo_codec_ok, of "[demo_row 0, demo_row 4]" 9] demo_served
  by (simp add: row_served_def demo_codec_def demo_row_def demo_pool_event_def demo_preimage_def)


end
