(* ===== verification/WatcherManifests.thy ===== *)
theory WatcherManifests
  imports Config
begin

text \<open>
  \<open>watcher/src/lib/manifests.ts\<close>: the watcher's own reading of the topology document, of the
  environment and of the deployment manifests, written independently of the actor's. The JSON
  helpers (\<open>get_prop\<close>, \<open>object_entries\<close>, \<open>find_entry\<close>, \<open>js_join\<close>) are the ones of the actor's loader,
  which model the same JavaScript.

  Documents do not change during a run, so the cache of the parsed topology is transparent and
  left out. A type assertion (\<open>as Manifest\<close>) checks nothing: what is not validated stays JSON.
\<close>

section \<open>Topology\<close>

record watcher_chain =
  wc_chainId :: int
  wc_name :: string
  wc_role :: chain_role
  wc_manifestPrefix :: string
  wc_domain :: int
  wc_rpcUrlEnv :: string
  wc_defaultRpcUrl :: "json option"
  wc_pollingIntervalMs :: int
  wc_confirmations :: int

definition w_networkName :: "env \<Rightarrow> exn + string" where
  "w_networkName env =
     (let network = (case or_else (env ''NETWORK'') (env ''DEPLOY_ENV'') of None \<Rightarrow> ''local'' | Some n \<Rightarrow> n)
      in check_then (\<not> (network \<noteq> ''local'' \<and> network \<noteq> ''sepolia'' \<and> network \<noteq> ''mainnet''))
           ''NETWORK must be one of local|sepolia|mainnet'' (Inr network))"

definition w_loadTopologyFile :: "files \<Rightarrow> string \<Rightarrow> exn + json" where
  "w_loadTopologyFile fs deploymentsRoot =
     (let path = js_join deploymentsRoot ''topology.json''
      in case fs path of
           None \<Rightarrow> Inl (''Missing topology file: expected '' @ path)
         | Some (Unparseable msg) \<Rightarrow> Inl (''Unparseable topology file '' @ path @ '': '' @ msg)
         | Some (Document j) \<Rightarrow> Inr j)"

definition toWatcherChain :: "json option \<Rightarrow> chain_role \<Rightarrow> exn + watcher_chain" where
  "toWatcherChain raw role =
     and_then_do (get_prop raw ''chainId'') (\<lambda>v. and_then_do (int_field v ''chainId'') (\<lambda>chainId.
     and_then_do (get_prop raw ''name'') (\<lambda>v. and_then_do (str_field v ''name'') (\<lambda>name.
     and_then_do (get_prop raw ''manifestPrefix'') (\<lambda>v. and_then_do (str_field v ''manifestPrefix'') (\<lambda>manifestPrefix.
     and_then_do (get_prop raw ''domain'') (\<lambda>v. and_then_do (int_field v ''domain'') (\<lambda>domain.
     and_then_do (get_prop raw ''rpcUrlEnv'') (\<lambda>v. and_then_do (str_field v ''rpcUrlEnv'') (\<lambda>rpcUrlEnv.
     and_then_do (get_prop raw ''defaultRpcUrl'') (\<lambda>defaultRpcUrl.
     and_then_do (get_prop raw ''pollingIntervalMs'') (\<lambda>v. and_then_do (int_field v ''pollingIntervalMs'') (\<lambda>pollingIntervalMs.
     and_then_do (get_prop raw ''confirmations'') (\<lambda>v. and_then_do (int_field v ''confirmations'') (\<lambda>confirmations.
       Inr \<lparr>wc_chainId = chainId, wc_name = name, wc_role = role, wc_manifestPrefix = manifestPrefix,
            wc_domain = domain, wc_rpcUrlEnv = rpcUrlEnv, wc_defaultRpcUrl = defaultRpcUrl,
            wc_pollingIntervalMs = pollingIntervalMs, wc_confirmations = confirmations\<rparr>)))))))))))))))"

text \<open>The network's name, its hub and its clients.\<close>

definition rawNetwork :: "env \<Rightarrow> files \<Rightarrow> string \<Rightarrow> exn + string \<times> json option \<times> json list" where
  "rawNetwork env fs deploymentsRoot =
     and_then_do (w_networkName env) (\<lambda>network.
     and_then_do (w_loadTopologyFile fs deploymentsRoot) (\<lambda>doc.
     and_then_do (get_prop (Some doc) network) (\<lambda>raw.
     check_then (truthy raw) (''topology.json has no entry for NETWORK='' @ network)
    (and_then_do (get_prop raw ''hub'') (\<lambda>hub.
     check_then (truthy hub) (''topology.json '' @ network @ '' entry is missing a hub'')
    (and_then_do (get_prop raw ''clients'') (\<lambda>clients.
     and_then_do (or_throw (as_array clients) (''topology.json '' @ network @ '' clients must be an array'')) (\<lambda>cs.
       Inr (network, hub, cs)))))))))"

definition w_enabledClients :: "env \<Rightarrow> string list option" where
  "w_enabledClients env =
     (case env ''ENABLED_CLIENTS'' of
        None \<Rightarrow> None
      | Some raw \<Rightarrow> if js_trim raw = [] then None
          else Some (js_unique (filter (\<lambda>s. s \<noteq> []) (map js_trim (js_split CHR '','' raw)))))"

definition w_selectClients :: "watcher_chain list \<Rightarrow> string list option \<Rightarrow> exn + watcher_chain list" where
  "w_selectClients clients enabled =
     (case enabled of
        None \<Rightarrow> Inr clients
      | Some names \<Rightarrow>
          let byName = map_of (rev (map (\<lambda>c. (wc_name c, c)) clients))
          in and_then_do
               (map_checked (\<lambda>name. case byName name of
                    None \<Rightarrow> Inl (''ENABLED_CLIENTS names unknown client '' @ name)
                  | Some chain \<Rightarrow> Inr chain) names)
               (\<lambda>selected. check_then (selected \<noteq> []) ''ENABLED_CLIENTS selected no clients'' (Inr selected)))"

definition topologyChains :: "env \<Rightarrow> files \<Rightarrow> string \<Rightarrow> exn + watcher_chain list" where
  "topologyChains env fs deploymentsRoot =
     and_then_do (rawNetwork env fs deploymentsRoot) (\<lambda>(network, rawHub, rawClients).
     and_then_do (toWatcherChain rawHub Hub) (\<lambda>hub.
     and_then_do (map_checked (\<lambda>c. toWatcherChain (Some c) Client) rawClients) (\<lambda>all.
     and_then_do (w_selectClients all (w_enabledClients env)) (\<lambda>clients.
       Inr (hub # clients)))))"

definition hubDomain :: "env \<Rightarrow> files \<Rightarrow> string \<Rightarrow> exn + int" where
  "hubDomain env fs deploymentsRoot =
     and_then_do (rawNetwork env fs deploymentsRoot) (\<lambda>(network, rawHub, rawClients).
     and_then_do (toWatcherChain rawHub Hub) (\<lambda>hub. Inr (wc_domain hub)))"

section \<open>The environment\<close>

datatype watcher_mode = FullMode | CctpOnly

definition watcherMode :: "env \<Rightarrow> exn + watcher_mode" where
  "watcherMode env =
     (case env ''WATCHER_MODE'' of
        None \<Rightarrow> Inr FullMode
      | Some raw \<Rightarrow>
          if raw = [] \<or> raw = ''full'' then Inr FullMode
          else if raw = ''cctp-only'' then Inr CctpOnly
          else Inl ''WATCHER_MODE must be full or cctp-only'')"

definition resolveSource :: "env \<Rightarrow> string \<Rightarrow> exn + deployment_source" where
  "resolveSource env deploymentsRoot =
     (case env_val env ''DEPLOYMENT_INSTANCE'' of
        None \<Rightarrow> Inr (Flat deploymentsRoot)
      | Some inst \<Rightarrow>
          and_then_do (w_networkName env) (\<lambda>network.
            case or_else (env_val env ''DEPLOYMENT_ENVIRONMENT'')
                   (map_of [(''sepolia'', ''testnet''), (''mainnet'', ''mainnet'')] network) of
              None \<Rightarrow> Inl ''DEPLOYMENT_INSTANCE is set but no registry environment maps to NETWORK''
            | Some environment \<Rightarrow>
                let dir = (case env_val env ''DEPLOYMENT_REGISTRY_DIR'' of
                             Some d \<Rightarrow> d | None \<Rightarrow> js_join deploymentsRoot ''registry'')
                in Inr (Registry dir environment inst)))"

definition manifestFile :: "string \<Rightarrow> watcher_chain \<Rightarrow> string" where
  "manifestFile network chain =
     ''privacy-pool-'' @ wc_manifestPrefix chain
       @ (if network = ''local'' then [] else ''-'' @ network) @ ''.json''"

definition registryManifestPath ::
    "files \<Rightarrow> string \<Rightarrow> string \<Rightarrow> string \<Rightarrow> watcher_chain \<Rightarrow> exn + string" where
  "registryManifestPath fs dir environment inst chain =
     (let dir = js_join (js_join dir environment) inst; indexPath = js_join dir ''manifest.json''
      in case fs indexPath of
           None \<Rightarrow> Inl (''Missing deployment registry instance: expected '' @ indexPath)
         | Some (Unparseable msg) \<Rightarrow> Inl msg
         | Some (Document index) \<Rightarrow>
             and_then_do (get_prop (Some index) ''chains'') (\<lambda>cs.
             and_then_do (object_entries cs) (\<lambda>entries.
             and_then_do (find_entry (wc_chainId chain) entries) (\<lambda>entry.
             and_then_do (or_throw entry ''Registry instance has no such chainId'') (\<lambda>(slug, meta).
             and_then_do (get_prop (Some meta) ''role'') (\<lambda>role.
             check_then (role = Some (JStr (role_name (wc_role chain))))
               (''Registry chain '' @ slug @ '' role mismatch'')
               (Inr (js_join (js_join dir slug) ''privacy-pool.json''))))))))"

section \<open>Resolved chains\<close>

record resolved_chain =
  rc_chain :: watcher_chain
  rc_rpcUrls :: "string list"
  rc_manifest :: json

definition w_rpcUrls :: "env \<Rightarrow> watcher_chain \<Rightarrow> exn + string list" where
  "w_rpcUrls env chain =
     and_then_do
       (case env (wc_rpcUrlEnv chain) of
          Some s \<Rightarrow> Inr s
        | None \<Rightarrow> (case wc_defaultRpcUrl chain of
            None \<Rightarrow> Inr [] | Some JNull \<Rightarrow> Inr [] | Some (JStr s) \<Rightarrow> Inr s
          | Some _ \<Rightarrow> Inl ''split is not a function''))
       (\<lambda>text. let urls = filter (\<lambda>u. u \<noteq> []) (map js_trim (js_split CHR '','' text))
               in check_then (urls \<noteq> []) (''Missing RPC URL for chain '' @ show_int (wc_chainId chain)) (Inr urls))"

text \<open>\<open>RE.test(v ?? "")\<close>.\<close>

definition address_test :: "json option \<Rightarrow> bool" where
  "address_test v = (case v of None \<Rightarrow> False | Some j \<Rightarrow> address_like j)"

definition readWatcherManifest :: "files \<Rightarrow> string \<Rightarrow> watcher_chain \<Rightarrow> exn + json" where
  "readWatcherManifest fs path chain =
     (case fs path of
        None \<Rightarrow> Inl (''Missing deployment manifest: expected '' @ path)
      | Some (Unparseable msg) \<Rightarrow> Inl msg
      | Some (Document m) \<Rightarrow>
          and_then_do (get_prop (Some m) ''chainId'') (\<lambda>chainId.
          and_then_do (get_prop (Some m) ''domain'') (\<lambda>domain.
          check_then (as_int_json chainId = Some (wc_chainId chain) \<and> as_int_json domain = Some (wc_domain chain))
            (''Manifest '' @ path @ '' chainId/domain does not match topology'')
         (and_then_do (get_prop (Some m) ''contracts'') (\<lambda>contracts.
          check_then (address_test (opt_prop contracts
              (if wc_role chain = Hub then ''privacyPool'' else ''privacyPoolClient'')))
            (''Manifest '' @ path @ '' missing contracts.pool'')
         (and_then_do (get_prop (Some m) ''cctp'') (\<lambda>cctp.
          check_then (address_test (opt_prop cctp ''messageTransmitter''))
            (''Manifest '' @ path @ '' missing cctp.messageTransmitter'') (Inr m))))))))"

definition resolveChain ::
    "env \<Rightarrow> files \<Rightarrow> string \<Rightarrow> deployment_source \<Rightarrow> watcher_chain \<Rightarrow> exn + resolved_chain" where
  "resolveChain env fs network source chain =
     and_then_do (w_rpcUrls env chain) (\<lambda>urls.
     and_then_do
       (case source of
          Flat dir \<Rightarrow> Inr (js_join dir (manifestFile network chain))
        | Registry dir environment inst \<Rightarrow> registryManifestPath fs dir environment inst chain) (\<lambda>path.
     and_then_do (readWatcherManifest fs path chain) (\<lambda>m.
       Inr \<lparr>rc_chain = chain, rc_rpcUrls = urls, rc_manifest = m\<rparr>)))"

definition resolveChains :: "env \<Rightarrow> files \<Rightarrow> string \<Rightarrow> exn + resolved_chain list" where
  "resolveChains env fs deploymentsRoot =
     and_then_do (w_networkName env) (\<lambda>network.
     and_then_do (resolveSource env deploymentsRoot) (\<lambda>source.
     and_then_do (topologyChains env fs deploymentsRoot) (\<lambda>cs.
       map_checked (resolveChain env fs network source) cs)))"

section \<open>The chain settings\<close>

datatype start_block = Latest | AtBlock int | FromManifest json

definition cctpStartBlock :: "env \<Rightarrow> resolved_chain \<Rightarrow> exn + start_block" where
  "cctpStartBlock env chain =
     (case env_val env (''CCTP_START_BLOCK_'' @ show_int (wc_chainId (rc_chain chain))) of
        Some raw \<Rightarrow>
          if raw = ''latest'' then Inr Latest
          else (case as_integer (js_number raw) of
                  None \<Rightarrow> Inl ''CCTP_START_BLOCK must be a non-negative integer or latest''
                | Some n \<Rightarrow> check_then (0 \<le> n) ''CCTP_START_BLOCK must be a non-negative integer or latest''
                    (Inr (AtBlock n)))
      | None \<Rightarrow>
          and_then_do (get_prop (opt_prop (Some (rc_manifest chain)) ''cctp'') ''startBlock'') (\<lambda>v.
            Inr (case v of None \<Rightarrow> Latest | Some j \<Rightarrow> FromManifest j)))"

definition DEFAULT_MAX_REQUESTS_PER_SECOND :: int where
  "DEFAULT_MAX_REQUESTS_PER_SECOND = 25"

definition chainMaxRequestsPerSecond :: "env \<Rightarrow> resolved_chain \<Rightarrow> exn + int" where
  "chainMaxRequestsPerSecond env chain =
     (case env_val env (''MAX_RPS_'' @ show_int (wc_chainId (rc_chain chain))) of
        Some raw \<Rightarrow>
          (case as_integer (js_number raw) of
             None \<Rightarrow> Inl ''MAX_RPS must be a positive integer''
           | Some n \<Rightarrow> check_then (0 < n) ''MAX_RPS must be a positive integer'' (Inr n))
      | None \<Rightarrow> Inr DEFAULT_MAX_REQUESTS_PER_SECOND)"

definition manifest_contract :: "resolved_chain \<Rightarrow> string \<Rightarrow> exn + json option" where
  "manifest_contract chain key =
     and_then_do (get_prop (Some (rc_manifest chain)) ''contracts'') (\<lambda>contracts. get_prop contracts key)"

definition to_lower_json :: "json \<Rightarrow> exn + string" where
  "to_lower_json j = (case j of JStr s \<Rightarrow> Inr (to_lower s) | _ \<Rightarrow> Inl ''toLowerCase is not a function'')"

definition hookRouterAddress :: "resolved_chain \<Rightarrow> exn + string option" where
  "hookRouterAddress chain =
     and_then_do (manifest_contract chain ''hookRouter'') (\<lambda>addr.
       if truthy addr \<and> address_test addr
       then and_then_do (to_lower_json (the addr)) (\<lambda>s. Inr (Some s)) else Inr None)"

text \<open>Without a filter every event of the transmitter is indexed; with one, every \<open>MessageSent\<close> and
  the \<open>MessageReceived\<close> of one caller.\<close>

record transmitter_config =
  mt_address :: "json option"
  mt_startBlock :: start_block
  mt_caller_filter :: "string option"

definition messageTransmitterChain :: "env \<Rightarrow> resolved_chain \<Rightarrow> exn + transmitter_config" where
  "messageTransmitterChain env chain =
     and_then_do (hookRouterAddress chain) (\<lambda>hookRouter.
     and_then_do (get_prop (Some (rc_manifest chain)) ''cctp'') (\<lambda>cctp.
     and_then_do (get_prop cctp ''messageTransmitter'') (\<lambda>address.
     and_then_do (cctpStartBlock env chain) (\<lambda>start.
       Inr \<lparr>mt_address = address, mt_startBlock = start, mt_caller_filter = hookRouter\<rparr>))))"

definition w_poolAddress :: "resolved_chain \<Rightarrow> exn + json option" where
  "w_poolAddress chain =
     manifest_contract chain (if wc_role (rc_chain chain) = Hub then ''privacyPool'' else ''privacyPoolClient'')"

definition chain_addresses :: "resolved_chain \<Rightarrow> exn + string list" where
  "chain_addresses chain =
     and_then_do (get_prop (Some (rc_manifest chain)) ''contracts'') (\<lambda>contracts.
     and_then_do (object_entries contracts) (\<lambda>entries.
     and_then_do (get_prop (Some (rc_manifest chain)) ''cctp'') (\<lambda>cctp.
     and_then_do (map_checked (get_prop cctp) [''tokenMessenger'', ''messageTransmitter'', ''usdc'']) (\<lambda>own.
     map_checked (\<lambda>a. case a of None \<Rightarrow> Inl ''Cannot read properties of undefined'' | Some j \<Rightarrow> to_lower_json j)
       (filter truthy (map (Some \<circ> snd) entries) @ own)))))"

text \<open>A JavaScript \<open>Map\<close>: setting a chain id again replaces its set.\<close>

fun protocolAddressAllowlist :: "resolved_chain list \<Rightarrow> (int \<times> string list) list \<Rightarrow> exn + (int \<times> string list) list" where
  "protocolAddressAllowlist [] acc = Inr acc"
| "protocolAddressAllowlist (chain # rest) acc =
     and_then_do (chain_addresses chain) (\<lambda>addresses.
       protocolAddressAllowlist rest (AList.update (wc_chainId (rc_chain chain)) addresses acc))"

section \<open>Agreement with the actor\<close>

text \<open>What the watcher sees of a chain the actor accepted: everything but the nominal block time.\<close>

definition watcher_view_of :: "chain_topology \<Rightarrow> watcher_chain" where
  "watcher_view_of c = \<lparr>wc_chainId = ct_chainId c, wc_name = ct_name c, wc_role = ct_role c,
     wc_manifestPrefix = ct_manifestPrefix c, wc_domain = ct_domain c, wc_rpcUrlEnv = ct_rpcUrlEnv c,
     wc_defaultRpcUrl = ct_defaultRpcUrl c, wc_pollingIntervalMs = ct_pollingIntervalMs c,
     wc_confirmations = ct_confirmations c\<rparr>"

lemma watcher_view_of_simps [simp]:
  "wc_chainId (watcher_view_of c) = ct_chainId c" "wc_name (watcher_view_of c) = ct_name c"
  "wc_role (watcher_view_of c) = ct_role c" "wc_manifestPrefix (watcher_view_of c) = ct_manifestPrefix c"
  "wc_domain (watcher_view_of c) = ct_domain c" "wc_rpcUrlEnv (watcher_view_of c) = ct_rpcUrlEnv c"
  "wc_defaultRpcUrl (watcher_view_of c) = ct_defaultRpcUrl c"
  "wc_pollingIntervalMs (watcher_view_of c) = ct_pollingIntervalMs c"
  by (simp_all add: watcher_view_of_def)

lemma networkNames_agree: "networkName env = Inr n \<longleftrightarrow> w_networkName env = Inr n"
  by (auto simp: networkName_def w_networkName_def NETWORKS_def Let_def fallible)

lemma toWatcherChain_agrees:
  assumes "toChain raw role = Inr c" shows "toWatcherChain raw role = Inr (watcher_view_of c)"
  using assms unfolding toChain_def and_then_do_ok
  apply (elim exE conjE)
  apply (simp only: sum.inject)
  apply hypsubst
  apply (simp add: toWatcherChain_def watcher_view_of_def)
  done

lemma map_checked_agrees:
  assumes "map_checked f xs = Inr ys" and "\<And>x y. f x = Inr y \<Longrightarrow> g x = Inr (h y)"
  shows "map_checked g xs = Inr (map h ys)"
  using assms(1) by (induction xs arbitrary: ys) (auto simp: and_then_do_ok dest: assms(2))

lemma map_of_watcher:
  "map_of (map (\<lambda>c. (wc_name c, c)) (map watcher_view_of cs)) n
    = map_option watcher_view_of (map_of (map (\<lambda>c. (ct_name c, c)) cs) n)"
  by (induction cs) simp_all

lemma selectClients_agrees:
  assumes "selectClients cs enabled = Inr sel"
  shows "w_selectClients (map watcher_view_of cs) enabled = Inr (map watcher_view_of sel)"
proof (cases enabled)
  case None
  with assms show ?thesis by (simp add: selectClients_def w_selectClients_def)
next
  case (Some names)
  let ?pick = "\<lambda>name. case map_of (rev (map (\<lambda>c. (ct_name c, c)) cs)) name of
      None \<Rightarrow> Inl (''ENABLED_CLIENTS names unknown client '' @ name) | Some chain \<Rightarrow> Inr chain"
  let ?w_pick = "\<lambda>name. case map_of (rev (map (\<lambda>c. (wc_name c, c)) (map watcher_view_of cs))) name of
      None \<Rightarrow> Inl (''ENABLED_CLIENTS names unknown client '' @ name) | Some chain \<Rightarrow> Inr chain"
  have sel: "map_checked ?pick names = Inr sel" "sel \<noteq> []"
    using assms by (auto simp: selectClients_def Some Let_def and_then_do_ok check_ok)
  have "map_checked ?w_pick names = Inr (map watcher_view_of sel)"
    by (rule map_checked_agrees [OF sel(1)])
      (use map_of_watcher [of "rev cs"] in \<open>auto simp: rev_map split: option.splits\<close>)
  then show ?thesis using sel(2) by (simp add: w_selectClients_def Some Let_def)
qed

lemma topology_agrees:
  assumes "getTopology env fs dir = Inr t"
  shows "topologyChains env fs dir = Inr (map watcher_view_of (allChains t))
    \<and> w_networkName env = Inr (nt_network t)"
proof -
  obtain network doc t0 sel where network: "networkName env = Inr network"
    and doc: "loadTopologyFile fs dir = Inr doc" and t0: "buildNetworkTopology doc network = Inr t0"
    and sel: "selectClients (nt_clients t0) (enabledClients env) = Inr sel"
    and t: "t = t0\<lparr>nt_clients := sel\<rparr>"
    using assms unfolding getTopology_def by (auto simp: fallible)
  from t0 obtain raw hub cs clients where raw: "get_prop (Some doc) network = Inr raw" "truthy raw"
      "get_prop raw ''hub'' = Inr hub" "truthy hub" "get_prop raw ''clients'' = Inr clients"
      "as_array clients = Some cs" "toChain hub Hub = Inr (nt_hub t0)"
      "map_checked (\<lambda>c. toChain (Some c) Client) cs = Inr (nt_clients t0)" "nt_network t0 = network"
    unfolding buildNetworkTopology_def and_then_do_ok check_ok or_throw_ok
    by (elim exE conjE) (auto intro: that)
  have "w_loadTopologyFile fs dir = Inr doc"
    using doc by (simp add: loadTopologyFile_def w_loadTopologyFile_def TOPOLOGY_FILE_def Let_def)
  then have "rawNetwork env fs dir = Inr (network, hub, cs)"
    using network raw(1-6) by (simp add: rawNetwork_def networkNames_agree)
  moreover have "map_checked (\<lambda>c. toWatcherChain (Some c) Client) cs = Inr (map watcher_view_of (nt_clients t0))"
    by (rule map_checked_agrees [OF raw(8)]) (rule toWatcherChain_agrees)
  moreover have "w_enabledClients env = enabledClients env"
    by (simp add: w_enabledClients_def enabledClients_def)
  ultimately show ?thesis
    using toWatcherChain_agrees [OF raw(7)] selectClients_agrees [OF sel] network raw(9)
    by (simp add: topologyChains_def allChains_def t networkNames_agree)
qed

lemma source_agrees:
  assumes "resolveDeploymentSource env network dir = Inr src" and "w_networkName env = Inr network"
  shows "resolveSource env dir = Inr src"
  using assms
  by (auto simp: resolveDeploymentSource_def resolveSource_def Let_def split: option.splits if_splits)

lemma find_filter: "List.find P xs = Some x \<Longrightarrow> \<exists>us. filter P xs = x # us"
  by (induction xs) (auto split: if_splits)

lemma rpcUrls_agree:
  assumes "rpc_url env c = Inr p"
  shows "\<exists>urls. w_rpcUrls env (watcher_view_of c) = Inr (snd p # urls)"
proof -
  obtain raw where raw: "rpc_text env c = Inr raw"
    and url: "List.find (\<lambda>u. u \<noteq> []) (map js_trim (js_split CHR '','' raw)) = Some (snd p)"
    using assms by (auto simp: rpc_url_def and_then_do_ok or_throw_ok)
  obtain us where "filter (\<lambda>u. u \<noteq> []) (map js_trim (js_split CHR '','' raw)) = snd p # us"
    using find_filter [OF url] by blast
  then show ?thesis
    unfolding w_rpcUrls_def watcher_view_of_simps raw [unfolded rpc_text_def] by (simp add: Let_def)
qed

lemma address_like_truthy: "address_like j \<Longrightarrow> truthy (Some j)"
  by (cases j) (auto simp: is_address_def)

lemma manifest_agrees:
  assumes "readManifest fs path c = Inr m"
  shows "readWatcherManifest fs path (watcher_view_of c) = Inr m"
proof -
  have doc: "fs path = Some (Document m)" and ok: "validateManifest m c = Inr ()"
    using assms by (auto simp: readManifest_def fallible split: option.splits document.splits)
  from ok obtain chainId domain contracts cctp where
    "get_prop (Some m) ''chainId'' = Inr chainId" "as_int_json chainId = Some (ct_chainId c)"
    "get_prop (Some m) ''domain'' = Inr domain" "as_int_json domain = Some (ct_domain c)"
    "get_prop (Some m) ''contracts'' = Inr contracts"
    "address_field (opt_prop contracts (if ct_role c = Hub then ''privacyPool'' else ''privacyPoolClient''))
      ''contracts.pool'' = Inr ()"
    "get_prop (Some m) ''cctp'' = Inr cctp"
    "address_field (opt_prop cctp ''messageTransmitter'') ''cctp.messageTransmitter'' = Inr ()"
    unfolding validateManifest_def and_then_do_ok check_ok by (elim exE conjE) (rule that; simp)
  then show ?thesis
    by (auto simp: readWatcherManifest_def doc address_field_ok address_test_def)
qed

lemma registry_path_agrees:
  assumes "loadInstance fs base environment inst = Inr (index, dir)"
    and "registrySlugForChain index c = Inr slug"
  shows "registryManifestPath fs base environment inst (watcher_view_of c)
    = Inr (js_join (js_join dir slug) ''privacy-pool.json'')"
proof -
  let ?dir = "js_join (js_join base environment) inst"
  have doc: "fs (js_join ?dir ''manifest.json'') = Some (Document index)" "dir = ?dir"
    using assms(1) by (auto simp: loadInstance_def Let_def split: option.splits document.splits)
  from assms(2) show ?thesis
    by (auto simp: registryManifestPath_def registrySlugForChain_def doc Let_def and_then_do_ok
        check_ok or_throw_ok split: prod.splits)
qed

text \<open>Where the watcher looks for the manifest of a chain.\<close>

definition manifest_path :: "files \<Rightarrow> string \<Rightarrow> deployment_source \<Rightarrow> watcher_chain \<Rightarrow> exn + string" where
  "manifest_path fs network source chain =
     (case source of
        Flat dir \<Rightarrow> Inr (js_join dir (manifestFile network chain))
      | Registry dir environment inst \<Rightarrow> registryManifestPath fs dir environment inst chain)"

lemma resolved_agrees:
  assumes "map_checked (rpc_url env) cs = Inr urls"
    and "list_all2 (\<lambda>c m. \<exists>path. manifest_path fs network src (watcher_view_of c) = Inr path
           \<and> readManifest fs path c = Inr m) cs ms"
  shows "\<exists>rs. map_checked (resolveChain env fs network src) (map watcher_view_of cs) = Inr rs
    \<and> map rc_chain rs = map watcher_view_of cs \<and> map rc_manifest rs = ms
    \<and> list_all2 (\<lambda>r u. \<exists>rest. rc_rpcUrls r = snd u # rest) rs urls"
  using assms
proof (induction cs arbitrary: urls ms)
  case Nil
  then show ?case by simp
next
  case (Cons c cs)
  obtain u us where u: "rpc_url env c = Inr u" and us: "map_checked (rpc_url env) cs = Inr us"
    and urls: "urls = u # us"
    using Cons.prems(1) by (auto simp: and_then_do_ok)
  obtain m ms' path where path: "manifest_path fs network src (watcher_view_of c) = Inr path"
      "readManifest fs path c = Inr m" and ms: "ms = m # ms'"
    and ms': "list_all2 (\<lambda>c m. \<exists>path. manifest_path fs network src (watcher_view_of c) = Inr path
           \<and> readManifest fs path c = Inr m) cs ms'"
    using Cons.prems(2) by (auto simp: list_all2_Cons1)
  obtain rest where rest: "w_rpcUrls env (watcher_view_of c) = Inr (snd u # rest)"
    using rpcUrls_agree [OF u] by blast
  have "resolveChain env fs network src (watcher_view_of c)
      = Inr \<lparr>rc_chain = watcher_view_of c, rc_rpcUrls = snd u # rest, rc_manifest = m\<rparr>"
    unfolding resolveChain_def manifest_path_def [symmetric]
    using rest path(1) manifest_agrees [OF path(2)] by simp
  moreover obtain rs where "map_checked (resolveChain env fs network src) (map watcher_view_of cs) = Inr rs"
      "map rc_chain rs = map watcher_view_of cs" "map rc_manifest rs = ms'"
      "list_all2 (\<lambda>r u. \<exists>rest. rc_rpcUrls r = snd u # rest) rs us"
    using Cons.IH [OF us ms'] by blast
  ultimately show ?case by (simp add: urls ms)
qed

lemma manifests_found:
  assumes "loadAllManifests fs src t = Inr ds"
  shows "list_all2 (\<lambda>c m. \<exists>path. manifest_path fs (nt_network t) src (watcher_view_of c) = Inr path
    \<and> readManifest fs path c = Inr m) (allChains t) (map cd_manifest ds)"
proof (cases src)
  case (Flat dir)
  have "js_join dir (manifestFile (nt_network t) (watcher_view_of c)) = flatPoolPath dir (nt_network t) c" for c
    by (simp add: flatPoolPath_def manifestFile_def networkSuffix_def)
  with assms Flat show ?thesis
    by (auto simp: loadAllManifests_def manifest_path_def list_all2_map2 fallible elim!: list_all2_mono)
next
  case (Registry dir environment inst)
  obtain index d where index: "loadInstance fs dir environment inst = Inr (index, d)"
    and all: "list_all2 (\<lambda>c x. and_then_do (registrySlugForChain index c) (\<lambda>slug.
        and_then_do (readManifest fs (js_join (js_join d slug) ''privacy-pool.json'') c) (\<lambda>m.
          Inr \<lparr>cd_chain = c, cd_manifest = m\<rparr>)) = Inr x) (allChains t) ds"
    using assms Registry
    by (auto simp: loadAllManifests_def and_then_do_ok map_checked_ok split: prod.splits)
  show ?thesis
    using all registry_path_agrees [OF index]
    by (auto simp: manifest_path_def Registry list_all2_map2 and_then_do_ok elim!: list_all2_mono)
qed

lemma buildConfig_sources:
  assumes "buildConfig env fs dir = Inr c"
  obtains source where "getTopology env fs dir = Inr (cfg_topology c)"
    "map_checked (rpc_url env) (allChains (cfg_topology c)) = Inr (cfg_rpcUrls c)"
    "resolveDeploymentSource env (nt_network (cfg_topology c)) dir = Inr source"
    "loadAllManifests fs source (cfg_topology c) = Inr (cfg_deployments c)"
  using assms unfolding buildConfig_def and_then_do_ok check_ok
  apply (elim exE conjE)
  apply (simp only: sum.inject)
  apply hypsubst
  apply (rule that; simp)
  done

lemma resolved_as_booted:
  assumes "buildConfig env fs dir = Inr c"
  shows "\<exists>rs. resolveChains env fs dir = Inr rs
    \<and> map rc_chain rs = map watcher_view_of (allChains (cfg_topology c))
    \<and> map rc_manifest rs = map cd_manifest (cfg_deployments c)
    \<and> list_all2 (\<lambda>r u. \<exists>rest. rc_rpcUrls r = snd u # rest) rs (cfg_rpcUrls c)"
proof -
  from assms obtain src where parts: "getTopology env fs dir = Inr (cfg_topology c)"
    "map_checked (rpc_url env) (allChains (cfg_topology c)) = Inr (cfg_rpcUrls c)"
    "resolveDeploymentSource env (nt_network (cfg_topology c)) dir = Inr src"
    "loadAllManifests fs src (cfg_topology c) = Inr (cfg_deployments c)"
    by (rule buildConfig_sources)
  have t: "topologyChains env fs dir = Inr (map watcher_view_of (allChains (cfg_topology c)))"
      "w_networkName env = Inr (nt_network (cfg_topology c))"
    using topology_agrees [OF parts(1)] by blast+
  have "resolveChains env fs dir = map_checked (resolveChain env fs (nt_network (cfg_topology c)) src)
      (map watcher_view_of (allChains (cfg_topology c)))"
    using t source_agrees [OF parts(3) t(2)] by (simp add: resolveChains_def)
  with resolved_agrees [OF parts(2) manifests_found [OF parts(4)]] show ?thesis by simp
qed

text \<open>C33: The two processes agree on the deployment. On an environment and documents the actor boots
  with, the watcher resolves its chains too: the same chains in the same order, hub first, with
  the same manifest for each, and its list of RPC URLs starts with the URL the actor uses.\<close>

theorem watcher_resolves_what_actor_boots:
  assumes "buildConfig env fs dir = Inr c"
  shows "\<exists>rs. resolveChains env fs dir = Inr rs
    \<and> map rc_chain rs = map watcher_view_of (allChains (cfg_topology c))
    \<and> map rc_manifest rs = map cd_manifest (cfg_deployments c)
    \<and> list_all2 (\<lambda>r u. \<exists>rest. rc_rpcUrls r = snd u # rest) rs (cfg_rpcUrls c)"
  using assms by (rule resolved_as_booted)

theorem watcher_resolves_what_actor_boots_witness:
  "\<exists>rs. resolveChains demo_env demo_files ''d'' = Inr rs
    \<and> map wc_chainId (map rc_chain rs) = [31337, 31338]"
proof -
  have c: "cfg_topology demo_config = demo_topology" by (simp add: demo_config_def)
  obtain rs where "resolveChains demo_env demo_files ''d'' = Inr rs"
    "map rc_chain rs = map watcher_view_of (allChains demo_topology)"
    using watcher_resolves_what_actor_boots [OF demo_built] unfolding c by blast
  then show ?thesis by (auto simp: allChains_def demo_topology_def demo_chain_def)
qed

end
