(* ===== verification/Api.thy ===== *)
theory Api
  imports QuickSync WatcherManifests
begin

text \<open>
  The watcher's public read API: the pure helpers of \<open>watcher/src/api/lib/api-helpers.ts\<close> and the
  boot and the six endpoints of \<open>watcher/src/api/index.ts\<close>.

  A handler reads the progress table first and the event table afterwards; each is an argument as
  it stands at that read, \<open>None\<close> for a progress query that throws. Rows with the same sort key come
  in insertion order. An exception that leaves a handler is \<open>Inl\<close> (Hono answers 500). Block numbers
  and times are whole, and \<open>Number\<close> of a \<open>bigint\<close> is \<open>number_of_bigint\<close>.
\<close>

section \<open>Helpers\<close>

definition MAX_LIMIT :: nat where "MAX_LIMIT = 1000"

record range_params =
  p_fromBlock :: int
  p_toBlock :: "int option"
  p_limit :: nat

definition digits :: "string \<Rightarrow> bool" where
  "digits s \<longleftrightarrow> s \<noteq> [] \<and> list_all is_digit s"

type_synonym query = "string \<Rightarrow> string option"

text \<open>\<open>Number\<close> of a digit text only rounds values far above the maximum, so the limit is exact.\<close>

definition parseRangeParams :: "query \<Rightarrow> string + range_params" where
  "parseRangeParams q =
     (case q ''fromBlock'' of
        None \<Rightarrow> Inl ''fromBlock is required and must be a non-negative integer''
      | Some from \<Rightarrow>
          check_then (digits from) ''fromBlock is required and must be a non-negative integer''
         (check_then (case q ''toBlock'' of None \<Rightarrow> True | Some to \<Rightarrow> digits to)
            ''toBlock must be a non-negative integer''
         (check_then (case q ''limit'' of None \<Rightarrow> True | Some l \<Rightarrow> digits l \<and> 1 \<le> parse_dec l)
            ''limit must be a positive integer''
         (Inr \<lparr>p_fromBlock = int (parse_dec from),
               p_toBlock = map_option (\<lambda>to. int (parse_dec to)) (q ''toBlock''),
               p_limit = (case q ''limit'' of None \<Rightarrow> MAX_LIMIT
                          | Some l \<Rightarrow> min (parse_dec l) MAX_LIMIT)\<rparr>))))"

definition nextCursorOf :: "int list \<Rightarrow> nat \<Rightarrow> string option" where
  "nextCursorOf blocks limit =
     (if length blocks < limit then None else Some (show_int (last blocks + 1)))"

definition IMMUTABLE :: string where "IMMUTABLE = ''public, max-age=86400, immutable''"
definition SHORT_LIVED :: string where "SHORT_LIVED = ''public, max-age=5''"

definition cacheControlFor :: "int option \<Rightarrow> int option \<Rightarrow> int \<Rightarrow> string" where
  "cacheControlFor toBlock through confirmations =
     (case toBlock of
        None \<Rightarrow> SHORT_LIVED
      | Some t \<Rightarrow> (case through of
            None \<Rightarrow> SHORT_LIVED
          | Some i \<Rightarrow> if t \<le> i - confirmations then IMMUTABLE else SHORT_LIVED))"

text \<open>Block number and time of a checkpoint.\<close>

definition checkpointBlock :: "string \<Rightarrow> (int \<times> int) option" where
  "checkpointBlock s =
     (if length s = 75 \<and> list_all is_digit s
      then Some (int (parse_dec (js_slice 26 42 s)), int (parse_dec (js_slice 0 10 s))) else None)"

datatype watcher_status = Healthy | Degraded | Stale | Unhealthy

definition classifyFreshness :: "int \<Rightarrow> int option \<Rightarrow> int \<Rightarrow> int option \<Rightarrow> watcher_status" where
  "classifyFreshness nowMs lastIndexedAtMs pollIntervalMs lagBlocks =
     (case lastIndexedAtMs of
        None \<Rightarrow> Unhealthy
      | Some indexedAt \<Rightarrow>
          if nowMs - indexedAt > 10 * pollIntervalMs then Unhealthy
          else if nowMs - indexedAt > 3 * pollIntervalMs then Stale
          else case lagBlocks of Some lag \<Rightarrow> if lag > 100 then Degraded else Healthy | None \<Rightarrow> Healthy)"

fun status_rank :: "watcher_status \<Rightarrow> nat" where
  "status_rank Healthy = 0" | "status_rank Degraded = 1" | "status_rank Stale = 2" | "status_rank Unhealthy = 3"

definition worstOf :: "watcher_status list \<Rightarrow> watcher_status" where
  "worstOf statuses = foldl (\<lambda>worst s. if status_rank s > status_rank worst then s else worst) Healthy statuses"

section \<open>Boot\<close>

record api =
  a_chains :: "resolved_chain list"
  a_hub :: resolved_chain
  a_allowlist :: "(int \<times> string list) list"
  poolReadsEnabled :: bool
  a_window :: int
  HUB_POOL_ADDRESS :: string
  a_codec :: pool_codec
  a_loadWasm :: "exn + unit"

definition QUICK_SYNC_MAX_BLOCK_WINDOW :: "env \<Rightarrow> exn + int" where
  "QUICK_SYNC_MAX_BLOCK_WINDOW env =
     (case env ''QUICK_SYNC_MAX_BLOCK_WINDOW'' of
        None \<Rightarrow> Inr 100000
      | Some raw \<Rightarrow> (case as_integer (js_number raw) of
            None \<Rightarrow> Inl ''QUICK_SYNC_MAX_BLOCK_WINDOW must be a positive integer''
          | Some n \<Rightarrow> check_then (1 \<le> n) ''QUICK_SYNC_MAX_BLOCK_WINDOW must be a positive integer'' (Inr n)))"

definition api_boot :: "env \<Rightarrow> files \<Rightarrow> string \<Rightarrow> pool_codec \<Rightarrow> (exn + unit) \<Rightarrow> exn + api" where
  "api_boot env fs deploymentsRoot K load =
     and_then_do (QUICK_SYNC_MAX_BLOCK_WINDOW env) (\<lambda>window.
     and_then_do (resolveChains env fs deploymentsRoot) (\<lambda>cs.
     and_then_do (protocolAddressAllowlist cs []) (\<lambda>allow.
     and_then_do (watcherMode env) (\<lambda>mode.
     and_then_do (or_throw (List.find (\<lambda>c. wc_role (rc_chain c) = Hub) cs) ''Cannot read properties of undefined'') (\<lambda>hub.
     and_then_do (manifest_contract hub ''privacyPool'') (\<lambda>pool.
     and_then_do (or_throw pool ''Cannot read properties of undefined'') (\<lambda>pool.
     and_then_do (to_lower_json pool) (\<lambda>address.
       Inr \<lparr>a_chains = cs, a_hub = hub, a_allowlist = allow, poolReadsEnabled = (mode = FullMode),
            a_window = window, HUB_POOL_ADDRESS = address, a_codec = K, a_loadWasm = load\<rparr>))))))))"

definition hub_id :: "api \<Rightarrow> int" where "hub_id A = wc_chainId (rc_chain (a_hub A))"
definition hub_confirmations :: "api \<Rightarrow> int" where "hub_confirmations A = wc_confirmations (rc_chain (a_hub A))"

section \<open>Progress\<close>

record api_progress =
  ap_chainId :: int
  ap_blockNumber :: int
  ap_blockTimestamp :: int

text \<open>A row whose checkpoint does not decode is skipped; \<open>Number(null)\<close> is 0.\<close>

fun api_progress_rows :: "ponder_row list \<Rightarrow> api_progress list" where
  "api_progress_rows [] = []"
| "api_progress_rows (r # rs) =
     (case ck_latest r of
        None \<Rightarrow> api_progress_rows rs
      | Some s \<Rightarrow> (case checkpointBlock s of
          None \<Rightarrow> api_progress_rows rs
        | Some (n, ts) \<Rightarrow> \<lparr>ap_chainId = (case ck_chain_id r of None \<Rightarrow> 0 | Some c \<Rightarrow> c),
              ap_blockNumber = n, ap_blockTimestamp = ts\<rparr> # api_progress_rows rs))"

definition watcherProgress :: "ponder_row list option \<Rightarrow> api_progress list" where
  "watcherProgress rows = (case rows of None \<Rightarrow> [] | Some rs \<Rightarrow> api_progress_rows rs)"

definition indexedThrough :: "ponder_row list option \<Rightarrow> int \<Rightarrow> int option" where
  "indexedThrough rows chainId =
     map_option ap_blockNumber (List.find (\<lambda>p. ap_chainId p = chainId) (watcherProgress rows))"

section \<open>Answers\<close>

record raw_item =
  ri_blockNumber :: int
  ri_txHash :: string
  ri_logIndex :: int
  ri_address :: "string option"
  ri_data :: string
  ri_topics :: "string list"

record nullifier_item =
  ni_blockNumber :: int
  ni_txHash :: string
  ni_logIndex :: int
  ni_hash :: string

record chain_report =
  cr_chainId :: int
  cr_lastIndexedBlock :: "int option"
  cr_head :: "int option"
  cr_lagBlocks :: "int option"
  cr_lastEventAtMs :: "int option"
  cr_status :: watcher_status

datatype body =
    Failure string
  | RawPage "raw_item list" "string option" "int option"
  | NullifierPage "nullifier_item list" "string option" "int option"
  | EngineSync qs_response int "int option"
  | NativeSync native_response
  | HealthReport watcher_status "chain_report list"

record answer =
  status_code :: int
  cache_control :: "string option"
  content :: body

definition failure :: "int \<Rightarrow> string \<Rightarrow> answer" where
  "failure code msg = \<lparr>status_code = code, cache_control = None, content = Failure msg\<rparr>"

text \<open>\<open>WHERE block BETWEEN ... ORDER BY block, logIndex LIMIT n\<close>.\<close>

definition in_range :: "range_params \<Rightarrow> int \<Rightarrow> bool" where
  "in_range p b \<longleftrightarrow> p_fromBlock p \<le> b \<and> (case p_toBlock p of None \<Rightarrow> True | Some t \<Rightarrow> b \<le> t)"

definition log_order :: "('r \<Rightarrow> int) \<Rightarrow> ('r \<Rightarrow> int) \<Rightarrow> 'r list \<Rightarrow> 'r list" where
  "log_order block index rows = sort_key block (sort_key index rows)"

definition select_page :: "('r \<Rightarrow> int) \<Rightarrow> ('r \<Rightarrow> int) \<Rightarrow> range_params \<Rightarrow> 'r list \<Rightarrow> 'r list" where
  "select_page block index p rows =
     take (p_limit p) (log_order block index (filter (\<lambda>r. in_range p (block r)) rows))"

section \<open>Event streams\<close>

definition topics_of :: "string \<Rightarrow> exn + string list" where
  "topics_of s = or_throw (parse_topics s) ''Unexpected token in JSON''"

definition commitments_endpoint ::
    "api \<Rightarrow> ponder_row list option \<Rightarrow> index_db \<Rightarrow> query \<Rightarrow> exn + answer" where
  "commitments_endpoint A progress db q =
     (if \<not> poolReadsEnabled A
      then Inr (failure 501 ''commitments are unavailable: watcher running in cctp-only mode'')
      else case parseRangeParams q of
        Inl e \<Rightarrow> Inr (failure 400 e)
      | Inr p \<Rightarrow>
          let through = indexedThrough progress (hub_id A);
              rows = select_page cb_blockNumber cb_logIndex p (commitment_batch db)
          in and_then_do (map_checked (\<lambda>r. and_then_do (topics_of (cb_rawTopics r)) (\<lambda>ts.
                 Inr \<lparr>ri_blockNumber = number_of_bigint (cb_blockNumber r), ri_txHash = cb_txHash r,
                      ri_logIndex = cb_logIndex r, ri_address = None, ri_data = cb_rawData r,
                      ri_topics = ts\<rparr>)) rows) (\<lambda>items.
             Inr \<lparr>status_code = 200,
                  cache_control = Some (cacheControlFor (p_toBlock p) through (hub_confirmations A)),
                  content = RawPage items (nextCursorOf (map cb_blockNumber rows) (p_limit p))
                    (map_option number_of_bigint through)\<rparr>))"

definition nullifiers_endpoint ::
    "api \<Rightarrow> ponder_row list option \<Rightarrow> index_db \<Rightarrow> query \<Rightarrow> exn + answer" where
  "nullifiers_endpoint A progress db q =
     (if \<not> poolReadsEnabled A
      then Inr (failure 501 ''nullifiers are unavailable: watcher running in cctp-only mode'')
      else case parseRangeParams q of
        Inl e \<Rightarrow> Inr (failure 400 e)
      | Inr p \<Rightarrow>
          let through = indexedThrough progress (hub_id A);
              rows = select_page nu_blockNumber nu_logIndex p (nullifier_table db)
          in Inr \<lparr>status_code = 200,
                  cache_control = Some (cacheControlFor (p_toBlock p) through (hub_confirmations A)),
                  content = NullifierPage
                    (map (\<lambda>r. \<lparr>ni_blockNumber = number_of_bigint (nu_blockNumber r),
                       ni_txHash = nu_txHash r, ni_logIndex = nu_logIndex r, ni_hash = nu_hash r\<rparr>) rows)
                    (nextCursorOf (map nu_blockNumber rows) (p_limit p))
                    (map_option number_of_bigint through)\<rparr>)"

definition log_item :: "raw_row \<Rightarrow> exn + raw_item" where
  "log_item r = and_then_do (topics_of (raw_topics r)) (\<lambda>ts.
     Inr \<lparr>ri_blockNumber = number_of_bigint (raw_blockNumber r), ri_txHash = raw_txHash r,
          ri_logIndex = raw_logIndex r, ri_address = Some (raw_address r),
          ri_data = raw_data r, ri_topics = ts\<rparr>)"

definition serve_logs ::
    "api \<Rightarrow> ponder_row list option \<Rightarrow> index_db \<Rightarrow> int \<Rightarrow> string \<Rightarrow> range_params \<Rightarrow> exn + answer" where
  "serve_logs A progress db chainId address p =
     (let through = indexedThrough progress chainId;
          rows = select_page raw_blockNumber raw_logIndex p
            (filter (\<lambda>r. raw_chainId r = chainId \<and> raw_address r = address) (raw_event_log db))
      in and_then_do (map_checked log_item rows) (\<lambda>items.
         and_then_do (or_throw (List.find (\<lambda>c. wc_chainId (rc_chain c) = chainId) (a_chains A))
             ''Cannot read properties of undefined'') (\<lambda>chain.
         Inr \<lparr>status_code = 200,
              cache_control = Some (cacheControlFor (p_toBlock p) through (wc_confirmations (rc_chain chain))),
              content = RawPage items (nextCursorOf (map raw_blockNumber rows) (p_limit p))
                (map_option number_of_bigint through)\<rparr>)))"

definition allowed_address :: "api \<Rightarrow> int \<Rightarrow> string option \<Rightarrow> string option" where
  "allowed_address A chainId address =
     (case address of
        None \<Rightarrow> None
      | Some a \<Rightarrow> (case map_of (a_allowlist A) chainId of
            None \<Rightarrow> None
          | Some allowed \<Rightarrow> if a \<noteq> [] \<and> to_lower a \<in> set allowed then Some (to_lower a) else None))"

definition logs_endpoint ::
    "api \<Rightarrow> ponder_row list option \<Rightarrow> index_db \<Rightarrow> query \<Rightarrow> exn + answer" where
  "logs_endpoint A progress db q =
     (case q ''chainId'' of
        None \<Rightarrow> Inr (failure 400 ''chainId is required'')
      | Some raw \<Rightarrow>
          if \<not> digits raw then Inr (failure 400 ''chainId is required'')
          else case allowed_address A (number_of_bigint (int (parse_dec raw))) (q ''address'') of
            None \<Rightarrow> Inr (failure 400 ''address must be an indexed protocol contract for chainId'')
          | Some address \<Rightarrow> (case parseRangeParams q of
                Inl e \<Rightarrow> Inr (failure 400 e)
              | Inr p \<Rightarrow> serve_logs A progress db (number_of_bigint (int (parse_dec raw))) address p))"

section \<open>Quick-sync\<close>

text \<open>\<open>Number(param)\<close> where it is an integer. An absent parameter is handled before.\<close>

definition int_param :: "string option \<Rightarrow> int option" where
  "int_param raw = (case raw of None \<Rightarrow> None | Some s \<Rightarrow> as_integer (js_number s))"

text \<open>The pool's logs of a block window, in block and log order, with their topics parsed.\<close>

definition raw_log_of :: "raw_row \<Rightarrow> exn + raw_log_row" where
  "raw_log_of r = and_then_do (topics_of (raw_topics r)) (\<lambda>ts.
     Inr \<lparr>rl_blockNumber = raw_blockNumber r, rl_txHash = raw_txHash r,
          rl_logIndex = raw_logIndex r, rl_data = raw_data r, rl_topics = ts\<rparr>)"

definition pool_rows :: "api \<Rightarrow> index_db \<Rightarrow> int \<Rightarrow> int \<Rightarrow> raw_row list" where
  "pool_rows A db from to =
     log_order raw_blockNumber raw_logIndex
       (filter (\<lambda>r. raw_chainId r = hub_id A \<and> raw_address r = HUB_POOL_ADDRESS A
          \<and> from \<le> raw_blockNumber r \<and> raw_blockNumber r \<le> to) (raw_event_log db))"

definition pool_logs :: "api \<Rightarrow> index_db \<Rightarrow> int \<Rightarrow> int \<Rightarrow> exn + raw_log_row list" where
  "pool_logs A db from to = map_checked raw_log_of (pool_rows A db from to)"

text \<open>A window inside the indexed range: whole blocks, up to the configured size.\<close>

definition serve_window :: "api \<Rightarrow> index_db \<Rightarrow> int \<Rightarrow> int \<Rightarrow> bool \<Rightarrow> exn + answer" where
  "serve_window A db start through ready =
     (let windowEnd = min (number_of_bigint through)
            (number_of_bigint (number_of_bigint (start + a_window A) - 1))
      in and_then_do (pool_logs A db start windowEnd) (\<lambda>rows.
         and_then_do (engineQuickSync ready (a_codec A) rows) (\<lambda>result.
           Inr \<lparr>status_code = 200,
                cache_control = Some (cacheControlFor (Some windowEnd) (Some through) (hub_confirmations A)),
                content = EngineSync result windowEnd (Some (number_of_bigint through))\<rparr>)))"

text \<open>The Poseidon flag is the state of the process: a handler returns it with its answer.\<close>

definition quick_sync_v1 ::
    "api \<Rightarrow> ponder_row list option \<Rightarrow> index_db \<Rightarrow> string \<Rightarrow> query \<Rightarrow> bool \<Rightarrow> (exn + answer) \<times> bool" where
  "quick_sync_v1 A progress db chain_param q ready =
     (if \<not> poolReadsEnabled A
      then (Inr (failure 501 ''quick-sync is unavailable: watcher running in cctp-only mode''), ready)
      else if int_param (Some chain_param) \<noteq> Some (hub_id A)
      then (Inr (failure 400 ''quick-sync is only served for the hub chain (Railgun events)''), ready)
      else case int_param (q ''startingBlock'') of
        None \<Rightarrow> (Inr (failure 400 ''startingBlock is required and must be a non-negative integer''), ready)
      | Some start \<Rightarrow>
          if start < 0
          then (Inr (failure 400 ''startingBlock is required and must be a non-negative integer''), ready)
          else case initPoseidonWasm (a_loadWasm A) ready of
            Inl e \<Rightarrow> (Inl e, ready)
          | Inr ready \<Rightarrow>
              (case indexedThrough progress (hub_id A) of
                 None \<Rightarrow> (Inr \<lparr>status_code = 200, cache_control = Some SHORT_LIVED,
                     content = EngineSync emptyQuickSync start None\<rparr>, ready)
               | Some through \<Rightarrow>
                   if through < start
                   then (Inr \<lparr>status_code = 200, cache_control = Some SHORT_LIVED,
                       content = EngineSync emptyQuickSync start (Some (number_of_bigint through))\<rparr>, ready)
                   else (serve_window A db start through ready, ready)))"

definition empty_native :: "int \<Rightarrow> native_response" where
  "empty_native synced = \<lparr>schemaVersion = NATIVE_QUICK_SYNC_SCHEMA_VERSION, syncedThroughBlock = synced,
     shields = [], transacts = [], nullifiers = [], unshields = []\<rparr>"

definition quick_sync_v2 ::
    "api \<Rightarrow> ponder_row list option \<Rightarrow> index_db \<Rightarrow> string \<Rightarrow> query \<Rightarrow> bool \<Rightarrow> (exn + answer) \<times> bool" where
  "quick_sync_v2 A progress db chain_param q ready =
     (if \<not> poolReadsEnabled A
      then (Inr (failure 501 ''quick-sync is unavailable: watcher running in cctp-only mode''), ready)
      else if int_param (Some chain_param) \<noteq> Some (hub_id A)
      then (Inr (failure 400 ''quick-sync is only served for the hub chain (Railgun events)''), ready)
      else case int_param (q ''fromBlock'') of
        None \<Rightarrow> (Inr (failure 400 ''fromBlock is required and must be a non-negative integer''), ready)
      | Some from \<Rightarrow>
          if from < 0
          then (Inr (failure 400 ''fromBlock is required and must be a non-negative integer''), ready)
          else case int_param (q ''toBlock'') of
            None \<Rightarrow> (Inr (failure 400 ''toBlock is required and must be a non-negative integer''), ready)
          | Some to \<Rightarrow>
              if to < 0
              then (Inr (failure 400 ''toBlock is required and must be a non-negative integer''), ready)
              else if to < from then (Inr (failure 400 ''toBlock must be >= fromBlock''), ready)
              else case initPoseidonWasm (a_loadWasm A) ready of
                Inl e \<Rightarrow> (Inl e, ready)
              | Inr ready \<Rightarrow>
                  let nothing = (Inr \<lparr>status_code = 200, cache_control = Some SHORT_LIVED,
                        content = NativeSync (empty_native (max 0 (number_of_bigint (from - 1))))\<rparr>, ready)
                  in case indexedThrough progress (hub_id A) of
                       None \<Rightarrow> nothing
                     | Some through \<Rightarrow>
                         if through < from then nothing
                         else let synced = min (number_of_bigint through) to
                              in (and_then_do (pool_logs A db from synced) (\<lambda>rows.
                                  and_then_do (serializeNativeQuickSync ready (a_codec A) rows synced) (\<lambda>m.
                                    Inr \<lparr>status_code = 200,
                                         cache_control = Some (cacheControlFor (Some synced) (Some through)
                                           (hub_confirmations A)),
                                         content = NativeSync m\<rparr>)), ready))"

section \<open>Health\<close>

text \<open>\<open>heads\<close> is the head a chain's client reports: \<open>None\<close> without a client or when it throws.\<close>

definition chain_health :: "(string \<Rightarrow> int option) \<Rightarrow> int \<Rightarrow> api_progress list \<Rightarrow> resolved_chain \<Rightarrow> chain_report" where
  "chain_health heads nowMs progress chain =
     (let c = rc_chain chain;
          p = List.find (\<lambda>x. ap_chainId x = wc_chainId c) progress;
          head = heads (wc_name c);
          lastIndexed = map_option ap_blockNumber p;
          lag = (case head of None \<Rightarrow> None
                 | Some h \<Rightarrow> map_option (\<lambda>l. number_of_bigint (h - l)) lastIndexed);
          eventAt = map_option (\<lambda>p. number_of_bigint (ap_blockTimestamp p) * 1000) p
      in \<lparr>cr_chainId = wc_chainId c, cr_lastIndexedBlock = map_option number_of_bigint lastIndexed,
          cr_head = map_option number_of_bigint head, cr_lagBlocks = lag, cr_lastEventAtMs = eventAt,
          cr_status = classifyFreshness nowMs eventAt (wc_pollingIntervalMs c) lag\<rparr>)"

definition health_endpoint ::
    "api \<Rightarrow> ponder_row list option \<Rightarrow> (string \<Rightarrow> int option) \<Rightarrow> int \<Rightarrow> answer" where
  "health_endpoint A progress heads nowMs =
     (let reports = map (chain_health heads nowMs (watcherProgress progress)) (a_chains A);
          status = worstOf (map cr_status reports)
      in \<lparr>status_code = (if status = Stale \<or> status = Unhealthy then 503 else 200),
          cache_control = None, content = HealthReport status reports\<rparr>)"

section \<open>Ordered selections\<close>

lemma sorted_split:
  "sorted (map f xs) \<Longrightarrow> xs = filter (\<lambda>x. f x \<le> (e :: int)) xs @ filter (\<lambda>x. e < f x) xs"
proof (induction xs)
  case (Cons x xs)
  show ?case
  proof (cases "f x \<le> e")
    case True
    with Cons show ?thesis by simp
  next
    case False
    with Cons.prems have "\<forall>y \<in> set xs. e < f y" by auto
    with False show ?thesis by (simp add: filter_empty_conv filter_id_conv not_le)
  qed
qed simp

lemma filter_log_order: "filter P (log_order b i rows) = log_order b i (filter P rows)"
  by (simp add: log_order_def filter_sort_key)

lemma sorted_log_order: "sorted (map b (log_order b i rows))"
  by (simp add: log_order_def)

definition log_before :: "('r \<Rightarrow> int) \<Rightarrow> ('r \<Rightarrow> int) \<Rightarrow> 'r \<Rightarrow> 'r \<Rightarrow> bool" where
  "log_before block index x y \<longleftrightarrow> block x < block y \<or> block x = block y \<and> index x \<le> index y"

lemma insort_log_before:
  assumes "sorted_wrt (log_before b i) ys" and "\<forall>y \<in> set ys. i x \<le> i y"
  shows "sorted_wrt (log_before b i) (insort_key b x ys)"
  using assms by (induction ys) (auto simp: log_before_def set_insort_key)

lemma log_order_before: "sorted_wrt (log_before b i) (log_order b i rows)"
proof -
  have "sorted (map i xs) \<Longrightarrow> sorted_wrt (log_before b i) (sort_key b xs)" for xs
    by (induction xs) (auto intro!: insort_log_before)
  then show ?thesis by (simp add: log_order_def)
qed

lemma distinct_log_order [simp]: "distinct (log_order b i rows) = distinct rows"
  by (simp add: log_order_def)

lemma set_log_order [simp]: "set (log_order b i rows) = set rows"
  by (simp add: log_order_def)

lemma pool_rows_split:
  assumes "e \<le> to" and "from \<le> e + 1"
  shows "pool_rows A db from to = pool_rows A db from e @ pool_rows A db (e + 1) to"
proof -
  let ?all = "pool_rows A db from to"
  have "?all = filter (\<lambda>r. raw_blockNumber r \<le> e) ?all @ filter (\<lambda>r. e < raw_blockNumber r) ?all"
    by (rule sorted_split) (simp add: pool_rows_def sorted_log_order)
  also have "filter (\<lambda>r. raw_blockNumber r \<le> e) ?all = pool_rows A db from e"
    unfolding pool_rows_def filter_log_order filter_filter
    using assms by (intro arg_cong [where f = "log_order _ _"] filter_cong) auto
  also have "filter (\<lambda>r. e < raw_blockNumber r) ?all = pool_rows A db (e + 1) to"
    unfolding pool_rows_def filter_log_order filter_filter
    using assms by (intro arg_cong [where f = "log_order _ _"] filter_cong) auto
  finally show ?thesis .
qed

lemma pool_logs_split:
  assumes "e \<le> to" and "from \<le> e + 1" and "pool_logs A db from to = Inr logs"
  obtains xs ys where "pool_logs A db from e = Inr xs" "pool_logs A db (e + 1) to = Inr ys" "logs = xs @ ys"
  using assms(3) unfolding pool_logs_def pool_rows_split [OF assms(1,2)] map_checked_append
  by (auto simp: and_then_do_ok)

section \<open>Numbers in a query\<close>

lemma digit_not_space: "is_digit c \<Longrightarrow> \<not> is_js_space c"
  by (auto simp: is_digit_def is_js_space_def Let_def)

lemma trim_digits:
  assumes "list_all is_digit s" shows "js_trim s = s"
proof -
  have drop: "dropWhile is_js_space t = t" if "list_all is_digit t" for t
    using that by (cases t) (simp_all add: digit_not_space)
  show ?thesis using assms drop [of s] drop [of "rev s"] by (simp add: js_trim_def)
qed

lemma split_first_digits:
  assumes "list_all is_digit s" and "list_all (\<lambda>c. \<not> is_digit c) seps"
  shows "split_first seps s = (s, None)"
proof -
  have rest: "dropWhile (\<lambda>c. c \<notin> set seps) s = []"
    using assms by (auto simp: dropWhile_eq_Nil_conv list_all_iff)
  show ?thesis by (simp only: split_first_def rest list.case)
qed

lemma js_number_digits:
  assumes "list_all is_digit s" "s \<noteq> []" and "parse_dec s < 2 ^ 53"
  shows "js_number s = Fin (of_nat (parse_dec s))"
proof -
  obtain c cs where s: "s = c # cs" using assms(2) by (cases s) auto
  have c: "is_digit c" using assms(1) s by simp
  have not: "c \<noteq> CHR ''I''" "c \<noteq> CHR ''+''" "c \<noteq> CHR ''-''"
    using c by (auto simp: is_digit_def)
  have unsign: "unsign s = (1, s)" using not s by (simp add: unsign_def)
  have low: "to_lower (take 2 s) \<notin> {''0x'', ''0b'', ''0o''}"
  proof (cases cs)
    case (Cons d ds)
    have "is_digit d" using assms(1) s Cons by simp
    then have "lower_char d = d" by (auto simp: is_digit_def lower_char_def Let_def)
    moreover have "d \<noteq> CHR ''x''" "d \<noteq> CHR ''b''" "d \<noteq> CHR ''o''"
      using \<open>is_digit d\<close> by (auto simp: is_digit_def)
    ultimately show ?thesis using s Cons by (simp add: to_lower_def)
  qed (simp add: s to_lower_def)
  have "list_all (\<lambda>c. \<not> is_digit c) ''eE''" "list_all (\<lambda>c. \<not> is_digit c) ''.''"
    by (simp_all add: is_digit_def)
  then have splits: "split_first ''eE'' s = (s, None)" "split_first ''.'' s = (s, None)"
    using split_first_digits [OF assms(1)] by blast+
  have dec: "parse_decimal s = Some (of_nat (parse_dec s))"
    using assms(1,2) by (simp add: parse_decimal_def unsign splits is_digit_def parse_dec_def)
  have bin: "to_binary64 (of_nat (parse_dec s)) = Fin (of_nat (parse_dec s))"
  proof (cases "parse_dec s = 0")
    case False
    then have "dbl (rat_of_nat (parse_dec s)) = of_nat (parse_dec s)"
      using dbl_int [of "int (parse_dec s)"] assms(3) by simp
    moreover have "rat_of_nat (parse_dec s) < 2 ^ 1024"
    proof -
      have "rat_of_nat (parse_dec s) < of_nat (2 ^ 53)" using assms(3) by (simp only: of_nat_less_iff)
      also have "\<dots> \<le> 2 ^ 1024" by simp
      finally show ?thesis .
    qed
    moreover have "1 \<le> rat_of_nat (parse_dec s)" using False by simp
    ultimately show ?thesis by (simp add: to_binary64_def Let_def)
  qed (use round_int [of 0] in \<open>simp add: to_binary64_def\<close>)
  have "js_trim s = s" using assms(1) by (rule trim_digits)
  then show ?thesis
    using low dec bin not assms(2) s by (auto simp: js_number_def Let_def)
qed

lemma int_param_show:
  assumes "0 \<le> n" and "n < 2 ^ 53"
  shows "int_param (Some (show_int n)) = Some n"
proof -
  have "list_all is_digit (show_int n)" "show_int n \<noteq> []" "parse_dec (show_int n) = nat n"
    using assms digits_show_nat by (auto simp: show_int_def list_all_iff)
  then have "js_number (show_int n) = Fin (of_nat (nat n))"
    using assms js_number_digits [of "show_int n"] by (simp add: nat_less_iff)
  then show ?thesis using assms by (simp add: int_param_def as_integer_def)
qed

section \<open>Following the quick-sync pages\<close>

definition starting_at :: "int \<Rightarrow> query" where
  "starting_at b = (\<lambda>k. if k = ''startingBlock'' then Some (show_int b) else None)"

text \<open>The documented client: ask from a block, resume at \<open>servedThroughBlock + 1\<close> until it equals
  \<open>indexedThrough\<close>. \<open>None\<close> when a page fails or the fuel runs out.\<close>

fun follow_pages :: "nat \<Rightarrow> (int \<Rightarrow> exn + answer) \<Rightarrow> int \<Rightarrow> qs_response list option" where
  "follow_pages 0 ask b = None"
| "follow_pages (Suc n) ask b =
     (case ask b of
        Inl e \<Rightarrow> None
      | Inr a \<Rightarrow> (case content a of
            EngineSync r served through \<Rightarrow>
              if through = Some served then Some [r]
              else map_option ((#) r) (follow_pages n ask (served + 1))
          | _ \<Rightarrow> None))"

definition join_all :: "qs_response list \<Rightarrow> qs_response" where
  "join_all pages = foldr join_pages pages emptyQuickSync"

lemma join_empty: "join_pages r emptyQuickSync = r"
  by (simp add: join_pages_def emptyQuickSync_def)

text \<open>A request inside the indexed range, with every number exact.\<close>

definition can_sync :: "api \<Rightarrow> ponder_row list option \<Rightarrow> string \<Rightarrow> int \<Rightarrow> bool" where
  "can_sync A progress cp through \<longleftrightarrow> poolReadsEnabled A \<and> int_param (Some cp) = Some (hub_id A)
     \<and> indexedThrough progress (hub_id A) = Some through \<and> 0 \<le> through
     \<and> 1 \<le> a_window A \<and> through + a_window A < 2 ^ 53 \<and> a_loadWasm A = Inr ()"

definition window_end :: "api \<Rightarrow> int \<Rightarrow> int \<Rightarrow> int" where
  "window_end A through b = min through (b + a_window A - 1)"

lemma sync_page:
  assumes "can_sync A progress cp through" and "0 \<le> b" and "b \<le> through"
    and "pool_logs A db b (window_end A through b) = Inr logs"
    and "engineQuickSync True (a_codec A) logs = Inr r"
  shows "fst (quick_sync_v1 A progress db cp (starting_at b) ready)
    = Inr \<lparr>status_code = 200,
        cache_control = Some (cacheControlFor (Some (window_end A through b)) (Some through) (hub_confirmations A)),
        content = EngineSync r (window_end A through b) (Some through)\<rparr>"
proof -
  have ok: "poolReadsEnabled A" "int_param (Some cp) = Some (hub_id A)"
      "indexedThrough progress (hub_id A) = Some through" "a_loadWasm A = Inr ()"
    and bounds: "1 \<le> a_window A" "through + a_window A < 2 ^ 53"
    using assms(1) by (simp_all add: can_sync_def)
  have b: "int_param (starting_at b ''startingBlock'') = Some b"
    unfolding starting_at_def using assms(2,3) bounds by (simp add: int_param_show)
  have nums: "number_of_bigint through = through" "number_of_bigint (b + a_window A) = b + a_window A"
      "number_of_bigint (b + a_window A - 1) = b + a_window A - 1"
    using assms(2,3) bounds by (intro number_small; linarith)+
  have init: "initPoseidonWasm (a_loadWasm A) ready = Inr True"
    by (simp add: initPoseidonWasm_def ok)
  have "serve_window A db b through True = Inr \<lparr>status_code = 200,
      cache_control = Some (cacheControlFor (Some (window_end A through b)) (Some through) (hub_confirmations A)),
      content = EngineSync r (window_end A through b) (Some through)\<rparr>"
    using assms(4,5) by (simp add: serve_window_def nums window_end_def Let_def)
  moreover have "fst (quick_sync_v1 A progress db cp (starting_at b) ready) = serve_window A db b through True"
    unfolding quick_sync_v1_def b init ok(2,3) using ok(1) assms(2,3) by simp
  ultimately show ?thesis by simp
qed

lemma follow_complete:
  assumes "can_sync A progress cp through" and "0 \<le> b" and "b \<le> through"
    and "pool_logs A db b through = Inr logs" and "engineQuickSync True (a_codec A) logs = Inr whole"
    and "nat (through - b) < fuel"
  shows "\<exists>pages. follow_pages fuel (\<lambda>b. fst (quick_sync_v1 A progress db cp (starting_at b) ready)) b = Some pages
    \<and> join_all pages = whole"
  using assms(2-)
proof (induction fuel arbitrary: b logs whole)
  case (Suc fuel)
  let ?ask = "\<lambda>b. fst (quick_sync_v1 A progress db cp (starting_at b) ready)"
  let ?e = "window_end A through b"
  have e: "?e \<le> through" "b \<le> ?e" using assms(1) Suc.prems(2) by (auto simp: window_end_def can_sync_def)
  show ?case
  proof (cases "?e = through")
    case True
    have "?ask b = Inr \<lparr>status_code = 200, cache_control = Some (cacheControlFor (Some ?e) (Some through)
        (hub_confirmations A)), content = EngineSync whole ?e (Some through)\<rparr>"
      by (rule sync_page [OF assms(1) Suc.prems(1,2) _ Suc.prems(4)]) (simp add: True Suc.prems(3))
    then show ?thesis using True by (simp add: join_all_def join_empty)
  next
    case False
    obtain xs ys where xs: "pool_logs A db b ?e = Inr xs" and ys: "pool_logs A db (?e + 1) through = Inr ys"
      and logs: "logs = xs @ ys"
      using pool_logs_split [OF e(1) _ Suc.prems(3)] e(2) by auto
    obtain r rest where r: "engineQuickSync True (a_codec A) xs = Inr r"
        "engineQuickSync True (a_codec A) ys = Inr rest" "whole = join_pages r rest"
      using engine_split Suc.prems(4) unfolding logs by metis
    have fuel: "nat (through - (?e + 1)) < fuel" using False e Suc.prems(5) by linarith
    obtain pages where "follow_pages fuel ?ask (?e + 1) = Some pages" "join_all pages = rest"
      using Suc.IH [OF _ _ ys r(2)] fuel False e Suc.prems(1,2) by force
    then show ?thesis
      using sync_page [OF assms(1) Suc.prems(1,2) xs r(1)] False r(3) by (simp add: join_all_def)
  qed
qed simp

text \<open>Quick-sync pages cover everything exactly once. Over an index that does not move, a client
  that follows \<open>servedThroughBlock + 1\<close> from any indexed block stops after at most one page per
  block, and its pages put together are the serialization of all pool logs from that block to the
  indexed head: no log is skipped at a window boundary and none is served twice.\<close>

theorem quick_sync_pages_complete:
  assumes "can_sync A progress cp through" and "0 \<le> b" and "b \<le> through"
    and "pool_logs A db b through = Inr logs" and "engineQuickSync True (a_codec A) logs = Inr whole"
  shows "\<exists>pages. follow_pages (nat (through - b + 1))
      (\<lambda>b. fst (quick_sync_v1 A progress db cp (starting_at b) ready)) b = Some pages
    \<and> foldr join_pages pages emptyQuickSync = whole"
  using follow_complete [OF assms, of "nat (through - b + 1)"] assms(3) by (auto simp: join_all_def)

section \<open>The empty page\<close>

definition v2_range :: "int \<Rightarrow> int \<Rightarrow> query" where
  "v2_range from to = (\<lambda>k. if k = ''fromBlock'' then Some (show_int from)
     else if k = ''toBlock'' then Some (show_int to) else None)"

text \<open>The empty page of \<open>/v1\<close> overclaims. Asked from a block past the indexed head, \<open>/v1\<close> answers
  an empty page with that block as \<open>servedThroughBlock\<close>, so the resume rule skips the block: the
  logs the pool emits in it are on no page the client asks for afterwards. \<open>/v2\<close> answers the
  same question with the block before.\<close>

theorem empty_page_skips_block:
  assumes "can_sync A progress cp through" and "through < b" and "b < 2 ^ 53"
  shows "\<exists>a. fst (quick_sync_v1 A progress db cp (starting_at b) ready) = Inr a
      \<and> content a = EngineSync emptyQuickSync b (Some through)
    \<and> (\<exists>n. fst (quick_sync_v2 A progress db cp (v2_range b b) ready) = Inr n
        \<and> content n = NativeSync (empty_native (b - 1)))
    \<and> (\<forall>db' to r. b + 1 \<le> to \<longrightarrow> r \<in> set (pool_rows A db' (b + 1) to) \<longrightarrow> raw_blockNumber r \<noteq> b)"
proof -
  have ok: "poolReadsEnabled A" "int_param (Some cp) = Some (hub_id A)"
      "indexedThrough progress (hub_id A) = Some through" "a_loadWasm A = Inr ()" "0 \<le> through"
    using assms(1) by (simp_all add: can_sync_def)
  have b: "int_param (starting_at b ''startingBlock'') = Some b"
      "int_param (v2_range b b ''fromBlock'') = Some b" "int_param (v2_range b b ''toBlock'') = Some b"
    using assms(2,3) ok(5) by (simp_all add: starting_at_def v2_range_def int_param_show)
  have nums: "number_of_bigint through = through" "number_of_bigint (b - 1) = b - 1"
    using assms(2,3) ok(5) by (intro number_small; linarith)+
  have init: "initPoseidonWasm (a_loadWasm A) ready = Inr True"
    by (simp add: initPoseidonWasm_def ok)
  have "\<exists>a. fst (quick_sync_v1 A progress db cp (starting_at b) ready) = Inr a
      \<and> content a = EngineSync emptyQuickSync b (Some through)"
    unfolding quick_sync_v1_def b init ok(2,3) using ok(1,5) assms(2) by (simp add: nums)
  moreover have "\<exists>n. fst (quick_sync_v2 A progress db cp (v2_range b b) ready) = Inr n
      \<and> content n = NativeSync (empty_native (b - 1))"
    unfolding quick_sync_v2_def b init ok(2,3) using ok(1,5) assms(2) by (simp add: nums Let_def max_def)
  ultimately show ?thesis by (auto simp: pool_rows_def)
qed

section \<open>Cursors\<close>

lemma last_page_block:
  assumes "length page = p_limit p" and "0 < p_limit p"
  shows "nextCursorOf (map block page) (p_limit p) = Some (show_int (block (last page) + 1))"
  using assms by (cases page rule: rev_cases) (auto simp: nextCursorOf_def)

text \<open>A cursor moves past the block of the last item. Every row of that block that did not fit the
  page is on no page from the cursor on, whatever the later limits: a client that follows
  \<open>nextCursor\<close> never sees it.\<close>

theorem cursor_drops_rest_of_block:
  assumes "page = select_page block index p rows" and "length page = p_limit p" and "0 < p_limit p"
    and "r \<in> set rows" and "block r = block (last page)" and "r \<notin> set page"
    and "p_fromBlock q \<ge> block (last page) + 1"
  shows "nextCursorOf (map block page) (p_limit p) = Some (show_int (block (last page) + 1))
    \<and> in_range p (block r) \<and> r \<notin> set (select_page block index q rows)"
proof -
  have "last page \<in> set page" using assms(2,3) by (cases page) auto
  then have "in_range p (block (last page))"
    unfolding assms(1) select_page_def by (auto dest: in_set_takeD)
  moreover have "r \<notin> set (select_page block index q rows)"
    using assms(5,7) by (auto simp: select_page_def in_range_def dest!: in_set_takeD)
  ultimately show ?thesis using last_page_block [OF assms(2,3)] assms(5) by simp
qed

section \<open>Caching\<close>

text \<open>What the index holds up to a block, for one address and in the event tables.\<close>

definition settled_upto :: "int \<Rightarrow> index_db \<Rightarrow> index_db \<Rightarrow> bool" where
  "settled_upto n db db' \<longleftrightarrow>
     filter (\<lambda>r. raw_blockNumber r \<le> n) (raw_event_log db) = filter (\<lambda>r. raw_blockNumber r \<le> n) (raw_event_log db')
     \<and> filter (\<lambda>r. cb_blockNumber r \<le> n) (commitment_batch db) = filter (\<lambda>r. cb_blockNumber r \<le> n) (commitment_batch db')
     \<and> filter (\<lambda>r. nu_blockNumber r \<le> n) (nullifier_table db) = filter (\<lambda>r. nu_blockNumber r \<le> n) (nullifier_table db')"

lemma immutable_iff:
  "cacheControlFor toBlock through conf = IMMUTABLE \<longleftrightarrow>
     (\<exists>t i. toBlock = Some t \<and> through = Some i \<and> t \<le> i - conf)"
  by (auto simp: cacheControlFor_def IMMUTABLE_def SHORT_LIVED_def split: option.splits)

lemma select_settled:
  assumes "p_toBlock p = Some t" and "t \<le> n"
    and "filter (\<lambda>r. block r \<le> n) rows = filter (\<lambda>r. block r \<le> n) rows'"
  shows "select_page block index p rows = select_page block index p rows'"
proof -
  have *: "filter (\<lambda>r. in_range p (block r)) xs = filter (\<lambda>r. in_range p (block r)) (filter (\<lambda>r. block r \<le> n) xs)" for xs
    using assms(1,2) by (auto simp: in_range_def intro: filter_cong)
  show ?thesis by (simp only: select_page_def * [of rows] * [of rows'] assms(3))
qed

lemma pool_rows_settled:
  assumes "to \<le> n" and "settled_upto n db db'"
  shows "pool_rows A db from to = pool_rows A db' from to"
proof -
  let ?P = "\<lambda>r. raw_chainId r = hub_id A \<and> raw_address r = HUB_POOL_ADDRESS A
      \<and> from \<le> raw_blockNumber r \<and> raw_blockNumber r \<le> to"
  have *: "filter ?P xs = filter ?P (filter (\<lambda>r. raw_blockNumber r \<le> n) xs)" for xs
    using assms(1) by (auto intro: filter_cong)
  have "filter (\<lambda>r. raw_blockNumber r \<le> n) (raw_event_log db) = filter (\<lambda>r. raw_blockNumber r \<le> n) (raw_event_log db')"
    using assms(2) by (simp add: settled_upto_def)
  then show ?thesis by (simp only: pool_rows_def * [of "raw_event_log db"] * [of "raw_event_log db'"])
qed

text \<open>The items and the cursor of a page, without the head that is reported beside them.\<close>

fun page_of :: "body \<Rightarrow> body" where
  "page_of (RawPage items cursor _) = RawPage items cursor None"
| "page_of (NullifierPage items cursor _) = NullifierPage items cursor None"
| "page_of (EngineSync r served _) = EngineSync r served None"
| "page_of b = b"


section \<open>Who is answered\<close>

text \<open>Raw logs are served for indexed protocol contracts only, and for the chain asked about: every
  item of a page comes from a row of that chain, at an address of that chain's allowlist, inside
  the requested block range; a page has at most 1000 items.\<close>

theorem logs_only_of_protocol_contracts:
  assumes "logs_endpoint A progress db q = Inr a" and "content a = RawPage items cursor through"
  shows "\<exists>c addr allowed. map_of (a_allowlist A) c = Some allowed \<and> addr \<in> set allowed
    \<and> length items \<le> 1000
    \<and> (\<forall>i \<in> set items. ri_address i = Some addr
         \<and> (\<exists>r \<in> set (raw_event_log db). raw_chainId r = c \<and> raw_address r = addr \<and> raw_data r = ri_data i
              \<and> raw_txHash r = ri_txHash i \<and> topics_of (raw_topics r) = Inr (ri_topics i)))"
proof -
  obtain raw addr p where addr: "allowed_address A (number_of_bigint (int (parse_dec raw))) (q ''address'') = Some addr"
    and p: "parseRangeParams q = Inr p"
    and a: "serve_logs A progress db (number_of_bigint (int (parse_dec raw))) addr p = Inr a"
    using assms by (auto simp: logs_endpoint_def failure_def split: option.splits if_splits sum.splits)
  let ?c = "number_of_bigint (int (parse_dec raw))"
  obtain allowed where allowed: "map_of (a_allowlist A) ?c = Some allowed" "addr \<in> set allowed"
    using addr by (auto simp: allowed_address_def split: option.splits if_splits)
  let ?rows = "select_page raw_blockNumber raw_logIndex p
      (filter (\<lambda>r. raw_chainId r = ?c \<and> raw_address r = addr) (raw_event_log db))"
  have items: "map_checked log_item ?rows = Inr items"
    using a assms(2) by (auto simp: serve_logs_def Let_def and_then_do_ok)
  have "length ?rows \<le> p_limit p" by (simp add: select_page_def)
  moreover have "p_limit p \<le> 1000"
    using p by (auto simp: parseRangeParams_def fallible MAX_LIMIT_def split: option.splits)
  moreover have "length items = length ?rows"
    using items by (simp add: map_checked_ok list_all2_lengthD)
  moreover have "ri_address i = Some addr \<and> (\<exists>r \<in> set (raw_event_log db). raw_chainId r = ?c
      \<and> raw_address r = addr \<and> raw_data r = ri_data i \<and> raw_txHash r = ri_txHash i
      \<and> topics_of (raw_topics r) = Inr (ri_topics i))" if "i \<in> set items" for i
  proof -
    from map_checked_member [OF items that] obtain r where "r \<in> set ?rows" "log_item r = Inr i" by blast
    then show ?thesis
      by (auto simp: select_page_def log_item_def and_then_do_ok dest!: in_set_takeD)
  qed
  ultimately show ?thesis using allowed by (intro exI conjI ballI) auto
qed

section \<open>Health\<close>

lemma rank_inject: "status_rank a = status_rank b \<longleftrightarrow> a = b"
  by (cases a; cases b) simp_all

lemma worst_from:
  "status_rank (foldl (\<lambda>worst s. if status_rank s > status_rank worst then s else worst) w ss)
    = Max (insert (status_rank w) (status_rank ` set ss))"
proof (induction ss arbitrary: w)
  case (Cons s ss)
  have "Max (insert (status_rank (if status_rank w < status_rank s then s else w)) (status_rank ` set ss))
      = Max (insert (status_rank w) (insert (status_rank s) (status_rank ` set ss)))"
    by (cases "ss = []") (auto simp: max_def Max_insert)
  with Cons show ?case by simp
qed simp

lemma stale_rank:
  assumes "0 \<le> poll"
  shows "2 \<le> status_rank (classifyFreshness now t poll lag)
    \<longleftrightarrow> (case t of None \<Rightarrow> True | Some t \<Rightarrow> now - t > 3 * poll)"
  using assms by (cases t; cases lag) (auto simp: classifyFreshness_def)

lemma chain_stale:
  assumes "0 \<le> wc_pollingIntervalMs (rc_chain c)"
  shows "2 \<le> status_rank (cr_status (chain_health heads nowMs progress c)) \<longleftrightarrow>
    (case List.find (\<lambda>x. ap_chainId x = wc_chainId (rc_chain c)) progress of
       None \<Rightarrow> True
     | Some p \<Rightarrow> nowMs - number_of_bigint (ap_blockTimestamp p) * 1000 > 3 * wc_pollingIntervalMs (rc_chain c))"
  unfolding chain_health_def Let_def chain_report.simps stale_rank [OF assms]
  by (cases "List.find (\<lambda>x. ap_chainId x = wc_chainId (rc_chain c)) progress") simp_all

text \<open>The watcher's health endpoint answers 503 exactly when some chain was never indexed or its
  last indexed event is more than three poll intervals old, whatever the heads say; the block lag
  alone never makes it fail.\<close>

theorem watcher_health_fails_iff_stale:
  assumes "\<forall>c \<in> set (a_chains A). 0 \<le> wc_pollingIntervalMs (rc_chain c)"
  shows "status_code (health_endpoint A progress heads nowMs) = 503 \<longleftrightarrow>
    (\<exists>c \<in> set (a_chains A).
       (case List.find (\<lambda>x. ap_chainId x = wc_chainId (rc_chain c)) (watcherProgress progress) of
          None \<Rightarrow> True
        | Some p \<Rightarrow> nowMs - number_of_bigint (ap_blockTimestamp p) * 1000 > 3 * wc_pollingIntervalMs (rc_chain c)))"
proof -
  let ?reports = "map (chain_health heads nowMs (watcherProgress progress)) (a_chains A)"
  have rank: "s = Stale \<or> s = Unhealthy \<longleftrightarrow> 2 \<le> status_rank s" for s by (cases s) simp_all
  have "status_code (health_endpoint A progress heads nowMs) = 503
      \<longleftrightarrow> 2 \<le> status_rank (worstOf (map cr_status ?reports))"
    by (simp add: health_endpoint_def Let_def rank)
  also have "\<dots> \<longleftrightarrow> (\<exists>c \<in> set (a_chains A).
      2 \<le> status_rank (cr_status (chain_health heads nowMs (watcherProgress progress) c)))"
    by (simp add: worstOf_def worst_from Max_ge_iff image_image)
  finally show ?thesis using assms chain_stale by auto
qed

section \<open>Witnesses\<close>

text \<open>The API decodes checkpoints as the actor does.\<close>

lemma checkpoint_decoders_agree:
  "checkpointBlock s = map_option (\<lambda>d. (c_blockNumber d, c_blockTimestamp d)) (decodePonderCheckpoint s)"
  by (simp add: checkpointBlock_def decodePonderCheckpoint_def)

definition demo_hub :: resolved_chain where
  "demo_hub = \<lparr>rc_chain = \<lparr>wc_chainId = 1, wc_name = ''hub'', wc_role = Hub, wc_manifestPrefix = ''hub'',
     wc_domain = 0, wc_rpcUrlEnv = ''RPC'', wc_defaultRpcUrl = None, wc_pollingIntervalMs = 1000,
     wc_confirmations = 2\<rparr>, rc_rpcUrls = [''u''], rc_manifest = JNull\<rparr>"

definition demo_api :: api where
  "demo_api = \<lparr>a_chains = [demo_hub], a_hub = demo_hub, a_allowlist = [(1, [''0xpool''])],
     poolReadsEnabled = True, a_window = 2, HUB_POOL_ADDRESS = ''0xpool'', a_codec = demo_codec,
     a_loadWasm = Inr ()\<rparr>"

definition demo_raw :: "int \<Rightarrow> int \<Rightarrow> raw_row" where
  "demo_raw b i = \<lparr>raw_id = ''1:0xt:'' @ show_int i, raw_chainId = 1, raw_address = ''0xpool'',
     raw_blockNumber = b, raw_txHash = demo_hash, raw_logIndex = i, raw_data = ''0x'',
     raw_topics = serializeTopics [''0xaa'']\<rparr>"

definition demo_batch :: "int \<Rightarrow> int \<Rightarrow> commitment_row" where
  "demo_batch b i = \<lparr>cb_id = ''1:0xt:'' @ show_int i, cb_kind = ''shield'', cb_treeNumber = 0,
     cb_startPosition = 0, cb_commitmentCount = 1, cb_blockNumber = b, cb_txHash = demo_hash,
     cb_logIndex = i, cb_rawData = ''0x'', cb_rawTopics = serializeTopics [''0xaa'']\<rparr>"

definition demo_db :: index_db where
  "demo_db = empty_index\<lparr>raw_event_log := [demo_raw 103 2, demo_raw 100 0],
     commitment_batch := [demo_batch 100 0, demo_batch 100 1]\<rparr>"

definition demo_progress :: "ponder_row list option" where
  "demo_progress = Some [\<lparr>ck_chain_id = Some 1,
     ck_latest = Some (pad_dec 10 1700000000 @ pad_dec 16 1 @ pad_dec 16 103 @ pad_dec 33 0)\<rparr>]"

lemma demo_watcherProgress:
  "watcherProgress demo_progress = [\<lparr>ap_chainId = 1, ap_blockNumber = 103, ap_blockTimestamp = 1700000000\<rparr>]"
proof -
  have "decodePonderCheckpoint (pad_dec 10 1700000000 @ pad_dec 16 1 @ pad_dec 16 103 @ pad_dec 33 0)
      = Some \<lparr>c_blockTimestamp = 1700000000, c_chainId = 1, c_blockNumber = 103\<rparr>"
    using decode_padded [of 1700000000 1 103 "pad_dec 33 0"] by (simp add: digits_pad_dec)
  then show ?thesis by (simp add: watcherProgress_def demo_progress_def checkpoint_decoders_agree)
qed

lemma demo_ids: "hub_id demo_api = 1" "hub_confirmations demo_api = 2"
  by (simp_all add: hub_id_def hub_confirmations_def demo_api_def demo_hub_def)

lemma demo_through: "indexedThrough demo_progress (hub_id demo_api) = Some 103"
  by (simp add: indexedThrough_def demo_watcherProgress demo_ids)

lemma demo_can_sync: "can_sync demo_api demo_progress (show_int 1) 103"
  using demo_through
  by (simp add: can_sync_def int_param_show demo_ids) (simp add: demo_api_def)

lemma demo_logs:
  "pool_logs demo_api demo_db 100 103 = Inr [\<lparr>rl_blockNumber = 100, rl_txHash = demo_hash, rl_logIndex = 0,
      rl_data = ''0x'', rl_topics = [''0xaa'']\<rparr>, \<lparr>rl_blockNumber = 103, rl_txHash = demo_hash,
      rl_logIndex = 2, rl_data = ''0x'', rl_topics = [''0xaa'']\<rparr>]"
proof -
  have "pool_rows demo_api demo_db 100 103 = [demo_raw 100 0, demo_raw 103 2]"
    by (simp add: pool_rows_def log_order_def demo_db_def demo_ids)
      (simp add: demo_raw_def demo_api_def)
  moreover have "raw_log_of (demo_raw b i) = Inr \<lparr>rl_blockNumber = b, rl_txHash = demo_hash, rl_logIndex = i,
      rl_data = ''0x'', rl_topics = [''0xaa'']\<rparr>" for b i
    by (simp add: raw_log_of_def demo_raw_def topics_of_def topics_read_back)
  ultimately show ?thesis by (simp add: pool_logs_def)
qed

theorem quick_sync_pages_complete_witness:
  "\<exists>logs whole pages. pool_logs demo_api demo_db 100 103 = Inr logs \<and> length logs = 2
    \<and> engineQuickSync True demo_codec logs = Inr whole
    \<and> follow_pages 4 (\<lambda>b. fst (quick_sync_v1 demo_api demo_progress demo_db (show_int 1) (starting_at b) False)) 100
        = Some pages
    \<and> foldr join_pages pages emptyQuickSync = whole"
proof -
  have "\<exists>whole. engineQuickSync True demo_codec [\<lparr>rl_blockNumber = 100, rl_txHash = demo_hash, rl_logIndex = 0,
      rl_data = ''0x'', rl_topics = [''0xaa'']\<rparr>, \<lparr>rl_blockNumber = 103, rl_txHash = demo_hash,
      rl_logIndex = 2, rl_data = ''0x'', rl_topics = [''0xaa'']\<rparr>] = Inr whole"
    unfolding served_rows(1) [OF demo_codec_ok]
    by (simp add: row_served_def demo_codec_def demo_pool_event_def demo_preimage_def)
  then obtain whole where whole: "engineQuickSync True (a_codec demo_api) [\<lparr>rl_blockNumber = 100,
      rl_txHash = demo_hash, rl_logIndex = 0, rl_data = ''0x'', rl_topics = [''0xaa'']\<rparr>,
      \<lparr>rl_blockNumber = 103, rl_txHash = demo_hash, rl_logIndex = 2, rl_data = ''0x'',
       rl_topics = [''0xaa'']\<rparr>] = Inr whole"
    by (auto simp: demo_api_def)
  with quick_sync_pages_complete [OF demo_can_sync _ _ demo_logs whole, of False] demo_logs
  show ?thesis by (auto simp: demo_api_def)
qed

theorem empty_page_skips_block_witness:
  "\<exists>a. fst (quick_sync_v1 demo_api demo_progress demo_db (show_int 1) (starting_at 104) False) = Inr a
    \<and> content a = EngineSync emptyQuickSync 104 (Some 103)"
proof -
  have "(103::int) < 104" "(104::int) < 2 ^ 53" by simp_all
  from empty_page_skips_block [OF demo_can_sync this, of demo_db False] show ?thesis by blast
qed

definition one_per_page :: "int \<Rightarrow> range_params" where
  "one_per_page b = \<lparr>p_fromBlock = b, p_toBlock = None, p_limit = 1\<rparr>"

theorem cursor_drops_rest_of_block_witness:
  "select_page cb_blockNumber cb_logIndex (one_per_page 100) (commitment_batch demo_db) = [demo_batch 100 0]
    \<and> demo_batch 100 1 \<in> set (commitment_batch demo_db)
    \<and> demo_batch 100 1 \<notin> set (select_page cb_blockNumber cb_logIndex (one_per_page 101) (commitment_batch demo_db))"
proof -
  have page: "select_page cb_blockNumber cb_logIndex (one_per_page 100) (commitment_batch demo_db) = [demo_batch 100 0]"
    by (simp add: select_page_def log_order_def in_range_def one_per_page_def demo_db_def)
      (simp add: demo_batch_def)
  have "demo_batch 100 1 \<noteq> demo_batch 100 0" by (simp add: demo_batch_def)
  with cursor_drops_rest_of_block [OF page [symmetric], of "demo_batch 100 1" "one_per_page 101"] page
  show ?thesis by (simp add: one_per_page_def demo_db_def) (simp add: demo_batch_def)
qed

definition demo_range :: query where
  "demo_range = map_of [(''fromBlock'', ''90''), (''toBlock'', ''101'')]"

lemma demo_range_parsed:
  "parseRangeParams demo_range = Inr \<lparr>p_fromBlock = 90, p_toBlock = Some 101, p_limit = 1000\<rparr>"
  by (simp add: demo_range_def parseRangeParams_def digits_def is_digit_def parse_dec_def MAX_LIMIT_def)


definition demo_logs_query :: query where
  "demo_logs_query = map_of [(''chainId'', ''1''), (''address'', ''0xPool''), (''fromBlock'', ''0'')]"

lemma demo_logs_query_parsed:
  "parseRangeParams demo_logs_query = Inr \<lparr>p_fromBlock = 0, p_toBlock = None, p_limit = 1000\<rparr>"
  by (simp add: demo_logs_query_def parseRangeParams_def digits_def is_digit_def parse_dec_def MAX_LIMIT_def)

theorem logs_only_of_protocol_contracts_witness:
  "\<exists>a items cursor through. logs_endpoint demo_api demo_progress demo_db demo_logs_query = Inr a
    \<and> content a = RawPage items cursor through \<and> length items \<le> 1000"
proof -
  let ?p = "\<lparr>p_fromBlock = 0, p_toBlock = None, p_limit = 1000\<rparr>"
  have rows: "select_page raw_blockNumber raw_logIndex ?p
      (filter (\<lambda>r. raw_chainId r = 1 \<and> raw_address r = ''0xpool'') (raw_event_log demo_db))
      = [demo_raw 100 0, demo_raw 103 2]"
    by (simp add: select_page_def log_order_def in_range_def demo_db_def) (simp add: demo_raw_def)
  have item: "topics_of (raw_topics (demo_raw b i)) = Inr [''0xaa'']" for b i
    by (simp add: demo_raw_def topics_of_def topics_read_back)
  have one: "number_of_bigint 1 = 1" by (intro number_small) simp
  have lower: "to_lower ''0xPool'' = ''0xpool''" by (simp add: to_lower_def lower_char_def char_of_eq_iff)
  have addr: "allowed_address demo_api 1 (Some ''0xPool'') = Some ''0xpool''"
    by (simp add: allowed_address_def) (simp add: demo_api_def lower)
  have "\<exists>a items cursor through. serve_logs demo_api demo_progress demo_db 1 ''0xpool'' ?p = Inr a
      \<and> content a = RawPage items cursor through"
    unfolding serve_logs_def Let_def rows
    by (simp add: log_item_def item) (simp add: demo_api_def demo_hub_def)
  then obtain a items cursor through where
      "serve_logs demo_api demo_progress demo_db 1 ''0xpool'' ?p = Inr a"
      and page: "content a = RawPage items cursor through" by blast
  then have a: "logs_endpoint demo_api demo_progress demo_db demo_logs_query = Inr a"
    unfolding logs_endpoint_def demo_logs_query_parsed
    by (simp add: demo_logs_query_def digits_def is_digit_def parse_dec_def one addr)
  from logs_only_of_protocol_contracts [OF a page] a page show ?thesis by blast
qed

lemma health_answers: "status_code (health_endpoint A p h n) = 200 \<or> status_code (health_endpoint A p h n) = 503"
  by (simp add: health_endpoint_def Let_def)

lemma demo_staleness:
  "(\<exists>c \<in> set (a_chains demo_api). case List.find (\<lambda>x. ap_chainId x = wc_chainId (rc_chain c)) (watcherProgress demo_progress) of
      None \<Rightarrow> True
    | Some p \<Rightarrow> nowMs - number_of_bigint (ap_blockTimestamp p) * 1000 > 3 * wc_pollingIntervalMs (rc_chain c))
    \<longleftrightarrow> nowMs > 1700000003000"
proof -
  have "number_of_bigint 1700000000 = 1700000000" by (intro number_small) simp
  then show ?thesis unfolding demo_watcherProgress by (simp add: demo_api_def demo_hub_def)
qed

theorem watcher_health_fails_iff_stale_witness:
  "status_code (health_endpoint demo_api demo_progress (\<lambda>n. None) 1700000002000) = 200
    \<and> status_code (health_endpoint demo_api demo_progress (\<lambda>n. None) 1700000009000) = 503"
proof -
  have poll: "\<forall>c \<in> set (a_chains demo_api). 0 \<le> wc_pollingIntervalMs (rc_chain c)"
    by (simp add: demo_api_def demo_hub_def)
  have "status_code (health_endpoint demo_api demo_progress (\<lambda>n. None) now) = 503 \<longleftrightarrow> now > 1700000003000" for now
    unfolding watcher_health_fails_iff_stale [OF poll] by (rule demo_staleness)
  from this [of 1700000002000] this [of 1700000009000] health_answers [of demo_api demo_progress "\<lambda>n. None" 1700000002000]
  show ?thesis by simp
qed

end
