(* ===== verification/PonderConfig.thy ===== *)
theory PonderConfig
  imports Api
begin

text \<open>
  \<open>watcher/ponder.config.ts\<close>: the chains and the contract set handed to Ponder, and what the rest of
  the watcher and the actor rely on: that every event Ponder delivers has a handler, that every
  contract it indexes can be read back through \<open>/v1/logs\<close>, and that the deliveries the actor itself
  makes are among the ones it indexes.

  An object built by \<open>Object.fromEntries\<close> is an association list in which a later entry with the same
  key takes the place of the earlier one. Ponder is the consumer of the value; only the filter it is
  given is read here.
\<close>

section \<open>The configuration\<close>

definition from_entries :: "(string \<times> 'a) list \<Rightarrow> (string \<times> 'a) list" where
  "from_entries kvs = fold (\<lambda>(k, v) acc. AList.update k v acc) kvs []"

record chain_config =
  cg_id :: int
  cg_rpc :: "string list"
  cg_maxRequestsPerSecond :: int
  cg_pollingInterval :: jsnum

record pool_config =
  pc_address :: "json option"
  pc_startBlock :: start_block

record ponder_settings =
  g_chains :: "(string \<times> chain_config) list"
  g_PrivacyPool :: "(string \<times> pool_config) list option"
  g_PrivacyPoolClient :: "(string \<times> pool_config) list option"
  g_MessageTransmitter :: "(string \<times> transmitter_config) list"

text \<open>The polling interval: an unset variable falls back to the topology, empty text is the number 0.\<close>

definition polling_interval :: "env \<Rightarrow> resolved_chain \<Rightarrow> jsnum" where
  "polling_interval env c =
     (case env (''POLLING_INTERVAL_'' @ show_int (wc_chainId (rc_chain c))) of
        Some raw \<Rightarrow> js_number raw
      | None \<Rightarrow> Fin (of_int (wc_pollingIntervalMs (rc_chain c))))"

definition chain_entry :: "env \<Rightarrow> resolved_chain \<Rightarrow> exn + string \<times> chain_config" where
  "chain_entry env c =
     and_then_do (chainMaxRequestsPerSecond env c) (\<lambda>rps.
       Inr (wc_name (rc_chain c), \<lparr>cg_id = wc_chainId (rc_chain c), cg_rpc = rc_rpcUrls c,
          cg_maxRequestsPerSecond = rps, cg_pollingInterval = polling_interval env c\<rparr>))"

text \<open>\<open>deployBlock ?? 0\<close>.\<close>

definition deploy_block :: "resolved_chain \<Rightarrow> exn + start_block" where
  "deploy_block c =
     and_then_do (get_prop (Some (rc_manifest c)) ''deployBlock'') (\<lambda>b.
       Inr (case b of None \<Rightarrow> AtBlock 0 | Some JNull \<Rightarrow> AtBlock 0 | Some j \<Rightarrow> FromManifest j))"

definition pool_entry :: "string \<Rightarrow> resolved_chain \<Rightarrow> exn + string \<times> pool_config" where
  "pool_entry key c =
     and_then_do (manifest_contract c key) (\<lambda>address.
     and_then_do (deploy_block c) (\<lambda>start.
       Inr (wc_name (rc_chain c), \<lparr>pc_address = address, pc_startBlock = start\<rparr>)))"

definition transmitter_entry :: "env \<Rightarrow> resolved_chain \<Rightarrow> exn + string \<times> transmitter_config" where
  "transmitter_entry env c =
     and_then_do (messageTransmitterChain env c) (\<lambda>t. Inr (wc_name (rc_chain c), t))"

definition ponder_config :: "env \<Rightarrow> files \<Rightarrow> string \<Rightarrow> exn + ponder_settings" where
  "ponder_config env fs deploymentsRoot =
     and_then_do (resolveChains env fs deploymentsRoot) (\<lambda>resolved.
     and_then_do (map_checked (chain_entry env) resolved) (\<lambda>cs.
     and_then_do (or_throw (List.find (\<lambda>c. wc_role (rc_chain c) = Hub) resolved) ''Cannot read properties of undefined'') (\<lambda>hub.
     and_then_do (pool_entry ''privacyPool'' hub) (\<lambda>hub_pool.
     and_then_do (map_checked (pool_entry ''privacyPoolClient'')
         (filter (\<lambda>c. wc_role (rc_chain c) = Client) resolved)) (\<lambda>client_pools.
     and_then_do (map_checked (transmitter_entry env) resolved) (\<lambda>transmitters.
     and_then_do (watcherMode env) (\<lambda>mode.
       Inr \<lparr>g_chains = from_entries cs,
            g_PrivacyPool = (if mode = FullMode then Some [hub_pool] else None),
            g_PrivacyPoolClient = (if mode = FullMode then Some (from_entries client_pools) else None),
            g_MessageTransmitter = from_entries transmitters\<rparr>)))))))"

section \<open>What the configuration asks for\<close>

text \<open>The logs of a chain the configuration asks Ponder for, start blocks aside: those of the address of
  a contract entry of that chain, and for \<open>MessageReceived\<close> of the caller of the filter, if any.
  Addresses are compared without case.\<close>

definition same_address :: "json option \<Rightarrow> string \<Rightarrow> bool" where
  "same_address j s = (case as_string j of None \<Rightarrow> False | Some a \<Rightarrow> to_lower a = to_lower s)"

definition pool_asks :: "(string \<times> pool_config) list option \<Rightarrow> string \<Rightarrow> string \<Rightarrow> bool" where
  "pool_asks entries name addr =
     (case entries of None \<Rightarrow> False | Some es \<Rightarrow>
       (case map_of es name of None \<Rightarrow> False | Some p \<Rightarrow> same_address (pc_address p) addr))"

definition transmitter_asks :: "ponder_settings \<Rightarrow> string \<Rightarrow> string \<Rightarrow> string option \<Rightarrow> bool" where
  "transmitter_asks G name addr caller =
     (case map_of (g_MessageTransmitter G) name of
        None \<Rightarrow> False
      | Some t \<Rightarrow> same_address (mt_address t) addr
          \<and> (case (caller, mt_caller_filter t) of (Some c, Some a) \<Rightarrow> to_lower c = a | _ \<Rightarrow> True))"

definition asks_for :: "ponder_settings \<Rightarrow> string \<Rightarrow> index_log \<Rightarrow> bool" where
  "asks_for G name e =
     (case ev_args e of
        MessageSent _ \<Rightarrow> transmitter_asks G name (ev_address e) None
      | MessageReceived _ _ caller \<Rightarrow> transmitter_asks G name (ev_address e) (Some caller)
      | CrossChainShieldInitiated _ _ \<Rightarrow> pool_asks (g_PrivacyPoolClient G) name (ev_address e)
      | UnshieldReceived _ _ \<Rightarrow> pool_asks (g_PrivacyPoolClient G) name (ev_address e)
      | _ \<Rightarrow> pool_asks (g_PrivacyPool G) name (ev_address e))"

section \<open>Entries\<close>

lemma from_entries_lookup: "map_of (from_entries kvs) = map_of (rev kvs)"
proof -
  have "map_of (fold (\<lambda>(k, v) acc. AList.update k v acc) kvs acc) = map_of acc ++ map_of (rev kvs)" for acc
    by (induction kvs arbitrary: acc) (auto simp: update_conv' map_add_def fun_eq_iff split: option.splits)
  then show ?thesis by (simp add: from_entries_def)
qed

lemma entry_found:
  assumes "map_checked f cs = Inr kvs" and "\<And>c k v. f c = Inr (k, v) \<Longrightarrow> k = wc_name (rc_chain c)"
    and "map_of (from_entries kvs) name = Some v"
  obtains c where "c \<in> set cs" "wc_name (rc_chain c) = name" "f c = Inr (name, v)"
proof -
  have "(name, v) \<in> set kvs" using assms(3) by (auto simp: from_entries_lookup dest: map_of_SomeD)
  then obtain c where c: "c \<in> set cs" "f c = Inr (name, v)" using map_checked_member [OF assms(1)] by blast
  show thesis by (rule that) (use c assms(2) in auto)
qed

lemma find_entry:
  assumes "map_checked f cs = Inr kvs" and "\<And>c k v. f c = Inr (k, v) \<Longrightarrow> k = wc_name (rc_chain c)"
    and "distinct (map (wc_name \<circ> rc_chain) cs)" and "c \<in> set cs"
  obtains v where "f c = Inr (wc_name (rc_chain c), v)" "map_of (from_entries kvs) (wc_name (rc_chain c)) = Some v"
proof -
  have all: "list_all2 (\<lambda>c kv. f c = Inr kv) cs kvs" using assms(1) by (simp add: map_checked_ok)
  have key: "fst kv = wc_name (rc_chain c)" if "f c = Inr kv" for c kv
    using that assms(2) by (cases kv) auto
  have "map fst kvs = map (wc_name \<circ> rc_chain) cs"
    using all by (intro nth_equalityI) (auto simp: list_all2_conv_all_nth key)
  with assms(3) have dist: "distinct (map fst (rev kvs))" by (metis distinct_rev rev_map)
  obtain i where i: "i < length cs" "c = cs ! i" using assms(4) by (auto simp: in_set_conv_nth)
  define kv where "kv = kvs ! i"
  have kv: "kv \<in> set kvs" "f c = Inr kv"
    using all i by (auto simp: list_all2_conv_all_nth kv_def)
  obtain v where v: "kv = (wc_name (rc_chain c), v)" using assms(2) kv(2) by (cases kv) auto
  show thesis
  proof (rule that)
    show "f c = Inr (wc_name (rc_chain c), v)" using kv(2) v by simp
    show "map_of (from_entries kvs) (wc_name (rc_chain c)) = Some v"
      unfolding from_entries_lookup using dist kv(1) v by (intro map_of_is_SomeI) auto
  qed
qed

lemma entry_names:
  "chain_entry env c = Inr (k, cg) \<Longrightarrow> k = wc_name (rc_chain c) \<and> cg_id cg = wc_chainId (rc_chain c)"
  "pool_entry key c = Inr (k, p) \<Longrightarrow> k = wc_name (rc_chain c) \<and> manifest_contract c key = Inr (pc_address p)"
  "transmitter_entry env c = Inr (k, t) \<Longrightarrow> k = wc_name (rc_chain c) \<and> messageTransmitterChain env c = Inr t"
  by (auto simp: chain_entry_def pool_entry_def transmitter_entry_def and_then_do_ok)

lemma ponder_config_parts:
  assumes "ponder_config env fs dir = Inr G" and "resolveChains env fs dir = Inr rs"
  obtains cs hub hub_pool pools ts mode where "map_checked (chain_entry env) rs = Inr cs"
    and "List.find (\<lambda>c. wc_role (rc_chain c) = Hub) rs = Some hub" and "pool_entry ''privacyPool'' hub = Inr hub_pool"
    and "map_checked (pool_entry ''privacyPoolClient'') (filter (\<lambda>c. wc_role (rc_chain c) = Client) rs) = Inr pools"
    and "map_checked (transmitter_entry env) rs = Inr ts" and "watcherMode env = Inr mode"
    and "g_chains G = from_entries cs" and "g_PrivacyPool G = (if mode = FullMode then Some [hub_pool] else None)"
    and "g_PrivacyPoolClient G = (if mode = FullMode then Some (from_entries pools) else None)"
    and "g_MessageTransmitter G = from_entries ts"
  using assms by (auto simp: ponder_config_def and_then_do_ok or_throw_def split: option.splits)

section \<open>What is indexed can be read\<close>

lemma map_checked_image:
  assumes "map_checked f xs = Inr ys" and "x \<in> set xs" and "f x = Inr y"
  shows "y \<in> set ys"
  using assms by (auto simp: map_checked_ok list_all2_conv_all_nth in_set_conv_nth)

lemma lower_Nil [simp]: "to_lower s = [] \<longleftrightarrow> s = []"
  by (simp add: to_lower_def)

lemma contract_readable:
  assumes contract: "manifest_contract c key = Inr j" and same: "same_address j s" and "s \<noteq> []"
    and addresses: "chain_addresses c = Inr as"
  shows "to_lower s \<in> set as"
proof -
  obtain a where j: "j = Some (JStr a)" and a: "to_lower a = to_lower s"
    using same by (auto simp: same_address_def as_string_def split: option.splits json.splits)
  with assms(3) have "a \<noteq> []" by (metis lower_Nil)
  obtain contracts where c: "get_prop (Some (rc_manifest c)) ''contracts'' = Inr contracts"
      "get_prop contracts key = Inr j"
    using contract by (auto simp: manifest_contract_def and_then_do_ok)
  then obtain kvs where kvs: "contracts = Some (JObj kvs)" "map_of kvs key = Some (JStr a)"
    by (cases contracts rule: option.exhaust; cases "the contracts") (auto simp: get_prop_def j)
  obtain own where "map_checked (\<lambda>a. case a of None \<Rightarrow> Inl ''Cannot read properties of undefined''
        | Some j \<Rightarrow> to_lower_json j) (filter truthy (map (Some \<circ> snd) kvs) @ own) = Inr as"
    using addresses by (auto simp: chain_addresses_def c(1) kvs(1) object_entries_def and_then_do_ok)
  moreover have "Some (JStr a) \<in> set (filter truthy (map (Some \<circ> snd) kvs) @ own)"
    using map_of_SomeD [OF kvs(2)] \<open>a \<noteq> []\<close> by force
  ultimately have "to_lower a \<in> set as" by (rule map_checked_image) (simp add: to_lower_json_def)
  with a show ?thesis by simp
qed

lemma transmitter_readable:
  assumes "messageTransmitterChain env c = Inr t" and same: "same_address (mt_address t) s"
    and addresses: "chain_addresses c = Inr as"
  shows "to_lower s \<in> set as"
proof -
  obtain a where j: "mt_address t = Some (JStr a)" and a: "to_lower a = to_lower s"
    using same by (auto simp: same_address_def as_string_def split: option.splits json.splits)
  obtain cctp where cctp: "get_prop (Some (rc_manifest c)) ''cctp'' = Inr cctp"
      "get_prop cctp ''messageTransmitter'' = Inr (Some (JStr a))"
    using assms(1) j by (auto simp: messageTransmitterChain_def and_then_do_ok)
  obtain entries :: "(string \<times> json) list" and own where own: "map_checked (get_prop cctp) [''tokenMessenger'', ''messageTransmitter'', ''usdc''] = Inr own"
      "map_checked (\<lambda>a. case a of None \<Rightarrow> Inl ''Cannot read properties of undefined''
        | Some j \<Rightarrow> to_lower_json j) (filter truthy (map (Some \<circ> snd) entries) @ own) = Inr as"
    using addresses unfolding chain_addresses_def and_then_do_ok cctp(1) sum.inject by blast
  have "Some (JStr a) \<in> set own" using own(1) cctp(2) by (intro map_checked_image [OF own(1)]) auto
  then have "to_lower a \<in> set as"
    using own(2) by (intro map_checked_image [OF own(2)]) (auto simp: to_lower_json_def)
  with a show ?thesis by simp
qed

lemma allowlist_entry:
  assumes "protocolAddressAllowlist cs acc = Inr allow"
    and "distinct (map (wc_chainId \<circ> rc_chain) cs)"
  shows "(\<forall>c \<in> set cs. \<exists>as. chain_addresses c = Inr as \<and> map_of allow (wc_chainId (rc_chain c)) = Some as)
    \<and> (\<forall>n. n \<notin> (wc_chainId \<circ> rc_chain) ` set cs \<longrightarrow> map_of allow n = map_of acc n)"
  using assms
proof (induction cs arbitrary: acc)
  case Nil
  then show ?case by simp
next
  case (Cons c cs)
  obtain as where as: "chain_addresses c = Inr as"
    "protocolAddressAllowlist cs (AList.update (wc_chainId (rc_chain c)) as acc) = Inr allow"
    using Cons.prems(1) by (auto simp: and_then_do_ok)
  from Cons.IH [OF as(2)] Cons.prems(2) as(1) show ?case by (auto simp: update_conv')
qed

lemma asked_address_allowed:
  assumes boot: "api_boot env fs dir K load = Inr A" and cfg: "ponder_config env fs dir = Inr G"
    and names: "distinct (map (wc_name \<circ> rc_chain) (a_chains A))"
    and ids: "distinct (map (wc_chainId \<circ> rc_chain) (a_chains A))"
    and chain: "map_of (g_chains G) name = Some ch" and asks: "asks_for G name e" and addr: "ev_address e \<noteq> []"
  shows "allowed_address A (cg_id ch) (Some (ev_address e)) = Some (to_lower (ev_address e))
    \<and> (\<exists>c \<in> set (a_chains A). wc_chainId (rc_chain c) = cg_id ch)"
proof -
  let ?rs = "a_chains A"
  have rs: "resolveChains env fs dir = Inr ?rs" "protocolAddressAllowlist ?rs [] = Inr (a_allowlist A)"
    using boot by (auto simp: api_boot_def and_then_do_ok)
  obtain cs hub hub_pool pools ts mode where parts: "map_checked (chain_entry env) ?rs = Inr cs"
      "List.find (\<lambda>c. wc_role (rc_chain c) = Hub) ?rs = Some hub" "pool_entry ''privacyPool'' hub = Inr hub_pool"
      "map_checked (pool_entry ''privacyPoolClient'') (filter (\<lambda>c. wc_role (rc_chain c) = Client) ?rs) = Inr pools"
      "map_checked (transmitter_entry env) ?rs = Inr ts"
    and G: "g_chains G = from_entries cs" "g_PrivacyPool G = (if mode = FullMode then Some [hub_pool] else None)"
      "g_PrivacyPoolClient G = (if mode = FullMode then Some (from_entries pools) else None)"
      "g_MessageTransmitter G = from_entries ts"
    by (rule ponder_config_parts [OF cfg rs(1)]) blast
  obtain c where c: "c \<in> set ?rs" "wc_name (rc_chain c) = name" "cg_id ch = wc_chainId (rc_chain c)"
    by (rule entry_found [OF parts(1) _ chain [unfolded G(1)]]) (blast dest: entry_names(1))+
  have same: "c' = c" if "c' \<in> set ?rs" "wc_name (rc_chain c') = name" for c'
    using names that c by (auto simp: distinct_map inj_on_def)
  obtain as where as: "chain_addresses c = Inr as" "map_of (a_allowlist A) (wc_chainId (rc_chain c)) = Some as"
    using allowlist_entry [OF rs(2) ids] c(1) by blast
  have hub: "to_lower (ev_address e) \<in> set as" if asked: "pool_asks (g_PrivacyPool G) name (ev_address e)"
  proof -
    obtain p where p: "hub_pool = (name, p)" "same_address (pc_address p) (ev_address e)"
      using asked by (cases hub_pool) (auto simp: pool_asks_def G(2) split: option.splits if_splits)
    have "hub \<in> set ?rs" using parts(2) by (auto simp: find_Some_iff)
    moreover have entry: "name = wc_name (rc_chain hub)" "manifest_contract hub ''privacyPool'' = Inr (pc_address p)"
      using entry_names(2) [of _ hub name p] parts(3) p(1) by auto
    ultimately have "hub = c" using same by simp
    with entry(2) show ?thesis using p(2) addr as(1) by (auto intro: contract_readable)
  qed
  have client: "to_lower (ev_address e) \<in> set as" if asked: "pool_asks (g_PrivacyPoolClient G) name (ev_address e)"
  proof -
    obtain p where p: "map_of (from_entries pools) name = Some p" "same_address (pc_address p) (ev_address e)"
      using asked by (auto simp: pool_asks_def G(3) split: option.splits if_splits)
    obtain c' where "c' \<in> set (filter (\<lambda>c. wc_role (rc_chain c) = Client) ?rs)"
        "wc_name (rc_chain c') = name" "pool_entry ''privacyPoolClient'' c' = Inr (name, p)"
      by (rule entry_found [OF parts(4) _ p(1)]) (blast dest: entry_names(2))+
    moreover from this(1) have "c' \<in> set ?rs" by simp
    ultimately have "c' = c" "manifest_contract c' ''privacyPoolClient'' = Inr (pc_address p)"
      using same entry_names(2) by blast+
    then show ?thesis using p(2) addr as(1) by (auto intro: contract_readable)
  qed
  have transmitter: "to_lower (ev_address e) \<in> set as" if asked: "transmitter_asks G name (ev_address e) caller" for caller
  proof -
    obtain t where t: "map_of (from_entries ts) name = Some t" "same_address (mt_address t) (ev_address e)"
      using asked by (auto simp: transmitter_asks_def G(4) split: option.splits)
    obtain c' where "c' \<in> set ?rs" "wc_name (rc_chain c') = name" "transmitter_entry env c' = Inr (name, t)"
      by (rule entry_found [OF parts(5) _ t(1)]) (blast dest: entry_names(3))+
    then have "c' = c" "messageTransmitterChain env c' = Inr t"
      using same entry_names(3) by blast+
    then show ?thesis using t(2) as(1) by (auto intro: transmitter_readable)
  qed
  have "to_lower (ev_address e) \<in> set as"
    using asks hub client transmitter by (auto simp: asks_for_def split: contract_event.splits)
  then show ?thesis using as(2) addr c by (auto simp: allowed_address_def)
qed

section \<open>What the actor delivers is indexed\<close>

lemma get_opt_prop: "get_prop v k = Inr x \<Longrightarrow> opt_prop v k = x"
  by (auto simp: get_prop_def opt_prop_def split: option.splits json.splits)

lemma caller_passes:
  assumes t: "messageTransmitterChain env r = Inr t"
    and router: "hook_set (as_string (opt_prop (opt_prop (Some (rc_manifest r)) ''contracts'') ''hookRouter''))
      \<longrightarrow> to_lower caller = to_lower (the (as_string (opt_prop (opt_prop (Some (rc_manifest r)) ''contracts'') ''hookRouter'')))"
  shows "case mt_caller_filter t of None \<Rightarrow> True | Some a \<Rightarrow> to_lower caller = a"
proof -
  obtain h where h: "hookRouterAddress r = Inr h" "mt_caller_filter t = h"
    using t by (auto simp: messageTransmitterChain_def and_then_do_ok)
  show ?thesis
  proof (cases h)
    case None
    with h show ?thesis by simp
  next
    case (Some a)
    obtain contracts addr where addr: "get_prop (Some (rc_manifest r)) ''contracts'' = Inr contracts"
        "get_prop contracts ''hookRouter'' = Inr addr"
        "truthy addr \<and> address_test addr" "to_lower_json (the addr) = Inr a"
      using h(1) Some by (auto simp: hookRouterAddress_def manifest_contract_def and_then_do_ok split: if_splits)
    then obtain s where "addr = Some (JStr s)" "a = to_lower s" "s \<noteq> []"
      by (cases addr rule: option.exhaust; cases "the addr") (auto simp: to_lower_json_def)
    then show ?thesis
      using router get_opt_prop [OF addr(1)] get_opt_prop [OF addr(2)] h(2) Some
      by (simp add: as_string_def hook_set_def)
  qed
qed

lemma delivery_asked:
  assumes rs: "resolveChains env fs dir = Inr rs" and cfg: "ponder_config env fs dir = Inr G"
    and names: "distinct (map (wc_name \<circ> rc_chain) rs)" and r: "r \<in> set rs"
    and e: "ev_args e = MessageReceived n mn caller"
    and router: "hook_set (as_string (opt_prop (opt_prop (Some (rc_manifest r)) ''contracts'') ''hookRouter''))
      \<longrightarrow> to_lower caller = to_lower (the (as_string (opt_prop (opt_prop (Some (rc_manifest r)) ''contracts'') ''hookRouter'')))"
    and address: "same_address (opt_prop (opt_prop (Some (rc_manifest r)) ''cctp'') ''messageTransmitter'') (ev_address e)"
  shows "\<exists>ch. map_of (g_chains G) (wc_name (rc_chain r)) = Some ch \<and> cg_id ch = wc_chainId (rc_chain r)
    \<and> asks_for G (wc_name (rc_chain r)) e"
proof -
  obtain cs ts where cs: "map_checked (chain_entry env) rs = Inr cs" "g_chains G = from_entries cs"
    and ts: "map_checked (transmitter_entry env) rs = Inr ts" "g_MessageTransmitter G = from_entries ts"
    by (rule ponder_config_parts [OF cfg rs]) blast
  obtain ch where ch: "chain_entry env r = Inr (wc_name (rc_chain r), ch)" "map_of (g_chains G) (wc_name (rc_chain r)) = Some ch"
    unfolding cs(2) by (rule find_entry [OF cs(1) _ names r]) (blast dest: entry_names(1))+
  obtain t where t: "transmitter_entry env r = Inr (wc_name (rc_chain r), t)"
      "map_of (g_MessageTransmitter G) (wc_name (rc_chain r)) = Some t"
    unfolding ts(2) by (rule find_entry [OF ts(1) _ names r]) (blast dest: entry_names(3))+
  have mt: "messageTransmitterChain env r = Inr t" using entry_names(3) [OF t(1)] by blast
  then have "mt_address t = opt_prop (opt_prop (Some (rc_manifest r)) ''cctp'') ''messageTransmitter''"
    by (auto simp: messageTransmitterChain_def and_then_do_ok dest!: get_opt_prop)
  with address caller_passes [OF mt router] t(2) have "asks_for G (wc_name (rc_chain r)) e"
    by (simp add: asks_for_def e transmitter_asks_def split: option.splits)
  with ch entry_names(1) [OF ch(1)] show ?thesis by blast
qed

text \<open>A polling interval set to empty text, which compose passes for an unset variable, is not the
  default of the topology but the number 0.\<close>

lemma empty_polling_interval:
  assumes "env (''POLLING_INTERVAL_'' @ show_int (wc_chainId (rc_chain c))) = Some []"
  shows "polling_interval env c = Fin 0"
  using assms by (simp add: polling_interval_def js_number_def js_trim_def)

end
