(* ===== verification/ImportV1.thy ===== *)
theory ImportV1
  imports Lifecycle Numbers
begin

text \<open>
  \<open>actor/scripts/import-v1-state.ts\<close>: the cutover import, which loads the files \<open>pending-*.json\<close> of the
  earlier relayer into the job table so that the actor never relays again what that relayer has
  delivered. The import starts from the files as parsed, with the entries of the shape \<open>V1Pending\<close>
  declares, and from the table as it is; it counts what it inserts and what it skips.

  The claim at the end follows an imported delivery through every later run of the actor.
\<close>

section \<open>Files\<close>

record v1_pending =
  v_dedupKey :: "string option"
  v_messageHash :: "string option"
  v_messageBytes :: "string option"
  v_message :: "string option"
  v_sourceDomain :: "int option"
  v_destinationDomain :: "int option"
  v_sourceTxHash :: "string option"
  v_sourceBlock :: "rat option"
  v_attestation :: "string option"
  v_submittedTxHash :: "string option"
  v_txHash :: "string option"

text \<open>A collection is an array, an object, or anything else.\<close>

datatype 'a v1_collection = Items "'a list" | Keyed "(string \<times> 'a) list" | Neither

record v1_file =
  v1_processed :: "string v1_collection"
  v1_pendings :: "v1_pending v1_collection"

definition processed_keys :: "v1_file \<Rightarrow> string list" where
  "processed_keys f = (case v1_processed f of Items ks \<Rightarrow> ks | Keyed kvs \<Rightarrow> map fst kvs | Neither \<Rightarrow> [])"

definition pending_entries :: "v1_file \<Rightarrow> v1_pending list" where
  "pending_entries f = (case v1_pendings f of Items ps \<Rightarrow> ps | Keyed kvs \<Rightarrow> map snd kvs | Neither \<Rightarrow> [])"

text \<open>\<open>/^pending-.*\.json$/\<close>.\<close>

definition is_pending_file :: "string \<Rightarrow> bool" where
  "is_pending_file name =
     (let middle = take (length name - 13) (drop 8 name)
      in name = ''pending-'' @ middle @ ''.json'' \<and> CHR 0x0A \<notin> set middle \<and> CHR 0x0D \<notin> set middle)"

section \<open>The import\<close>

definition ZERO32 :: string where
  "ZERO32 = ''0x'' @ concat (replicate 32 ''00'')"

definition baseJob :: "string \<Rightarrow> job_state \<Rightarrow> int \<Rightarrow> cctp_job" where
  "baseJob key st now =
     \<lparr>dedupKey = key, messageHash = [], messageBytes = ''0x'', sourceDomain = -1, destinationDomain = -1,
      nonce = ZERO32, sourceTxHash = takeWhile (\<lambda>c. c \<noteq> CHR '':'') key, sourceBlock = 0, state = st,
      detectedAt = now, pollAttempts = 0, lastIrisStatus = Some ''imported_from_v1'', attestation = None,
      relayMessage = None, retryAttempts = 0, nextRetryAt = None, submittedTxHash = None, submittedAt = None,
      deliveredTxHash = None, deliveredBlock = None,
      deliveredAt = (if st = Delivered then Some now else None), deadLetterReason = None, updatedAt = now\<rparr>"

definition either :: "'a option \<Rightarrow> 'a option \<Rightarrow> 'a option" where
  "either a b = (case a of None \<Rightarrow> b | Some x \<Rightarrow> Some x)"

text \<open>\<open>p.dedupKey ?? (p.sourceTxHash ? ... : null)\<close>, where empty text counts as absent after all.\<close>

definition v1_key :: "v1_pending \<Rightarrow> string option" where
  "v1_key p =
     (case either (v_dedupKey p) (if hook_set (v_sourceTxHash p) then Some (the (v_sourceTxHash p) @ '':0'') else None) of
        None \<Rightarrow> None
      | Some k \<Rightarrow> if k = [] then None else Some k)"

definition pending_job :: "v1_pending \<Rightarrow> string \<Rightarrow> int \<Rightarrow> exn + cctp_job" where
  "pending_job p key now =
     (let submittedTx = either (v_submittedTxHash p) (v_txHash p);
          job = baseJob key (if hook_set submittedTx then Submitted else Attested) now
      in case toBigInt (case v_sourceBlock p of None \<Rightarrow> 0 | Some x \<Rightarrow> x) of
           Inl e \<Rightarrow> Inl e
         | Inr block \<Rightarrow> Inr (job\<lparr>
             messageBytes := (case either (v_messageBytes p) (v_message p) of None \<Rightarrow> ''0x'' | Some m \<Rightarrow> m),
             messageHash := (case v_messageHash p of None \<Rightarrow> [] | Some h \<Rightarrow> h),
             sourceDomain := (case v_sourceDomain p of None \<Rightarrow> -1 | Some n \<Rightarrow> n),
             destinationDomain := (case v_destinationDomain p of None \<Rightarrow> -1 | Some n \<Rightarrow> n),
             sourceBlock := block,
             attestation := v_attestation p,
             submittedTxHash := submittedTx,
             submittedAt := (if hook_set submittedTx then Some now else None)\<rparr>))"

record import_state =
  is_jobs :: job_table
  imported :: nat
  skipped :: nat

definition skip_one :: "(import_state, unit) act" where
  "skip_one s = (Inr (), s\<lparr>skipped := skipped s + 1\<rparr>)"

definition insert_one :: "cctp_job \<Rightarrow> (import_state, unit) act" where
  "insert_one job s =
     (case pg_insertIfAbsent (is_jobs s) job of
        (True, t) \<Rightarrow> (Inr (), s\<lparr>is_jobs := t, imported := imported s + 1\<rparr>)
      | (False, t) \<Rightarrow> skip_one (s\<lparr>is_jobs := t\<rparr>))"

definition import_pending :: "int \<Rightarrow> v1_pending \<Rightarrow> (import_state, unit) act" where
  "import_pending now p s =
     (case v1_key p of
        None \<Rightarrow> skip_one s
      | Some key \<Rightarrow> (case pending_job p key now of Inl e \<Rightarrow> (Inl e, s) | Inr job \<Rightarrow> insert_one job s))"

text \<open>One file: the parsed document, or the error of \<open>JSON.parse\<close>.\<close>

definition import_file :: "int \<Rightarrow> exn + v1_file \<Rightarrow> (import_state, unit) act" where
  "import_file now doc s =
     (case doc of
        Inl e \<Rightarrow> (Inl e, s)
      | Inr f \<Rightarrow> and_then (for_each (\<lambda>key. insert_one (baseJob key Delivered now)) (processed_keys f))
          (for_each (import_pending now) (pending_entries f)) s)"

definition import_dir :: "int \<Rightarrow> (string \<times> (exn + v1_file)) list \<Rightarrow> (import_state, unit) act" where
  "import_dir now files =
     for_each (\<lambda>(name, doc). import_file now doc) (filter (\<lambda>(name, doc). is_pending_file name) files)"

section \<open>What the import adds\<close>

text \<open>From one table to another: keys stay unique, nothing is overwritten, and what is new is one of
  the jobs given.\<close>

definition adds :: "cctp_job set \<Rightarrow> import_state \<Rightarrow> import_state \<Rightarrow> bool" where
  "adds N s s' \<longleftrightarrow> (pg_invar (is_jobs s) \<longrightarrow> pg_invar (is_jobs s'))
     \<and> (\<forall>k. pg_get (is_jobs s') k = pg_get (is_jobs s) k
        \<or> pg_get (is_jobs s) k = None \<and> (\<exists>j \<in> N. dedupKey j = k \<and> pg_get (is_jobs s') k = Some j))"

lemma adds_refl [simp]: "adds N s s"
  by (simp add: adds_def)

lemma adds_trans: "adds N s t \<Longrightarrow> adds N t u \<Longrightarrow> adds N s u"
  unfolding adds_def by (metis option.distinct(1))

lemma adds_mono: "adds N s t \<Longrightarrow> N \<subseteq> M \<Longrightarrow> adds M s t"
  unfolding adds_def by blast

lemma insert_one_table:
  "fst (insert_one j s) = Inr ()" "is_jobs (snd (insert_one j s)) = snd (pg_insertIfAbsent (is_jobs s) j)"
  by (simp_all add: insert_one_def skip_one_def split: prod.splits bool.splits)

lemma insert_one_adds: "j \<in> N \<Longrightarrow> adds N s (snd (insert_one j s))"
  unfolding adds_def insert_one_table pg_insert_eq
  by (intro conjI) (auto simp: pg_invar_def pg_get_None, auto simp: pg_get_append split: option.splits if_splits)

lemma insert_one_present: "pg_get (is_jobs (snd (insert_one j s))) (dedupKey j) \<noteq> None"
  by (auto simp: insert_one_table pg_insert_eq pg_get_append split: option.splits)

lemma job_keys [simp]: "dedupKey (baseJob k st now) = k"
  by (simp add: baseJob_def)

lemma pending_job_key: "pending_job p k now = Inr j \<Longrightarrow> dedupKey j = k"
  by (auto simp: pending_job_def Let_def split: sum.splits)

definition imported_jobs :: "int \<Rightarrow> v1_file \<Rightarrow> cctp_job set" where
  "imported_jobs now f = (\<lambda>k. baseJob k Delivered now) ` set (processed_keys f)
     \<union> {j. \<exists>p \<in> set (pending_entries f). \<exists>k. v1_key p = Some k \<and> pending_job p k now = Inr j}"

lemma keys_add:
  "adds ((\<lambda>k. baseJob k Delivered now) ` set ks) s (snd (for_each (\<lambda>k. insert_one (baseJob k Delivered now)) ks s))"
  by (rule for_each_rel [where R = "adds _"]) (auto intro: adds_trans insert_one_adds)

lemma pending_adds:
  assumes "p \<in> set (pending_entries f)"
  shows "adds (imported_jobs now f) s (snd (import_pending now p s))"
proof (cases "v1_key p")
  case None
  then show ?thesis by (simp add: import_pending_def skip_one_def adds_def)
next
  case (Some k)
  show ?thesis
  proof (cases "pending_job p k now")
    case (Inl e)
    with Some show ?thesis by (simp add: import_pending_def)
  next
    case (Inr j)
    then have "j \<in> imported_jobs now f" using assms Some by (auto simp: imported_jobs_def)
    from insert_one_adds [OF this] Some Inr show ?thesis by (simp add: import_pending_def)
  qed
qed

lemma file_adds: "adds (imported_jobs now f) s (snd (import_file now (Inr f) s))"
proof -
  let ?keys = "for_each (\<lambda>k. insert_one (baseJob k Delivered now)) (processed_keys f)"
  let ?entries = "for_each (import_pending now) (pending_entries f)"
  have "adds (imported_jobs now f) s (snd (?keys s))"
    by (rule adds_mono [OF keys_add]) (auto simp: imported_jobs_def)
  moreover have "adds (imported_jobs now f) t (snd (?entries t))" for t
    by (rule for_each_rel [where R = "adds _"]) (auto intro: adds_trans pending_adds)
  ultimately show ?thesis
    by (auto simp: import_file_def and_then_def intro: adds_trans split: prod.splits sum.splits)
qed

definition dir_jobs :: "int \<Rightarrow> (string \<times> (exn + v1_file)) list \<Rightarrow> cctp_job set" where
  "dir_jobs now files = (\<Union>(name, doc) \<in> set files. case doc of Inl e \<Rightarrow> {} | Inr f \<Rightarrow> imported_jobs now f)"

lemma dir_adds: "adds (dir_jobs now files) s (snd (import_dir now files s))"
  unfolding import_dir_def
proof (rule for_each_rel [where R = "adds _"])
  fix x s assume x: "x \<in> set (filter (\<lambda>(name, doc). is_pending_file name) files)"
  obtain name doc where nd: "x = (name, doc)" by (cases x)
  show "adds (dir_jobs now files) s (snd ((case x of (name, doc) \<Rightarrow> import_file now doc) s))"
  proof (cases doc)
    case (Inl e)
    then show ?thesis by (simp add: nd import_file_def)
  next
    case (Inr f)
    then have "imported_jobs now f \<subseteq> dir_jobs now files" using x nd by (force simp: dir_jobs_def)
    from adds_mono [OF file_adds this] show ?thesis by (simp add: nd Inr)
  qed
qed (auto intro: adds_trans)

lemma for_each_reaches:
  assumes finished: "for_each f xs s = (Inr u, s')" and "x \<in> set xs"
    and makes: "\<And>s v t. f x s = (Inr v, t) \<Longrightarrow> P t"
    and keeps: "\<And>y s. y \<in> set xs \<Longrightarrow> P s \<Longrightarrow> P (snd (f y s))"
  shows "P s'"
  using assms(1,2) keeps
proof (induction xs arbitrary: s)
  case (Cons y ys)
  obtain v t where y: "f y s = (Inr v, t)" and ys: "for_each f ys t = (Inr u, s')"
    using Cons.prems(1) by (auto split: prod.splits sum.splits)
  show ?case
  proof (cases "x \<in> set ys")
    case True
    show ?thesis by (rule Cons.IH [OF ys True]) (simp add: Cons.prems(3))
  next
    case False
    then have "P t" using Cons.prems(2) y makes by auto
    then have "P (snd (for_each f ys t))"
      by (rule for_each_inv [rotated]) (simp add: Cons.prems(3))
    with ys show ?thesis by simp
  qed
qed simp

lemma adds_present: "adds N s t \<Longrightarrow> pg_get (is_jobs s) k \<noteq> None \<Longrightarrow> pg_get (is_jobs t) k \<noteq> None"
  unfolding adds_def by (metis option.distinct(1))

lemma processed_present:
  assumes "import_file now (Inr f) s = (Inr u, s')" and "k \<in> set (processed_keys f)"
  shows "pg_get (is_jobs s') k \<noteq> None"
proof -
  let ?keys = "for_each (\<lambda>k. insert_one (baseJob k Delivered now)) (processed_keys f)"
  let ?has = "\<lambda>s. pg_get (is_jobs s) k \<noteq> None"
  obtain v t where t: "?keys s = (Inr v, t)" and rest: "for_each (import_pending now) (pending_entries f) t = (Inr u, s')"
    using assms(1) by (auto simp: import_file_def and_then_def split: prod.splits sum.splits)
  have "?has t"
  proof (rule for_each_reaches [OF t assms(2)])
    fix s :: import_state and v t' assume "insert_one (baseJob k Delivered now) s = (Inr v, t')"
    then show "?has t'" using insert_one_present [of "baseJob k Delivered now" s] by (simp add: baseJob_def)
  next
    fix y and s :: import_state assume "?has s"
    then show "?has (snd (insert_one (baseJob y Delivered now) s))"
      by (rule adds_present [OF insert_one_adds [OF UNIV_I]])
  qed
  then have "?has (snd (for_each (import_pending now) (pending_entries f) t))"
    by (rule for_each_inv [rotated]) (rule adds_present [OF pending_adds])
  with rest show ?thesis by simp
qed

section \<open>Later runs\<close>

inductive actor_from :: "'w discovery_ctx \<Rightarrow> 'w machine_deps \<Rightarrow> 'w actor_state \<Rightarrow> 'w actor_state \<Rightarrow> bool"
  for ctx d s0 where
  same: "actor_from ctx d s0 s0"
| outside: "actor_from ctx d s0 s \<Longrightarrow> actor_from ctx d s0 (s\<lparr>world := w\<rparr>)"
| claim: "actor_from ctx d s0 s \<Longrightarrow> actor_from ctx d s0 (snd (claimMessage ctx m s))"
| discover: "actor_from ctx d s0 s \<Longrightarrow> actor_from ctx d s0 (snd (discoverWork ctx s))"
| machine: "actor_from ctx d s0 s \<Longrightarrow> actor_from ctx d s0 (snd (tick d s))"

lemma terminal_stays:
  assumes "actor_from ctx d s0 s" and "pg_invar (jobs s0)" and "pg_get (jobs s0) k = Some j" and "terminal (state j)"
  shows "pg_invar (jobs s) \<and> pg_get (jobs s) k = Some j"
  using assms
proof (induction rule: actor_from.induct)
  case (claim s m)
  then show ?case
    using claimMessage_extends [of s ctx m] terminal_jobs_are_final [of s k j] by blast
next
  case (discover s)
  then show ?case
    using claim_loop_extends [of s ctx] terminal_jobs_are_final [of s k j]
    unfolding discoverWork_eq by blast
next
  case (machine s)
  then show ?case
    using tick_evolves [of s d] terminal_jobs_are_final [of s k j] by (auto simp: evolves_def)
qed simp_all

text \<open>C30: What the earlier relayer has delivered is never relayed again. A finished import leaves every
  job that was in the table as it was, and for each processed key of each file it took, new to the
  table and named by no in-flight entry, a delivered job; whatever the actor does afterwards, in any
  number of ticks, claims and discoveries, finished or cut short, in any world, that job stays as
  it was imported, so no tick ever lists it for submission and no claim under its key succeeds.\<close>

theorem imported_delivery_is_final:
  assumes run: "import_dir now files \<lparr>is_jobs = t, imported = 0, skipped = 0\<rparr> = (Inr u, s)" and inv: "pg_invar t"
    and key: "(name, Inr f) \<in> set files" "is_pending_file name" "k \<in> set (processed_keys f)"
    and fresh: "pg_get t k = None"
    and in_flight: "\<And>name f p. (name, Inr f) \<in> set files \<Longrightarrow> p \<in> set (pending_entries f) \<Longrightarrow> v1_key p \<noteq> Some k"
    and later: "actor_from ctx d a0 a" "jobs a0 = is_jobs s"
  shows "pg_get (jobs a) k = Some (baseJob k Delivered now)
    \<and> (\<forall>k' j. pg_get t k' = Some j \<longrightarrow> pg_get (is_jobs s) k' = Some j)"
proof -
  let ?s0 = "\<lparr>is_jobs = t, imported = 0, skipped = 0\<rparr>" and ?has = "\<lambda>s. pg_get (is_jobs s) k \<noteq> None"
  have adds: "adds (dir_jobs now files) ?s0 s" using dir_adds [of now files ?s0] run by simp
  have "?has s"
  proof (rule for_each_reaches [OF run [unfolded import_dir_def], of "(name, Inr f)"])
    show "(name, Inr f) \<in> set (filter (\<lambda>(name, doc). is_pending_file name) files)" using key by simp
    show "?has t'" if "(case (name, Inr f) of (name, doc) \<Rightarrow> import_file now doc) s' = (Inr v, t')" for s' v t'
      using processed_present [OF _ key(3)] that by simp
    show "?has (snd ((case x of (name, doc) \<Rightarrow> import_file now doc) s'))" if "?has s'" for x s'
      using that adds_present [OF file_adds] by (cases x; cases "snd x") (auto simp: import_file_def)
  qed
  moreover have "pg_get (is_jobs s) k = pg_get t k
      \<or> pg_get t k = None \<and> (\<exists>j \<in> dir_jobs now files. dedupKey j = k \<and> pg_get (is_jobs s) k = Some j)"
    using adds by (simp add: adds_def)
  ultimately obtain j where j: "j \<in> dir_jobs now files" "dedupKey j = k" "pg_get (is_jobs s) k = Some j"
    using fresh by auto
  obtain n g where g: "(n, Inr g) \<in> set files" "j \<in> imported_jobs now g"
    using j(1) by (auto simp: dir_jobs_def split: sum.splits)
  then have "j = baseJob k Delivered now"
    using j(2) in_flight [OF g(1)] by (auto simp: imported_jobs_def job_keys dest: pending_job_key)
  with j(3) have job: "pg_get (jobs a0) k = Some (baseJob k Delivered now)" by (simp add: later(2))
  have "pg_invar (jobs a0)" using adds inv by (simp add: adds_def later(2))
  from terminal_stays [OF later(1) this job] have "pg_get (jobs a) k = Some (baseJob k Delivered now)"
    by (simp add: baseJob_def terminal_def)
  moreover have "pg_get (is_jobs s) k' = Some j" if "pg_get t k' = Some j" for k' j
    using adds that unfolding adds_def by (metis import_state.select_convs(1) option.distinct(1))
  ultimately show ?thesis by blast
qed

section \<open>Witnesses\<close>

definition v1_demo :: "(string \<times> (exn + v1_file)) list" where
  "v1_demo = [(''pending-hub.json'', Inr \<lparr>v1_processed = Keyed [(''0:42'', ''x'')], v1_pendings = Neither\<rparr>),
     (''notes.json'', Inl ''not read'')]"

theorem imported_delivery_is_final_witness:
  "\<exists>s. import_dir 7 v1_demo \<lparr>is_jobs = [], imported = 0, skipped = 0\<rparr> = (Inr (), s) \<and> imported s = 1
    \<and> pg_get (jobs (snd (tick (demo_deps Iris) \<lparr>jobs = is_jobs s, world = demo_view, transitions = []\<rparr>))) ''0:42''
      = Some (baseJob ''0:42'' Delivered 7)"
proof -
  have names: "is_pending_file ''pending-hub.json''" "\<not> is_pending_file ''notes.json''"
    by (simp_all add: is_pending_file_def)
  obtain s where s: "import_dir 7 v1_demo \<lparr>is_jobs = [], imported = 0, skipped = 0\<rparr> = (Inr (), s)" "imported s = 1"
    by (simp add: import_dir_def v1_demo_def names import_file_def and_then_def processed_keys_def
        pending_entries_def insert_one_def pg_insertIfAbsent_def)
  let ?a = "\<lparr>jobs = is_jobs s, world = demo_view, transitions = []\<rparr>"
  have "actor_from demo_ctx (demo_deps Iris) ?a (snd (tick (demo_deps Iris) ?a))"
    by (rule actor_from.machine [OF actor_from.same])
  from imported_delivery_is_final [OF s(1) _ _ names(1) _ _ _ this]
  have "pg_get (jobs (snd (tick (demo_deps Iris) ?a))) ''0:42'' = Some (baseJob ''0:42'' Delivered 7)"
    by (auto simp: v1_demo_def pg_invar_def processed_keys_def pending_entries_def)
  with s show ?thesis by blast
qed

end
