(* ===== verification/Metrics.thy ===== *)
theory Metrics
  imports JobsRepo JsValues Numbers
begin

text \<open>
  \<open>actor/src/metrics.ts\<close>: which calls of prom-client each method of \<open>ActorMetrics\<close> makes. The client
  is a package the repository only calls, so a method is the list of its calls, in order; what the
  theorem on the job gauge needs of the client is \<open>gauge_laws\<close>. The default process metrics, the help
  texts and the bucket bounds of the histogram are left out.
\<close>

section \<open>Methods\<close>

datatype prom_call =
    Inc string "string list"
  | Set_gauge string "string option list" rat
  | Reset_gauge string
  | Observe string "string list" rat

datatype actor_metric =
    RelaySubmission string string string
  | FeeVerifierReject string
  | RateLimited string
  | IdempotentReplay
  | SetCctpJobsSnapshot "(string \<times> nat) list"
  | JobTransition string string
  | IrisPoll string
  | RpcRequest int string
  | SetFallbackActive int bool
  | SetWalletBalance int int
  | SetEthUsdPrice rat bool
  | ObserveHttp string string int rat

definition cctp_jobs_gauge :: string where "cctp_jobs_gauge = ''armada_actor_cctp_jobs''"

text \<open>A key of a snapshot is split at its colons; the first two pieces are the labels, a missing one is undefined (\<open>None\<close>).\<close>

definition piece :: "string list \<Rightarrow> nat \<Rightarrow> string option" where
  "piece ps i = (if i < length ps then Some (ps ! i) else None)"

definition set_count :: "string \<times> nat \<Rightarrow> prom_call" where
  "set_count kn = (let ps = js_split CHR '':'' (fst kn)
     in Set_gauge cctp_jobs_gauge [piece ps 0, piece ps 1] (of_nat (snd kn)))"

fun metric_calls :: "actor_metric \<Rightarrow> prom_call list" where
  "metric_calls (RelaySubmission selector outcome code) =
     [Inc ''armada_actor_relay_submissions_total'' [selector, outcome, code]]"
| "metric_calls (FeeVerifierReject code) = [Inc ''armada_actor_fee_verifier_rejects_total'' [code]]"
| "metric_calls (RateLimited route) = [Inc ''armada_actor_rate_limited_total'' [route]]"
| "metric_calls IdempotentReplay = [Inc ''armada_actor_idempotent_replays_total'' []]"
| "metric_calls (SetCctpJobsSnapshot counts) = Reset_gauge cctp_jobs_gauge # map set_count counts"
| "metric_calls (JobTransition a b) = [Inc ''armada_actor_cctp_job_transitions_total'' [a, b]]"
| "metric_calls (IrisPoll result) = [Inc ''armada_actor_iris_polls_total'' [result]]"
| "metric_calls (RpcRequest chain rpc) = [Inc ''armada_actor_rpc_requests_total'' [show_int chain, rpc]]"
| "metric_calls (SetFallbackActive chain on) =
     [Set_gauge ''armada_actor_fallback_scanner_active'' [Some (show_int chain)] (if on then 1 else 0)]"
| "metric_calls (SetWalletBalance chain wei) =
     [Set_gauge ''armada_actor_wallet_balance_wei'' [Some (show_int chain)] (dbl (of_int wei))]"
| "metric_calls (SetEthUsdPrice p degraded) =
     (if degraded then [] else [Set_gauge ''armada_actor_eth_usd_price'' [] p])
     @ [Set_gauge ''armada_actor_eth_usd_price_degraded'' [] (if degraded then 1 else 0)]"
| "metric_calls (ObserveHttp route verb status seconds) =
     [Observe ''armada_actor_http_request_duration_seconds'' [route, verb, show_int status] seconds]"

section \<open>Registrations\<close>

text \<open>The metrics \<open>createMetrics\<close> registers, with their label names. A client refuses a call on a metric
  of another kind, with a number of labels other than registered, or with an undefined label.\<close>

datatype metric_kind = Counter | Gauge | Histogram

definition registered :: "(string \<times> metric_kind \<times> string list) list" where
  "registered = [
     (''armada_actor_relay_submissions_total'', Counter, [''selector'', ''outcome'', ''code'']),
     (''armada_actor_fee_verifier_rejects_total'', Counter, [''code'']),
     (''armada_actor_rate_limited_total'', Counter, [''endpoint'']),
     (''armada_actor_idempotent_replays_total'', Counter, []),
     (''armada_actor_cctp_jobs'', Gauge, [''state'', ''destination_domain'']),
     (''armada_actor_cctp_job_transitions_total'', Counter, [''from'', ''to'']),
     (''armada_actor_iris_polls_total'', Counter, [''result'']),
     (''armada_actor_rpc_requests_total'', Counter, [''chain'', ''method'']),
     (''armada_actor_fallback_scanner_active'', Gauge, [''chain'']),
     (''armada_actor_wallet_balance_wei'', Gauge, [''chain'']),
     (''armada_actor_eth_usd_price'', Gauge, []),
     (''armada_actor_eth_usd_price_degraded'', Gauge, []),
     (''armada_actor_http_request_duration_seconds'', Histogram, [''route'', ''method'', ''status''])]"

definition registered_as :: "string \<Rightarrow> metric_kind \<Rightarrow> nat \<Rightarrow> bool" where
  "registered_as name k n = (case map_of registered name of
     Some (k', labels) \<Rightarrow> k' = k \<and> length labels = n | None \<Rightarrow> False)"

fun call_fits :: "prom_call \<Rightarrow> bool" where
  "call_fits (Inc name ls) = registered_as name Counter (length ls)"
| "call_fits (Set_gauge name ls x) = (registered_as name Gauge (length ls) \<and> None \<notin> set ls)"
| "call_fits (Reset_gauge name) = registered_as name Gauge 2"
| "call_fits (Observe name ls x) = registered_as name Histogram (length ls)"

lemma js_split_has_two: "sep \<in> set s \<Longrightarrow> 2 \<le> length (js_split sep s)"
  by (induction s) (auto split: list.splits simp: neq_Nil_conv Suc_le_eq)

text \<open>No method of the metrics makes the client throw, whatever its arguments: except a snapshot with a
  key that holds no colon, every call is one its metric was registered for.\<close>

theorem metric_calls_fit:
  assumes "\<And>counts key n. m = SetCctpJobsSnapshot counts \<Longrightarrow> (key, n) \<in> set counts \<Longrightarrow> CHR '':'' \<in> set key"
  shows "list_all call_fits (metric_calls m)"
proof (cases m)
  case (SetCctpJobsSnapshot counts)
  have "call_fits (set_count kn)" if "kn \<in> set counts" for kn
  proof -
    have "2 \<le> length (js_split CHR '':'' (fst kn))"
      using assms [OF SetCctpJobsSnapshot, of "fst kn" "snd kn"] that by (intro js_split_has_two) simp
    then show ?thesis
      by (simp add: set_count_def Let_def piece_def registered_as_def registered_def cctp_jobs_gauge_def)
  qed
  then show ?thesis
    by (simp add: SetCctpJobsSnapshot list_all_iff registered_as_def registered_def cctp_jobs_gauge_def)
qed (simp_all add: registered_as_def registered_def)

section \<open>The job gauge\<close>

fun state_label :: "job_state \<Rightarrow> string" where
  "state_label Detected = ''detected''"
| "state_label AwaitingAttestation = ''awaiting_attestation''"
| "state_label Attested = ''attested''"
| "state_label Submitted = ''submitted''"
| "state_label Delivered = ''delivered''"
| "state_label AlreadyDelivered = ''already_delivered''"
| "state_label Skipped = ''skipped''"
| "state_label DeadLetter = ''dead_letter''"

definition snapshot :: "job_table \<Rightarrow> (string \<times> nat) list" where
  "snapshot t = map (\<lambda>((st, d), n). (state_label st @ '':'' @ show_int d, n)) (pg_countsByState t)"

text \<open>Setting a gauge gives the series of those labels that value and leaves the others; a reset drops
  every series of the gauge.\<close>

definition gauge_laws :: "(prom_call \<Rightarrow> 'r \<Rightarrow> 'r) \<Rightarrow> ('r \<Rightarrow> string \<Rightarrow> string option list \<Rightarrow> rat option) \<Rightarrow> bool" where
  "gauge_laws run series \<longleftrightarrow>
     (\<forall>g ls x r. series (run (Set_gauge g ls x) r) = (series r)(g := (series r g)(ls := Some x)))
     \<and> (\<forall>g r. series (run (Reset_gauge g) r) = (series r)(g := Map.empty))"

lemma split_at: "sep \<notin> set a \<Longrightarrow> js_split sep (a @ sep # b) = a # js_split sep b"
  by (induction a) auto

lemma split_none: "sep \<notin> set a \<Longrightarrow> js_split sep a = [a]"
  by (induction a) auto

lemma no_colon: "CHR '':'' \<notin> set (state_label st)" "CHR '':'' \<notin> set (show_int d)"
proof -
  show "CHR '':'' \<notin> set (state_label st)" by (cases st) simp_all
  show "CHR '':'' \<notin> set (show_int d)"
    by (auto simp: show_int_def is_digit_def dest!: digits_show_nat split: if_splits)
qed

lemma set_count_label:
  "set_count (state_label st @ '':'' @ show_int d, n) = Set_gauge cctp_jobs_gauge [Some (state_label st), Some (show_int d)] (of_nat n)"
  by (simp add: set_count_def piece_def split_at split_none no_colon)

lemma labels_inj: "state_label a = state_label b \<longleftrightarrow> a = b"
  by (cases a; cases b) simp_all

lemma sets_series:
  assumes "gauge_laws run series" and "distinct (map fst kns)"
  shows "series (fold run (map (\<lambda>((st, d), n). Set_gauge cctp_jobs_gauge [Some (state_label st), Some (show_int d)] (of_nat n)) kns) r)
      cctp_jobs_gauge [Some (state_label st), Some (show_int d)]
    = (case map_of kns (st, d) of Some n \<Rightarrow> Some (of_nat n) | None \<Rightarrow> series r cctp_jobs_gauge [Some (state_label st), Some (show_int d)])"
  using assms(2)
proof (induction kns arbitrary: r)
  case (Cons kn kns)
  obtain st' d' n where kn: "kn = ((st', d'), n)" by (metis prod.collapse)
  have "map_of kns (st', d') = None" using Cons.prems kn by (simp add: map_of_eq_None_iff)
  moreover have "show_int d' = show_int d \<longleftrightarrow> d' = d" by (metis parse_show_int)
  ultimately show ?case
    using Cons assms(1) by (auto simp: kn gauge_laws_def labels_inj split: option.splits)
qed simp

text \<open>After a snapshot of the table the job gauge holds, for each state and destination domain, exactly
  the number of jobs there, and nothing for the others, whatever it held before.\<close>

theorem gauge_shows_table:
  assumes "gauge_laws run series"
  shows "series (fold run (metric_calls (SetCctpJobsSnapshot (snapshot t))) r) cctp_jobs_gauge [Some (state_label st), Some (show_int d)]
    = (let n = length (filter (\<lambda>j. r_state j = st \<and> destination_domain j = d) t)
       in if n = 0 then None else Some (of_nat n))"
proof -
  have calls: "map set_count (snapshot t)
      = map (\<lambda>((st, d), n). Set_gauge cctp_jobs_gauge [Some (state_label st), Some (show_int d)] (of_nat n)) (pg_countsByState t)"
    by (auto simp: snapshot_def set_count_label simp del: append.simps)
  have counts: "distinct (map fst (pg_countsByState t))"
      "map_of (pg_countsByState t) (st, d) = (if \<exists>j \<in> set t. r_state j = st \<and> destination_domain j = d
         then Some (length (filter (\<lambda>j. r_state j = st \<and> destination_domain j = d) t)) else None)"
    by (auto simp: pg_countsByState_def comp_def map_of_map_restrict restrict_map_def image_iff)
  have "series (run (Reset_gauge cctp_jobs_gauge) r) cctp_jobs_gauge = Map.empty"
    using assms by (simp add: gauge_laws_def)
  then show ?thesis
    using sets_series [OF assms counts(1), of "run (Reset_gauge cctp_jobs_gauge) r" st d]
    by (auto simp: calls counts(2) Let_def filter_empty_conv)
qed

theorem gauge_shows_table_witness:
  "fold (\<lambda>c r. case c of Set_gauge g ls x \<Rightarrow> r(g := (r g)(ls := Some x)) | Reset_gauge g \<Rightarrow> r(g := Map.empty) | _ \<Rightarrow> r)
     (metric_calls (SetCctpJobsSnapshot (snapshot []))) (\<lambda>g. [[Some ''submitted'', Some ''3''] \<mapsto> 2])
     cctp_jobs_gauge [Some (state_label Submitted), Some (show_int 3)] = (None :: rat option)"
  by (subst gauge_shows_table [where series = "\<lambda>r. r"]) (simp_all add: gauge_laws_def)

text \<open>The snapshot the job loop takes always fits.\<close>

theorem metric_calls_fit_witness:
  "list_all call_fits (metric_calls (SetCctpJobsSnapshot (snapshot t)))"
  by (rule metric_calls_fit) (auto simp: snapshot_def)

end
