(* ===== verification/DbFaults.thy ===== *)
theory DbFaults
  imports Lifecycle
begin

text \<open>
  The job machine and discovery over a database that may fail. In the other theories a database call
  answers; here every \<open>pool.query\<close> of \<open>state-machine.ts\<close> and \<open>work-discovery.ts\<close> may also reject, before
  its statement took effect or after (a connection lost between commit and reply). The handlers are
  those of \<open>StateMachine\<close> and \<open>WorkDiscovery\<close> once more, with each query a step that may throw; with a
  database that answers they are the same functions (lemmas \<open>tick_reliable\<close>, \<open>discover_reliable\<close>).
\<close>

section \<open>Queries that may fail\<close>

datatype query_fate = Answered | Refused exn | Lost exn

type_synonym 'w database = "'w \<Rightarrow> query_fate \<times> 'w"

text \<open>An awaited query; the statements after a statement; \<open>try\<close> with its \<open>catch\<close>.\<close>

definition query :: "'w database \<Rightarrow> ('w actor_state \<Rightarrow> 'a \<times> 'w actor_state) \<Rightarrow> ('w actor_state, 'a) act" where
  "query db f s = (case ext db s of
      (Answered, s) \<Rightarrow> (case f s of (r, s) \<Rightarrow> (Inr r, s))
    | (Refused e, s) \<Rightarrow> (Inl e, s)
    | (Lost e, s) \<Rightarrow> (Inl e, snd (f s)))"

definition then_do :: "('s, 'a) act \<Rightarrow> ('a \<Rightarrow> ('s, 'b) act) \<Rightarrow> ('s, 'b) act" where
  "then_do m g s = (case m s of (Inl e, s) \<Rightarrow> (Inl e, s) | (Inr r, s) \<Rightarrow> g r s)"

definition catching :: "('s, 'a) act \<Rightarrow> (exn \<Rightarrow> ('s, 'a) act) \<Rightarrow> ('s, 'a) act" where
  "catching m h s = (case m s of (Inl e, s) \<Rightarrow> h e s | (Inr r, s) \<Rightarrow> (Inr r, s))"

definition return :: "'a \<Rightarrow> ('s, 'a) act" where "return r s = (Inr r, s)"

text \<open>A call that cannot throw (the clock), and the queries of \<open>db/jobs-repo.ts\<close>.\<close>

definition sure :: "('w \<Rightarrow> 'a \<times> 'w) \<Rightarrow> ('w actor_state, 'a) act" where
  "sure f s = (case ext f s of (r, s) \<Rightarrow> (Inr r, s))"

definition db_read :: "'w database \<Rightarrow> ('w actor_state \<Rightarrow> 'a) \<Rightarrow> ('w actor_state, 'a) act" where
  "db_read db f = query db (\<lambda>s. (f s, s))"

definition db_listByState :: "'w database \<Rightarrow> job_state \<Rightarrow> ('w actor_state, cctp_job list) act" where
  "db_listByState db st = db_read db (\<lambda>s. pg_listByState (jobs s) st TICK_BATCH)"

definition db_write ::
    "'w database \<Rightarrow> string \<Rightarrow> job_state \<Rightarrow> job_patch \<Rightarrow> int \<Rightarrow> ('w actor_state, bool) act" where
  "db_write db k f patch now = query db (repo_transition k f patch now)"

text \<open>The update and the \<open>transitioned\<close> that follows it.\<close>

definition db_move ::
    "'w database \<Rightarrow> string \<Rightarrow> job_state \<Rightarrow> job_state \<Rightarrow> job_patch \<Rightarrow> int \<Rightarrow> ('w actor_state, bool) act" where
  "db_move db k f t patch now =
     then_do (db_write db k f (patch\<lparr>p_state := Some t\<rparr>) now) (\<lambda>ok s. (Inr ok, transitioned ok f t s))"

definition ignoring :: "('s, 'a) act \<Rightarrow> ('s, unit) act" where
  "ignoring m = then_do m (\<lambda>_. return ())"

section \<open>Ticks\<close>

definition db_detect_one :: "'w machine_deps \<Rightarrow> 'w database \<Rightarrow> int \<Rightarrow> cctp_job \<Rightarrow> ('w actor_state, unit) act" where
  "db_detect_one d db now job =
     (if irisMode d = Mock then
        ignoring (db_move db (dedupKey job) Detected Attested
          (no_patch\<lparr>p_attestation := Some (Some MOCK_ATTESTATION),
                    p_relayMessage := Some (Some (messageBytes job)),
                    p_lastIrisStatus := Some (Some ''mock'')\<rparr>) now)
      else ignoring (db_move db (dedupKey job) Detected AwaitingAttestation no_patch now))"

definition db_tickDetected :: "'w machine_deps \<Rightarrow> 'w database \<Rightarrow> ('w actor_state, unit) act" where
  "db_tickDetected d db = then_do (db_listByState db Detected) (\<lambda>listed.
     then_do (sure (now_dep d)) (\<lambda>now. for_each (db_detect_one d db now) listed))"

definition poll_patch :: "cctp_job \<Rightarrow> string \<Rightarrow> job_patch" where
  "poll_patch job status = no_patch\<lparr>p_pollAttempts := Some (pollAttempts job + 1),
     p_lastIrisStatus := Some (Some status)\<rparr>"

definition db_record_poll ::
    "'w database \<Rightarrow> cctp_job \<Rightarrow> attestation_result \<Rightarrow> int \<Rightarrow> ('w actor_state, unit) act" where
  "db_record_poll db job result now =
     (case result of
        AttComplete att msg \<Rightarrow> ignoring (db_move db (dedupKey job) AwaitingAttestation Attested
          ((poll_patch job ''complete'')\<lparr>p_attestation := Some (Some att), p_relayMessage := Some (Some msg)\<rparr>) now)
      | AttPending detail \<Rightarrow> ignoring (db_write db (dedupKey job) AwaitingAttestation
          (poll_patch job (case detail of None \<Rightarrow> ''pending'' | Some x \<Rightarrow> x)) now)
      | AttError detail \<Rightarrow> ignoring (db_write db (dedupKey job) AwaitingAttestation
          (poll_patch job (''error:'' @ detail)) now))"

definition db_pollOne :: "'w machine_deps \<Rightarrow> 'w database \<Rightarrow> cctp_job \<Rightarrow> ('w actor_state, unit) act" where
  "db_pollOne d db job = then_do (ext (att_fetch d (query_of job))) (\<lambda>result.
     then_do (sure (now_dep d)) (\<lambda>now. db_record_poll db job result now))"

definition db_expire_one :: "'w database \<Rightarrow> int \<Rightarrow> cctp_job \<Rightarrow> ('w actor_state, unit) act" where
  "db_expire_one db now job = ignoring (db_move db (dedupKey job) AwaitingAttestation DeadLetter
     (no_patch\<lparr>p_deadLetterReason := Some (Some Expired)\<rparr>) now)"

text \<open>\<open>Promise.all\<close> rejects at the first poll that throws while the other polls go on; as in
  \<open>StateMachine\<close>, all of them are run before the phase ends.\<close>

definition db_tickAwaitingAttestation :: "'w machine_deps \<Rightarrow> 'w database \<Rightarrow> ('w actor_state, unit) act" where
  "db_tickAwaitingAttestation d db = then_do (db_listByState db AwaitingAttestation) (\<lambda>listed.
     then_do (sure (now_dep d)) (\<lambda>now.
       let expired = filter (is_expired d now) listed;
           pollable = take IRIS_POLL_CONCURRENCY (filter (\<lambda>j. j \<notin> set expired) listed)
       in then_do (for_each (db_expire_one db now) expired)
            (\<lambda>_. all_settled (db_pollOne d db) pollable)))"

definition db_recordSubmissionFailure ::
    "'w machine_deps \<Rightarrow> 'w database \<Rightarrow> cctp_job \<Rightarrow> ('w actor_state, unit) act" where
  "db_recordSubmissionFailure d db job = then_do (sure (now_dep d)) (\<lambda>now.
     let attempts = retryAttempts job + 1
     in if MAX_RELAY_RETRIES < attempts then
          ignoring (db_move db (dedupKey job) Attested DeadLetter
            (no_patch\<lparr>p_deadLetterReason := Some (Some RetriesExhausted)\<rparr>) now)
        else let delayMs = RETRY_BACKOFF_BASE_MS * 2 ^ nat (attempts - 1)
          in ignoring (db_write db (dedupKey job) Attested
               (no_patch\<lparr>p_retryAttempts := Some attempts,
                         p_nextRetryAt := Some (Some (now + delayMs))\<rparr>) now))"

text \<open>The broadcast and the update that records it stand in one \<open>try\<close>.\<close>

definition db_broadcast :: "'w machine_deps \<Rightarrow> 'w database \<Rightarrow> cctp_job \<Rightarrow> string \<Rightarrow> string
    \<Rightarrow> ('w actor_state, unit) act" where
  "db_broadcast d db job msg att =
     then_do (ext (submitRelayWithHook d (destinationDomain job) msg att)) (\<lambda>hash.
     then_do (sure (now_dep d)) (\<lambda>t1. then_do (sure (now_dep d)) (\<lambda>t2.
       ignoring (db_move db (dedupKey job) Attested Submitted
         (no_patch\<lparr>p_submittedTxHash := Some (Some hash), p_submittedAt := Some (Some t1),
                   p_nextRetryAt := Some None\<rparr>) t2))))"

definition db_broadcast_failed ::
    "'w machine_deps \<Rightarrow> 'w database \<Rightarrow> cctp_job \<Rightarrow> exn \<Rightarrow> ('w actor_state, unit) act" where
  "db_broadcast_failed d db job message =
     (if already_processed message then
        then_do (sure (now_dep d)) (\<lambda>t.
          ignoring (db_move db (dedupKey job) Attested AlreadyDelivered no_patch t))
      else db_recordSubmissionFailure d db job)"

definition db_submit_one :: "'w machine_deps \<Rightarrow> 'w database \<Rightarrow> int \<Rightarrow> cctp_job \<Rightarrow> ('w actor_state, unit) act" where
  "db_submit_one d db now job =
     (if retry_later now job then return ()
      else case (attestation job, relayMessage job) of
        (Some att, Some msg) \<Rightarrow> catching (db_broadcast d db job msg att) (db_broadcast_failed d db job)
      | _ \<Rightarrow> ignoring (db_move db (dedupKey job) Attested AwaitingAttestation no_patch now))"

definition db_tickAttested :: "'w machine_deps \<Rightarrow> 'w database \<Rightarrow> ('w actor_state, unit) act" where
  "db_tickAttested d db = then_do (db_listByState db Attested) (\<lambda>listed.
     then_do (sure (now_dep d)) (\<lambda>now. for_each (db_submit_one d db now) listed))"

definition db_settle_receipt :: "'w machine_deps \<Rightarrow> 'w database \<Rightarrow> cctp_job \<Rightarrow> string \<Rightarrow> receipt_info
    \<Rightarrow> ('w actor_state, unit) act" where
  "db_settle_receipt d db job hash receipt =
     (if rc_status receipt = 1 then
        then_do (sure (now_dep d)) (\<lambda>t1. then_do (sure (now_dep d)) (\<lambda>t2.
          ignoring (db_move db (dedupKey job) Submitted Delivered
            (no_patch\<lparr>p_deliveredTxHash := Some (Some hash),
                      p_deliveredBlock := Some (Some (rc_blockNumber receipt)),
                      p_deliveredAt := Some (Some t1)\<rparr>) t2)))
      else
        then_do (sure (now_dep d)) (\<lambda>t.
        then_do (db_move db (dedupKey job) Submitted Attested clear_submission t) (\<lambda>cleared.
          if cleared then
            then_do (db_read db (\<lambda>s. pg_get (jobs s) (dedupKey job))) (\<lambda>fresh. case fresh of
                None \<Rightarrow> return ()
              | Some fresh \<Rightarrow>
                  if state fresh = Attested then db_recordSubmissionFailure d db fresh else return ())
          else return ())))"

definition db_settle_one :: "'w machine_deps \<Rightarrow> 'w database \<Rightarrow> cctp_job \<Rightarrow> ('w actor_state, unit) act" where
  "db_settle_one d db job = then_do (sure (now_dep d)) (\<lambda>now.
     case (submittedAt job, submittedTxHash job) of
       (Some at, Some hash) \<Rightarrow>
         then_do (ext (getReceipt d (destinationDomain job) hash)) (\<lambda>r. case r of
             Some receipt \<Rightarrow> db_settle_receipt d db job hash receipt
           | None \<Rightarrow>
               if stuckTxThresholdMs d < now - at then
                 then_do (ext (isInMempool d (destinationDomain job) hash)) (\<lambda>stillPending.
                   if stillPending then return ()
                   else then_do (ext (resetNonce d (destinationDomain job))) (\<lambda>_.
                     ignoring (db_move db (dedupKey job) Submitted Attested clear_submission now)))
               else return ())
     | _ \<Rightarrow> return ())"

definition db_tickSubmitted :: "'w machine_deps \<Rightarrow> 'w database \<Rightarrow> ('w actor_state, unit) act" where
  "db_tickSubmitted d db = then_do (db_listByState db Submitted) (for_each (db_settle_one d db))"

definition db_tick :: "'w machine_deps \<Rightarrow> 'w database \<Rightarrow> ('w actor_state, unit) act" where
  "db_tick d db = and_then (db_tickDetected d db)
     (and_then (db_tickAwaitingAttestation d db) (and_then (db_tickAttested d db) (db_tickSubmitted d db)))"

section \<open>Discovery\<close>

definition db_claim :: "'w database \<Rightarrow> cctp_job \<Rightarrow> ('w actor_state, job_state option) act" where
  "db_claim db job = then_do
     (query db (\<lambda>s. case pg_insertIfAbsent (jobs s) job of (ok, t) \<Rightarrow> (ok, s\<lparr>jobs := t\<rparr>)))
     (\<lambda>claimed s. if claimed
        then (Inr (Some (state job)), s\<lparr>transitions := transitions s @ [(None, state job)]\<rparr>)
        else (Inr None, s))"

definition db_claimMessage ::
    "'w discovery_ctx \<Rightarrow> 'w database \<Rightarrow> indexed_message \<Rightarrow> ('w actor_state, job_state option) act" where
  "db_claimMessage ctx db msg = then_do (sure (dc_now ctx)) (\<lambda>now.
     case newJob (dc_ethers ctx) msg Detected now of
       Inl e \<Rightarrow> (\<lambda>s. (Inl e, s))
     | Inr job \<Rightarrow>
        (case classifyMessageForRelay (dc_ethers ctx) (m_messageBytes msg) (knownRecipients ctx)
               (case hookRouterByDomain ctx (m_destinationDomain msg) of None \<Rightarrow> None | Some h \<Rightarrow> h) of
           Inl e \<Rightarrow> (\<lambda>s. (Inl e, s))
         | Inr (NoRelay reason) \<Rightarrow>
             db_claim db (job\<lparr>state := Skipped, deadLetterReason := Some (SkipReason reason)\<rparr>)
         | Inr (Relay _) \<Rightarrow>
             if nonce job = ZERO_NONCE then db_claim db job
             else then_do (db_read db (\<lambda>s. pg_messageReceivedExists (dc_view ctx (world s))
                      (m_sourceDomain msg) (nonce job)))
               (\<lambda>seen. db_claim db (if seen then job\<lparr>state := AlreadyDelivered\<rparr> else job))))"

fun db_claim_loop :: "'w discovery_ctx \<Rightarrow> 'w database \<Rightarrow> nat \<Rightarrow> indexed_message list \<Rightarrow> ('w actor_state, nat) act" where
  "db_claim_loop ctx db claimed [] = return claimed"
| "db_claim_loop ctx db claimed (m # ms) = then_do (db_claimMessage ctx db m)
     (\<lambda>r. db_claim_loop ctx db (if r = None then claimed else claimed + 1) ms)"

definition db_discoverWork :: "'w discovery_ctx \<Rightarrow> 'w database \<Rightarrow> ('w actor_state, nat) act" where
  "db_discoverWork ctx db =
     then_do (db_read db (\<lambda>s. pg_watcherProgress (dc_view ctx (world s)))) (\<lambda>progress.
       let gate = discoveryGate ctx [] progress
       in if gate = [] then return 0
          else then_do (db_read db (\<lambda>s. pg_unclaimedMessages (dc_view ctx (world s)) (jobs s) gate DISCOVERY_BATCH_LIMIT))
                 (db_claim_loop ctx db 0))"

section \<open>With a database that answers\<close>

definition reliable :: "'w database" where "reliable w = (Answered, w)"

lemma query_reliable [simp]: "query reliable f s = (case f s of (r, s) \<Rightarrow> (Inr r, s))"
  by (simp add: query_def ext_def reliable_def)

lemmas act_defs = then_do_def catching_def return_def sure_def ignoring_def db_read_def

lemma reads_reliable [simp]: "db_read reliable f s = (Inr (f s), s)"
  "db_listByState reliable st s = (Inr (pg_listByState (jobs s) st TICK_BATCH), s)"
  by (simp_all add: db_read_def db_listByState_def)

lemma writes_reliable [simp]:
  "db_write reliable k f p now s = (case repo_transition k f p now s of (ok, s) \<Rightarrow> (Inr ok, s))"
  "db_move reliable k f t p now s = (case move k f t p now s of (ok, s) \<Rightarrow> (Inr ok, s))"
  by (simp_all add: db_write_def db_move_def move_def then_do_def split: prod.splits)

lemma ignoring_writes [simp]:
  "ignoring (db_write reliable k f p now) s = (Inr (), snd (repo_transition k f p now s))"
  "ignoring (db_move reliable k f t p now) s = (Inr (), snd (move k f t p now s))"
  by (simp_all add: ignoring_def then_do_def return_def split: prod.splits)

lemma bodies_reliable:
  shows "db_detect_one d reliable now job s = detect_one d now job s"
    and "db_expire_one reliable now job s = expire_one now job s"
    and "db_recordSubmissionFailure d reliable job s = recordSubmissionFailure d job s"
  by (simp_all add: db_detect_one_def detect_one_def db_expire_one_def expire_one_def
      db_recordSubmissionFailure_def recordSubmissionFailure_def Let_def then_do_def sure_def split: prod.splits)

lemma poll_reliable: "db_pollOne d reliable job s = pollOne d job s"
  by (simp add: db_pollOne_def pollOne_def query_of_def db_record_poll_def record_poll_def poll_patch_def no_patch_def
      then_do_def sure_def split: prod.splits sum.splits attestation_result.splits)

lemma submit_reliable: "db_submit_one d reliable now job s = submit_one d now job s"
  by (simp add: db_submit_one_def submit_one_def db_broadcast_def db_broadcast_failed_def catching_def
      then_do_def sure_def return_def bodies_reliable split: prod.splits sum.splits option.splits)

lemma receipt_reliable: "db_settle_receipt d reliable job hash r s = settle_receipt d job hash r s"
  by (simp add: db_settle_receipt_def settle_receipt_def then_do_def sure_def return_def bodies_reliable
      split: prod.splits option.splits)

lemma settle_reliable: "db_settle_one d reliable job s = settle_one d job s"
  by (simp add: db_settle_one_def settle_one_def then_do_def sure_def return_def receipt_reliable
      split: prod.splits sum.splits option.splits bool.splits)

lemmas machine_reliable = bodies_reliable poll_reliable submit_reliable settle_reliable

lemma tick_reliable: "db_tick d reliable = tick d"
proof -
  have loops: "db_detect_one d reliable now = detect_one d now" "db_expire_one reliable now = expire_one now"
      "db_pollOne d reliable = pollOne d" "db_submit_one d reliable now = submit_one d now"
      "db_settle_one d reliable = settle_one d" for now
    by (intro HOL.ext; simp add: machine_reliable)+
  have "db_tickDetected d reliable s = tickDetected d s" "db_tickAttested d reliable s = tickAttested d s"
      "db_tickSubmitted d reliable s = tickSubmitted d s" for s
    by (simp_all add: db_tickDetected_def tickDetected_def db_tickAttested_def tickAttested_def
        db_tickSubmitted_def tickSubmitted_def then_do_def sure_def loops Let_def split: prod.splits)
  moreover have "db_tickAwaitingAttestation d reliable s = tickAwaitingAttestation d s" for s
    by (simp add: db_tickAwaitingAttestation_def tickAwaitingAttestation_def then_do_def sure_def loops Let_def
        del: set_filter split: prod.splits sum.splits)
  ultimately have "db_tickDetected d reliable = tickDetected d" "db_tickAttested d reliable = tickAttested d"
      "db_tickSubmitted d reliable = tickSubmitted d" "db_tickAwaitingAttestation d reliable = tickAwaitingAttestation d"
    by (auto intro: HOL.ext)
  then show ?thesis by (simp add: db_tick_def tick_def)
qed

lemma claim_reliable: "db_claimMessage ctx reliable m s = claimMessage ctx m s"
  by (simp add: db_claimMessage_def claimMessage_def initialJob_def db_claim_def then_do_def sure_def ext_def Let_def
      split: prod.splits sum.splits classify_result.splits)

lemma claim_loop_reliable: "db_claim_loop ctx reliable n ms s = claim_loop ctx n ms s"
  by (induction ms arbitrary: n s)
    (auto simp: return_def then_do_def claim_reliable split: prod.splits sum.splits option.splits)

lemma discover_reliable: "db_discoverWork ctx reliable = discoverWork ctx"
  by (intro HOL.ext) (simp add: db_discoverWork_def discoverWork_def then_do_def return_def claim_loop_reliable Let_def)

section \<open>What failures add to the life cycle\<close>

text \<open>The steps of a job that only a failed query makes possible: a broadcast that was accepted and
  not recorded counts as a failed one, or, if the text of the database error says so, as already
  delivered; and a reverted transaction is cleared without a retry being counted.\<close>

inductive lapse :: "'w machine_deps \<Rightarrow> cctp_job \<Rightarrow> cctp_job \<Rightarrow> bool" for d where
  unrecorded: "state j = Attested \<Longrightarrow> \<not> retry_later now j \<Longrightarrow> broadcast d j (Inr hash) \<Longrightarrow>
    lapse d j (failed_job j t)"
| misread: "state j = Attested \<Longrightarrow> \<not> retry_later now j \<Longrightarrow> broadcast d j (Inr hash) \<Longrightarrow>
    lapse d j (j\<lparr>state := AlreadyDelivered, updatedAt := t\<rparr>)"
| uncounted: "state j = Submitted \<Longrightarrow> receipt_seen d j (Some r) \<Longrightarrow> rc_status r \<noteq> 1 \<Longrightarrow>
    lapse d j (j\<lparr>state := Attested, submittedTxHash := None, submittedAt := None, updatedAt := t\<rparr>)"

definition fault_step :: "'w machine_deps \<Rightarrow> cctp_job \<Rightarrow> cctp_job \<Rightarrow> bool" where
  "fault_step d j j' \<longleftrightarrow> job_step d j j' \<or> lapse d j j'"

lemma fault_stepI: "job_step d j j' \<Longrightarrow> fault_step d j j'" "lapse d j j' \<Longrightarrow> fault_step d j j'"
  by (simp_all add: fault_step_def)

text \<open>A write changes the table as the statement says or not at all, and reports only what it did.\<close>

definition wrote :: "string \<Rightarrow> job_state \<Rightarrow> job_patch \<Rightarrow> int \<Rightarrow> 'w actor_state \<Rightarrow> 'w actor_state \<Rightarrow> bool" where
  "wrote k f p now s s' \<longleftrightarrow> jobs s' = jobs s \<or> jobs s' = snd (pg_transition (jobs s) k f p now)"

lemma wrote_same [simp]: "jobs s' = jobs s \<Longrightarrow> wrote k f p now s s'"
  by (simp add: wrote_def)

lemma wrote_cong: "jobs s = jobs t \<Longrightarrow> wrote k f p now s s' = wrote k f p now t s'"
  by (simp add: wrote_def)

lemma db_write_wrote: "wrote k f p now s (snd (db_write db k f p now s))"
  using jobs_repo_transition [of k f p now "s\<lparr>world := snd (db (world s))\<rparr>"]
  by (auto simp: db_write_def query_def wrote_def ext_eq split: prod.splits query_fate.splits)

lemma ignoring_snd [simp]: "snd (ignoring m s) = snd (m s)"
  by (simp add: ignoring_def then_do_def return_def split: prod.splits sum.splits)

lemma db_move_wrote: "wrote k f (p\<lparr>p_state := Some t\<rparr>) now s (snd (db_move db k f t p now s))"
  using db_write_wrote [of k f "p\<lparr>p_state := Some t\<rparr>" now s db]
  by (auto simp: db_move_def then_do_def wrote_def transitioned_def split: prod.splits sum.splits)

lemma db_read_jobs [simp]: "jobs (snd (db_read db g s)) = jobs s" "jobs (snd (sure h s)) = jobs s"
    "jobs (snd (ext e s)) = jobs s" "jobs (snd (db_listByState db st s)) = jobs s"
  by (auto simp: db_listByState_def db_read_def query_def sure_def ext_eq split: prod.splits query_fate.splits)

text \<open>Statements after statements that leave the table alone.\<close>

lemma wrote_after:
  assumes "\<And>s. jobs (snd (m s)) = jobs s" and "\<And>r s. wrote k f p now s (snd (g r s))"
  shows "wrote k f p now s (snd (then_do m g s))"
  using assms(1) [of s] assms(2) by (auto simp: then_do_def wrote_def split: prod.splits sum.splits) (metis snd_conv)+

lemma touches_wrote:
  assumes "touches R x s s1" and "wrote (dedupKey x) f p now s1 s2"
    and "\<And>j. pg_get (jobs s1) (dedupKey x) = Some j \<Longrightarrow> state j = f \<Longrightarrow> R x (applyPatch j p now)"
  shows "touches R x s s2"
  using assms pg.invar_transition [of "jobs s1"]
  by (auto simp: touches_def wrote_def pg_get_transition)

lemma current_wrote:
  assumes "current x s" and "wrote (dedupKey x) (state x) p now s s'" and "R x (applyPatch x p now)"
  shows "touches R x s s'"
  by (rule touches_wrote [OF touches_refl [OF assms(1)] assms(2)]) (use assms in \<open>auto simp: current_def\<close>)

lemma move_faults:
  assumes "current x s" and "state x = f" and "R x (applyPatch x (p\<lparr>p_state := Some t\<rparr>) now)"
  shows "touches R x s (snd (ignoring (db_move db (dedupKey x) f t p now) s))"
  unfolding ignoring_snd assms(2) [symmetric] by (rule current_wrote [where now = now, OF assms(1)], rule db_move_wrote, rule assms(3))

lemma write_faults:
  assumes "current x s" and "state x = f" and "R x (applyPatch x p now)"
  shows "touches R x s (snd (ignoring (db_write db (dedupKey x) f p now) s))"
  unfolding ignoring_snd assms(2) [symmetric] by (rule current_wrote [where now = now, OF assms(1)], rule db_write_wrote, rule assms(3))

lemma detect_faults:
  assumes "current x s" and "state x = Detected"
  shows "touches (fault_step d) x s (snd (db_detect_one d db now x s))"
proof (cases "irisMode d = Mock")
  case True
  have "job_step d x (applyPatch x (no_patch\<lparr>p_attestation := Some (Some MOCK_ATTESTATION),
      p_relayMessage := Some (Some (messageBytes x)), p_lastIrisStatus := Some (Some ''mock''),
      p_state := Some Attested\<rparr>) now)"
    using mock_attest [OF True assms(2)] by (simp add: patch_simps)
  then show ?thesis using True assms by (simp add: db_detect_one_def fault_stepI move_faults del: ignoring_snd)
next
  case False
  have "job_step d x (applyPatch x (no_patch\<lparr>p_state := Some AwaitingAttestation\<rparr>) now)"
    using await [OF False assms(2)] by (simp add: patch_simps)
  then show ?thesis using False assms by (simp add: db_detect_one_def fault_stepI move_faults del: ignoring_snd)
qed

lemma expire_faults:
  assumes "current x s" and "state x = AwaitingAttestation" and "is_expired d now x"
  shows "touches (fault_step d) x s (snd (db_expire_one db now x s))"
proof -
  have "job_step d x (applyPatch x (no_patch\<lparr>p_deadLetterReason := Some (Some Expired),
      p_state := Some DeadLetter\<rparr>) now)"
    using expire [OF assms(2), of d now] assms(3) by (simp add: patch_simps is_expired_def)
  then show ?thesis using assms by (simp add: db_expire_one_def fault_stepI move_faults del: ignoring_snd)
qed

lemma record_poll_faults:
  assumes "current x s" and "state x = AwaitingAttestation" and "fetched d x r"
  shows "touches (fault_step d) x s (snd (db_record_poll db x r now s))"
proof (cases r)
  case (AttComplete att msg)
  have "job_step d x (applyPatch x ((poll_patch x ''complete'')\<lparr>p_attestation := Some (Some att),
      p_relayMessage := Some (Some msg), p_state := Some Attested\<rparr>) now)"
    using attest [OF assms(2)] assms(3) AttComplete by (simp add: patch_simps poll_patch_def)
  then show ?thesis using AttComplete assms by (simp add: db_record_poll_def fault_stepI move_faults del: ignoring_snd)
next
  case (AttPending det)
  have "job_step d x (applyPatch x (poll_patch x (case det of None \<Rightarrow> ''pending'' | Some x \<Rightarrow> x)) now)"
    using poll_again [where d = d, OF assms(2) disjI1] assms(3) AttPending by (simp add: patch_simps poll_patch_def)
  then show ?thesis using AttPending assms by (simp add: db_record_poll_def fault_stepI write_faults del: ignoring_snd)
next
  case (AttError e)
  have "job_step d x (applyPatch x (poll_patch x (''error:'' @ e)) now)"
    using poll_again [OF assms(2) disjI2, of d "''error:'' @ e" now] assms(3) AttError
    by (auto simp: patch_simps poll_patch_def)
  then show ?thesis using AttError assms by (simp add: db_record_poll_def fault_stepI write_faults del: ignoring_snd)
qed

text \<open>Peeling the first statement off a body: a clock reading, or a call of the outside.\<close>

lemma touches_sure:
  assumes "\<And>s'. jobs s' = jobs s \<Longrightarrow> touches R x s' (snd (g (fst (h (world s))) s'))"
  shows "touches R x s (snd (then_do (sure h) g s))"
  using assms [of "s\<lparr>world := snd (h (world s))\<rparr>"] by (simp add: then_do_def sure_def ext_eq)

lemma touches_call:
  assumes "current x s" and "\<And>r s'. fst (h (world s)) = Inr r \<Longrightarrow> jobs s' = jobs s \<Longrightarrow> touches R x s' (snd (g r s'))"
  shows "touches R x s (snd (then_do (ext h) g s))"
  using assms(1) assms(2) [of _ "s\<lparr>world := snd (h (world s))\<rparr>"]
  by (auto simp: then_do_def ext_eq touches_refl touches_same split: sum.splits)

lemma current_jobs: "jobs s' = jobs s \<Longrightarrow> current x s' = current x s"
  by (simp add: current_def)

lemma touches_return: "current x s \<Longrightarrow> touches R x s (snd (return r s))"
  by (simp add: return_def touches_refl)

lemma poll_faults:
  assumes "current x s" and "state x = AwaitingAttestation"
  shows "touches (fault_step d) x s (snd (db_pollOne d db x s))"
  unfolding db_pollOne_def
proof (intro touches_call touches_sure)
  show "current x s" by (rule assms(1))
  fix r and s1 s2 :: "'a actor_state"
  assume got: "fst (att_fetch d (query_of x) (world s)) = Inr r" and eq: "jobs s1 = jobs s" "jobs s2 = jobs s1"
  have "current x s2" using assms(1) eq by (simp add: current_def)
  moreover have "fetched d x r" using got unfolding fetched_def by blast
  ultimately show "touches (fault_step d) x s2 (snd (db_record_poll db x r (fst (now_dep d (world s1))) s2))"
    using assms(2) by (intro record_poll_faults)
qed

lemma failure_wrote:
  "\<exists>p now. wrote (dedupKey x) Attested p now s (snd (db_recordSubmissionFailure d db x s))
    \<and> applyPatch x p now = failed_job x now"
proof -
  let ?now = "fst (now_dep d (world s))"
  have "MAX_RELAY_RETRIES < retryAttempts x + 1 \<Longrightarrow> ?thesis"
    using db_move_wrote [of "dedupKey x" Attested DeadLetter
        "no_patch\<lparr>p_deadLetterReason := Some (Some RetriesExhausted)\<rparr>" ?now "s\<lparr>world := snd (now_dep d (world s))\<rparr>" db]
    by (intro exI [of _ "no_patch\<lparr>p_deadLetterReason := Some (Some RetriesExhausted), p_state := Some DeadLetter\<rparr>"]
        exI [of _ ?now])
      (simp add: db_recordSubmissionFailure_def then_do_def sure_def ext_eq wrote_def failed_job_def patch_simps)
  moreover have "\<not> MAX_RELAY_RETRIES < retryAttempts x + 1 \<Longrightarrow> ?thesis"
    using db_write_wrote [of "dedupKey x" Attested "no_patch\<lparr>p_retryAttempts := Some (retryAttempts x + 1),
          p_nextRetryAt := Some (Some (backoff x ?now))\<rparr>" ?now "s\<lparr>world := snd (now_dep d (world s))\<rparr>" db]
    by (intro exI [of _ "no_patch\<lparr>p_retryAttempts := Some (retryAttempts x + 1),
          p_nextRetryAt := Some (Some (backoff x ?now))\<rparr>"] exI [of _ ?now])
      (simp add: db_recordSubmissionFailure_def then_do_def sure_def ext_eq wrote_def failed_job_def patch_simps
        backoff_def Let_def)
  ultimately show ?thesis by blast
qed

text \<open>Recording a failure after the table may have been written: the job that is still attested is the
  one the failure is of.\<close>

lemma failure_faults:
  assumes "touches R x s s1" and "dedupKey y = dedupKey x"
    and "\<And>j. pg_get (jobs s1) (dedupKey x) = Some j \<Longrightarrow> state j = Attested \<Longrightarrow> j = y"
    and "\<And>t. R x (failed_job y t)"
  shows "touches R x s (snd (db_recordSubmissionFailure d db y s1))"
proof -
  obtain p now where "wrote (dedupKey y) Attested p now s1 (snd (db_recordSubmissionFailure d db y s1))"
    "applyPatch y p now = failed_job y now" using failure_wrote by blast
  then show ?thesis
    using assms by (intro touches_wrote [OF assms(1), of Attested p now]) auto
qed

section \<open>Submission and settlement\<close>

lemma wrote_stored:
  assumes "current x s" and "wrote (dedupKey x) f p now s s1"
    and "pg_get (jobs s1) (dedupKey x) = Some j"
  shows "j = x \<or> state x = f \<and> j = applyPatch x p now"
  using assms by (auto simp: wrote_def current_def pg_get_transition split: if_splits)

lemma handler_faults:
  assumes st: "state x = Attested" "\<not> retry_later now x"
    and prior: "touches (fault_step d) x s s1" "\<And>j. pg_get (jobs s1) (dedupKey x) = Some j \<Longrightarrow> state j = Attested \<Longrightarrow> j = x"
    and sent: "broadcast d x r" "isl r \<longrightarrow> r = Inl e"
  shows "touches (fault_step d) x s (snd (db_broadcast_failed d db x e s1))"
proof (cases "already_processed e")
  case True
  have "fault_step d x (applyPatch x (no_patch\<lparr>p_state := Some AlreadyDelivered\<rparr>) t)" for t
    using already [where d = d, OF st _ True] misread [where d = d, OF st] sent
    by (cases r) (auto simp: patch_simps fault_step_def)
  then have "touches (fault_step d) x s (snd (db_move db (dedupKey x) Attested AlreadyDelivered no_patch t s2))"
    if "jobs s2 = jobs s1" for t and s2 :: "'a actor_state"
    using prior that
    by (intro touches_wrote [OF prior(1) db_move_wrote [THEN wrote_cong [THEN iffD1, rotated]]]) auto
  then show ?thesis using True
    by (simp add: db_broadcast_failed_def then_do_def sure_def ext_eq)
next
  case False
  have "fault_step d x (failed_job x t)" for t
    using retry [where d = d, OF st _ False] exhaust [where d = d, OF st _ False] unrecorded [where d = d, OF st] sent
    by (cases r) (auto simp: failed_job_def not_less fault_step_def)
  then show ?thesis
    using False prior by (simp add: db_broadcast_failed_def) (rule failure_faults, auto)
qed

text \<open>What the guarded part of a submission has done when it ends or throws.\<close>

lemma broadcast_wrote:
  assumes "fst (submitRelayWithHook d (destinationDomain x) msg att (world s)) = Inr hash"
  shows "\<exists>t1 t2. wrote (dedupKey x) Attested (no_patch\<lparr>p_submittedTxHash := Some (Some hash),
      p_submittedAt := Some (Some t1), p_nextRetryAt := Some None, p_state := Some Submitted\<rparr>) t2 s
    (snd (db_broadcast d db x msg att s))"
proof -
  let ?w = "snd (submitRelayWithHook d (destinationDomain x) msg att (world s))"
  let ?t1 = "fst (now_dep d ?w)" let ?t2 = "fst (now_dep d (snd (now_dep d ?w)))"
  show ?thesis
    using assms db_move_wrote [of "dedupKey x" Attested Submitted "no_patch\<lparr>p_submittedTxHash := Some (Some hash),
        p_submittedAt := Some (Some ?t1), p_nextRetryAt := Some None\<rparr>" ?t2
        "s\<lparr>world := snd (now_dep d (snd (now_dep d ?w)))\<rparr>" db]
    by (intro exI [of _ ?t1] exI [of _ ?t2])
      (simp add: db_broadcast_def then_do_def sure_def ext_eq wrote_def)
qed

lemma submit_faults:
  assumes cur: "current x s" and st: "state x = Attested"
  shows "touches (fault_step d) x s (snd (db_submit_one d db now x s))"
proof (cases "retry_later now x")
  case True
  then show ?thesis using cur by (simp add: db_submit_one_def touches_return)
next
  case due: False
  show ?thesis
  proof (cases "attestation x = None \<or> relayMessage x = None")
    case True
    have "fault_step d x (applyPatch x (no_patch\<lparr>p_state := Some AwaitingAttestation\<rparr>) now)"
      using repoll [where d = d, OF st due True] by (simp add: patch_simps fault_step_def)
    with cur st have "touches (fault_step d) x s
        (snd (ignoring (db_move db (dedupKey x) Attested AwaitingAttestation no_patch now) s))"
      by (rule move_faults)
    then show ?thesis using due True by (auto simp: db_submit_one_def split: option.splits)
  next
    case False
    then obtain att msg where bytes: "attestation x = Some att" "relayMessage x = Some msg" by auto
    let ?r = "fst (submitRelayWithHook d (destinationDomain x) msg att (world s))"
    have sent: "broadcast d x ?r" using bytes unfolding broadcast_def by blast
    obtain q s1 where run: "db_broadcast d db x msg att s = (q, s1)" by fastforce
    have post: "touches (fault_step d) x s s1
        \<and> (\<forall>j. pg_get (jobs s1) (dedupKey x) = Some j \<longrightarrow> state j = Attested \<longrightarrow> j = x)
        \<and> (\<forall>e. ?r = Inl e \<longrightarrow> q = Inl e)"
    proof (cases ?r)
      case (Inl e)
      with run have "q = Inl e" "jobs s1 = jobs s" by (auto simp: db_broadcast_def then_do_def ext_eq)
      with Inl cur show ?thesis by (auto simp: touches_def current_def)
    next
      case (Inr hash)
      obtain t1 t2 where w: "wrote (dedupKey x) Attested (no_patch\<lparr>p_submittedTxHash := Some (Some hash),
          p_submittedAt := Some (Some t1), p_nextRetryAt := Some None, p_state := Some Submitted\<rparr>) t2 s s1"
        using broadcast_wrote [OF Inr, of db] run by auto
      have "fault_step d x (applyPatch x (no_patch\<lparr>p_submittedTxHash := Some (Some hash),
          p_submittedAt := Some (Some t1), p_nextRetryAt := Some None, p_state := Some Submitted\<rparr>) t2)"
        using submit [where d = d, OF st due] sent Inr by (simp add: patch_simps fault_step_def)
      then have "touches (fault_step d) x s s1" by (rule current_wrote [OF cur w [folded st]])
      moreover have "j = x" if "pg_get (jobs s1) (dedupKey x) = Some j" "state j = Attested" for j
        using wrote_stored [OF cur w that(1)] that(2) by (auto simp: patch_simps)
      ultimately show ?thesis using Inr by simp
    qed
    show ?thesis
    proof (cases q)
      case (Inr u)
      then show ?thesis using due bytes run post by (simp add: db_submit_one_def catching_def)
    next
      case (Inl e)
      have "touches (fault_step d) x s (snd (db_broadcast_failed d db x e s1))"
        by (rule handler_faults [OF st due _ _ sent]) (use post Inl in \<open>auto simp: isl_def\<close>)
      then show ?thesis using due bytes run Inl by (simp add: db_submit_one_def catching_def)
    qed
  qed
qed

lemma receipt_faults:
  assumes cur: "current x s" and st: "state x = Submitted" and hash: "submittedTxHash x = Some hash"
    and seen: "receipt_seen d x (Some r)"
  shows "touches (fault_step d) x s (snd (db_settle_receipt d db x hash r s))"
proof (cases "rc_status r = 1")
  case True
  have step: "fault_step d x (applyPatch x (no_patch\<lparr>p_deliveredTxHash := Some (Some hash),
      p_deliveredBlock := Some (Some (rc_blockNumber r)), p_deliveredAt := Some (Some t1),
      p_state := Some Delivered\<rparr>) t2)" for t1 t2
    using deliver [OF st seen True hash] by (simp add: patch_simps fault_step_def)
  have "touches (fault_step d) x s2 (snd (ignoring (db_move db (dedupKey x) Submitted Delivered
      (no_patch\<lparr>p_deliveredTxHash := Some (Some hash), p_deliveredBlock := Some (Some (rc_blockNumber r)),
        p_deliveredAt := Some (Some t1)\<rparr>) t2) s2))"
    if "jobs s2 = jobs s" for t1 t2 and s2 :: "'a actor_state"
    using that cur by (intro move_faults st step) (simp add: current_def)
  then show ?thesis using True
    by (simp add: db_settle_receipt_def del: ignoring_snd) (intro touches_sure, simp del: ignoring_snd)
next
  case False
  let ?t = "fst (now_dep d (world s))" and ?s0 = "s\<lparr>world := snd (now_dep d (world s))\<rparr>"
  let ?fresh = "applyPatch x (clear_submission\<lparr>p_state := Some Attested\<rparr>) ?t"
  have lapsed: "fault_step d x ?fresh"
    using uncounted [OF st seen False] by (simp add: patch_simps fault_step_def)
  obtain c s1 where clear: "db_move db (dedupKey x) Submitted Attested clear_submission ?t ?s0 = (c, s1)" by fastforce
  have w: "wrote (dedupKey x) Submitted (clear_submission\<lparr>p_state := Some Attested\<rparr>) ?t s s1"
    using db_move_wrote [of "dedupKey x" Submitted Attested clear_submission ?t ?s0 db] clear by (simp add: wrote_def)
  have t1: "touches (fault_step d) x s s1" by (rule current_wrote [OF cur w [folded st]]) (rule lapsed)
  have same: "touches (fault_step d) x s s'" if "jobs s' = jobs s1" for s' :: "'a actor_state"
    using t1 that by (simp add: touches_def)
  have only: "j = ?fresh" if "pg_get (jobs s1) (dedupKey x) = Some j" "state j = Attested" for j
    using wrote_stored [OF cur w that(1)] that(2) st by auto
  have failed: "touches (fault_step d) x s (snd (db_recordSubmissionFailure d db j s2))"
    if "jobs s2 = jobs s1" "pg_get (jobs s1) (dedupKey x) = Some j" "state j = Attested" for j and s2 :: "'a actor_state"
  proof (rule failure_faults [OF same [OF that(1)]])
    show "dedupKey j = dedupKey x" using only [OF that(2,3)] by (simp add: patch_simps)
    show "j' = j" if "pg_get (jobs s2) (dedupKey x) = Some j'" "state j' = Attested" for j'
      using only that \<open>jobs s2 = jobs s1\<close> \<open>pg_get (jobs s1) (dedupKey x) = Some j\<close> by auto
    show "fault_step d x (failed_job j t)" for t
      using failed_after_clear [OF st seen False, of ?t t] only [OF that(2,3)] by (simp add: fault_step_def)
  qed
  have read: "touches (fault_step d) x s (snd (then_do (db_read db (\<lambda>s. pg_get (jobs s) (dedupKey x))) (\<lambda>fresh. case fresh of
                None \<Rightarrow> return ()
              | Some fresh \<Rightarrow>
                  if state fresh = Attested then db_recordSubmissionFailure d db fresh else return ()) s1))"
  proof -
    obtain q s2 where rd: "db_read db (\<lambda>s. pg_get (jobs s) (dedupKey x)) s1 = (q, s2)" by fastforce
    have j2: "jobs s2 = jobs s1" using db_read_jobs(1) [of db "\<lambda>s. pg_get (jobs s) (dedupKey x)" s1] rd by simp
    have "f = pg_get (jobs s1) (dedupKey x)" if "q = Inr f" for f
      using rd that by (auto simp: db_read_def query_def ext_eq split: prod.splits query_fate.splits)
    then show ?thesis using rd j2 same failed
      by (auto simp: then_do_def return_def split: sum.splits option.splits)
  qed
  show ?thesis using False clear same read
    by (auto simp: db_settle_receipt_def then_do_def sure_def ext_eq return_def split: sum.splits)
qed

lemma settle_faults:
  assumes cur: "current x s" and st: "state x = Submitted"
  shows "touches (fault_step d) x s (snd (db_settle_one d db x s))"
  unfolding db_settle_one_def
proof (rule touches_sure)
  let ?now = "fst (now_dep d (world s))"
  fix s1 :: "'a actor_state" assume j1: "jobs s1 = jobs s"
  then have cur1: "current x s1" using cur by (simp add: current_def)
  have clear: "touches (fault_step d) x s3 (snd (ignoring (db_move db (dedupKey x) Submitted Attested clear_submission ?now) s3))"
    if "jobs s3 = jobs s" "dropped d x ?now" for s3 :: "'a actor_state"
  proof -
    have "fault_step d x (applyPatch x (clear_submission\<lparr>p_state := Some Attested\<rparr>) ?now)"
      using drop_stuck [OF st that(2)] by (simp add: patch_simps fault_step_def)
    moreover have "current x s3" using cur that(1) by (simp add: current_def)
    ultimately show ?thesis by (intro move_faults st)
  qed
  show "touches (fault_step d) x s1 (snd ((case (submittedAt x, submittedTxHash x) of
       (Some at, Some hash) \<Rightarrow>
         then_do (ext (getReceipt d (destinationDomain x) hash)) (\<lambda>r. case r of
             Some receipt \<Rightarrow> db_settle_receipt d db x hash receipt
           | None \<Rightarrow>
               if stuckTxThresholdMs d < ?now - at then
                 then_do (ext (isInMempool d (destinationDomain x) hash)) (\<lambda>stillPending.
                   if stillPending then return ()
                   else then_do (ext (resetNonce d (destinationDomain x))) (\<lambda>_.
                     ignoring (db_move db (dedupKey x) Submitted Attested clear_submission ?now)))
               else return ())
     | _ \<Rightarrow> return ()) s1))"
  proof (cases "submittedAt x = None \<or> submittedTxHash x = None")
    case True
    then show ?thesis using cur1 by (auto intro: touches_return split: option.splits)
  next
    case False
    then obtain at hash where sub: "submittedAt x = Some at" "submittedTxHash x = Some hash" by auto
    show ?thesis unfolding sub prod.case option.case
    proof (rule touches_call [OF cur1])
      fix r and s2 :: "'a actor_state" assume got: "fst (getReceipt d (destinationDomain x) hash (world s1)) = Inr r" and j2: "jobs s2 = jobs s1"
      have seen: "receipt_seen d x r" unfolding receipt_seen_def using sub got by auto
      have cur2: "current x s2" using cur1 j2 by (simp add: current_def)
      show "touches (fault_step d) x s2 (snd ((case r of
             Some receipt \<Rightarrow> db_settle_receipt d db x hash receipt
           | None \<Rightarrow>
               if stuckTxThresholdMs d < ?now - at then
                 then_do (ext (isInMempool d (destinationDomain x) hash)) (\<lambda>stillPending.
                   if stillPending then return ()
                   else then_do (ext (resetNonce d (destinationDomain x))) (\<lambda>_.
                     ignoring (db_move db (dedupKey x) Submitted Attested clear_submission ?now)))
               else return ()) s2))"
      proof (cases r)
        case (Some rec)
        then show ?thesis using receipt_faults [OF cur2 st sub(2)] seen by simp
      next
        case None
        have "touches (fault_step d) x s3 (snd (then_do (ext (resetNonce d (destinationDomain x))) (\<lambda>_.
            ignoring (db_move db (dedupKey x) Submitted Attested clear_submission ?now)) s3))"
          if "jobs s3 = jobs s2" "dropped d x ?now" for s3 :: "'a actor_state"
          using that j2 j1 cur2
          by (intro touches_call) (auto simp: current_def simp del: ignoring_snd intro!: clear)
        moreover have "dropped d x ?now" if "stuckTxThresholdMs d < ?now - at"
            "fst (isInMempool d (destinationDomain x) hash (world s2)) = Inr False"
          unfolding dropped_def using seen None sub that by auto
        ultimately show ?thesis using None cur2
          by (auto intro!: touches_call touches_return simp: current_def split: if_splits)
      qed
    qed
  qed
qed

section \<open>Ticks and discovery under failures\<close>

text \<open>A phase that lists the jobs of a state and runs a body over them.\<close>

lemma listed_phase:
  assumes inv: "pg_invar (jobs s)"
    and loop: "\<And>s'. jobs s' = jobs s \<Longrightarrow>
      phase R s' (snd (g (pg_listByState (jobs s) st TICK_BATCH) s'))"
  shows "phase R s (snd (then_do (db_listByState db st) g s))"
proof -
  obtain q s1 where rd: "db_listByState db st s = (q, s1)" by fastforce
  have s1: "jobs s1 = jobs s" using db_read_jobs(4) [of db st s] rd by simp
  have idle: "phase R s s1" using inv s1 by (simp add: phase_def option.rel_refl)
  have "q = Inr (pg_listByState (jobs s) st TICK_BATCH)" if "q = Inr l" for l
    using rd that by (auto simp: db_listByState_def db_read_def query_def ext_eq split: prod.splits query_fate.splits)
  then show ?thesis using rd s1 idle loop [OF s1] by (cases q) (auto simp: then_do_def phase_def)
qed

lemma phase_jobs: "jobs s' = jobs s \<Longrightarrow> phase R s' t = phase R s t"
  by (simp add: phase_def)

lemma loop_phase:
  assumes "pg_invar (jobs s)" and eq: "jobs s' = jobs s"
    and body: "\<And>x s'. current x s' \<Longrightarrow> state x = st \<Longrightarrow> touches R x s' (snd (f x s'))"
  shows "phase R s' (snd (for_each f (pg_listByState (jobs s) st TICK_BATCH) s'))"
proof -
  have inv: "pg_invar (jobs s')" using assms(1) eq by simp
  show ?thesis unfolding eq [symmetric]
    by (rule phase_of_loop [OF for_each_post listing_listByState [OF inv]])
      (auto intro: body listed_state [OF inv] listing_listByState [OF inv])
qed

lemma listing_jobs: "jobs s' = jobs s \<Longrightarrow> listing xs s' = listing xs s"
  by (simp add: listing_def current_def)

lemma sure_phase:
  assumes "\<And>s'. jobs s' = jobs s \<Longrightarrow> phase R s' (snd (g (fst (h (world s))) s'))"
  shows "phase R s (snd (then_do (sure h) g s))"
  using assms [of "s\<lparr>world := snd (h (world s))\<rparr>"] by (simp add: then_do_def sure_def ext_eq phase_def)

lemma two_loops:
  assumes l: "listing (xs @ ys) s"
    and "\<And>x s. x \<in> set xs \<Longrightarrow> current x s \<Longrightarrow> touches R x s (snd (f x s))"
    and "\<And>y s. y \<in> set ys \<Longrightarrow> current y s \<Longrightarrow> touches R y s (snd (g y s))"
  shows "phase R s (snd (then_do (for_each f xs) (\<lambda>_. all_settled g ys) s))"
proof -
  obtain r s1 where run: "for_each f xs s = (r, s1)" by fastforce
  have lx: "listing xs s" using l by (simp add: listing_def)
  have first: "loop_post R xs s s1" using for_each_post [of xs R f s, OF assms(2) lx] run by simp
  have "loop_post R (xs @ ys) s (snd (all_settled g ys s1))"
    by (rule loop_post_append [OF first l]) (rule all_settled_post [OF assms(3)])
  then show ?thesis using run phase_of_loop [OF first lx] phase_of_loop [OF _ l]
    by (cases r) (simp_all add: then_do_def)
qed

lemma db_tickDetected_phase: "pg_invar (jobs s) \<Longrightarrow> phase (fault_step d) s (snd (db_tickDetected d db s))"
  unfolding db_tickDetected_def
  by (intro listed_phase sure_phase loop_phase [where st = Detected]) (simp_all add: detect_faults)

lemma db_tickAttested_phase: "pg_invar (jobs s) \<Longrightarrow> phase (fault_step d) s (snd (db_tickAttested d db s))"
  unfolding db_tickAttested_def
  by (intro listed_phase sure_phase loop_phase [where st = Attested]) (simp_all add: submit_faults)

lemma db_tickSubmitted_phase: "pg_invar (jobs s) \<Longrightarrow> phase (fault_step d) s (snd (db_tickSubmitted d db s))"
  unfolding db_tickSubmitted_def
  by (intro listed_phase loop_phase [where st = Submitted]) (simp_all add: settle_faults)

lemma db_tickAwaiting_phase:
  assumes "pg_invar (jobs s)"
  shows "phase (fault_step d) s (snd (db_tickAwaitingAttestation d db s))"
  unfolding db_tickAwaitingAttestation_def Let_def
proof (intro listed_phase sure_phase two_loops)
  let ?l = "pg_listByState (jobs s) AwaitingAttestation TICK_BATCH"
  show "pg_invar (jobs s)" by (rule assms)
  fix s1 s2 :: "'a actor_state" and now assume eq: "jobs s1 = jobs s" "jobs s2 = jobs s1"
  have "listing ?l s2" using listing_listByState [OF assms] eq by (simp add: listing_def current_def)
  then show "listing (filter (is_expired d now) ?l
      @ take IRIS_POLL_CONCURRENCY (filter (\<lambda>j. j \<notin> set (filter (is_expired d now) ?l)) ?l)) s2"
    by (rule listing_split)
qed (auto intro: listed_state [OF assms] dest!: in_set_takeD
    intro!: expire_faults poll_faults)

lemma db_tick_evolves:
  assumes "pg_invar (jobs s)"
  shows "evolves (fault_step d) s (snd (db_tick d db s))"
  unfolding db_tick_def
  by (intro evolves_and_then assms evolves_phase db_tickDetected_phase db_tickAwaiting_phase
      db_tickAttested_phase db_tickSubmitted_phase)

text \<open>A claim inserts the initial job of its message or nothing.\<close>

lemma db_claim_extends:
  assumes inv: "pg_invar (jobs s)" and job: "initialJob ctx v msg (fst (dc_now ctx w)) = Inr job"
  shows "extends ctx {msg} (jobs s) (jobs (snd (db_claim db job s))) \<and> pg_invar (jobs (snd (db_claim db job s)))"
proof -
  have key: "dedupKey job = m_id msg" using job by (auto dest: initialJob_key)
  have "jobs (snd (db_claim db job s)) = jobs s
      \<or> pg_get (jobs s) (m_id msg) = None \<and> jobs (snd (db_claim db job s)) = jobs s @ [jobToRow job]"
    by (auto simp: db_claim_def then_do_def query_def ext_eq pg_insert_eq key split: prod.splits query_fate.splits sum.splits)
  then show ?thesis using inv insert_extends [OF inv _ job] by (auto simp: extends_refl)
qed

lemma db_claimMessage_extends:
  assumes "pg_invar (jobs s)"
  shows "extends ctx {msg} (jobs s) (jobs (snd (db_claimMessage ctx db msg s)))
    \<and> pg_invar (jobs (snd (db_claimMessage ctx db msg s)))"
proof -
  let ?now = "fst (dc_now ctx (world s))"
  have same: "extends ctx {msg} (jobs s) (jobs s') \<and> pg_invar (jobs s')" if "jobs s' = jobs s" for s' :: "'a actor_state"
    using that assms by (simp add: extends_refl)
  have claim: "extends ctx {msg} (jobs s) (jobs (snd (db_claim db job s'))) \<and> pg_invar (jobs (snd (db_claim db job s')))"
    if "jobs s' = jobs s" "initialJob ctx v msg ?now = Inr job" for s' :: "'a actor_state" and v job
    using db_claim_extends [of s' ctx v msg "world s" job db] that assms by simp
  have read: "extends ctx {msg} (jobs s)
        (jobs (snd (then_do (db_read db (\<lambda>s. pg_messageReceivedExists (dc_view ctx (world s)) n h)) g s')))
      \<and> pg_invar (jobs (snd (then_do (db_read db (\<lambda>s. pg_messageReceivedExists (dc_view ctx (world s)) n h)) g s')))"
    if "jobs s' = jobs s" "\<And>v s''. jobs s'' = jobs s \<Longrightarrow>
        extends ctx {msg} (jobs s) (jobs (snd (g (pg_messageReceivedExists v n h) s''))) \<and>
        pg_invar (jobs (snd (g (pg_messageReceivedExists v n h) s'')))" for s' n h g
  proof -
    obtain q s2 where rd: "db_read db (\<lambda>s. pg_messageReceivedExists (dc_view ctx (world s)) n h) s' = (q, s2)" by fastforce
    have "jobs s2 = jobs s" using db_read_jobs(1) [of db _ s'] rd that(1) by (metis snd_conv)
    moreover have "\<exists>v. r = pg_messageReceivedExists v n h" if "q = Inr r" for r
      using rd that by (auto simp: db_read_def query_def ext_eq split: prod.splits query_fate.splits)
    ultimately show ?thesis using rd same that(2) by (cases q) (auto simp: then_do_def)
  qed
  have start: "db_claimMessage ctx db msg s = (case newJob (dc_ethers ctx) msg Detected ?now of
       Inl e \<Rightarrow> (\<lambda>s. (Inl e, s))
     | Inr job \<Rightarrow>
        (case classifyMessageForRelay (dc_ethers ctx) (m_messageBytes msg) (knownRecipients ctx) (hook_for ctx msg) of
           Inl e \<Rightarrow> (\<lambda>s. (Inl e, s))
         | Inr (NoRelay reason) \<Rightarrow>
             db_claim db (job\<lparr>state := Skipped, deadLetterReason := Some (SkipReason reason)\<rparr>)
         | Inr (Relay _) \<Rightarrow>
             if nonce job = ZERO_NONCE then db_claim db job
             else then_do (db_read db (\<lambda>s. pg_messageReceivedExists (dc_view ctx (world s))
                      (m_sourceDomain msg) (nonce job)))
               (\<lambda>seen. db_claim db (if seen then job\<lparr>state := AlreadyDelivered\<rparr> else job))))
      (s\<lparr>world := snd (dc_now ctx (world s))\<rparr>)"
    unfolding db_claimMessage_def hook_for_def by (simp add: then_do_def sure_def ext_eq)
  show ?thesis
  proof (cases "newJob (dc_ethers ctx) msg Detected ?now")
    case (Inl e)
    then show ?thesis unfolding start by (simp add: assms extends_refl)
  next
    case job: (Inr job)
    let ?c = "classifyMessageForRelay (dc_ethers ctx) (m_messageBytes msg) (knownRecipients ctx) (hook_for ctx msg)"
    have initial: "initialJob ctx v msg ?now = (case ?c of Inl e \<Rightarrow> Inl e
        | Inr (NoRelay reason) \<Rightarrow> Inr (job\<lparr>state := Skipped, deadLetterReason := Some (SkipReason reason)\<rparr>)
        | Inr (Relay _) \<Rightarrow> if nonce job \<noteq> ZERO_NONCE \<and> pg_messageReceivedExists v (m_sourceDomain msg) (nonce job)
              then Inr (job\<lparr>state := AlreadyDelivered\<rparr>) else Inr job)" for v
      using job by (simp add: initialJob_def hook_for_def)
    consider (refused) e where "?c = Inl e" | (skip) reason where "?c = Inr (NoRelay reason)"
      | (relay) r where "?c = Inr (Relay r)" by (metis classify_result.exhaust sum.exhaust)
    then show ?thesis
    proof cases
      case refused
      then show ?thesis unfolding start using job by (simp add: assms extends_refl)
    next
      case skip
      have "extends ctx {msg} (jobs s) (jobs (snd (db_claim db
            (job\<lparr>state := Skipped, deadLetterReason := Some (SkipReason reason)\<rparr>) s'))) \<and>
          pg_invar (jobs (snd (db_claim db (job\<lparr>state := Skipped, deadLetterReason := Some (SkipReason reason)\<rparr>) s')))"
        if "jobs s' = jobs s" for s' :: "'a actor_state"
        by (rule claim [OF that, where v = "dc_view ctx (world s)"]) (simp add: initial skip)
      then show ?thesis unfolding start using job skip by simp
    next
      case relay
      show ?thesis
      proof (cases "nonce job = ZERO_NONCE")
        case True
        have "extends ctx {msg} (jobs s) (jobs (snd (db_claim db job s'))) \<and> pg_invar (jobs (snd (db_claim db job s')))"
          if "jobs s' = jobs s" for s' :: "'a actor_state"
          by (rule claim [OF that, where v = "dc_view ctx (world s)"]) (simp add: initial relay True)
        then show ?thesis unfolding start using job relay True by simp
      next
        case False
        have "extends ctx {msg} (jobs s) (jobs (snd (db_claim db
              (if pg_messageReceivedExists v (m_sourceDomain msg) (nonce job) then job\<lparr>state := AlreadyDelivered\<rparr> else job) s'))) \<and>
            pg_invar (jobs (snd (db_claim db
              (if pg_messageReceivedExists v (m_sourceDomain msg) (nonce job) then job\<lparr>state := AlreadyDelivered\<rparr> else job) s')))"
          if "jobs s' = jobs s" for v and s' :: "'a actor_state"
          by (rule claim [OF that, where v = v]) (simp add: initial relay False)
        then show ?thesis unfolding start using job relay False by (simp del: db_read_jobs) (rule read, simp_all)
      qed
    qed
  qed
qed

lemma db_claim_loop_extends:
  assumes "pg_invar (jobs s)"
  shows "extends ctx (set ms) (jobs s) (jobs (snd (db_claim_loop ctx db n ms s)))
    \<and> pg_invar (jobs (snd (db_claim_loop ctx db n ms s)))"
  using assms
proof (induction ms arbitrary: n s)
  case Nil
  then show ?case by (simp add: return_def extends_refl)
next
  case (Cons m ms)
  obtain r s1 where one: "db_claimMessage ctx db m s = (r, s1)" by fastforce
  have ext1: "extends ctx (set (m # ms)) (jobs s) (jobs s1)" and inv: "pg_invar (jobs s1)"
    using db_claimMessage_extends [OF Cons.prems, of ctx m db] one by (auto intro: extends_mono)
  have "extends ctx (set (m # ms)) (jobs s1) (jobs (snd (db_claim_loop ctx db k ms s1)))
      \<and> pg_invar (jobs (snd (db_claim_loop ctx db k ms s1)))" for k
    using Cons.IH [OF inv, of k] by (auto intro: extends_mono)
  then show ?case using one ext1 inv extends_trans [OF ext1] by (cases r) (auto simp: then_do_def)
qed

lemma db_discover_extends:
  assumes "pg_invar (jobs s)"
  shows "\<exists>M. extends ctx M (jobs s) (jobs (snd (db_discoverWork ctx db s)))
    \<and> pg_invar (jobs (snd (db_discoverWork ctx db s)))"
proof -
  have read: "\<exists>M. extends ctx M (jobs s) (jobs (snd (then_do (db_read db f) g s'))) \<and> pg_invar (jobs (snd (then_do (db_read db f) g s')))"
    if "jobs s' = jobs s" "\<And>r s''. jobs s'' = jobs s \<Longrightarrow> \<exists>M. extends ctx M (jobs s) (jobs (snd (g r s''))) \<and> pg_invar (jobs (snd (g r s'')))"
    for f :: "'a actor_state \<Rightarrow> 'x" and g :: "'x \<Rightarrow> ('a actor_state, nat) act" and s'
  proof -
    obtain q s2 where rd: "db_read db f s' = (q, s2)" by fastforce
    have "jobs s2 = jobs s" using db_read_jobs(1) [of db f s'] rd that(1) by simp
    then show ?thesis using rd that(2) assms by (cases q) (auto simp: then_do_def intro: extends_refl)
  qed
  have loop: "\<exists>M. extends ctx M (jobs s) (jobs (snd (db_claim_loop ctx db n ms s')))
      \<and> pg_invar (jobs (snd (db_claim_loop ctx db n ms s')))" if "jobs s' = jobs s" for n ms s'
    using db_claim_loop_extends [of s' ctx ms db n] that assms by auto
  show ?thesis unfolding db_discoverWork_def Let_def
  proof (rule read)
    fix gate_of :: "chain_progress list" and s' :: "'a actor_state" assume eq: "jobs s' = jobs s"
    let ?gate = "discoveryGate ctx [] gate_of"
    have "\<exists>M. extends ctx M (jobs s) (jobs (snd (then_do (db_read db (\<lambda>s. pg_unclaimedMessages (dc_view ctx (world s))
          (jobs s) ?gate DISCOVERY_BATCH_LIMIT)) (db_claim_loop ctx db 0) s')))
        \<and> pg_invar (jobs (snd (then_do (db_read db (\<lambda>s. pg_unclaimedMessages (dc_view ctx (world s))
          (jobs s) ?gate DISCOVERY_BATCH_LIMIT)) (db_claim_loop ctx db 0) s')))"
      by (rule read [OF eq]) (rule loop)
    then show "\<exists>M. extends ctx M (jobs s) (jobs (snd ((if ?gate = [] then return 0
          else then_do (db_read db (\<lambda>s. pg_unclaimedMessages (dc_view ctx (world s)) (jobs s) ?gate DISCOVERY_BATCH_LIMIT))
                 (db_claim_loop ctx db 0)) s')))
        \<and> pg_invar (jobs (snd ((if ?gate = [] then return 0
          else then_do (db_read db (\<lambda>s. pg_unclaimedMessages (dc_view ctx (world s)) (jobs s) ?gate DISCOVERY_BATCH_LIMIT))
                 (db_claim_loop ctx db 0)) s')))"
      using eq assms by (auto simp: return_def intro: extends_refl)
  qed simp
qed

section \<open>Runs over a failing database\<close>

text \<open>What may happen, with any query of any of them failing: the fate of a query is part of the world.\<close>

inductive db_run :: "'w discovery_ctx \<Rightarrow> 'w machine_deps \<Rightarrow> 'w database \<Rightarrow> 'w actor_state \<Rightarrow> bool" for ctx d db where
  start: "jobs s = [] \<Longrightarrow> db_run ctx d db s"
| outside: "db_run ctx d db s \<Longrightarrow> db_run ctx d db (s\<lparr>world := w\<rparr>)"
| claim: "db_run ctx d db s \<Longrightarrow> db_run ctx d db (snd (db_claimMessage ctx db m s))"
| discover: "db_run ctx d db s \<Longrightarrow> db_run ctx d db (snd (db_discoverWork ctx db s))"
| machine: "db_run ctx d db s \<Longrightarrow> db_run ctx d db (snd (db_tick d db s))"

inductive_cases lapseE: "lapse d j j'"

lemma lapse_identity: "lapse d j j' \<Longrightarrow> same_identity j j'"
  by (erule lapseE) (simp_all add: same_identity_def failed_job_def)

lemma lapse_ok:
  assumes "lapse d j j'" and "stored_ok ctx d j"
  shows "stored_ok ctx d j'"
  using assms
  by (elim lapseE)
    (auto simp: stored_ok_def job_wf_def classified_def wf_defs failed_job_def fetched_def query_of_def
      Let_def not_less split: option.splits dl_reason.splits if_splits)

lemma fault_step_ok: "fault_step d j j' \<Longrightarrow> stored_ok ctx d j \<Longrightarrow> stored_ok ctx d j'"
  unfolding fault_step_def using step_ok lapse_ok by blast

lemma db_run_invariant: "db_run ctx d db s \<Longrightarrow> table_all (stored_ok ctx d) (jobs s)"
proof (induction rule: db_run.induct)
  case (start s)
  then show ?case by (simp add: table_all_def pg_invar_def)
next
  case (outside s w)
  then show ?case by simp
next
  case (claim s m)
  then have "pg_invar (jobs s)" by (simp add: table_all_def)
  from db_claimMessage_extends [OF this, of ctx m db] claim.IH show ?case
    using extends_all initial_ok by metis
next
  case (discover s)
  then have "pg_invar (jobs s)" by (simp add: table_all_def)
  from db_discover_extends [OF this, of ctx db] discover.IH show ?case
    using extends_all initial_ok by metis
next
  case (machine s)
  then have "pg_invar (jobs s)" by (simp add: table_all_def)
  from db_tick_evolves [OF this] machine.IH fault_step_ok show ?case by (rule evolves_all)
qed

section \<open>Properties\<close>



text \<open>C38: One failed update is enough for a second broadcast. The destination accepts the delivery of a due
  job, the update that records it is refused, and the failure of the update is taken for a failure of
  the broadcast: the job stays attested without a hash, one retry is counted, and when the back-off has
  passed the same message is broadcast again.\<close>

theorem failed_write_broadcasts_again:
  assumes job: "pg_invar (jobs s)" "pg_get (jobs s) (dedupKey j) = Some j" "state j = Attested"
      "\<not> retry_later now j" "attestation j = Some att" "relayMessage j = Some msg" "retryAttempts j < 5"
    and clock: "\<And>w. now_dep d w = (clock w, w)"
    and sends: "\<And>n m a w. sent (snd (submitRelayWithHook d n m a w)) = sent w @ [(n, m, a)]"
    and queries: "\<And>w. sent (snd (db w)) = sent w"
    and accepted: "submitRelayWithHook d (destinationDomain j) msg att (world s) = (Inr hash, w1)"
    and refused: "db w1 = (Refused e, w2)" "\<not> already_processed e" and answered: "db w2 = (Answered, w3)"
  shows "\<exists>j' s'. db_submit_one d db now j s = (Inr (), s') \<and> pg_get (jobs s') (dedupKey j) = Some j'
    \<and> state j' = Attested \<and> submittedTxHash j' = submittedTxHash j \<and> retryAttempts j' = retryAttempts j + 1
    \<and> (\<forall>later. clock w2 + 2000 * 2 ^ nat (retryAttempts j) \<le> later \<longrightarrow>
        sent (world (snd (db_submit_one d db later j' s'))) =
          sent (world s) @ [(destinationDomain j, msg, att), (destinationDomain j, msg, att)])"
proof -
  let ?j = "failed_job j (clock w2)"
  obtain s' where run: "db_submit_one d db now j s = (Inr (), s')" "world s' = w3"
    and table: "jobs s' = snd (pg_transition (jobs s) (dedupKey j) Attested (no_patch\<lparr>p_retryAttempts := Some (retryAttempts j + 1),
        p_nextRetryAt := Some (Some (backoff j (clock w2)))\<rparr>) (clock w2))"
    using job accepted refused answered clock
    by (auto simp: db_submit_one_def catching_def db_broadcast_def db_broadcast_failed_def then_do_def sure_def
        ext_eq ignoring_def db_move_def db_write_def query_def db_recordSubmissionFailure_def MAX_RELAY_RETRIES_def
        repo_transition_def return_def Let_def backoff_def case_prod_beta)
  have "applyPatch j (no_patch\<lparr>p_retryAttempts := Some (retryAttempts j + 1),
        p_nextRetryAt := Some (Some (backoff j (clock w2)))\<rparr>) (clock w2) = ?j"
    using job(7) by (simp add: patch_simps failed_job_def MAX_RELAY_RETRIES_def)
  then have stored: "pg_get (jobs s') (dedupKey j) = Some ?j"
    using job(2,3) by (simp add: table pg_get_transition)
  have sent3: "sent w3 = sent (world s) @ [(destinationDomain j, msg, att)]"
    using sends [of "destinationDomain j" msg att "world s"] queries [of w1] queries [of w2] accepted refused answered
    by simp
  have quiet: "sent (world (snd (db_move db k f t p n x))) = sent (world x)" for k f t p n x
    using queries [of "world x"]
    by (auto simp: db_move_def db_write_def then_do_def query_def ext_eq repo_transition_def transitioned_def
        split: prod.splits query_fate.splits)
  have writes: "sent (world (snd (db_write db k f p n x))) = sent (world x)" for k f p n x
    using queries [of "world x"]
    by (auto simp: db_write_def query_def ext_eq repo_transition_def split: prod.splits query_fate.splits)
  have failed: "sent (world (snd (db_broadcast_failed d db x e y))) = sent (world y)" for x e y
    using quiet writes clock
    by (auto simp: db_broadcast_failed_def db_recordSubmissionFailure_def then_do_def sure_def ext_eq Let_def)
  have casts: "sent (world (snd (db_broadcast d db x msg att y))) = sent (world y) @ [(destinationDomain x, msg, att)]" for x y
    using quiet clock sends [of "destinationDomain x" msg att "world y"]
    by (auto simp: db_broadcast_def then_do_def sure_def ext_eq split: sum.splits)
  have again: "sent (world (snd (db_submit_one d db later ?j s'))) = sent w3 @ [(destinationDomain j, msg, att)]"
    if "clock w2 + 2000 * 2 ^ nat (retryAttempts j) \<le> later" for later
  proof -
    have "\<not> retry_later later ?j" "attestation ?j = Some att" "relayMessage ?j = Some msg"
        "destinationDomain ?j = destinationDomain j"
      using that job(5-7)
      by (simp_all add: failed_job_def retry_later_def backoff_def RETRY_BACKOFF_BASE_MS_def MAX_RELAY_RETRIES_def)
    then show ?thesis
      using casts [of ?j s'] failed run(2)
      by (cases "db_broadcast d db ?j msg att s'") (auto simp: db_submit_one_def catching_def split: sum.splits)
  qed
  show ?thesis
    using run(1) stored again sent3 job(3,7)
    by (intro exI [of _ ?j] exI [of _ s']) (simp add: failed_job_def MAX_RELAY_RETRIES_def)
qed

section \<open>Instances\<close>

text \<open>A world that keeps the broadcasts it was handed and the fates of the queries still to come.\<close>

type_synonym tape = "(int \<times> string \<times> string) list \<times> query_fate list"

definition tape_db :: "tape database" where
  "tape_db w = (case snd w of [] \<Rightarrow> (Answered, w) | f # fs \<Rightarrow> (f, (fst w, fs)))"

definition tape_deps :: "tape machine_deps" where
  "tape_deps = \<lparr>irisMode = Iris, stuckTxThresholdMs = 600000, maxAttestationAgeMs = 3600000,
     now_dep = (\<lambda>w. (5000, w)), att_fetch = (\<lambda>q w. (Inr (AttPending None), w)),
     submitRelayWithHook = (\<lambda>dst msg att w. (Inr ''0xcc'', (fst w @ [(dst, msg, att)], snd w))),
     getReceipt = (\<lambda>dst h w. (Inr None, w)), isInMempool = (\<lambda>dst h w. (Inr True, w)),
     resetNonce = (\<lambda>dst w. (Inr (), w))\<rparr>"

definition due_job :: cctp_job where
  "due_job = demo_job\<lparr>state := Attested, attestation := Some ''0x'', relayMessage := Some ''0x00''\<rparr>"

theorem failed_write_broadcasts_again_witness:
  "\<exists>j' s'. db_submit_one tape_deps tape_db 5000 due_job
        \<lparr>jobs = [jobToRow due_job], world = ([], [Refused ''Connection terminated'']), transitions = []\<rparr> = (Inr (), s')
    \<and> state j' = Attested
    \<and> fst (world (snd (db_submit_one tape_deps tape_db 7000 j' s')))
      = [(destinationDomain demo_job, ''0x00'', ''0x''), (destinationDomain demo_job, ''0x00'', ''0x'')]"
proof -
  let ?s = "\<lparr>jobs = [jobToRow due_job], world = ([], [Refused ''Connection terminated'']), transitions = []\<rparr> :: tape actor_state"
  have job: "pg_invar (jobs ?s)" "pg_get (jobs ?s) (dedupKey due_job) = Some due_job" "state due_job = Attested"
      "\<not> retry_later 5000 due_job" "attestation due_job = Some ''0x''" "relayMessage due_job = Some ''0x00''"
      "retryAttempts due_job < 5"
    by (simp_all add: pg_invar_def due_job_def demo_job_def retry_later_def)
  have clock: "now_dep tape_deps w = ((\<lambda>_. 5000) w, w)"
    and sends: "fst (snd (submitRelayWithHook tape_deps n m a w)) = fst w @ [(n, m, a)]"
    and queries: "fst (snd (tape_db w)) = fst w" for n m a w
    by (simp_all add: tape_deps_def tape_db_def split: list.splits)
  have accepted: "submitRelayWithHook tape_deps (destinationDomain due_job) ''0x00'' ''0x'' (world ?s)
      = (Inr ''0xcc'', ([(destinationDomain due_job, ''0x00'', ''0x'')], [Refused ''Connection terminated'']))"
    by (simp add: tape_deps_def)
  have refused: "tape_db ([(destinationDomain due_job, ''0x00'', ''0x'')], [Refused ''Connection terminated''])
      = (Refused ''Connection terminated'', ([(destinationDomain due_job, ''0x00'', ''0x'')], []))"
    and answered: "tape_db ([(destinationDomain due_job, ''0x00'', ''0x'')], [])
      = (Answered, ([(destinationDomain due_job, ''0x00'', ''0x'')], []))"
    by (simp_all add: tape_db_def)
  have unmarked: "\<not> already_processed ''Connection terminated''" by code_simp
  from failed_write_broadcasts_again [OF job clock, where sent = fst, OF sends queries accepted refused unmarked answered]
  obtain j' s' where run: "db_submit_one tape_deps tape_db 5000 due_job ?s = (Inr (), s')" "state j' = Attested"
    and sent: "\<forall>later. 5000 + 2000 * 2 ^ nat (retryAttempts due_job) \<le> later \<longrightarrow>
      fst (world (snd (db_submit_one tape_deps tape_db later j' s'))) = fst (world ?s)
        @ [(destinationDomain due_job, ''0x00'', ''0x''), (destinationDomain due_job, ''0x00'', ''0x'')]"
    by blast
  have "fst (world (snd (db_submit_one tape_deps tape_db 7000 j' s')))
      = [(destinationDomain demo_job, ''0x00'', ''0x''), (destinationDomain demo_job, ''0x00'', ''0x'')]"
    using spec [OF sent, of 7000] by (simp add: due_job_def demo_job_def)
  with run show ?thesis by blast
qed



text \<open>With a database that answers, the functions of this theory are those of the other theories.\<close>

theorem answering_database_is_exact:
  "db_tick d reliable = tick d \<and> db_discoverWork ctx reliable = discoverWork ctx
    \<and> db_claimMessage ctx reliable m = claimMessage ctx m"
  by (simp add: tick_reliable discover_reliable) (intro HOL.ext claim_reliable)

end
