(* ===== verification/Abi.thy ===== *)
theory Abi
  imports Relay Indexing
begin

text \<open>
  The interface fragments of the repository: the function fragments of \<open>relay/transact-shape.ts\<close>,
  \<open>relay/gasless-fee-verifier.ts\<close> and \<open>jobs/destination-submitter.ts\<close>, the event fragment of
  \<open>jobs/fallback-scanner.ts\<close> and the event lists of \<open>watcher/abis\<close>. A fragment is kept as the text the
  source has, next to the tree of types it reads as; \<open>fragment_trees\<close> says that the trees print to
  the texts, up to blanks after commas. The signature of a tree is the text that is hashed for a
  selector or an event topic.
\<close>

section \<open>Types and signatures\<close>

datatype abi_type =
    Elem string
  | Tuple "abi_param list"
  | Many abi_type
  | Fixed abi_type nat
and abi_param = Param (p_type: abi_type) (p_name: string)

definition commas :: "string list \<Rightarrow> string" where
  "commas xs = (case xs of [] \<Rightarrow> [] | y # ys \<Rightarrow> y @ concat (map (\<lambda>z. '','' @ z) ys))"

fun signature_of :: "abi_type \<Rightarrow> string" and param_signature :: "abi_param \<Rightarrow> string" where
  "signature_of (Elem t) = t"
| "signature_of (Tuple ps) = ''('' @ commas (map param_signature ps) @ '')''"
| "signature_of (Many t) = signature_of t @ ''[]''"
| "signature_of (Fixed t n) = signature_of t @ ''['' @ show_nat n @ '']''"
| "param_signature (Param t n) = signature_of t"

text \<open>The human-readable form; \<open>w\<close> is the word in front of a tuple, \<open>tuple\<close> or nothing.\<close>

fun readable :: "string \<Rightarrow> abi_type \<Rightarrow> string" and readable_param :: "string \<Rightarrow> abi_param \<Rightarrow> string" where
  "readable w (Elem t) = t"
| "readable w (Tuple ps) = w @ ''('' @ commas (map (readable_param w) ps) @ '')''"
| "readable w (Many t) = readable w t @ ''[]''"
| "readable w (Fixed t n) = readable w t @ ''['' @ show_nat n @ '']''"
| "readable_param w (Param t n) = readable w t @ '' '' @ n"

record abi_function =
  f_name :: string
  f_params :: "abi_param list"

definition function_signature :: "abi_function \<Rightarrow> string" where
  "function_signature f = f_name f @ signature_of (Tuple (f_params f))"

definition readable_function :: "string \<Rightarrow> abi_function \<Rightarrow> string" where
  "readable_function w f = ''function '' @ f_name f @ ''('' @ commas (map (readable_param w) (f_params f)) @ '')''"

text \<open>A text without the blanks that follow a comma.\<close>

fun squeeze :: "string \<Rightarrow> string" where
  "squeeze (c # d # cs) = (if c = CHR '','' \<and> d = CHR '' '' then squeeze (c # cs) else c # squeeze (d # cs))"
| "squeeze cs = cs"

section \<open>\<open>transact-shape.ts\<close>\<close>

definition TRANSACTION_STRUCT :: string where
  "TRANSACTION_STRUCT =
  ''tuple('' @
  ''tuple('' @
  ''tuple(uint256 x, uint256 y) a,'' @
  ''tuple(uint256[2] x, uint256[2] y) b,'' @
  ''tuple(uint256 x, uint256 y) c'' @
  '') proof,'' @
  ''bytes32 merkleRoot,'' @
  ''bytes32[] nullifiers,'' @
  ''bytes32[] commitments,'' @
  ''tuple('' @
  ''uint16 treeNumber,'' @
  ''uint72 minGasPrice,'' @
  ''uint8 unshield,'' @
  ''uint64 chainID,'' @
  ''address adaptContract,'' @
  ''bytes32 adaptParams,'' @
  ''tuple('' @
  ''bytes32[4] ciphertext,'' @
  ''bytes32 blindedSenderViewingKey,'' @
  ''bytes32 blindedReceiverViewingKey,'' @
  ''bytes annotationData,'' @
  ''bytes memo'' @
  '')[] commitmentCiphertext'' @
  '') boundParams,'' @
  ''tuple('' @
  ''bytes32 npk,'' @
  ''tuple(uint8 tokenType, address tokenAddress, uint256 tokenSubID) token,'' @
  ''uint120 value'' @
  '') unshieldPreimage'' @
  '')''"

definition SHIELD_CIPHERTEXT_STRUCT :: string where
  "SHIELD_CIPHERTEXT_STRUCT = ''tuple(bytes32[3] encryptedBundle, bytes32 shieldKey)''"

definition TRANSACT_ABI :: "string list" where
  "TRANSACT_ABI = [''function transact('' @ TRANSACTION_STRUCT @ ''[] _transactions)'']"

definition WRAPPER_ABIS :: "string list" where
  "WRAPPER_ABIS = [
     ''function lendAndShield('' @ TRANSACTION_STRUCT @ '' _transaction, bytes32 _npk, ''
       @ SHIELD_CIPHERTEXT_STRUCT @ '' _shieldCiphertext)'',
     ''function atomicCrossChainUnshield('' @ TRANSACTION_STRUCT @ '' _transaction, uint32 destinationDomain, ''
       @ ''address finalRecipient, uint256 maxFee, bytes32 uniqueNonce)'']"

definition REDEEM_AND_SHIELD_ABI :: "string list" where
  "REDEEM_AND_SHIELD_ABI = [
     ''function redeemAndShield('' @ TRANSACTION_STRUCT @ '' _transaction, bytes32 _npk, ''
       @ SHIELD_CIPHERTEXT_STRUCT @ '' _shieldCiphertext, bytes32 _feeNpk, ''
       @ SHIELD_CIPHERTEXT_STRUCT @ '' _feeShieldCiphertext, uint256 _feeAmount)'']"

abbreviation "uint256_t \<equiv> Elem ''uint256''"
abbreviation "bytes32_t \<equiv> Elem ''bytes32''"
abbreviation "address_t \<equiv> Elem ''address''"
abbreviation "bytes_t \<equiv> Elem ''bytes''"

definition g1_point :: abi_type where "g1_point = Tuple [Param uint256_t ''x'', Param uint256_t ''y'']"

definition token_type :: abi_type where
  "token_type = Tuple [Param (Elem ''uint8'') ''tokenType'', Param address_t ''tokenAddress'', Param uint256_t ''tokenSubID'']"

definition preimage_type :: abi_type where
  "preimage_type = Tuple [Param bytes32_t ''npk'', Param token_type ''token'', Param (Elem ''uint120'') ''value'']"

definition ciphertext_type :: abi_type where
  "ciphertext_type = Tuple [Param (Fixed bytes32_t 4) ''ciphertext'', Param bytes32_t ''blindedSenderViewingKey'',
     Param bytes32_t ''blindedReceiverViewingKey'', Param bytes_t ''annotationData'', Param bytes_t ''memo'']"

definition shield_ciphertext_type :: abi_type where
  "shield_ciphertext_type = Tuple [Param (Fixed bytes32_t 3) ''encryptedBundle'', Param bytes32_t ''shieldKey'']"

definition transaction_type :: abi_type where
  "transaction_type = Tuple [
     Param (Tuple [Param g1_point ''a'',
       Param (Tuple [Param (Fixed uint256_t 2) ''x'', Param (Fixed uint256_t 2) ''y'']) ''b'', Param g1_point ''c'']) ''proof'',
     Param bytes32_t ''merkleRoot'', Param (Many bytes32_t) ''nullifiers'', Param (Many bytes32_t) ''commitments'',
     Param (Tuple [Param (Elem ''uint16'') ''treeNumber'', Param (Elem ''uint72'') ''minGasPrice'',
       Param (Elem ''uint8'') ''unshield'', Param (Elem ''uint64'') ''chainID'', Param address_t ''adaptContract'',
       Param bytes32_t ''adaptParams'', Param (Many ciphertext_type) ''commitmentCiphertext'']) ''boundParams'',
     Param preimage_type ''unshieldPreimage'']"

definition transact_fn :: abi_function where
  "transact_fn = \<lparr>f_name = ''transact'', f_params = [Param (Many transaction_type) ''_transactions'']\<rparr>"

definition lend_fn :: abi_function where
  "lend_fn = \<lparr>f_name = ''lendAndShield'', f_params = [Param transaction_type ''_transaction'', Param bytes32_t ''_npk'',
     Param shield_ciphertext_type ''_shieldCiphertext'']\<rparr>"

definition unshield_fn :: abi_function where
  "unshield_fn = \<lparr>f_name = ''atomicCrossChainUnshield'', f_params = [Param transaction_type ''_transaction'',
     Param (Elem ''uint32'') ''destinationDomain'', Param address_t ''finalRecipient'', Param uint256_t ''maxFee'',
     Param bytes32_t ''uniqueNonce'']\<rparr>"

definition redeem_fn :: abi_function where
  "redeem_fn = \<lparr>f_name = ''redeemAndShield'', f_params = [Param transaction_type ''_transaction'', Param bytes32_t ''_npk'',
     Param shield_ciphertext_type ''_shieldCiphertext'', Param bytes32_t ''_feeNpk'',
     Param shield_ciphertext_type ''_feeShieldCiphertext'', Param uint256_t ''_feeAmount'']\<rparr>"

section \<open>\<open>gasless-fee-verifier.ts\<close> and \<open>selectors.ts\<close>\<close>

definition GASLESS_SHIELD_ABI :: "string list" where
  "GASLESS_SHIELD_ABI = [
     ''function gaslessShield((address user,uint256 deadline,uint256 nonce,address integrator,uint8 permitV,bytes32 permitR,bytes32 permitS) params, bytes intentSig, ((bytes32 npk,(uint8 tokenType,address tokenAddress,uint256 tokenSubID) token,uint120 value) preimage,(bytes32[3] encryptedBundle,bytes32 shieldKey) ciphertext)[] shieldRequests)'']"

definition GASLESS_CROSS_CHAIN_SHIELD_ABI :: "string list" where
  "GASLESS_CROSS_CHAIN_SHIELD_ABI = [
     ''function gaslessCrossChainShield((address user,uint256 deadline,uint256 nonce,uint256 maxFee,uint32 minFinalityThreshold,uint8 permitV,bytes32 permitR,bytes32 permitS) params, bytes intentSig, (bytes32 npk,uint120 value,bytes32[3] encryptedBundle,bytes32 shieldKey,address integrator) userNote, (bytes32 npk,uint120 value,bytes32[3] encryptedBundle,bytes32 shieldKey,address integrator) feeNote)'']"

text \<open>What \<open>selectors.ts\<close> hashes for the two selectors.\<close>

definition gasless_shield_id :: string where
  "gasless_shield_id = ''gaslessShield((address,uint256,uint256,address,uint8,bytes32,bytes32),bytes,((bytes32,(uint8,address,uint256),uint120),(bytes32[3],bytes32))[])''"

definition gasless_xchain_id :: string where
  "gasless_xchain_id = ''gaslessCrossChainShield((address,uint256,uint256,uint256,uint32,uint8,bytes32,bytes32),bytes,(bytes32,uint120,bytes32[3],bytes32,address),(bytes32,uint120,bytes32[3],bytes32,address))''"

definition permit_params :: "abi_param list" where
  "permit_params = [Param (Elem ''uint8'') ''permitV'', Param bytes32_t ''permitR'', Param bytes32_t ''permitS'']"

definition note_type :: abi_type where
  "note_type = Tuple [Param bytes32_t ''npk'', Param (Elem ''uint120'') ''value'', Param (Fixed bytes32_t 3) ''encryptedBundle'',
     Param bytes32_t ''shieldKey'', Param address_t ''integrator'']"

definition gasless_fn :: abi_function where
  "gasless_fn = \<lparr>f_name = ''gaslessShield'', f_params = [
     Param (Tuple ([Param address_t ''user'', Param uint256_t ''deadline'', Param uint256_t ''nonce'', Param address_t ''integrator''] @ permit_params)) ''params'',
     Param bytes_t ''intentSig'',
     Param (Many (Tuple [Param preimage_type ''preimage'', Param shield_ciphertext_type ''ciphertext''])) ''shieldRequests'']\<rparr>"

definition gasless_xchain_fn :: abi_function where
  "gasless_xchain_fn = \<lparr>f_name = ''gaslessCrossChainShield'', f_params = [
     Param (Tuple ([Param address_t ''user'', Param uint256_t ''deadline'', Param uint256_t ''nonce'', Param uint256_t ''maxFee'',
       Param (Elem ''uint32'') ''minFinalityThreshold''] @ permit_params)) ''params'',
     Param bytes_t ''intentSig'', Param note_type ''userNote'', Param note_type ''feeNote'']\<rparr>"

section \<open>The texts are the trees\<close>

lemma transaction_tree: "squeeze TRANSACTION_STRUCT = readable ''tuple'' transaction_type"
  by code_simp

lemma fragment_trees:
  "map squeeze TRANSACT_ABI = [readable_function ''tuple'' transact_fn]"
  "map squeeze WRAPPER_ABIS = map (readable_function ''tuple'') [lend_fn, unshield_fn]"
  "map squeeze REDEEM_AND_SHIELD_ABI = [readable_function ''tuple'' redeem_fn]"
  "map squeeze GASLESS_SHIELD_ABI = [readable_function [] gasless_fn]"
  "map squeeze GASLESS_CROSS_CHAIN_SHIELD_ABI = [readable_function [] gasless_xchain_fn]"
  by code_simp+

text \<open>The two selectors of the gasless wrappers are hashes of texts written out in \<open>selectors.ts\<close>, while the
  verifier decodes with the fragments: the texts are the signatures of the fragments. What the redeem
  verifier reads at positions 3 and 5 are the fee note's key and amount, and every wrapper with an
  embedded transaction has, as its first argument, the type of which \<open>transact\<close> takes an array.\<close>

theorem selectors_match_fragments:
  "function_signature gasless_fn = gasless_shield_id \<and> function_signature gasless_xchain_fn = gasless_xchain_id
    \<and> f_params redeem_fn ! 3 = Param bytes32_t ''_feeNpk'' \<and> f_params redeem_fn ! 5 = Param uint256_t ''_feeAmount''
    \<and> (\<forall>f \<in> {lend_fn, unshield_fn, redeem_fn}. f_params transact_fn = [Param (Many (p_type (hd (f_params f)))) ''_transactions''])"
proof (intro conjI)
  show "function_signature gasless_fn = gasless_shield_id" "function_signature gasless_xchain_fn = gasless_xchain_id"
    by code_simp+
qed (simp_all add: redeem_fn_def lend_fn_def unshield_fn_def transact_fn_def)

section \<open>Events\<close>

text \<open>The event lists of \<open>watcher/abis\<close>; an input is indexed or not. \<open>internalType\<close> is left out.\<close>

record abi_event =
  e_name :: string
  e_inputs :: "(abi_param \<times> bool) list"

definition event_signature :: "abi_event \<Rightarrow> string" where
  "event_signature e = e_name e @ signature_of (Tuple (map fst (e_inputs e)))"

definition topic_count :: "abi_event \<Rightarrow> nat" where
  "topic_count e = 1 + length (filter snd (e_inputs e))"

definition ev_Shield :: abi_event where
  "ev_Shield = \<lparr>e_name = ''Shield'', e_inputs = [
         (Param uint256_t ''treeNumber'', False),
         (Param uint256_t ''startPosition'', False),
         (Param (Many preimage_type) ''commitments'', False),
         (Param (Many shield_ciphertext_type) ''shieldCiphertext'', False),
         (Param (Many uint256_t) ''fees'', False)]\<rparr>"

definition ev_CrossChainUnshieldInitiated :: abi_event where
  "ev_CrossChainUnshieldInitiated = \<lparr>e_name = ''CrossChainUnshieldInitiated'', e_inputs = [
         (Param (Elem ''uint32'') ''destinationDomain'', True),
         (Param address_t ''recipient'', True),
         (Param uint256_t ''amount'', False),
         (Param (Elem ''uint64'') ''nonce'', False)]\<rparr>"

definition ev_Nullified :: abi_event where
  "ev_Nullified = \<lparr>e_name = ''Nullified'', e_inputs = [
         (Param (Elem ''uint16'') ''treeNumber'', False),
         (Param (Many bytes32_t) ''nullifier'', False)]\<rparr>"

definition ev_Transact :: abi_event where
  "ev_Transact = \<lparr>e_name = ''Transact'', e_inputs = [
         (Param uint256_t ''treeNumber'', False),
         (Param uint256_t ''startPosition'', False),
         (Param (Many bytes32_t) ''hash'', False),
         (Param (Many ciphertext_type) ''ciphertext'', False)]\<rparr>"

definition ev_Unshield :: abi_event where
  "ev_Unshield = \<lparr>e_name = ''Unshield'', e_inputs = [
         (Param address_t ''to'', False),
         (Param token_type ''token'', False),
         (Param uint256_t ''amount'', False),
         (Param uint256_t ''fee'', False)]\<rparr>"

definition PrivacyPoolAbi :: "abi_event list" where
  "PrivacyPoolAbi = [ev_Shield, ev_CrossChainUnshieldInitiated, ev_Nullified, ev_Transact, ev_Unshield]"

definition ev_CrossChainShieldInitiated :: abi_event where
  "ev_CrossChainShieldInitiated = \<lparr>e_name = ''CrossChainShieldInitiated'', e_inputs = [
         (Param address_t ''sender'', True),
         (Param uint256_t ''amount'', False),
         (Param bytes32_t ''npk'', True),
         (Param (Elem ''uint64'') ''nonce'', False)]\<rparr>"

definition ev_DefaultFinalityThresholdSet :: abi_event where
  "ev_DefaultFinalityThresholdSet = \<lparr>e_name = ''DefaultFinalityThresholdSet'', e_inputs = [
         (Param (Elem ''uint32'') ''threshold'', False)]\<rparr>"

definition ev_HubPoolSet :: abi_event where
  "ev_HubPoolSet = \<lparr>e_name = ''HubPoolSet'', e_inputs = [
         (Param (Elem ''uint32'') ''hubDomain'', False),
         (Param bytes32_t ''hubPool'', False)]\<rparr>"

definition ev_UnshieldReceived :: abi_event where
  "ev_UnshieldReceived = \<lparr>e_name = ''UnshieldReceived'', e_inputs = [
         (Param address_t ''recipient'', True),
         (Param uint256_t ''amount'', False)]\<rparr>"

definition PrivacyPoolClientAbi :: "abi_event list" where
  "PrivacyPoolClientAbi = [ev_CrossChainShieldInitiated, ev_DefaultFinalityThresholdSet, ev_HubPoolSet, ev_UnshieldReceived]"

definition ev_MessageReceived :: abi_event where
  "ev_MessageReceived = \<lparr>e_name = ''MessageReceived'', e_inputs = [
         (Param address_t ''caller'', True),
         (Param (Elem ''uint32'') ''sourceDomain'', False),
         (Param bytes32_t ''nonce'', True),
         (Param bytes32_t ''sender'', False),
         (Param (Elem ''uint32'') ''finalityThresholdExecuted'', True),
         (Param bytes_t ''messageBody'', False)]\<rparr>"

definition ev_MessageSent :: abi_event where
  "ev_MessageSent = \<lparr>e_name = ''MessageSent'', e_inputs = [
         (Param bytes_t ''message'', False)]\<rparr>"

definition MessageTransmitterAbi :: "abi_event list" where
  "MessageTransmitterAbi = [ev_MessageReceived, ev_MessageSent]"

text \<open>The fragment of the fallback scanner, and those of the submitter.\<close>

definition MESSAGE_SENT_FRAGMENT :: string where "MESSAGE_SENT_FRAGMENT = ''event MessageSent(bytes message)''"

definition HOOK_ROUTER_FRAGMENT :: string where
  "HOOK_ROUTER_FRAGMENT = ''function relayWithHook(bytes calldata message, bytes calldata attestation) external returns (bool)''"

definition MESSAGE_TRANSMITTER_FRAGMENT :: string where
  "MESSAGE_TRANSMITTER_FRAGMENT = ''function receiveMessage(bytes calldata message, bytes calldata attestation) external returns (bool)''"

definition message_sent_event :: abi_event where
  "message_sent_event = \<lparr>e_name = ''MessageSent'', e_inputs = [(Param bytes_t ''message'', False)]\<rparr>"

text \<open>The registration of each handler, and the arguments it reads.\<close>

fun handler_of :: "contract_event \<Rightarrow> abi_event list \<times> string \<times> string list" where
  "handler_of (Shield t p cs xs fs) =
     (PrivacyPoolAbi, ''Shield'', [''treeNumber'', ''startPosition'', ''commitments''])"
| "handler_of (Transact t p hs cs) =
     (PrivacyPoolAbi, ''Transact'', [''treeNumber'', ''startPosition'', ''hash''])"
| "handler_of (Nullified t ns) = (PrivacyPoolAbi, ''Nullified'', [''treeNumber'', ''nullifier''])"
| "handler_of (Unshield a t x f) = (PrivacyPoolAbi, ''Unshield'', [''to'', ''token'', ''amount'', ''fee''])"
| "handler_of (CrossChainUnshieldInitiated d x n) =
     (PrivacyPoolAbi, ''CrossChainUnshieldInitiated'', [''destinationDomain'', ''amount'', ''nonce''])"
| "handler_of (CrossChainShieldInitiated x n) =
     (PrivacyPoolClientAbi, ''CrossChainShieldInitiated'', [''amount'', ''nonce''])"
| "handler_of (UnshieldReceived a x) = (PrivacyPoolClientAbi, ''UnshieldReceived'', [''recipient'', ''amount''])"
| "handler_of (MessageSent m) = (MessageTransmitterAbi, ''MessageSent'', [''message''])"
| "handler_of (MessageReceived d n x) = (MessageTransmitterAbi, ''MessageReceived'', [''sourceDomain'', ''nonce'', ''caller''])"

lemmas abi_lists = ev_MessageReceived_def ev_MessageSent_def
  ev_CrossChainShieldInitiated_def ev_DefaultFinalityThresholdSet_def ev_HubPoolSet_def ev_UnshieldReceived_def
  ev_Shield_def ev_CrossChainUnshieldInitiated_def ev_Nullified_def ev_Transact_def ev_Unshield_def
  PrivacyPoolAbi_def PrivacyPoolClientAbi_def MessageTransmitterAbi_def

text \<open>Every handler is registered for an event of its contract's list and reads arguments that event has;
  the only listed events without a handler are the two administrative ones of the client pool; no event
  has more than four topics; and the scanner listens to the event the watcher indexes.\<close>

theorem handlers_match_abis:
  "(\<forall>ev. case handler_of ev of (abi, name, args) \<Rightarrow>
      \<exists>e \<in> set abi. e_name e = name \<and> set args \<subseteq> p_name ` fst ` set (e_inputs e) \<and> topic_count e \<le> 4)
    \<and> {e_name e | e abi. abi \<in> {PrivacyPoolAbi, PrivacyPoolClientAbi, MessageTransmitterAbi} \<and> e \<in> set abi}
        - range (\<lambda>ev. fst (snd (handler_of ev))) = {''DefaultFinalityThresholdSet'', ''HubPoolSet''}
    \<and> message_sent_event \<in> set MessageTransmitterAbi \<and> event_signature message_sent_event = ''MessageSent(bytes)''
    \<and> MESSAGE_SENT_FRAGMENT = ''event MessageSent('' @ commas (map (readable_param [] \<circ> fst) (e_inputs message_sent_event)) @ '')''"
proof (intro conjI)
  show "\<forall>ev. case handler_of ev of (abi, name, args) \<Rightarrow>
      \<exists>e \<in> set abi. e_name e = name \<and> set args \<subseteq> p_name ` fst ` set (e_inputs e) \<and> topic_count e \<le> 4"
  proof
    fix ev
    show "case handler_of ev of (abi, name, args) \<Rightarrow>
      \<exists>e \<in> set abi. e_name e = name \<and> set args \<subseteq> p_name ` fst ` set (e_inputs e) \<and> topic_count e \<le> 4"
      by (cases ev) (simp_all add: abi_lists topic_count_def)
  qed
  have handled: "range (\<lambda>ev. fst (snd (handler_of ev))) = {''Shield'', ''Transact'', ''Nullified'', ''Unshield'',
      ''CrossChainUnshieldInitiated'', ''CrossChainShieldInitiated'', ''UnshieldReceived'', ''MessageSent'', ''MessageReceived''}"
    (is "range ?f = ?names")
  proof
    show "range ?f \<subseteq> ?names" by (auto, rename_tac ev, case_tac ev) auto
    have "?f (Shield 0 0 [] [] []) \<in> range ?f" "?f (Transact 0 0 [] []) \<in> range ?f" "?f (Nullified 0 []) \<in> range ?f"
      "?f (Unshield [] t 0 0) \<in> range ?f" "?f (CrossChainUnshieldInitiated 0 0 0) \<in> range ?f"
      "?f (CrossChainShieldInitiated 0 0) \<in> range ?f" "?f (UnshieldReceived [] 0) \<in> range ?f"
      "?f (MessageSent []) \<in> range ?f" "?f (MessageReceived 0 [] []) \<in> range ?f" for t by (rule rangeI)+
    then show "?names \<subseteq> range ?f" by simp
  qed
  have names: "{e_name e | e abi. abi \<in> {PrivacyPoolAbi, PrivacyPoolClientAbi, MessageTransmitterAbi} \<and> e \<in> set abi}
      = e_name ` (set PrivacyPoolAbi \<union> set PrivacyPoolClientAbi \<union> set MessageTransmitterAbi)" by blast
  have listed: "e_name ` (set PrivacyPoolAbi \<union> set PrivacyPoolClientAbi \<union> set MessageTransmitterAbi)
      = set (map e_name (PrivacyPoolAbi @ PrivacyPoolClientAbi @ MessageTransmitterAbi))" by auto
  show "{e_name e | e abi. abi \<in> {PrivacyPoolAbi, PrivacyPoolClientAbi, MessageTransmitterAbi} \<and> e \<in> set abi}
      - range (\<lambda>ev. fst (snd (handler_of ev))) = {''DefaultFinalityThresholdSet'', ''HubPoolSet''}"
    unfolding names listed handled by (simp add: abi_lists insert_Diff_if)
  show "message_sent_event \<in> set MessageTransmitterAbi" by (simp add: abi_lists message_sent_event_def)
qed (code_simp+)

end
