(* ===== verification/Spec2Isabelle.thy ===== *)
theory Spec2Isabelle
  imports Lifecycle Progress FallbackScanner Wallet Relay Boot PonderConfig ImportV1 Metrics DbFaults Abi
begin

text \<open>
  Verification library of the Armada relayer (\<open>src/relayer-v2\<close>).

  The relayer is two processes. The \<^bold>\<open>watcher\<close> (\<open>watcher/\<close>) indexes the protocol's contracts with
  Ponder into Postgres tables and serves them through a read API. The \<^bold>\<open>actor\<close> (\<open>actor/\<close>) reads the
  indexed CCTP messages, carries each to its destination chain through a job state machine, scans
  the chain itself while the watcher is stalled, and answers HTTP requests that relay a client's
  shielded transaction for a fee. They share the deployment documents and the database: the actor
  reads the watcher's \<open>cctp_message_sent\<close>, \<open>cctp_message_received\<close> and checkpoint tables and owns the
  job and idempotency tables.

  \<^bold>\<open>Theories.\<close> Each opens with the files it models; definitions keep the names of the source, with a
  prefix or suffix where a name is taken.

  \<^item> \<open>Prelude\<close>: slices and searches of text, hexadecimal and decimal text, loops over a state
    (\<open>for_each\<close>, \<open>all_settled\<close> for \<open>Promise.all\<close>), actions that return a value or an error.
    \<open>JsValues\<close>: sequences of checks, \<open>Number(text)\<close>, JSON documents, the environment. \<open>Numbers\<close>:
    binary64 rounding and \<open>BigInt\<close> conversion.
  \<^item> \<open>Classify\<close>: \<open>jobs/classify.ts\<close> and the header decoder of \<open>watcher/src/lib/decode.ts\<close>. \<open>Iris\<close>: the
    attestation client. \<open>JobTypes\<close>, \<open>JobsRepo\<close>: the job record, the Postgres table and the in-memory
    map as two providers of one locale. \<open>IndexedReader\<close>, \<open>WorkDiscovery\<close>: what the actor reads of the
    watcher and how it claims messages. \<open>StateMachine\<close>: the four phases of a tick. \<open>JobSteps\<close>: the
    abstract life cycle of a job and the simulation. \<open>Lifecycle\<close>: invariants of every run.
    \<open>Progress\<close>: what one tick achieves. \<open>DbFaults\<close>: discovery and the ticks over a database that
    fails. \<open>FallbackScanner\<close>: \<open>jobs/fallback-scanner.ts\<close>.
  \<^item> \<open>Wallet\<close>: nonce streams, the submitter and the exclusive flag of a chain. \<open>Lock\<close>: the discipline
    of that flag. \<open>Fees\<close>: price source and schedules. \<open>Relay\<close>: the pipeline of \<open>privacy-relay.ts\<close>,
    its fee verifiers and the duplicate cache. \<open>Idempotency\<close>, \<open>Limiter\<close>, \<open>Health\<close>, \<open>Http\<close>: the server.
  \<^item> \<open>Networks\<close>, \<open>Deployments\<close>, \<open>Config\<close>: topology, manifests and environment, with every rule that
    stops the boot. \<open>Actor\<close>: the allowlists and maps of \<open>main.ts\<close> and the job loop. \<open>Railgun\<close>: the
    wallet that receives the fees. \<open>Footprint\<close>: what the job tick and the HTTP server can do to the
    world. \<open>Boot\<close>: the whole of \<open>main\<close>, from the environment to the running process.
  \<^item> \<open>Topics\<close>, \<open>Indexing\<close>: the handlers of \<open>watcher/src/index.ts\<close> over the tables of
    \<open>ponder.schema.ts\<close>. \<open>QuickSync\<close>: the two serializers of pool logs. \<open>WatcherManifests\<close>: the
    watcher's own reading of the deployment documents. \<open>Api\<close>: every endpoint of the read API.
    \<open>PonderConfig\<close>: \<open>ponder.config.ts\<close>.
  \<^item> \<open>ImportV1\<close>: the script that imports the job files of the earlier relayer. \<open>Abi\<close>: the
    function and event fragments and their signatures. \<open>Metrics\<close>: what each method of
    \<open>actor/src/metrics.ts\<close> records; no value of the program depends on it.
  \<^item> This theory: the properties that span components.

  \<^bold>\<open>State.\<close> The actor's state is a record of the job table, the outside world and a log of the
  transitions made; the world is a type variable that every query reads and advances, so a query
  can answer differently each time and the clock moves. The relay pipeline and the HTTP server
  thread their own records over it. A table is a list of rows in insertion order. A handler or an
  operation is a function from state to result and state; a raise is the left of a sum, and what
  was written before a raise stays written.

  \<^bold>\<open>What the lemmas show.\<close> The job part: any run of discovery, ticks and scans keeps the job table
  well formed, each job moves only along the abstract life cycle, only bytes that were classified
  and match their attestation are broadcast, a submitted job is settled on evidence only, and a
  world that answers lets one tick deliver. The reading part: discovery claims exactly confirmed
  unclaimed messages and drains them; the scanner leaves no gap, except the one in
  \<open>FallbackScanner\<close> that a stalled watcher opens. The relay part: nothing is broadcast that is not
  allowed, paid and first, the lock is always given back, schedules cover their cost, quotes
  last, replays answer what was executed. The boot part: a configuration that is accepted is
  sound, the watcher resolves what the actor boots, and whatever a booted process meets, every
  transaction it signs is a delivery or an allowed call to an address of its own manifests. The watcher part: indexing is exact and
  can be repeated, topics survive their JSON text, both quick-sync shapes hold the same data, and
  pages, caches and cursors of the read API keep or miss what their theorems say. Here: a logged
  message becomes a job by either path, a logged event reaches the readers of the API, the
  actor's own deliveries are among the logs the watcher asks for, and the health endpoints of the
  two processes agree. A delivery imported from the earlier relayer is never relayed again.

  \<^bold>\<open>Bounds and fuel.\<close> The bisecting log query is a \<open>partial_function (option)\<close>; \<open>chunked_query_exact\<close>
  shows it returns for every positive chunk size. A client of quick-sync follows pages with fuel one
  per block of its range, which is shown to be enough. Other loops are structural or have a measure.
  Where the code's numbers are binary64 the model rounds; claims about them carry the range in which
  rounding is exact (below \<open>2^53\<close>) or state the error. Integer columns are refused outside 32 bits.

  \<^bold>\<open>Choices.\<close> Rows that compare equal keep insertion order, as a stable sort gives them; SQL leaves that
  order open. Queries of the tables do not fail, except inserts out of the range of a column and the
  checkpoint query. A tick runs without another in between, as the loop's flag has it; \<open>Http\<close> and
  \<open>Fees\<close> state what overlapping requests do as sequences of half-steps. Text is a list of 8-bit
  characters; documents on disk are given in parsed form. Messages of errors keep their wording where
  a caller reads it and are shortened elsewhere.

  \<^bold>\<open>Parameters.\<close> Code of other packages is an argument: ethers and viem (hashing, address checksums, the
  ABI coders, event decoding), the HTTP fetch, providers and signers, the railgun engine (key
  derivation and note decryption), the poseidon WASM. What a property needs of one is a hypothesis
  in its statement, with an instance in its witness. Ponder calls the handlers; what it delivers
  is a list of logs, in any order and with repetitions.

  \<^bold>\<open>Not modelled.\<close> Log lines (output only); the calls of the metrics
  from the other parts; the database pool and migrations
  (driver calls over SQL text); the deployed commit string; timers, the listen call and shutdown
  of \<open>main.ts\<close>; CORS headers; the parsers and coders behind the
  interface fragments.
\<close>

section \<open>From the watcher to the actor\<close>

text \<open>C20: The two ways a message reaches the actor agree. A \<open>MessageSent\<close> log with a complete header is
  taken by the watcher and by the fallback scanner as the same message up to the block timestamp,
  which the scanner does not know, although the one decodes the header as text and the other as
  bytes; and the two give the actor the same initial job, under the same key, whatever the moment
  and the watcher's view.\<close>

theorem both_paths_build_one_job:
  assumes "ethers_ok (dc_ethers (sd_discovery d))" and "is_data_hex m" and "298 \<le> length m"
    and "keccak256 (dc_ethers (sd_discovery d)) m = Inr (viem_keccak256 W m)"
    and "ev_args e = MessageSent m" and "sd_parseMessageSent d L = Inr m"
    and "lg_transactionHash L = ev_tx e" and "lg_index L = ev_logIndex e"
    and "lg_blockNumber L = ev_block e" and "sc_chainId chain = ev_chain e"
  shows "\<exists>w. sent_of W e = [w]
    \<and> toIndexedShape d chain L = Inr (Some (w\<lparr>m_blockTimestamp := 0\<rparr>))
    \<and> initialJob (sd_discovery d) v w now = initialJob (sd_discovery d) v (w\<lparr>m_blockTimestamp := 0\<rparr>) now"
proof -
  obtain h where h: "decodeCctpHeader m = Inr h"
    "decodeMessageHeader (dc_ethers (sd_discovery d)) m = Inr (h\<lparr>hd_nonce := to_lower (hd_nonce h)\<rparr>)"
    using decoders_agree [OF assms(1-3)] by blast
  show ?thesis
    using h assms(4-)
    by (intro exI [of _ "sent_row_of W e m h"])
      (simp add: sent_of_def sent_row_of_def toIndexedShape_def Let_def dedup_key_of_def
        initialJob_def newJob_def)
qed

text \<open>The row of a decodable log of the run is in the published view, and after a discovery tick that did
  not throw its key has a job: the initial job of that row when it had none before.\<close>

lemma logged_claim:
  assumes run: "for_each (index_event W) es empty_index = (Inr (), db)"
    and plain: "list_all plain_tx es"
    and one_log: "\<And>e f. e \<in> set es \<Longrightarrow> f \<in> set es \<Longrightarrow> ev_tx e = ev_tx f
      \<Longrightarrow> ev_logIndex e = ev_logIndex f \<Longrightarrow> e = f"
    and e: "e \<in> set es" "ev_args e = MessageSent m" "decodeCctpHeader m = Inr h"
    and view: "dc_view ctx (world s) = published db progress"
    and gate: "map_of (discoveryGate ctx [] (pg_watcherProgress (published db progress))) (ev_chain e) = Some g"
      "ev_block e \<le> g"
    and few: "length (due_now ctx (published db progress) (jobs s)) \<le> 100"
    and tick: "discoverWork ctx s = (Inr n, s')" and inv: "pg_invar (jobs s)"
  obtains j where "pg_get (jobs s') (dedup_key_of (ev_tx e) (ev_logIndex e)) = Some j"
    and "pg_get (jobs s) (dedup_key_of (ev_tx e) (ev_logIndex e)) = None \<Longrightarrow>
      \<exists>v w. initialJob ctx v (sent_row_of W e m h) (fst (dc_now ctx w)) = Inr j"
proof -
  let ?w = "sent_row_of W e m h" and ?v = "published db progress"
  have tables: "set (sent_rows ?v) = (\<Union>e \<in> set es. set (sent_of W e))"
      "distinct (map m_id (sent_rows ?v))"
    unfolding published_def watcher_view.simps using indexed_tables [OF run plain] one_log by blast+
  have w: "?w \<in> set (sent_rows ?v)"
    unfolding tables using e by (intro UN_I [OF e(1)]) (simp add: sent_of_def)
  have wf: "m_id ?w = dedup_key_of (ev_tx e) (ev_logIndex e)" "m_chainId ?w = ev_chain e"
      "m_blockNumber ?w = ev_block e"
    by (simp_all add: sent_row_of_def)
  have "due_now ctx ?v (jobs s') = []"
    using discovery_drains [OF tick inv] tables(2) few unfolding view by auto
  then have "pg_get (jobs s') (m_id ?w) \<noteq> None"
    using w wf gate due_now_iff [of ?w ctx ?v "jobs s'"] by simp
  then obtain j where j: "pg_get (jobs s') (m_id ?w) = Some j" by blast
  have "\<exists>v w. initialJob ctx v ?w (fst (dc_now ctx w)) = Inr j" if none: "pg_get (jobs s) (m_id ?w) = None"
  proof -
    have "pg_get (jobs (snd (discoverWork ctx s))) (m_id ?w) = Some j" using j tick by simp
    from discovered_job [OF inv none this] obtain x v w where x: "x \<in> set (sent_rows ?v)" "m_id x = m_id ?w"
        and job: "initialJob ctx v x (fst (dc_now ctx w)) = Inr j" unfolding view by blast
    have "x = ?w" using x w tables(2) by (simp add: distinct_map inj_on_def)
    with job show ?thesis by blast
  qed
  with j show thesis unfolding wf by (rule that)
qed

text \<open>From log to job. When the watcher has indexed a run of logs, the actor reads the tables it
  published, the block of a decodable \<open>MessageSent\<close> log of the run is within the discovery gate of
  its chain, and no more than 100 messages are due, then after one discovery tick that did not
  throw the job table holds a job under the log's key; a job the tick created carries the bytes
  of the log.\<close>

theorem logged_message_becomes_job:
  assumes run: "for_each (index_event W) es empty_index = (Inr (), db)"
    and plain: "list_all plain_tx es"
    and one_log: "\<And>e f. e \<in> set es \<Longrightarrow> f \<in> set es \<Longrightarrow> ev_tx e = ev_tx f
      \<Longrightarrow> ev_logIndex e = ev_logIndex f \<Longrightarrow> e = f"
    and e: "e \<in> set es" "ev_args e = MessageSent m" "decodeCctpHeader m = Inr h"
    and view: "dc_view ctx (world s) = published db progress"
    and gate: "map_of (discoveryGate ctx [] (pg_watcherProgress (published db progress))) (ev_chain e) = Some g"
      "ev_block e \<le> g"
    and few: "length (due_now ctx (published db progress) (jobs s)) \<le> 100"
    and tick: "discoverWork ctx s = (Inr n, s')" and inv: "pg_invar (jobs s)"
  shows "\<exists>j. pg_get (jobs s') (dedup_key_of (ev_tx e) (ev_logIndex e)) = Some j
    \<and> (pg_get (jobs s) (dedup_key_of (ev_tx e) (ev_logIndex e)) = None \<longrightarrow> messageBytes j = m)"
  by (rule logged_claim [OF assms]) (auto dest!: initialJob_fields simp: sent_row_of_def)

text \<open>C2: From log to delivery. In any run of the job loop, let the actor read the tables of a run of the
  watcher that holds a decodable \<open>MessageSent\<close> log, its block within the discovery gate of its chain
  and its key not yet claimed. If the classifier relays the message, open jobs and due messages
  are together at most eight, discovery does not throw, no query of the machine throws, the
  attestation of the message is complete and its destination accepts and confirms the delivery,
  then one job tick returns and leaves a job under the key of the log with its bytes: delivered, or
  recognised as delivered already, which takes a nonce that is not the zero placeholder.\<close>

theorem logged_message_is_delivered:
  assumes run: "for_each (index_event W) es empty_index = (Inr (), db)"
    and plain: "list_all plain_tx es"
    and one_log: "\<And>e f. e \<in> set es \<Longrightarrow> f \<in> set es \<Longrightarrow> ev_tx e = ev_tx f
      \<Longrightarrow> ev_logIndex e = ev_logIndex f \<Longrightarrow> e = f"
    and e: "e \<in> set es" "ev_args e = MessageSent m" "decodeCctpHeader m = Inr h"
    and loop: "loop_run d sd L" "0 < sd_chunkSize sd"
    and state: "s = actor (scanner_loop L)" "ctx = sd_discovery sd"
    and view: "dc_view ctx (world s) = published db progress"
    and gate: "map_of (discoveryGate ctx [] (pg_watcherProgress (published db progress))) (ev_chain e) = Some g"
      "ev_block e \<le> g"
    and new: "pg_get (jobs s) (dedup_key_of (ev_tx e) (ev_logIndex e)) = None"
    and relays: "classifyMessageForRelay (dc_ethers ctx) m (knownRecipients ctx)
      (hook_for ctx (sent_row_of W e m h)) = Inr (Relay r)"
    and few: "open_count s + length (due_now ctx (published db progress) (jobs s)) \<le> 8"
    and tick: "discoverWork ctx s = (Inr n, s')"
    and quiet: "quiet d"
    and serves: "\<And>j. messageBytes j = m \<Longrightarrow> sourceDomain j = hd_sourceDomain h
      \<Longrightarrow> destinationDomain j = hd_destinationDomain h \<Longrightarrow> serves d j"
    and young: "\<And>u w. fst (now_dep d u) - fst (dc_now ctx w) \<le> maxAttestationAgeMs d"
  shows "\<exists>L' j. jobTick d sd L = Some L'
    \<and> pg_get (jobs (actor (scanner_loop L'))) (dedup_key_of (ev_tx e) (ev_logIndex e)) = Some j
    \<and> messageBytes j = m \<and> (state j = Delivered \<or> state j = AlreadyDelivered \<and> nonce j \<noteq> ZERO_NONCE)"
proof -
  let ?k = "dedup_key_of (ev_tx e) (ev_logIndex e)" and ?w = "sent_row_of W e m h"
  have inv: "pg_invar (jobs s)"
    using loop_run_ok [OF loop(1)] run_invar unfolding state by blast
  have "length (due_now ctx (published db progress) (jobs s)) \<le> 100" using few by simp
  note claim = logged_claim [OF run plain _ e view gate this tick inv]
  obtain j where j: "pg_get (jobs s') ?k = Some j"
      and "\<exists>v w. initialJob ctx v ?w (fst (dc_now ctx w)) = Inr j"
    by (rule claim) (use new one_log in blast)+
  then obtain v w where init: "initialJob ctx v ?w (fst (dc_now ctx w)) = Inr j" by blast
  have fields: "messageBytes j = m" "sourceDomain j = hd_sourceDomain h"
      "destinationDomain j = hd_destinationDomain h" "detectedAt j = fst (dc_now ctx w)" "nextRetryAt j = None"
    using initialJob_fields [OF init] by (simp_all add: sent_row_of_def)
  have inv': "pg_invar (jobs s')" using discovery_extends(2) [OF inv, of ctx] tick by simp
  have settled: "\<exists>j'. pg_get (jobs (snd (tick d s'))) ?k = Some j'
      \<and> (state j' = Delivered \<or> state j' = AlreadyDelivered \<and> nonce j' \<noteq> ZERO_NONCE)"
  proof (cases "state j = Detected")
    case True
    have "open_count s' \<le> 8"
      using discovery_open_count [OF inv, of ctx] few tick by (simp add: view)
    moreover have "ready j" using True fields(5) by (simp add: ready_def)
    ultimately show ?thesis
      using tick_delivers [OF inv' j _ _ quiet serves [OF fields(1-3)]] young fields(4) by fastforce
  next
    case False
    have "relayable ctx ?w" using relays by (auto simp: relayable_def sent_row_of_def)
    with init False have "state j = AlreadyDelivered \<and> nonce j \<noteq> ZERO_NONCE" using initialJob_relayed by blast
    moreover from this have "pg_get (jobs (snd (tick d s'))) ?k = Some j"
      using terminal_jobs_are_final [OF inv' j] by (simp add: terminal_def)
    ultimately show ?thesis by blast
  qed
  then obtain j' where j': "pg_get (jobs (snd (tick d s'))) ?k = Some j'"
      "state j' = Delivered \<or> state j' = AlreadyDelivered \<and> nonce j' \<noteq> ZERO_NONCE" by blast
  have "rel_option (job_step d)\<^sup>*\<^sup>* (pg_get (jobs s') ?k) (pg_get (jobs (snd (tick d s'))) ?k)"
    using tick_evolves [OF inv', of d] by (simp add: evolves_def)
  then have "(job_step d)\<^sup>*\<^sup>* j j'" using j j'(1) by simp
  then have "same_identity j j'" using step_identity by (rule identity_steps)
  then have "messageBytes j' = m" using fields(1) by (simp add: same_identity_def)
  moreover have "\<exists>L'. jobTick d sd L = Some L' \<and> pg_get (jobs (actor (scanner_loop L'))) ?k = Some j'"
    using job_tick_keeps [OF loop] tick j'(1) unfolding state by blast
  ultimately show ?thesis using j'(2) by blast
qed

definition demo_chain_log :: chain_log where
  "demo_chain_log = \<lparr>lg_topics = [''0xaa''], lg_data = ''0x'', lg_transactionHash = ''0xt'',
     lg_index = 2, lg_blockNumber = 100\<rparr>"

definition demo_log_scanner :: "watcher_view scanner_deps" where
  "demo_log_scanner = demo_scanner\<lparr>sd_discovery := demo_ctx, sd_parseMessageSent := (\<lambda>l. Inr demo_message)\<rparr>"

definition demo_log_env :: watcher_env where
  "demo_log_env = demo_env\<lparr>viem_keccak256 := (\<lambda>m. ''hash:'' @ m)\<rparr>"

theorem both_paths_build_one_job_witness:
  "\<exists>w. sent_of demo_log_env (demo_event 2 (MessageSent demo_message)) = [w]
    \<and> initialJob demo_ctx demo_view w 5
        = initialJob demo_ctx demo_view (w\<lparr>m_blockTimestamp := 0\<rparr>) 5"
proof -
  have "keccak256 ref_ethers demo_message = Inr (viem_keccak256 demo_log_env demo_message)"
    using demo_message_hex(1) by (simp add: ref_ethers_def demo_log_env_def)
  moreover have "ethers_ok (dc_ethers (sd_discovery demo_log_scanner))"
      "sd_discovery demo_log_scanner = demo_ctx" "dc_ethers demo_ctx = ref_ethers"
    by (simp_all add: ref_ethers_ok demo_log_scanner_def demo_ctx_def)
  ultimately show ?thesis
    using both_paths_build_one_job [of demo_log_scanner demo_message demo_log_env
        "demo_event 2 (MessageSent demo_message)" demo_chain_log "FallbackScanner.demo_chain\<lparr>sc_chainId := 1\<rparr>" demo_view 5]
      demo_message_hex
    by (auto simp: demo_event_def demo_chain_log_def demo_log_scanner_def)
qed

definition log_progress :: "ponder_row list option" where
  "log_progress = Some [\<lparr>ck_chain_id = Some 1,
     ck_latest = Some (pad_dec 10 1700000000 @ pad_dec 16 1 @ pad_dec 16 152 @ pad_dec 33 0)\<rparr>]"

lemma log_gate: "discoveryGate demo_ctx [] (pg_watcherProgress (published db log_progress)) = [(1, 140)]"
proof -
  have "decodePonderCheckpoint (pad_dec 10 1700000000 @ pad_dec 16 1 @ pad_dec 16 152 @ pad_dec 33 0)
      = Some \<lparr>c_blockTimestamp = 1700000000, c_chainId = 1, c_blockNumber = 152\<rparr>"
    using decode_padded [of 1700000000 1 152 "pad_dec 33 0"] by (simp add: digits_pad_dec)
  then show ?thesis
    by (simp add: pg_watcherProgress_def published_def log_progress_def demo_ctx_def)
qed

text \<open>The example log, and what the actor finds after the example run of the handlers.\<close>

abbreviation sent_log :: index_log where
  "sent_log \<equiv> demo_event 2 (MessageSent demo_message)"

lemma sent_log_facts:
  "sent_log \<in> set demo_events" "list_all plain_tx demo_events" "ev_args sent_log = MessageSent demo_message"
  "ev_tx sent_log = ''0xt''" "ev_logIndex sent_log = 2" "ev_chain sent_log = 1" "ev_block sent_log = 100"
  by (simp_all add: demo_events_def demo_event_def plain_tx_def)

lemma demo_ctx_view: "dc_view demo_ctx w = w"
  by (simp add: demo_ctx_def)

lemma demo_one_log: "e \<in> set demo_events \<Longrightarrow> f \<in> set demo_events \<Longrightarrow> ev_tx e = ev_tx f
    \<Longrightarrow> ev_logIndex e = ev_logIndex f \<Longrightarrow> e = f"
  by (auto simp: demo_events_def demo_event_def)

lemma sent_log_key: "dedup_key_of (ev_tx sent_log) (ev_logIndex sent_log) = ''0xt:2''"
proof -
  have "dedup_key_of ''0xt'' 2 = ''0xt:2''" by code_simp
  then show ?thesis by (simp add: sent_log_facts)
qed

lemma demo_discovers:
  assumes db: "for_each (index_event demo_env) demo_events empty_index = (Inr (), db)"
    and "jobs s = []" and world: "world s = published db log_progress"
  shows "length (due_now demo_ctx (published db log_progress) (jobs s)) \<le> 1"
    and "\<exists>n s'. discoverWork demo_ctx s = (Inr n, s')"
proof -
  obtain h where h: "decodeCctpHeader demo_message = Inr h"
    using demo_decoded by blast
  have sent: "sent_rows (published db log_progress) = [sent_row_of demo_env sent_log demo_message h]"
    using run_parts [OF db] h
    by (simp add: published_def demo_events_def sent_of_def demo_event_def empty_index_def insert_new_def)
  show "length (due_now demo_ctx (published db log_progress) (jobs s)) \<le> 1"
    unfolding due_now_def sent by simp
  show "\<exists>n s'. discoverWork demo_ctx s = (Inr n, s')"
    unfolding discoverWork_eq
  proof (rule claim_loop_total, intro ballI allI initialJob_total)
    fix m assume "m \<in> set (take DISCOVERY_BATCH_LIMIT (sort_key m_blockNumber
        (due_now demo_ctx (dc_view demo_ctx (world s)) (jobs s))))"
    then have "m \<in> set (sent_rows (published db log_progress))"
      by (auto simp: due_now_iff demo_ctx_def world dest!: in_set_take_sort)
    then show "m_messageHash m \<noteq> []" unfolding sent by (simp add: sent_row_of_def demo_env_def)
  qed (simp add: hook_for_def demo_ctx_def)
qed

theorem logged_message_becomes_job_witness:
  "\<exists>db s' j. for_each (index_event demo_env) demo_events empty_index = (Inr (), db)
    \<and> snd (discoverWork demo_ctx \<lparr>jobs = [], world = published db log_progress, transitions = []\<rparr>) = s'
    \<and> pg_get (jobs s') ''0xt:2'' = Some j \<and> messageBytes j = demo_message"
proof -
  obtain db where db: "for_each (index_event demo_env) demo_events empty_index = (Inr (), db)"
    using demo_run by blast
  obtain h where h: "decodeCctpHeader demo_message = Inr h"
    using demo_decoded by blast
  let ?s = "\<lparr>jobs = [], world = published db log_progress, transitions = []\<rparr>"
  have few: "length (due_now demo_ctx (published db log_progress) (jobs ?s)) \<le> 100"
    using demo_discovers(1) [OF db, of ?s] by simp
  obtain n s' where tick: "discoverWork demo_ctx ?s = (Inr n, s')"
    using demo_discovers(2) [OF db, of ?s] by auto
  have args: "dc_view demo_ctx (world ?s) = published db log_progress" "pg_invar (jobs ?s)"
      "ev_block sent_log \<le> 140"
      "map_of (discoveryGate demo_ctx [] (pg_watcherProgress (published db log_progress))) (ev_chain sent_log)
        = Some 140"
    by (simp_all add: demo_ctx_view pg_invar_def log_gate sent_log_facts)
  note * = logged_message_becomes_job [OF db sent_log_facts(2) _ sent_log_facts(1,3) h args(1,4,3) few tick args(2)]
  have "\<exists>j. pg_get (jobs s') ''0xt:2'' = Some j \<and> messageBytes j = demo_message"
    using * demo_one_log unfolding sent_log_key by auto
  then show ?thesis using db tick by simp
qed

lemma example_served: "messageBytes j = demo_message \<Longrightarrow> serves (demo_deps Iris) j"
  using demo_fetch [of "query_of j"] by (simp add: serves_def demo_deps_def query_of_def)

theorem logged_message_is_delivered_witness:
  "\<exists>db L' j. for_each (index_event demo_env) demo_events empty_index = (Inr (), db)
    \<and> jobTick (demo_deps Iris) demo_log_scanner \<lparr>jobTickRunning = False, scanner_loop = gap_state\<lparr>actor :=
        \<lparr>jobs = [], world = published db log_progress, transitions = []\<rparr>\<rparr>\<rparr> = Some L'
    \<and> pg_get (jobs (actor (scanner_loop L'))) ''0xt:2'' = Some j \<and> messageBytes j = demo_message
    \<and> (state j = Delivered \<or> state j = AlreadyDelivered \<and> nonce j \<noteq> ZERO_NONCE)"
proof -
  obtain db where db: "for_each (index_event demo_env) demo_events empty_index = (Inr (), db)"
    using demo_run by blast
  obtain h where h: "decodeCctpHeader demo_message = Inr h"
    using demo_decoded by blast
  let ?s = "\<lparr>jobs = [], world = published db log_progress, transitions = []\<rparr>"
  let ?L = "\<lparr>jobTickRunning = False, scanner_loop = gap_state\<lparr>actor := ?s\<rparr>\<rparr>"
  have ctx: "demo_ctx = sd_discovery demo_log_scanner" "0 < sd_chunkSize demo_log_scanner"
    by (simp_all add: demo_log_scanner_def demo_scanner_def)
  have s: "?s = actor (scanner_loop ?L)" by simp
  have "loop_run (demo_deps Iris) demo_log_scanner ?L" by (rule loop_run.boot) simp
  note loop = this ctx(2)
  have few: "open_count ?s + length (due_now demo_ctx (published db log_progress) (jobs ?s)) \<le> 8"
    using demo_discovers(1) [OF db, of ?s] by (simp add: open_count_def open_keys_def)
  obtain n s' where tick: "discoverWork demo_ctx ?s = (Inr n, s')"
    using demo_discovers(2) [OF db, of ?s] by auto
  have args: "dc_view demo_ctx (world ?s) = published db log_progress"
      "map_of (discoveryGate demo_ctx [] (pg_watcherProgress (published db log_progress))) (ev_chain sent_log)
        = Some 140" "ev_block sent_log \<le> 140"
      "pg_get (jobs ?s) (dedup_key_of (ev_tx sent_log) (ev_logIndex sent_log)) = None"
    by (simp_all add: demo_ctx_view log_gate sent_log_facts)
  have relays: "classifyMessageForRelay (dc_ethers demo_ctx) demo_message (knownRecipients demo_ctx)
      (hook_for demo_ctx (sent_row_of demo_env sent_log demo_message h)) = Inr (Relay (''0x'' @ demo_recipient))"
    using demo_classified by (simp add: demo_ctx_def hook_for_def)
  have quiet: "quiet (demo_deps Iris)"
    using demo_response_answers by (simp add: quiet_def demo_deps_def)
  have young: "fst (now_dep (demo_deps Iris) u) - fst (dc_now demo_ctx w) \<le> maxAttestationAgeMs (demo_deps Iris)" for u w
    by (simp add: demo_deps_def demo_ctx_def)
  note * = logged_message_is_delivered [OF db sent_log_facts(2) _ sent_log_facts(1,3) h loop s ctx(1) args
      relays few tick quiet _ young]
  have "\<exists>L' j. jobTick (demo_deps Iris) demo_log_scanner ?L = Some L'
      \<and> pg_get (jobs (actor (scanner_loop L'))) ''0xt:2'' = Some j
      \<and> messageBytes j = demo_message
      \<and> (state j = Delivered \<or> state j = AlreadyDelivered \<and> nonce j \<noteq> ZERO_NONCE)"
    unfolding sent_log_key [symmetric] by (rule *) (simp_all add: demo_one_log example_served)
  then show ?thesis using db by blast
qed

section \<open>From the watcher to its readers\<close>

text \<open>What the tables hold of one log, as the pages give it back.\<close>

definition log_item_of :: "index_log \<Rightarrow> raw_item" where
  "log_item_of e = \<lparr>ri_blockNumber = number_of_bigint (ev_block e), ri_txHash = ev_tx e,
     ri_logIndex = ev_logIndex e, ri_address = Some (to_lower (ev_address e)), ri_data = ev_data e,
     ri_topics = ev_topics e\<rparr>"

definition raw_log_row_of :: "index_log \<Rightarrow> raw_log_row" where
  "raw_log_row_of e = \<lparr>rl_blockNumber = ev_block e, rl_txHash = ev_tx e, rl_logIndex = ev_logIndex e,
     rl_data = ev_data e, rl_topics = ev_topics e\<rparr>"

lemma item_of_row: "log_item (raw_row_of e) = Inr (log_item_of e)"
  by (simp add: log_item_def raw_row_of_def topics_of_def topics_read_back log_item_of_def)

lemma raw_log_of_row: "raw_log_of (raw_row_of e) = Inr (raw_log_row_of e)"
  by (simp add: raw_log_of_def raw_row_of_def topics_of_def topics_read_back raw_log_row_of_def)

lemma map_checked_rows:
  assumes "\<And>e. f (g e) = Inr (h e)" and "set rows \<subseteq> g ` E"
  shows "\<exists>es. set es \<subseteq> E \<and> map g es = rows \<and> map_checked f rows = Inr (map h es)"
  using assms(2)
proof (induction rows)
  case (Cons r rows)
  then obtain e es where "e \<in> E" "r = g e" "set es \<subseteq> E" "map g es = rows" "map_checked f rows = Inr (map h es)"
    by auto
  then show ?case by (intro exI [of _ "e # es"]) (simp add: assms(1))
qed simp

lemma query_number: "0 \<le> n \<Longrightarrow> digits (show_int n) \<and> int (parse_dec (show_int n)) = n"
  using digits_show_nat by (auto simp: digits_def show_int_def list_all_iff)

definition block_query :: "int \<Rightarrow> string \<Rightarrow> int \<Rightarrow> query" where
  "block_query chainId address b = map_of [(''chainId'', show_int chainId), (''address'', address),
     (''fromBlock'', show_int b), (''toBlock'', show_int b)]"

lemma block_query_parsed:
  "0 \<le> b \<Longrightarrow> parseRangeParams (block_query c a b) = Inr \<lparr>p_fromBlock = b, p_toBlock = Some b, p_limit = 1000\<rparr>"
  using query_number [of b] by (simp add: parseRangeParams_def block_query_def MAX_LIMIT_def)

text \<open>C16: Every indexed log can be read back. On an environment the read API and the Ponder configuration
  are built from, with distinct chain names and ids, take any log the configuration asks Ponder for
  and any successful run of the handlers in which it was handled: \<open>/v1/logs\<close> accepts the log's chain
  and address, in whatever case the address is written, and the answer for its block holds the log
  with its transaction, data and topics as they were emitted, as long as that contract has at most
  1000 logs in the block.\<close>

theorem every_indexed_log_is_served:
  assumes run: "for_each (index_event W) es empty_index = (Inr (), db)"
    and plain: "list_all plain_tx es"
    and one_log: "\<And>e f. e \<in> set es \<Longrightarrow> f \<in> set es \<Longrightarrow> ev_tx e = ev_tx f
      \<Longrightarrow> ev_logIndex e = ev_logIndex f \<Longrightarrow> e = f"
    and boot: "api_boot env fs dir K load = Inr A" and cfg: "ponder_config env fs dir = Inr G"
    and names: "distinct (map (wc_name \<circ> rc_chain) (a_chains A))"
    and ids: "distinct (map (wc_chainId \<circ> rc_chain) (a_chains A))"
    and chain: "map_of (g_chains G) name = Some ch" and asks: "asks_for G name e" and "ev_chain e = cg_id ch"
    and e: "e \<in> set es" "has_handler W e" "ev_address e \<noteq> []"
    and nums: "0 \<le> ev_chain e" "ev_chain e < 2 ^ 53" "0 \<le> ev_block e"
    and few: "card {f \<in> set es. ev_chain f = ev_chain e \<and> to_lower (ev_address f) = to_lower (ev_address e)
      \<and> ev_block f = ev_block e} \<le> 1000"
  shows "\<exists>a items cursor through.
    logs_endpoint A progress db (block_query (ev_chain e) (ev_address e) (ev_block e)) = Inr a
    \<and> content a = RawPage items cursor through \<and> log_item_of e \<in> set items"
proof -
  let ?p = "\<lparr>p_fromBlock = ev_block e, p_toBlock = Some (ev_block e), p_limit = 1000\<rparr>"
  let ?addr = "to_lower (ev_address e)" and ?tab = "raw_event_log db"
  let ?hit = "\<lambda>r. raw_chainId r = ev_chain e \<and> raw_address r = ?addr"
  let ?rows = "select_page raw_blockNumber raw_logIndex ?p (filter ?hit ?tab)"
  let ?near = "{f \<in> set es. ev_chain f = ev_chain e \<and> to_lower (ev_address f) = ?addr \<and> ev_block f = ev_block e}"
  have tab: "set ?tab = raw_row_of ` {e \<in> set es. has_handler W e}" "distinct (map raw_id ?tab)"
    using indexed_tables [OF run plain] one_log by blast+
  have allowed: "allowed_address A (ev_chain e) (Some (ev_address e)) = Some ?addr"
      "\<exists>c \<in> set (a_chains A). wc_chainId (rc_chain c) = ev_chain e"
    using asked_address_allowed [OF boot cfg names ids chain asks e(3)] assms(10) by simp_all
  let ?hits = "filter (\<lambda>r. ev_block e \<le> raw_blockNumber r \<and> raw_blockNumber r \<le> ev_block e) (filter ?hit ?tab)"
  have sub: "set ?hits \<subseteq> raw_row_of ` ?near" by (auto simp: tab(1) raw_row_of_def)
  have "distinct ?hits" using tab(2) by (simp add: distinct_map)
  then have "length ?hits = card (set ?hits)" by (rule distinct_card [symmetric])
  also have "\<dots> \<le> card ?near" by (rule surj_card_le [OF _ sub]) simp
  finally have short: "length ?hits \<le> 1000" using few by (rule le_trans)
  have "?rows = take 1000 (log_order raw_blockNumber raw_logIndex ?hits)"
    by (simp add: select_page_def in_range_def)
  also have "\<dots> = log_order raw_blockNumber raw_logIndex ?hits"
    by (rule take_all) (simp only: log_order_def length_sort short)
  finally have rows: "set ?rows = set ?hits" by (simp only: set_log_order)
  obtain fs' where fs': "map raw_row_of fs' = ?rows" "map_checked log_item ?rows = Inr (map log_item_of fs')"
    using map_checked_rows [of log_item raw_row_of log_item_of, OF item_of_row, of ?rows ?near] sub rows by blast
  have "raw_row_of e \<in> set ?rows" unfolding rows using e by (auto simp: tab(1) raw_row_of_def)
  then obtain f where f: "f \<in> set fs'" "raw_row_of f = raw_row_of e" unfolding fs'(1) [symmetric] by auto
  then have "log_item_of f = log_item_of e" using item_of_row by (metis sum.inject(2))
  with f(1) have item: "log_item_of e \<in> set (map log_item_of fs')" unfolding set_map by (metis imageI)
  obtain c where c: "List.find (\<lambda>c. wc_chainId (rc_chain c) = ev_chain e) (a_chains A) = Some c"
    using allowed(2) by (cases "List.find (\<lambda>c. wc_chainId (rc_chain c) = ev_chain e) (a_chains A)")
      (auto simp: find_None_iff)
  obtain a cursor through where "serve_logs A progress db (ev_chain e) ?addr ?p = Inr a"
      "content a = RawPage (map log_item_of fs') cursor through"
    by (simp add: serve_logs_def Let_def fs'(2) c or_throw_def)
  moreover have "logs_endpoint A progress db (block_query (ev_chain e) (ev_address e) (ev_block e))
      = serve_logs A progress db (ev_chain e) ?addr ?p"
    unfolding logs_endpoint_def block_query_parsed [OF nums(3)]
    using query_number [OF nums(1)] nums allowed(1) by (simp add: block_query_def number_small)
  ultimately show ?thesis using item by metis
qed

text \<open>The logs a quick-sync client needs: those of the hub pool in a block window that have a handler.\<close>

definition pool_events :: "api \<Rightarrow> watcher_env \<Rightarrow> index_log list \<Rightarrow> int \<Rightarrow> int \<Rightarrow> index_log set" where
  "pool_events A W es from to = {e \<in> set es. has_handler W e \<and> ev_chain e = hub_id A
     \<and> to_lower (ev_address e) = HUB_POOL_ADDRESS A \<and> from \<le> ev_block e \<and> ev_block e \<le> to}"

lemma pool_logs_of_run:
  assumes run: "for_each (index_event W) es empty_index = (Inr (), db)"
    and plain: "list_all plain_tx es"
    and one_log: "\<And>e f. e \<in> set es \<Longrightarrow> f \<in> set es \<Longrightarrow> ev_tx e = ev_tx f
      \<Longrightarrow> ev_logIndex e = ev_logIndex f \<Longrightarrow> e = f"
  shows "\<exists>fs. set fs = pool_events A W es from to \<and> distinct fs
    \<and> sorted_wrt (log_before ev_block ev_logIndex) fs
    \<and> pool_logs A db from to = Inr (map raw_log_row_of fs)"
proof -
  let ?tab = "raw_event_log db" and ?rows = "pool_rows A db from to"
  have tab: "set ?tab = raw_row_of ` {e \<in> set es. has_handler W e}" "distinct (map raw_id ?tab)"
    using indexed_tables [OF run plain] one_log by blast+
  have rows: "set ?rows = raw_row_of ` pool_events A W es from to"
    by (auto simp: pool_rows_def tab(1) pool_events_def raw_row_of_def)
  obtain fs where fs: "set fs \<subseteq> pool_events A W es from to" "map raw_row_of fs = ?rows"
      "pool_logs A db from to = Inr (map raw_log_row_of fs)"
    using map_checked_rows [of raw_log_of raw_row_of raw_log_row_of, OF raw_log_of_row, of ?rows] rows unfolding pool_logs_def by blast
  have "distinct ?rows" using tab(2) by (simp add: pool_rows_def distinct_map)
  then have "distinct fs" unfolding fs(2) [symmetric] by (simp add: distinct_map)
  have "inj_on raw_row_of (pool_events A W es from to)"
    using one_log by (auto simp: inj_on_def pool_events_def raw_row_of_def)
  then have "set fs = pool_events A W es from to"
    using fs(1) rows unfolding fs(2) [symmetric] by (simp add: inj_on_image_eq_iff)
  moreover have "sorted_wrt (log_before raw_blockNumber raw_logIndex) (map raw_row_of fs)"
    unfolding fs(2) pool_rows_def by (rule log_order_before)
  then have "sorted_wrt (log_before ev_block ev_logIndex) fs"
    by (simp add: sorted_wrt_map log_before_def [abs_def] raw_row_of_def)
  ultimately show ?thesis using \<open>distinct fs\<close> fs(3) by blast
qed

text \<open>C13: Quick-sync hydrates a client from the log stream. After any successful run of the handlers from
  empty tables, whatever the order and the repetitions of the logs, a client that follows the
  \<open>/v1/quick-sync\<close> pages from an indexed block stops, and its pages joined are the engine's form of
  exactly the hub pool's logs from that block to the indexed head, each once, in block and log
  order, with the transaction, data and topics they were emitted with. The decoder knows the
  logs and no shield is of another token type than ERC20.\<close>

theorem quick_sync_hydrates_from_logs:
  assumes run: "for_each (index_event W) es empty_index = (Inr (), db)"
    and plain: "list_all plain_tx es"
    and one_log: "\<And>e f. e \<in> set es \<Longrightarrow> f \<in> set es \<Longrightarrow> ev_tx e = ev_tx f
      \<Longrightarrow> ev_logIndex e = ev_logIndex f \<Longrightarrow> e = f"
    and sync: "can_sync A progress cp through" "0 \<le> b" "b \<le> through"
    and codec: "decodes_pool (a_codec A)"
      "\<And>e. e \<in> pool_events A W es b through \<Longrightarrow> row_served (a_codec A) (raw_log_row_of e)"
  shows "\<exists>fs whole pages. set fs = pool_events A W es b through \<and> distinct fs
    \<and> sorted_wrt (log_before ev_block ev_logIndex) fs
    \<and> engineQuickSync True (a_codec A) (map raw_log_row_of fs) = Inr whole
    \<and> follow_pages (nat (through - b + 1))
        (\<lambda>b. fst (quick_sync_v1 A progress db cp (starting_at b) loaded)) b = Some pages
    \<and> foldr join_pages pages emptyQuickSync = whole"
proof -
  obtain fs where fs: "set fs = pool_events A W es b through" "distinct fs"
      "sorted_wrt (log_before ev_block ev_logIndex) fs"
    and logs: "pool_logs A db b through = Inr (map raw_log_row_of fs)"
    using pool_logs_of_run [OF run plain] one_log by blast
  have "list_all (row_served (a_codec A)) (map raw_log_row_of fs)"
    using codec(2) fs(1) by (simp add: list_all_iff)
  then obtain whole where whole: "engineQuickSync True (a_codec A) (map raw_log_row_of fs) = Inr whole"
    using served_rows(1) [OF codec(1)] by blast
  obtain pages where "follow_pages (nat (through - b + 1))
        (\<lambda>b. fst (quick_sync_v1 A progress db cp (starting_at b) loaded)) b = Some pages" "join_all pages = whole"
    using follow_complete [OF sync logs whole, of "nat (through - b + 1)" loaded] sync(3) by auto
  with fs whole show ?thesis unfolding join_all_def by blast
qed

section \<open>From the actor back to the watcher\<close>


section \<open>Two views of the watcher's health\<close>

text \<open>A checkpoint row as the two processes read it.\<close>

definition api_view :: "chain_progress \<Rightarrow> api_progress" where
  "api_view p = \<lparr>ap_chainId = cp_chainId p, ap_blockNumber = cp_lastIndexedBlock p,
     ap_blockTimestamp = the (cp_lastIndexedBlockTimestamp p) div 1000\<rparr>"

definition keyed_rows :: "ponder_row list \<Rightarrow> bool" where
  "keyed_rows rs \<longleftrightarrow> distinct (map ck_chain_id rs) \<and> None \<notin> set (map ck_chain_id rs)"

lemma parse_dec_less: "list_all is_digit s \<Longrightarrow> parse_dec s < 10 ^ length s"
proof (induction s rule: rev_induct)
  case (snoc c s)
  then have "parse_dec s + 1 \<le> 10 ^ length s" "(of_char c :: nat) - 48 < 10"
    by (auto simp: is_digit_def Let_def)
  then show ?case by (simp add: parse_dec_snoc)
qed (simp add: parse_dec_def)

lemma checkpoint_seconds:
  assumes "decodePonderCheckpoint s = Some d"
  shows "0 \<le> c_blockTimestamp d \<and> number_of_bigint (c_blockTimestamp d) = c_blockTimestamp d"
proof -
  have s: "list_all is_digit s" "length s = 75" "c_blockTimestamp d = int (parse_dec (js_slice 0 10 s))"
    using assms by (auto simp: decodePonderCheckpoint_def split: if_splits)
  have "list_all is_digit (take 10 s)" using s(1) by (metis append_take_drop_id list_all_append)
  from parse_dec_less [OF this] have "parse_dec (js_slice 0 10 s) < 10 ^ 10"
    using s(2) by (simp add: js_slice_def)
  then have "\<bar>int (parse_dec (js_slice 0 10 s))\<bar> < 2 ^ 53" by simp
  then show ?thesis unfolding s(3) by (simp add: number_small)
qed

lemma progress_views:
  assumes "keyed_rows rs"
  shows "api_progress_rows rs = map api_view (progress_rows rs)
    \<and> distinct (map cp_chainId (progress_rows rs))
    \<and> Some ` cp_chainId ` set (progress_rows rs) \<subseteq> set (map ck_chain_id rs)
    \<and> (\<forall>p \<in> set (progress_rows rs). \<exists>t. cp_lastIndexedBlockTimestamp p = Some (t * 1000) \<and> number_of_bigint t = t)"
  using assms
proof (induction rs)
  case (Cons r rs)
  then have IH: "api_progress_rows rs = map api_view (progress_rows rs)"
      "distinct (map cp_chainId (progress_rows rs))"
      "Some ` cp_chainId ` set (progress_rows rs) \<subseteq> set (map ck_chain_id rs)"
      "\<forall>p \<in> set (progress_rows rs). \<exists>t. cp_lastIndexedBlockTimestamp p = Some (t * 1000) \<and> number_of_bigint t = t"
    and r: "ck_chain_id r \<notin> set (map ck_chain_id rs)" "ck_chain_id r \<noteq> None"
    by (auto simp: keyed_rows_def)
  then obtain n where n: "ck_chain_id r = Some n" by blast
  have fresh: "n \<notin> cp_chainId ` set (progress_rows rs)" using IH(3) r(1) n by auto
  show ?case
  proof (cases "Option.bind (ck_latest r) decodePonderCheckpoint")
    case None
    then show ?thesis using IH n
      by (auto simp: checkpoint_decoders_agree split: option.splits bind_splits)
  next
    case (Some d)
    then obtain s where s: "ck_latest r = Some s" "decodePonderCheckpoint s = Some d"
      by (auto split: bind_splits)
    show ?thesis using IH n s fresh checkpoint_seconds [OF s(2)]
      by (auto simp: checkpoint_decoders_agree api_view_def)
  qed
qed (simp add: keyed_rows_def)

lemma find_last:
  assumes "distinct (map key ps)" and that: "\<And>p. key' (f p) = key p"
  shows "List.find (\<lambda>x. key' x = n) (map f ps) = map_option f (map_of (rev (map (\<lambda>p. (key p, p)) ps)) n)"
  using assms(1)
proof (induction ps)
  case (Cons p ps)
  have "map_of (rev (map (\<lambda>p. (key p, p)) ps)) (key p) = None"
    using Cons.prems by (force simp: map_of_eq_None_iff)
  with Cons show ?case by (auto simp: that map_add_def split: option.splits)
qed simp

lemma views_of_rows:
  assumes "case checkpoint_rows v of None \<Rightarrow> True | Some rs \<Rightarrow> keyed_rows rs"
  shows "watcherProgress (checkpoint_rows v) = map api_view (pg_watcherProgress v)"
    and "distinct (map cp_chainId (pg_watcherProgress v))"
    and "\<forall>p \<in> set (pg_watcherProgress v).
      \<exists>t. cp_lastIndexedBlockTimestamp p = Some (t * 1000) \<and> number_of_bigint t = t"
  using assms progress_views
  by (cases "checkpoint_rows v"; simp add: watcherProgress_def pg_watcherProgress_def)+

text \<open>The watcher's test for a stale chain, on its view of the rows, is the negation of the actor's test
  for a fresh one.\<close>

lemma stale_views:
  assumes "distinct (map cp_chainId ps)"
    and stamps: "\<forall>p \<in> set ps. \<exists>t. cp_lastIndexedBlockTimestamp p = Some (t * 1000) \<and> number_of_bigint t = t"
  shows "(case List.find (\<lambda>x. ap_chainId x = ct_chainId t) (map api_view ps) of
        None \<Rightarrow> True
      | Some p \<Rightarrow> now - number_of_bigint (ap_blockTimestamp p) * 1000 > 3 * ct_pollingIntervalMs t)
    \<longleftrightarrow> \<not> fresh_chain ps now t"
proof -
  have look: "List.find (\<lambda>x. ap_chainId x = ct_chainId t) (map api_view ps)
      = map_option api_view (map_of (rev (map (\<lambda>p. (cp_chainId p, p)) ps)) (ct_chainId t))"
    using assms(1) by (intro find_last) (simp_all add: api_view_def)
  show ?thesis
  proof (cases "map_of (rev (map (\<lambda>p. (cp_chainId p, p)) ps)) (ct_chainId t)")
    case None
    then show ?thesis by (simp add: look fresh_chain_def)
  next
    case (Some p)
    then have "p \<in> set ps" by (auto dest!: map_of_SomeD)
    with stamps obtain u where "cp_lastIndexedBlockTimestamp p = Some (u * 1000)" "number_of_bigint u = u" by blast
    with Some show ?thesis by (auto simp: look fresh_chain_def api_view_def)
  qed
qed

text \<open>C39: The two health endpoints agree. On an environment and documents the actor boots with, at the
  same moment and with the same checkpoint rows, one per chain, the actor's \<open>/health\<close> and the
  watcher's \<open>/v1/health\<close> answer with the same HTTP status, whatever the job counts of the one and the
  chain heads of the other, although they decode the rows, look the chain up and grade it each in
  their own way.\<close>

theorem health_endpoints_agree:
  assumes boot: "buildConfig env fs dir = Inr c" and api: "api_boot env fs dir K load = Inr A"
    and rows: "\<And>rs. checkpoint_rows v = Some rs \<Longrightarrow> keyed_rows rs"
  shows "status_code (health_endpoint A (checkpoint_rows v) heads now)
    = healthHttpStatus (rollup (chainHealth (allChains (cfg_topology c)) (pg_watcherProgress v) counts now))"
proof -
  let ?ps = "pg_watcherProgress v" and ?cs = "allChains (cfg_topology c)"
  have "case checkpoint_rows v of None \<Rightarrow> True | Some rs \<Rightarrow> keyed_rows rs"
    using rows by (cases "checkpoint_rows v") auto
  note views = views_of_rows [OF this]
  obtain source where "getTopology env fs dir = Inr (cfg_topology c)" "assertDomainPairing (cfg_topology c) = Inr ()"
    by (rule buildConfig_parts [OF boot])
  then have "sound_topology (cfg_topology c)" by (rule topology_sound)
  then have valid: "list_all valid_chain ?cs" by (simp add: sound_topology_def allChains_def)
  have chains: "map rc_chain (a_chains A) = map watcher_view_of ?cs"
    using resolved_as_booted [OF boot] api by (auto simp: api_boot_def and_then_do_ok)
  then have set: "rc_chain ` set (a_chains A) = watcher_view_of ` set ?cs" by (metis set_map)
  note stale = stale_views [OF views(2,3)]
  have poll: "\<forall>r \<in> set (a_chains A). 0 \<le> wc_pollingIntervalMs (rc_chain r)"
  proof
    fix r assume "r \<in> set (a_chains A)"
    then have "rc_chain r \<in> watcher_view_of ` set ?cs" unfolding set [symmetric] by (rule imageI)
    then obtain t where "t \<in> set ?cs" "rc_chain r = watcher_view_of t" by blast
    with valid show "0 \<le> wc_pollingIntervalMs (rc_chain r)" by (auto simp: list_all_iff valid_chain_def)
  qed
  have "status_code (health_endpoint A (checkpoint_rows v) heads now) = 503
      \<longleftrightarrow> (\<exists>w \<in> rc_chain ` set (a_chains A).
        case List.find (\<lambda>x. ap_chainId x = wc_chainId w) (map api_view ?ps) of
          None \<Rightarrow> True
        | Some p \<Rightarrow> now - number_of_bigint (ap_blockTimestamp p) * 1000 > 3 * wc_pollingIntervalMs w)"
    unfolding watcher_health_fails_iff_stale [OF poll, of "checkpoint_rows v" heads now] views(1) bex_simps(7) ..
  also have "\<dots> \<longleftrightarrow> \<not> list_all (fresh_chain ?ps now) ?cs"
    unfolding set bex_simps(7) watcher_view_of_simps stale list_all_iff by blast
  finally have "status_code (health_endpoint A (checkpoint_rows v) heads now)
      = (if list_all (fresh_chain ?ps now) ?cs then 200 else 503)"
    using health_answers [of A "checkpoint_rows v" heads now] by auto
  also have "\<dots> = healthHttpStatus (rollup (chainHealth ?cs ?ps counts now))"
    unfolding all_fresh [OF valid, of ?ps counts now, symmetric] by (simp add: healthHttpStatus_def)
  finally show ?thesis .
qed

section \<open>Witnesses of the round trips\<close>

text \<open>The watcher on the environment and the documents of the demonstration deployment.\<close>

definition served_log :: index_log where
  "served_log = (demo_event 2 (MessageSent demo_message))\<lparr>ev_chain := 31337, ev_address := demo_address\<rparr>"

definition received_log :: index_log where
  "received_log = (demo_event 3 (MessageReceived 101 ''0x'' ''0xrelayer''))\<lparr>ev_chain := 31337,
     ev_address := demo_address\<rparr>"

definition pool_log :: index_log where
  "pool_log = demo_event 2 (Nullified 0 [''0x01''])"

lemma demo_resolved:
  "\<exists>us vs. resolveChains Config.demo_env demo_files ''d'' = Inr
     [\<lparr>rc_chain = watcher_view_of (Config.demo_chain ''hub'' Hub 31337 100), rc_rpcUrls = us,
       rc_manifest = demo_manifest ''privacyPool'' 31337 100\<rparr>,
      \<lparr>rc_chain = watcher_view_of (Config.demo_chain ''client'' Client 31338 101), rc_rpcUrls = vs,
       rc_manifest = demo_manifest ''privacyPoolClient'' 31338 101\<rparr>]"
proof -
  obtain rs where rs: "resolveChains Config.demo_env demo_files ''d'' = Inr rs"
      "map rc_chain rs = map watcher_view_of (allChains demo_topology)"
      "map rc_manifest rs = map cd_manifest (cfg_deployments demo_config)"
    using resolved_as_booted [OF demo_built] by (auto simp: demo_config_def)
  then obtain r s where "rs = [r, s]"
    by (auto simp: allChains_def demo_topology_def map_eq_Cons_conv)
  with rs show ?thesis
    by (cases r; cases s) (auto simp: allChains_def demo_topology_def demo_config_def demo_deployment_def)
qed

lemma demo_env_unset:
  "Config.demo_env ''QUICK_SYNC_MAX_BLOCK_WINDOW'' = None" "Config.demo_env ''WATCHER_MODE'' = None"
  "Config.demo_env (''MAX_RPS_'' @ s) = None" "Config.demo_env (''POLLING_INTERVAL_'' @ s) = None"
  "Config.demo_env (''CCTP_START_BLOCK_'' @ s) = None"
  by (simp_all add: Config.demo_env_def)

lemmas demo_evals = demo_env_unset [unfolded append_Cons append_Nil] env_val_def get_prop_def opt_prop_def
  watcherMode_def manifest_contract_def or_throw_def

lemma demo_api_boot:
  "\<exists>A. api_boot Config.demo_env demo_files ''d'' demo_codec (Inr ()) = Inr A
    \<and> map (wc_name \<circ> rc_chain) (a_chains A) = [''hub'', ''client'']
    \<and> map (wc_chainId \<circ> rc_chain) (a_chains A) = [31337, 31338]"
  using demo_resolved
  apply (elim exE)
  apply (simp add: api_boot_def QUICK_SYNC_MAX_BLOCK_WINDOW_def chain_addresses_def object_entries_def
      to_lower_json_def demo_evals)
  apply (simp add: demo_manifest_def Config.demo_chain_def object_entries_def to_lower_json_def demo_address_ok)
  done

lemma demo_ponder:
  "\<exists>G ch. ponder_config Config.demo_env demo_files ''d'' = Inr G
    \<and> map_of (g_chains G) ''hub'' = Some ch \<and> cg_id ch = 31337 \<and> asks_for G ''hub'' served_log"
  using demo_resolved
  apply (elim exE)
  apply (simp add: ponder_config_def chain_entry_def pool_entry_def transmitter_entry_def deploy_block_def
      chainMaxRequestsPerSecond_def messageTransmitterChain_def hookRouterAddress_def cctpStartBlock_def demo_evals)
  apply (simp add: demo_manifest_def Config.demo_chain_def from_entries_def asks_for_def transmitter_asks_def
      served_log_def demo_event_def same_address_def as_string_def address_test_def demo_evals)
  done

lemma served_run: "\<exists>db. for_each (index_event Indexing.demo_env) [served_log] empty_index = (Inr (), db)"
proof -
  obtain h where h: "decodeCctpHeader demo_message = Inr h" "fits_int4 (hd_sourceDomain h)"
    "fits_int4 (hd_destinationDomain h)"
    using demo_decoded by blast
  have small: "fits_int4 31337" "fits_int4 2" by (simp_all add: fits_int4_def int4_max_def)
  show ?thesis
    by (simp add: served_log_def demo_event_def index_event_def on_MessageSent_def followed_by_def
        recordRawLog_def insert_row_def raw_row_of_def sent_row_of_def h small)
qed

theorem every_indexed_log_is_served_witness:
  "\<exists>A db a items cursor through.
    api_boot Config.demo_env demo_files ''d'' demo_codec (Inr ()) = Inr A
    \<and> for_each (index_event Indexing.demo_env) [served_log] empty_index = (Inr (), db)
    \<and> logs_endpoint A None db (block_query 31337 demo_address 100) = Inr a
    \<and> content a = RawPage items cursor through \<and> log_item_of served_log \<in> set items"
proof -
  obtain A where A: "api_boot Config.demo_env demo_files ''d'' demo_codec (Inr ()) = Inr A"
      "map (wc_name \<circ> rc_chain) (a_chains A) = [''hub'', ''client'']"
      "map (wc_chainId \<circ> rc_chain) (a_chains A) = [31337, 31338]"
    using demo_api_boot by (elim exE conjE) (rule that)
  obtain G ch where G: "ponder_config Config.demo_env demo_files ''d'' = Inr G"
      "map_of (g_chains G) ''hub'' = Some ch" "cg_id ch = 31337" "asks_for G ''hub'' served_log"
    using demo_ponder by (elim exE conjE) (rule that)
  obtain db where db: "for_each (index_event Indexing.demo_env) [served_log] empty_index = (Inr (), db)"
    using served_run by blast
  have log: "ev_chain served_log = 31337" "ev_address served_log = demo_address" "ev_block served_log = 100"
      "ev_args served_log = MessageSent demo_message" "plain_tx served_log"
    by (simp_all add: served_log_def demo_event_def plain_tx_def)
  have handled: "has_handler Indexing.demo_env served_log"
    using demo_decoded by (auto simp: has_handler_def log)
  have one: "card {f \<in> set [served_log]. P f} \<le> 1000" for P
    by (rule order.trans [OF card_mono [of "{served_log}"]]) auto
  have "\<exists>a items cursor through. logs_endpoint A None db (block_query (ev_chain served_log)
        (ev_address served_log) (ev_block served_log)) = Inr a
      \<and> content a = RawPage items cursor through \<and> log_item_of served_log \<in> set items"
    by (rule every_indexed_log_is_served [OF db _ _ A(1) G(1) _ _ G(2,4) _ _ handled _ _ _ _ one])
      (simp_all add: A(2,3) G(3) log demo_address_ok)
  then show ?thesis using A(1) db by (auto simp: log)
qed


theorem quick_sync_hydrates_from_logs_witness:
  "\<exists>db whole pages. for_each (index_event Indexing.demo_env) [pool_log, pool_log] empty_index = (Inr (), db)
    \<and> engineQuickSync True demo_codec [raw_log_row_of pool_log] = Inr whole
    \<and> follow_pages 4 (\<lambda>b. fst (quick_sync_v1 demo_api Api.demo_progress db (show_int 1) (starting_at b) False)) 100
        = Some pages
    \<and> foldr join_pages pages emptyQuickSync = whole"
proof -
  have small: "number_of_bigint 0 = 0" "fits_int4 0" "fits_int4 1" "fits_int4 2"
    by (simp_all add: number_of_bigint_def fits_int4_def int4_max_def)
  obtain db where db: "for_each (index_event Indexing.demo_env) [pool_log, pool_log] empty_index = (Inr (), db)"
    by (simp add: pool_log_def demo_event_def Indexing.demo_env_def index_event_def when_pool_def
        on_Nullified_def followed_by_def recordRawLog_def insert_row_def raw_row_of_def nullifier_row_of_def small)
  have lower: "to_lower ''0xPool'' = ''0xpool''" by (simp add: to_lower_def lower_char_def char_of_eq_iff)
  have events: "pool_events demo_api Indexing.demo_env [pool_log, pool_log] 100 103 = {pool_log}"
    by (auto simp: pool_events_def has_handler_def pool_log_def demo_event_def Indexing.demo_env_def demo_ids lower)
      (simp_all add: demo_api_def)
  have served: "row_served (a_codec demo_api) (raw_log_row_of pool_log)"
    by (simp add: row_served_def demo_api_def demo_codec_def raw_log_row_of_def pool_log_def demo_event_def
        demo_pool_event_def)
  have codec: "decodes_pool (a_codec demo_api)" using demo_codec_ok by (simp add: demo_api_def)
  obtain fs whole pages where fs: "set fs = {pool_log}" "distinct fs"
      "engineQuickSync True (a_codec demo_api) (map raw_log_row_of fs) = Inr whole"
      "follow_pages (nat (103 - 100 + 1))
        (\<lambda>b. fst (quick_sync_v1 demo_api Api.demo_progress db (show_int 1) (starting_at b) False)) 100 = Some pages"
      "foldr join_pages pages emptyQuickSync = whole"
    using quick_sync_hydrates_from_logs [OF db _ _ demo_can_sync _ _ codec, of 100 False] served
    by (auto simp: events) (auto simp: pool_log_def demo_event_def plain_tx_def)
  then have "fs = [pool_log]" by (cases fs) (auto simp: subset_singleton_iff)
  with fs db show ?thesis by (auto simp: demo_api_def)
qed

theorem health_endpoints_agree_witness:
  "\<exists>A. api_boot Config.demo_env demo_files ''d'' demo_codec (Inr ()) = Inr A
    \<and> status_code (health_endpoint A None (\<lambda>n. None) 5)
      = healthHttpStatus (rollup (chainHealth (allChains demo_topology) [] [] 5))"
proof -
  obtain A where A: "api_boot Config.demo_env demo_files ''d'' demo_codec (Inr ()) = Inr A"
    using demo_api_boot by (elim exE conjE) (rule that)
  have "status_code (health_endpoint A (checkpoint_rows (published empty_index None)) (\<lambda>n. None) 5)
      = healthHttpStatus (rollup (chainHealth (allChains (cfg_topology demo_config))
          (pg_watcherProgress (published empty_index None)) [] 5))"
    by (rule health_endpoints_agree [OF demo_built A]) (simp add: published_def)
  with A show ?thesis by (simp add: published_def pg_watcherProgress_def demo_config_def)
qed

end
